(* ===== verification/Prelude.thy ===== *)
theory Prelude
  imports Main "HOL-Library.Word" "HOL-Library.Signed_Division"
begin

text \<open>
  Shared ground of the development: the machine types of the Go sources, byte strings, the
  little-endian stores, NUL-padded fixed-width fields, the array loops several components use, and
  the collections of rewrite rules the component proofs are written with.

  Conventions. A Go \<^verbatim>\<open>uint8\<close>/\<^verbatim>\<open>uint16\<close>/\<^verbatim>\<open>uint32\<close>/\<^verbatim>\<open>uint64\<close> is a word of its width, so
  that arithmetic wraps as in Go. A Go \<^verbatim>\<open>int\<close> that may be negative is an \<^typ>\<open>int\<close>; lengths and
  counters that start at zero and only move by guarded steps are \<^typ>\<open>nat\<close>. A Go string is a HOL
  string: both are sequences of bytes, and \<open>byte_of\<close>/\<open>char_of_byte\<close> translate between the two
  views. A fixed array is a list whose length is fixed by the well-formedness predicate of its
  owner; a slice is a list.
\<close>

unbundle bit_operations_syntax

named_theorems frame_simps \<open>what an operation leaves unchanged\<close>
named_theorems wf_intros \<open>operations preserve well-formedness\<close>

type_synonym u8 = "8 word"
type_synonym u16 = "16 word"
type_synonym u32 = "32 word"
type_synonym u64 = "64 word"
type_synonym bytes = "u8 list"

subsection \<open>Strings and bytes\<close>

definition byte_of :: "char \<Rightarrow> u8" where
  "byte_of c = of_nat (of_char c)"

definition char_of_byte :: "u8 \<Rightarrow> char" where
  "char_of_byte b = char_of (unat b)"

definition bytes_of :: "string \<Rightarrow> bytes" where
  "bytes_of s = map byte_of s"

definition string_of :: "bytes \<Rightarrow> string" where
  "string_of b = map char_of_byte b"

text \<open>The decimal digits of a number, as every formatter of the sources writes them.\<close>

fun dec_nat :: "nat \<Rightarrow> string" where
  "dec_nat n =
     (if n < 10 then [char_of (48 + n)] else dec_nat (n div 10) @ [char_of (48 + n mod 10)])"

declare dec_nat.simps [simp del]

text \<open>The value of a string of decimal digits, the inverse of \<open>dec_nat\<close>.\<close>

definition digit_val :: "char \<Rightarrow> nat" where
  "digit_val c = of_char c - 48"

definition undec :: "string \<Rightarrow> nat" where
  "undec s = foldl (\<lambda>n c. n * 10 + digit_val c) 0 s"

subsection \<open>Little-endian stores and loads\<close>

definition put_le16 :: "u16 \<Rightarrow> bytes" where
  "put_le16 v = [ucast v, ucast (drop_bit 8 v)]"

definition get_le16 :: "bytes \<Rightarrow> u16" where
  "get_le16 b = ucast (b ! 0) OR push_bit 8 (ucast (b ! 1))"

definition put_le32 :: "u32 \<Rightarrow> bytes" where
  "put_le32 v = [ucast v, ucast (drop_bit 8 v), ucast (drop_bit 16 v), ucast (drop_bit 24 v)]"

definition get_le32 :: "bytes \<Rightarrow> u32" where
  "get_le32 b = ucast (b ! 0) OR push_bit 8 (ucast (b ! 1)) OR push_bit 16 (ucast (b ! 2))
     OR push_bit 24 (ucast (b ! 3))"

subsection \<open>NUL-padded fixed-width fields\<close>

text \<open>
  A field of \<open>w\<close> bytes holds a string cut at \<open>w\<close> and filled with NULs; it is read up to its first
  NUL. Every wire record of the sources is made of such fields.
\<close>

definition pad_field :: "nat \<Rightarrow> bytes \<Rightarrow> bytes" where
  "pad_field w b = take w b @ replicate (w - length b) 0"

definition trim_field :: "bytes \<Rightarrow> bytes" where
  "trim_field b = takeWhile (\<lambda>x. x \<noteq> 0) b"

subsection \<open>Array loops\<close>

text \<open>\<^verbatim>\<open>copy(dst, src)\<close>: overwrite the front of \<open>dst\<close>, never past its end.\<close>

definition go_copy :: "'a list \<Rightarrow> 'a list \<Rightarrow> 'a list" where
  "go_copy dst src = take (length dst) src @ drop (length src) dst"

text \<open>\<^verbatim>\<open>for j := i; j+1 < n; j++ { a[j] = a[j+1] }\<close>: close the gap at \<open>i\<close>.\<close>

function shift_down :: "'a list \<Rightarrow> nat \<Rightarrow> nat \<Rightarrow> 'a list" where
  "shift_down a j n = (if j + 1 < n then shift_down (a[j := a ! (j + 1)]) (j + 1) n else a)"
  by pat_completeness auto
termination
  by (relation "measure (\<lambda>(a, j, n). n - j)") auto

declare shift_down.simps [simp del]

text \<open>\<^verbatim>\<open>for i := from; i > to; i-- { a[i] = a[i-1] }\<close>: open a gap at \<open>to\<close>.\<close>

fun shift_up :: "'a list \<Rightarrow> nat \<Rightarrow> nat \<Rightarrow> 'a list" where
  "shift_up a i to = (if to < i then shift_up (a[i := a ! (i - 1)]) (i - 1) to else a)"

declare shift_up.simps [simp del]

text \<open>\<^verbatim>\<open>for n < len(a) && p(a[n]) { n++ }\<close> and its relatives: the first index that fails.\<close>

fun first_index :: "('a \<Rightarrow> bool) \<Rightarrow> 'a list \<Rightarrow> nat option" where
  "first_index p [] = None"
| "first_index p (x # xs) = (if p x then Some 0 else map_option Suc (first_index p xs))"

subsection \<open>Lemmas on strings and bytes\<close>

lemma char_of_byte_of [simp]: "char_of_byte (byte_of c) = c"
proof -
  have "(of_char c :: nat) < 256" by simp
  then show ?thesis by (simp add: char_of_byte_def byte_of_def unat_of_nat take_bit_eq_mod)
qed

lemma unat_byte_less: "unat (b :: u8) < 256"
  using unsigned_less [of b, where ?'a = nat] by simp

lemma byte_of_char_of [simp]: "byte_of (char_of_byte b) = b"
  using unat_byte_less [of b] by (simp add: char_of_byte_def byte_of_def)

lemma string_of_bytes_of [simp]: "string_of (bytes_of s) = s"
  by (simp add: string_of_def bytes_of_def o_def)

lemma bytes_of_string_of [simp]: "bytes_of (string_of b) = b"
  by (simp add: string_of_def bytes_of_def o_def)

lemma length_bytes_of [simp]: "length (bytes_of s) = length s"
  by (simp add: bytes_of_def)

lemma length_string_of [simp]: "length (string_of b) = length b"
  by (simp add: string_of_def)

lemma byte_of_eq_iff [simp]: "byte_of c = byte_of d \<longleftrightarrow> c = d"
  by (metis char_of_byte_of)

lemma bytes_of_eq_iff [simp]: "bytes_of s = bytes_of t \<longleftrightarrow> s = t"
  by (metis string_of_bytes_of)

lemma bytes_of_append [simp]: "bytes_of (s @ t) = bytes_of s @ bytes_of t"
  by (simp add: bytes_of_def)

lemma string_of_append [simp]: "string_of (s @ t) = string_of s @ string_of t"
  by (simp add: string_of_def)

lemma string_of_take: "string_of (take n b) = take n (string_of b)"
  by (simp add: string_of_def take_map)

lemma bytes_of_take: "bytes_of (take n s) = take n (bytes_of s)"
  by (simp add: bytes_of_def take_map)

lemma byte_of_nul [simp]: "byte_of (CHR 0x00) = 0"
  by (simp add: byte_of_def)

lemma byte_of_eq_0 [simp]: "byte_of c = 0 \<longleftrightarrow> c = CHR 0x00"
  by (metis byte_of_eq_iff byte_of_nul)

lemma nul_in_bytes_of [simp]: "0 \<in> set (bytes_of s) \<longleftrightarrow> CHR 0x00 \<in> set s"
  by (auto simp: bytes_of_def image_iff dest: sym)

subsection \<open>Lemmas on little-endian fields\<close>

lemma length_put_le16 [simp]: "length (put_le16 v) = 2"
  by (simp add: put_le16_def)

lemma length_put_le32 [simp]: "length (put_le32 v) = 4"
  by (simp add: put_le32_def)

lemma bit_u8_high [simp]:
  "\<not> bit (a :: u8) (8 + n)" "\<not> bit (a :: u8) (16 + n)" "\<not> bit (a :: u8) (24 + n)"
  by (auto dest: bit_imp_le_length)

lemma get_le16_put [simp]: "get_le16 (put_le16 v @ r) = v"
  unfolding get_le16_def put_le16_def
  by (rule bit_word_eqI) (auto simp: bit_simps)

lemma get_le32_put [simp]: "get_le32 (put_le32 v @ r) = v"
proof (rule bit_word_eqI)
  fix n assume "n < LENGTH(32)"
  then show "bit (get_le32 (put_le32 v @ r)) n \<longleftrightarrow> bit v n"
    by (cases "24 \<le> n"; cases "16 \<le> n"; cases "8 \<le> n")
      (auto simp: get_le32_def put_le32_def bit_simps not_less)
qed

lemma put_le16_get: "put_le16 (get_le16 (a # b # r)) = [a, b]"
  unfolding get_le16_def put_le16_def
  by (auto intro!: bit_word_eqI simp: bit_simps)

lemma put_le32_get: "put_le32 (get_le32 (a # b # c # d # r)) = [a, b, c, d]"
  unfolding get_le32_def put_le32_def
  by (auto intro!: bit_word_eqI simp: bit_simps)

subsection \<open>Lemmas on the low byte of a word\<close>

lemma bit_255_int [simp]: "bit (255 :: int) n \<longleftrightarrow> n < 8"
proof -
  have "(255 :: int) = mask 8" by (simp add: mask_eq_exp_minus_1)
  then show ?thesis by (simp only: bit_mask_iff) simp
qed

lemma and_ff_u32: "(s AND 0xff :: u32) = ucast (ucast s :: u8)"
  by (auto intro!: bit_word_eqI simp: bit_simps)

lemma ucast_u8_u32 [simp]: "(ucast (ucast (x :: u8) :: u32) :: u8) = x"
  by (auto intro!: bit_word_eqI simp: bit_simps)

lemma and_ff_eq_0: "(s :: u32) AND 0xff = 0 \<longleftrightarrow> (ucast s :: u8) = 0"
  by (metis and_ff_u32 ucast_u8_u32 unsigned_0)

lemma ucast_u8_Suc: "(ucast (a + 1 :: u32) :: u8) = ucast a + 1"
proof transfer
  fix a :: int
  have "(a mod 2 ^ 32 + 1) mod 2 ^ 8 = (a mod 2 ^ 32 mod 2 ^ 8 + 1) mod 2 ^ 8"
    by (rule mod_add_left_eq [symmetric])
  also have "\<dots> = (a + 1) mod 2 ^ 8"
    by (simp add: mod_mod_cancel mod_add_left_eq)
  also have "\<dots> = (a + 1) mod 2 ^ 32 mod 2 ^ 8"
    by (simp add: mod_mod_cancel)
  finally show "take_bit LENGTH(8) (take_bit LENGTH(32) (a + 1)) =
      take_bit LENGTH(8) (take_bit LENGTH(32) a + 1)"
    by (simp only: take_bit_eq_mod) simp
qed

lemma unat_ucast_u8_u32 [simp]: "unat (ucast (x :: u8) :: u32) = unat x"
  using unat_byte_less [of x] by (simp add: unsigned_ucast_eq take_bit_nat_eq_self_iff)

lemma ucast_u8_of_small: "unat (v :: u32) \<le> 255 \<Longrightarrow> unat (ucast v :: u8) = unat v"
  by (simp add: unsigned_ucast_eq take_bit_nat_eq_self_iff)

subsection \<open>Lemmas on fixed-width fields\<close>

lemma length_pad_field [simp]: "length (pad_field w b) = w"
  by (simp add: pad_field_def)

lemma trim_pad_field: "0 \<notin> set b \<Longrightarrow> trim_field (pad_field w b) = take w b"
proof -
  assume "0 \<notin> set b"
  then have "\<forall>x \<in> set (take w b). x \<noteq> 0" by (auto dest: in_set_takeD)
  then show ?thesis
    by (auto simp: trim_field_def pad_field_def takeWhile_append2 takeWhile_eq_all_conv
        takeWhile_replicate)
qed

lemma trim_field_no_nul: "0 \<notin> set (trim_field b)"
  by (auto simp: trim_field_def dest: set_takeWhileD)

lemma length_trim_field: "length (trim_field b) \<le> length b"
  by (simp add: trim_field_def length_takeWhile_le)

lemma trim_field_id [simp]: "0 \<notin> set b \<Longrightarrow> trim_field b = b"
  by (auto simp: trim_field_def takeWhile_eq_all_conv)

lemma pad_field_fits: "length b \<le> w \<Longrightarrow> 0 \<notin> set b \<Longrightarrow> trim_field (pad_field w b) = b"
  by (simp add: trim_pad_field)

subsection \<open>Lemmas on the array loops\<close>

lemma length_go_copy [simp]: "length (go_copy dst src) = length dst"
  by (simp add: go_copy_def)

lemma take_go_copy: "length src \<le> length dst \<Longrightarrow> take (length src) (go_copy dst src) = src"
  by (simp add: go_copy_def)

lemma length_shift_down [simp]: "length (shift_down a j n) = length a"
  by (induction a j n rule: shift_down.induct) (simp add: shift_down.simps)

lemma nth_shift_down:
  "n \<le> length a \<Longrightarrow> k < length a \<Longrightarrow>
     shift_down a j n ! k = (if j \<le> k \<and> k + 1 < n then a ! (k + 1) else a ! k)"
proof (induction a j n rule: shift_down.induct)
  case (1 a j n)
  show ?case
  proof (cases "j + 1 < n")
    case True
    then have "shift_down a j n ! k = shift_down (a[j := a ! (j + 1)]) (j + 1) n ! k"
      by (simp add: shift_down.simps [of a j n])
    also have "\<dots> = (if j + 1 \<le> k \<and> k + 1 < n then a[j := a ! (j + 1)] ! (k + 1)
        else a[j := a ! (j + 1)] ! k)"
      using 1 True by simp
    also have "\<dots> = (if j \<le> k \<and> k + 1 < n then a ! (k + 1) else a ! k)"
      using 1 True by (auto simp: nth_list_update)
    finally show ?thesis .
  next
    case False
    then show ?thesis by (auto simp: shift_down.simps [of a j n])
  qed
qed

lemma length_shift_up [simp]: "length (shift_up a i to) = length a"
  by (induction a i to rule: shift_up.induct) (simp add: shift_up.simps)

lemma nth_shift_up:
  "i < length a \<Longrightarrow> k < length a \<Longrightarrow>
     shift_up a i to ! k = (if to < k \<and> k \<le> i then a ! (k - 1) else a ! k)"
proof (induction a i to rule: shift_up.induct)
  case (1 a i to)
  show ?case
  proof (cases "to < i")
    case True
    then have "shift_up a i to ! k = shift_up (a[i := a ! (i - 1)]) (i - 1) to ! k"
      by (simp add: shift_up.simps [of a i to])
    also have "\<dots> = (if to < k \<and> k \<le> i - 1 then a[i := a ! (i - 1)] ! (k - 1)
        else a[i := a ! (i - 1)] ! k)"
      using 1 True by simp
    also have "\<dots> = (if to < k \<and> k \<le> i then a ! (k - 1) else a ! k)"
      using 1 True by (auto simp: nth_list_update)
    finally show ?thesis .
  next
    case False
    then show ?thesis by (auto simp: shift_up.simps [of a i to])
  qed
qed

text \<open>Closing the gap deletes the element from the used prefix.\<close>

lemma take_shift_down:
  assumes "i < n" "n \<le> length a"
  shows "take (n - 1) (shift_down a i n) = take i a @ drop (i + 1) (take n a)"
proof (rule nth_equalityI)
  show "length (take (n - 1) (shift_down a i n)) = length (take i a @ drop (i + 1) (take n a))"
    using assms by simp
  fix k assume "k < length (take (n - 1) (shift_down a i n))"
  then have k: "k < n - 1" using assms by simp
  then show "take (n - 1) (shift_down a i n) ! k = (take i a @ drop (i + 1) (take n a)) ! k"
    using assms by (auto simp: nth_shift_down nth_append)
qed

lemma in_set_tlD: "x \<in> set (tl xs) \<Longrightarrow> x \<in> set xs"
  by (cases xs) auto

subsection \<open>Lemmas on searching\<close>

lemma first_index_Some:
  "first_index p xs = Some i \<longleftrightarrow> i < length xs \<and> p (xs ! i) \<and> (\<forall>j < i. \<not> p (xs ! j))"
proof (induction xs arbitrary: i)
  case (Cons x xs)
  show ?case
  proof (cases i)
    case 0
    then show ?thesis by auto
  next
    case (Suc j)
    then show ?thesis using Cons by (auto simp: less_Suc_eq_0_disj)
  qed
qed simp

lemma first_index_None: "first_index p xs = None \<longleftrightarrow> (\<forall>x \<in> set xs. \<not> p x)"
  by (induction xs) auto

subsection \<open>Lemmas on decimal numbers\<close>

lemma undec_snoc: "undec (s @ [c]) = undec s * 10 + digit_val c"
  by (simp add: undec_def)

lemma digit_val_char: "n < 10 \<Longrightarrow> digit_val (char_of (48 + n)) = n"
  by (simp add: digit_val_def of_char_of take_bit_eq_mod)

lemma undec_dec_nat [simp]: "undec (dec_nat n) = n"
proof (induction n rule: dec_nat.induct)
  case (1 n)
  show ?case
  proof (cases "n < 10")
    case True
    then show ?thesis
      using digit_val_char [of n] by (simp add: dec_nat.simps [of n] undec_def)
  next
    case False
    then show ?thesis
      using 1 digit_val_char [of "n mod 10"] by (simp add: dec_nat.simps [of n] undec_snoc)
  qed
qed

lemma dec_nat_inject [simp]: "dec_nat m = dec_nat n \<longleftrightarrow> m = n"
  by (metis undec_dec_nat)

lemma dec_nat_not_Nil [simp]: "dec_nat n \<noteq> []"
  by (subst dec_nat.simps) simp

end
