(* ===== verification/Wire.thy ===== *)
theory Wire
  imports Prelude
begin

text \<open>
  The WM\_RPC wire of the client SDK (\<^verbatim>\<open>user/go/vi/ipc.go\<close> and \<^verbatim>\<open>user/go/vi/wmclient.go\<close>): the
  38-byte mailbox frame and its codec, the process-table rows, the resolution of the window
  manager's process, the request sequence counter, the bounded wait for an ack and the whole
  client request. The kernel is a parameter: the process-table scans, the result of a send and the
  message each mailbox probe delivers are arguments.
\<close>

subsection \<open>The frame\<close>

text \<open>
  \<^verbatim>\<open>type WmRpc struct\<close>; the title is a \<^verbatim>\<open>[24]byte\<close>, so a frame is well formed when its title has
  24 bytes.
\<close>

record wm_rpc =
  rpc_kind :: u8
  rpc_id :: u8
  rpc_seq :: u8
  rpc_reply_to :: u8
  rpc_applied :: u8
  rpc_pad :: u8
  rpc_x :: u16
  rpc_y :: u16
  rpc_w :: u16
  rpc_h :: u16
  rpc_title :: bytes

abbreviation (input) WmRpcTitleMax :: nat where "WmRpcTitleMax \<equiv> 24"
abbreviation (input) WmRpcMax :: nat where "WmRpcMax \<equiv> 64"
abbreviation (input) WmRpcReplyFlag :: u8 where "WmRpcReplyFlag \<equiv> 0x80"
abbreviation (input) MailboxMessageMax :: nat where "MailboxMessageMax \<equiv> 64"

abbreviation (input) WmRpcKindRaise :: u8 where "WmRpcKindRaise \<equiv> 1"
abbreviation (input) WmRpcKindAttachTab :: u8 where "WmRpcKindAttachTab \<equiv> 5"
abbreviation (input) WmRpcKindDetachTab :: u8 where "WmRpcKindDetachTab \<equiv> 6"
abbreviation (input) WmRpcKindCycleTab :: u8 where "WmRpcKindCycleTab \<equiv> 7"
abbreviation (input) WmRpcKindDeclareFullscreen :: u8 where "WmRpcKindDeclareFullscreen \<equiv> 8"
abbreviation (input) WmRpcKindNavDeclare :: u8 where "WmRpcKindNavDeclare \<equiv> 9"
abbreviation (input) WmRpcKindNavPoll :: u8 where "WmRpcKindNavPoll \<equiv> 10"
abbreviation (input) WmRpcKindSetTitle :: u8 where "WmRpcKindSetTitle \<equiv> 11"
abbreviation (input) WmRpcKindNotify :: u8 where "WmRpcKindNotify \<equiv> 12"

definition wf_rpc :: "wm_rpc \<Rightarrow> bool" where
  "wf_rpc m \<longleftrightarrow> length (rpc_title m) = WmRpcTitleMax"

definition zero_rpc :: wm_rpc where
  "zero_rpc = \<lparr>rpc_kind = 0, rpc_id = 0, rpc_seq = 0, rpc_reply_to = 0, rpc_applied = 0,
     rpc_pad = 0, rpc_x = 0, rpc_y = 0, rpc_w = 0, rpc_h = 0,
     rpc_title = replicate WmRpcTitleMax 0\<rparr>"

definition Encode :: "wm_rpc \<Rightarrow> bytes" where
  "Encode m = [rpc_kind m, rpc_id m, rpc_seq m, rpc_reply_to m, rpc_applied m, rpc_pad m]
     @ put_le16 (rpc_x m) @ put_le16 (rpc_y m) @ put_le16 (rpc_w m) @ put_le16 (rpc_h m)
     @ take 24 (rpc_title m)"

definition DecodeWmRpc :: "bytes \<Rightarrow> wm_rpc option" where
  "DecodeWmRpc b =
     (if length b < 38 then None
      else Some \<lparr>rpc_kind = b ! 0, rpc_id = b ! 1, rpc_seq = b ! 2, rpc_reply_to = b ! 3,
        rpc_applied = b ! 4, rpc_pad = b ! 5,
        rpc_x = get_le16 (drop 6 b), rpc_y = get_le16 (drop 8 b),
        rpc_w = get_le16 (drop 10 b), rpc_h = get_le16 (drop 12 b),
        rpc_title = take 24 (drop 14 b)\<rparr>)"

definition SetTitle_rpc :: "wm_rpc \<Rightarrow> string \<Rightarrow> wm_rpc" where
  "SetTitle_rpc m s = m\<lparr>rpc_title := pad_field WmRpcTitleMax (bytes_of s)\<rparr>"

definition TitleString :: "wm_rpc \<Rightarrow> string" where
  "TitleString m = string_of (trim_field (rpc_title m))"

subsection \<open>The mailbox and the process table\<close>

text \<open>\<^verbatim>\<open>IpcSend\<close>: the bytes the kernel is handed, cut at the slot bound; an empty send is no call.\<close>

definition IpcSend :: "(u32 \<Rightarrow> bytes \<Rightarrow> int) \<Rightarrow> u32 \<Rightarrow> bytes \<Rightarrow> int" where
  "IpcSend svc target b =
     (if b = [] then 0
      else svc target (if length b > MailboxMessageMax then take MailboxMessageMax b else b))"

definition get_le64 :: "bytes \<Rightarrow> u64" where
  "get_le64 b = ucast (b ! 0) OR push_bit 8 (ucast (b ! 1)) OR push_bit 16 (ucast (b ! 2))
     OR push_bit 24 (ucast (b ! 3)) OR push_bit 32 (ucast (b ! 4)) OR push_bit 40 (ucast (b ! 5))
     OR push_bit 48 (ucast (b ! 6)) OR push_bit 56 (ucast (b ! 7))"

record proc_row =
  row_pid :: u64
  row_state :: u64
  row_exit :: u64
  row_name_buf :: bytes

abbreviation (input) ProcRowSize :: nat where "ProcRowSize \<equiv> 40"
abbreviation (input) ProcCreated :: u64 where "ProcCreated \<equiv> 1"
abbreviation (input) ProcRunning :: u64 where "ProcRunning \<equiv> 2"
abbreviation (input) ProcExited :: u64 where "ProcExited \<equiv> 3"

definition row_Name :: "proc_row \<Rightarrow> string" where
  "row_Name r = string_of (trim_field (row_name_buf r))"

text \<open>One row of the \<^verbatim>\<open>sys_procs\<close> snapshot at byte offset \<open>off\<close>.\<close>

definition decode_row :: "bytes \<Rightarrow> nat \<Rightarrow> proc_row" where
  "decode_row buf off = \<lparr>row_pid = get_le64 (drop off buf), row_state = get_le64 (drop (off + 8) buf),
     row_exit = get_le64 (drop (off + 16) buf), row_name_buf = take 16 (drop (off + 24) buf)\<rparr>"

text \<open>
  \<^verbatim>\<open>Procs\<close>: the kernel fills a buffer of whole rows and returns the row count \<open>r\<close>; the model
  takes the buffer as filled and that result.
\<close>

definition Procs :: "nat \<Rightarrow> bytes \<Rightarrow> int \<Rightarrow> proc_row list \<times> int" where
  "Procs n buf r =
     (if n = 0 then ([], 0)
      else if r < 0 then ([], r)
      else (map (\<lambda>i. decode_row buf (i * ProcRowSize)) [0..<min (nat r) n], r))"

subsection \<open>Finding the window manager\<close>

record wm_seat =
  seat_WM :: u32
  seat_Self :: u32

definition WMProcNames :: "string list" where
  "WMProcNames = [''WND.BIN'', ''TABWM.BIN'', ''GOTABWM.ELF'']"

abbreviation zero_seat :: wm_seat where "zero_seat \<equiv> \<lparr>seat_WM = 0, seat_Self = 0\<rparr>"

text \<open>The body of the row loop of \<^verbatim>\<open>WmPeers\<close>: the peers found so far and the suspect flag.\<close>

definition scan_row :: "string \<Rightarrow> proc_row \<Rightarrow> wm_seat \<times> bool \<Rightarrow> wm_seat \<times> bool" where
  "scan_row selfName row st =
     (let (out, suspect) = st; name = row_Name row in
      if row_state row \<noteq> ProcRunning then (out, suspect)
      else if name = '''' then (out, True)
      else
        let out = (if seat_Self out = 0 \<and> name = selfName
                   then out\<lparr>seat_Self := ucast (row_pid row)\<rparr> else out);
            out = (if seat_WM out = 0 \<and> name \<in> set WMProcNames
                   then out\<lparr>seat_WM := ucast (row_pid row)\<rparr> else out)
        in (out, suspect))"

definition scan_rows :: "string \<Rightarrow> proc_row list \<Rightarrow> wm_seat \<times> bool" where
  "scan_rows selfName rows = foldl (\<lambda>st row. scan_row selfName row st) (zero_seat, False) rows"

abbreviation (input) wmPeersScanAttempts :: nat where "wmPeersScanAttempts \<equiv> 8"

text \<open>
  \<^verbatim>\<open>WmPeers\<close>: \<open>scans a\<close> is what \<^verbatim>\<open>Procs\<close> returns on attempt \<open>a\<close>. The result carries how many
  times the caller yielded, each of which parks it for a scheduler tick.
\<close>

function wm_peers_loop ::
  "(nat \<Rightarrow> proc_row list \<times> int) \<Rightarrow> string \<Rightarrow> wm_seat \<Rightarrow> nat \<Rightarrow> nat \<Rightarrow> wm_seat \<times> nat" where
  "wm_peers_loop scans selfName prev attempt yields =
     (if attempt < wmPeersScanAttempts then
        let (rows, r) = scans attempt;
            (out, suspect) = (if r > 0 \<and> rows \<noteq> [] then scan_rows selfName rows
                              else (zero_seat, False))
        in if seat_Self out \<noteq> 0 \<and> (seat_WM out \<noteq> 0 \<or> \<not> suspect) then (out, yields)
           else if attempt = 0 then wm_peers_loop scans selfName out (attempt + 1) yields
           else wm_peers_loop scans selfName out (attempt + 1) (yields + 1)
      else (prev, yields))"
  by pat_completeness auto
termination
  by (relation "measure (\<lambda>(_, _, _, attempt, _). wmPeersScanAttempts - attempt)") auto

declare wm_peers_loop.simps [simp del]

definition WmPeers :: "(nat \<Rightarrow> proc_row list \<times> int) \<Rightarrow> string \<Rightarrow> wm_seat \<times> nat" where
  "WmPeers scans selfName =
     (if selfName = '''' then (zero_seat, 0) else wm_peers_loop scans selfName zero_seat 0 0)"

subsection \<open>Requests and acks\<close>

text \<open>\<^verbatim>\<open>nextWmSeq\<close>: bump the process-wide counter, skipping the values whose low byte is zero.\<close>

function nextWmSeq :: "u32 \<Rightarrow> u8 \<times> u32" where
  "nextWmSeq c = (let s = c + 1 in if s AND 0xff \<noteq> 0 then (ucast s, s) else nextWmSeq s)"
  by pat_completeness auto
termination
  by (relation "measure (\<lambda>c :: u32. if (c + 1) AND 0xff = 0 then 1 else 0)")
    (auto simp: and_ff_eq_0 ucast_u8_Suc)

declare nextWmSeq.simps [simp del]

definition fitsWire8 :: "u32 \<Rightarrow> bool" where
  "fitsWire8 v \<longleftrightarrow> v \<le> 0xff"

abbreviation (input) wmMailWaitTicks :: nat where "wmMailWaitTicks \<equiv> 8"

text \<open>
  \<^verbatim>\<open>waitWmRpcAck\<close>: \<open>recv t\<close> is the message the kernel delivers at probe \<open>t\<close> (empty for none, cut
  at the slot bound). The result carries the number of ticks slept.
\<close>

function wait_ack_loop :: "(nat \<Rightarrow> bytes) \<Rightarrow> u8 \<Rightarrow> u8 \<Rightarrow> nat \<Rightarrow> wm_rpc option \<times> nat" where
  "wait_ack_loop recv seq replyTo tick =
     (if tick < wmMailWaitTicks then
        let raw = take WmRpcMax (recv tick);
            hit = (case DecodeWmRpc raw of
                     None \<Rightarrow> None
                   | Some rep \<Rightarrow>
                       if rpc_kind rep AND WmRpcReplyFlag \<noteq> 0 \<and> rpc_seq rep = seq
                          \<and> rpc_reply_to rep = replyTo
                       then Some rep else None)
        in case hit of
             Some rep \<Rightarrow> (Some rep, tick)
           | None \<Rightarrow> if tick + 1 \<ge> wmMailWaitTicks then (None, tick)
                     else wait_ack_loop recv seq replyTo (tick + 1)
      else (None, tick))"
  by pat_completeness auto
termination
  by (relation "measure (\<lambda>(_, _, _, tick). wmMailWaitTicks - tick)") auto

declare wait_ack_loop.simps [simp del]

definition waitWmRpcAck :: "(nat \<Rightarrow> bytes) \<Rightarrow> u8 \<Rightarrow> u8 \<Rightarrow> wm_rpc option \<times> nat" where
  "waitWmRpcAck recv seq replyTo = wait_ack_loop recv seq replyTo 0"

text \<open>The kernel as the client sees it during one request.\<close>

record client_kernel =
  ck_scans :: "nat \<Rightarrow> proc_row list \<times> int"
  ck_send :: "u32 \<Rightarrow> bytes \<Rightarrow> int"
  ck_recv :: "nat \<Rightarrow> bytes"

text \<open>
  The frame \<^verbatim>\<open>WmMailRequest\<close> builds, and the request itself: the result of the call, the frame
  handed to the mailbox if one was, and the sequence counter afterwards.
\<close>

definition mail_frame ::
  "u8 \<Rightarrow> u32 \<Rightarrow> u8 \<Rightarrow> u32 \<Rightarrow> u16 \<Rightarrow> u16 \<Rightarrow> u16 \<Rightarrow> u16 \<Rightarrow> string \<Rightarrow> wm_rpc" where
  "mail_frame kind wid seq self x y w h title =
     SetTitle_rpc (zero_rpc\<lparr>rpc_kind := kind, rpc_id := ucast wid, rpc_seq := seq,
       rpc_reply_to := ucast self, rpc_x := x, rpc_y := y, rpc_w := w, rpc_h := h\<rparr>) title"

definition WmMailRequest ::
  "client_kernel \<Rightarrow> u32 \<Rightarrow> u8 \<Rightarrow> u32 \<Rightarrow> u16 \<Rightarrow> u16 \<Rightarrow> u16 \<Rightarrow> u16 \<Rightarrow> string \<Rightarrow> string
     \<Rightarrow> bool \<times> (u32 \<times> bytes) option \<times> u32" where
  "WmMailRequest K c kind wid x y w h title selfName =
     (if \<not> fitsWire8 wid then (False, None, c)
      else
        let peers = fst (WmPeers (ck_scans K) selfName) in
        if seat_WM peers = 0 \<or> seat_Self peers = 0 \<or> \<not> fitsWire8 (seat_Self peers)
        then (False, None, c)
        else
          let (seq, c') = nextWmSeq c;
              req = mail_frame kind wid seq (seat_Self peers) x y w h title;
              frame = Encode req
          in if IpcSend (ck_send K) (seat_WM peers) frame < 0
             then (False, Some (seat_WM peers, frame), c')
             else case fst (waitWmRpcAck (ck_recv K) seq (rpc_reply_to req)) of
                    None \<Rightarrow> (False, Some (seat_WM peers, frame), c')
                  | Some rep \<Rightarrow> (rpc_applied rep \<noteq> 0, Some (seat_WM peers, frame), c'))"

definition DeclareFullscreen ::
  "client_kernel \<Rightarrow> u32 \<Rightarrow> u32 \<Rightarrow> string \<Rightarrow> string \<Rightarrow> bool \<times> (u32 \<times> bytes) option \<times> u32" where
  "DeclareFullscreen K c winID title selfName =
     WmMailRequest K c WmRpcKindDeclareFullscreen winID 0 0 0 0 title selfName"

definition DeclareNav ::
  "client_kernel \<Rightarrow> u32 \<Rightarrow> u32 \<Rightarrow> string \<Rightarrow> string \<Rightarrow> bool \<times> (u32 \<times> bytes) option \<times> u32" where
  "DeclareNav K c winID path selfName =
     (if path = [] then (False, None, c)
      else WmMailRequest K c WmRpcKindNavDeclare winID 0 0 0 0 path selfName)"

definition SetTabTitle ::
  "client_kernel \<Rightarrow> u32 \<Rightarrow> u32 \<Rightarrow> string \<Rightarrow> string \<Rightarrow> bool \<times> (u32 \<times> bytes) option \<times> u32" where
  "SetTabTitle K c winID title selfName =
     (if title = [] then (False, None, c)
      else WmMailRequest K c WmRpcKindSetTitle winID 0 0 0 0 title selfName)"

definition Notify ::
  "client_kernel \<Rightarrow> u32 \<Rightarrow> u32 \<Rightarrow> string \<Rightarrow> string \<Rightarrow> bool \<times> (u32 \<times> bytes) option \<times> u32" where
  "Notify K c winID message selfName =
     (if message = [] then (False, None, c)
      else WmMailRequest K c WmRpcKindNotify winID 0 0 0 0 message selfName)"

definition PollNav :: "client_kernel \<Rightarrow> u32 \<Rightarrow> u32 \<Rightarrow> string \<Rightarrow> string option \<times> u32" where
  "PollNav K c winID selfName =
     (if \<not> fitsWire8 winID then (None, c)
      else
        let peers = fst (WmPeers (ck_scans K) selfName) in
        if seat_WM peers = 0 \<or> seat_Self peers = 0 \<or> \<not> fitsWire8 (seat_Self peers) then (None, c)
        else
          let (seq, c') = nextWmSeq c;
              req = zero_rpc\<lparr>rpc_kind := WmRpcKindNavPoll, rpc_id := ucast winID, rpc_seq := seq,
                      rpc_reply_to := ucast (seat_Self peers)\<rparr>
          in if IpcSend (ck_send K) (seat_WM peers) (Encode req) < 0 then (None, c')
             else case fst (waitWmRpcAck (ck_recv K) seq (rpc_reply_to req)) of
                    None \<Rightarrow> (None, c')
                  | Some rep \<Rightarrow> (if rpc_applied rep = 0 then None else Some (TitleString rep), c'))"

subsection \<open>Client event dispatch\<close>

record ui_event =
  ev_kind :: u16
  ev_flags :: u16
  ev_seq :: u32
  ev_arg0 :: u32
  ev_arg1 :: u32

abbreviation (input) EvWinFocus :: u16 where "EvWinFocus \<equiv> 6"
abbreviation (input) EvWinBlur :: u16 where "EvWinBlur \<equiv> 7"
abbreviation (input) EvWinClose :: u16 where "EvWinClose \<equiv> 8"
abbreviation (input) EvWinResize :: u16 where "EvWinResize \<equiv> 10"

datatype wm_action = WmActionNone | WmActionResized | WmActionClosed

record tab_client =
  tc_win :: u32
  tc_w :: u32
  tc_h :: u32
  tc_focused :: bool

definition Dispatch :: "tab_client \<Rightarrow> ui_event \<Rightarrow> wm_action \<times> tab_client" where
  "Dispatch t ev =
     (if ev_kind ev = EvWinClose then (WmActionClosed, t)
      else if ev_kind ev = EvWinResize
      then (WmActionResized, t\<lparr>tc_w := ev_arg0 ev, tc_h := ev_arg1 ev\<rparr>)
      else if ev_kind ev = EvWinFocus then (WmActionNone, t\<lparr>tc_focused := True\<rparr>)
      else if ev_kind ev = EvWinBlur then (WmActionNone, t\<lparr>tc_focused := False\<rparr>)
      else (WmActionNone, t))"

subsection \<open>The codec\<close>

lemma wf_zero_rpc [simp]: "wf_rpc zero_rpc"
  by (simp add: wf_rpc_def zero_rpc_def)

lemma wf_SetTitle_rpc [simp]: "wf_rpc (SetTitle_rpc m s)"
  by (simp add: wf_rpc_def SetTitle_rpc_def)

lemma length_Encode [simp]: "wf_rpc m \<Longrightarrow> length (Encode m) = 38"
  by (simp add: Encode_def wf_rpc_def)

lemma TitleString_SetTitle: "CHR 0x00 \<notin> set s \<Longrightarrow> TitleString (SetTitle_rpc m s) = take 24 s"
proof -
  assume "CHR 0x00 \<notin> set s"
  then have "0 \<notin> set (bytes_of s)" by (auto simp: bytes_of_def dest: sym)
  then show ?thesis
    by (simp add: TitleString_def SetTitle_rpc_def trim_pad_field string_of_take)
qed

lemma TitleString_no_nul: "CHR 0x00 \<notin> set (TitleString m)"
proof
  assume "CHR 0x00 \<in> set (TitleString m)"
  then have "byte_of (CHR 0x00) \<in> set (bytes_of (TitleString m))" by (simp add: bytes_of_def)
  then show False using trim_field_no_nul [of "rpc_title m"] by (simp add: TitleString_def)
qed

lemma length_TitleString: "wf_rpc m \<Longrightarrow> length (TitleString m) \<le> 24"
  using length_trim_field [of "rpc_title m"] by (simp add: TitleString_def wf_rpc_def)

lemma DecodeWmRpc_wf: "DecodeWmRpc b = Some m \<Longrightarrow> wf_rpc m"
  by (auto simp: DecodeWmRpc_def wf_rpc_def split: if_splits)

text \<open>What a decoder reads back from a list of stores, field by field.\<close>

lemma decode_encode_append: "wf_rpc m \<Longrightarrow> DecodeWmRpc (Encode m @ r) = Some m"
proof -
  assume wf: "wf_rpc m"
  have le: "put_le16 v = [ucast v, ucast (drop_bit 8 v)]" for v by (simp add: put_le16_def)
  have reload: "get_le16 (ucast v # ucast (drop_bit 8 v) # z) = v" for v z
    using get_le16_put [of v z] by (simp add: put_le16_def)
  show ?thesis using wf
    by (cases m) (auto simp: DecodeWmRpc_def Encode_def le reload wf_rpc_def)
qed

lemma encode_decode_take: "DecodeWmRpc b = Some m \<Longrightarrow> Encode m = take 38 b"
proof -
  assume d: "DecodeWmRpc b = Some m"
  then have len: "38 \<le> length b" by (auto simp: DecodeWmRpc_def split: if_splits)
  have split14: "\<exists>b0 b1 b2 b3 b4 b5 b6 b7 b8 b9 b10 b11 b12 b13 r.
      h @ t = b0#b1#b2#b3#b4#b5#b6#b7#b8#b9#b10#b11#b12#b13#r" if "length h = 14" for h t :: bytes
    using that by (auto simp: numeral_eq_Suc length_Suc_conv)
  have "length (take 14 b) = 14" using len by simp
  from split14 [OF this, of "drop 14 b"] obtain b0 b1 b2 b3 b4 b5 b6 b7 b8 b9 b10 b11 b12 b13 r
    where r: "b = b0#b1#b2#b3#b4#b5#b6#b7#b8#b9#b10#b11#b12#b13#r" by auto
  show ?thesis using d len unfolding r
    by (auto simp: DecodeWmRpc_def Encode_def put_le16_get split: if_splits)
qed

subsection \<open>Sequence numbers\<close>

lemma nextWmSeq_cases:
  "nextWmSeq c =
     (if (ucast c :: u8) = 255 then (1, c + 2) else (ucast c + 1, c + 1))"
proof (cases "(ucast c :: u8) = 255")
  case True
  then have low: "(ucast (c + 1) :: u8) = 0" by (simp add: ucast_u8_Suc)
  then have "nextWmSeq c = nextWmSeq (c + 1)"
    by (subst nextWmSeq.simps) (simp add: and_ff_eq_0)
  moreover have "(ucast (c + 2) :: u8) = 1"
    using ucast_u8_Suc [of "c + 1"] low by (simp add: add.assoc)
  then have "nextWmSeq (c + 1) = (1, c + 2)"
    by (subst nextWmSeq.simps) (simp add: Let_def and_ff_eq_0 add.assoc)
  ultimately show ?thesis using True by simp
next
  case False
  have "(ucast c + 1 :: u8) \<noteq> 0"
  proof
    assume "(ucast c + 1 :: u8) = 0"
    then have "(ucast c :: u8) = 0 - 1" by (simp add: eq_neg_iff_add_eq_0)
    then show False using False by simp
  qed
  then show ?thesis
    using False by (subst nextWmSeq.simps) (simp add: and_ff_eq_0 ucast_u8_Suc)
qed

subsection \<open>Waiting for the ack\<close>

text \<open>The ack, if any, that the probe at tick \<open>t\<close> delivers.\<close>

definition ack_at :: "(nat \<Rightarrow> bytes) \<Rightarrow> u8 \<Rightarrow> u8 \<Rightarrow> nat \<Rightarrow> wm_rpc option" where
  "ack_at recv seq replyTo t =
     (case DecodeWmRpc (take WmRpcMax (recv t)) of
        None \<Rightarrow> None
      | Some rep \<Rightarrow> if rpc_kind rep AND WmRpcReplyFlag \<noteq> 0 \<and> rpc_seq rep = seq
                      \<and> rpc_reply_to rep = replyTo then Some rep else None)"

lemma wait_ack_loop_unfold:
  "t < 8 \<Longrightarrow> wait_ack_loop recv seq rt t =
     (case ack_at recv seq rt t of
        Some rep \<Rightarrow> (Some rep, t)
      | None \<Rightarrow> if t = 7 then (None, t) else wait_ack_loop recv seq rt (t + 1))"
  by (subst wait_ack_loop.simps) (auto simp: ack_at_def Let_def split: option.splits)

lemma wait_ack_loop_spec:
  "t < 8 \<Longrightarrow> wait_ack_loop recv seq rt t = (r, n) \<Longrightarrow>
     t \<le> n \<and> n < 8 \<and> r = ack_at recv seq rt n \<and> (\<forall>u. t \<le> u \<and> u < n \<longrightarrow> ack_at recv seq rt u = None)
     \<and> (r = None \<longrightarrow> n = 7)"
proof (induction "8 - t" arbitrary: t)
  case 0
  then show ?case by simp
next
  case (Suc k)
  show ?case
  proof (cases "ack_at recv seq rt t")
    case None
    show ?thesis
    proof (cases "t = 7")
      case True
      then show ?thesis using Suc.prems None by (auto simp: wait_ack_loop_unfold)
    next
      case False
      then have "wait_ack_loop recv seq rt (t + 1) = (r, n)"
        using Suc.prems None by (simp add: wait_ack_loop_unfold)
      then have "t + 1 \<le> n \<and> n < 8 \<and> r = ack_at recv seq rt n
          \<and> (\<forall>u. t + 1 \<le> u \<and> u < n \<longrightarrow> ack_at recv seq rt u = None) \<and> (r = None \<longrightarrow> n = 7)"
        using Suc False by (intro Suc.hyps(1)) auto
      then show ?thesis using None by (metis Suc_eq_plus1 Suc_leI le_SucI le_eq_less_or_eq Suc_leD)
    qed
  next
    case (Some rep)
    then show ?thesis using Suc.prems by (auto simp: wait_ack_loop_unfold)
  qed
qed

subsection \<open>Resolving the seat\<close>

lemma wm_peers_loop_yields:
  "wm_peers_loop scans self prev a y = (out, n) \<Longrightarrow> n \<le> y + (8 - max 1 a)"
proof (induction scans self prev a y arbitrary: out n rule: wm_peers_loop.induct)
  case (1 scans self prev a y)
  show ?case
    using 1 by (subst (asm) (3) wm_peers_loop.simps)
      (fastforce simp: Let_def split: if_splits prod.splits)
qed

subsection \<open>Properties\<close>

text \<open>The sequence number of the \<open>k\<close>-th request of a process whose counter is \<open>c\<close>.\<close>

definition wm_seq_at :: "u32 \<Rightarrow> nat \<Rightarrow> u8" where
  "wm_seq_at c k = fst (nextWmSeq (((\<lambda>x. snd (nextWmSeq x)) ^^ k) c))"

lemma nextWmSeq_low: "ucast (snd (nextWmSeq c)) = fst (nextWmSeq c)"
proof (cases "(ucast c :: u8) = 255")
  case True
  then have "(ucast (c + 1 + 1) :: u8) = 1" by (simp only: ucast_u8_Suc) simp
  then show ?thesis using True by (simp add: nextWmSeq_cases add.assoc)
qed (simp add: nextWmSeq_cases ucast_u8_Suc)

lemma unat_nextWmSeq:
  "unat (fst (nextWmSeq c)) =
     (if unat (ucast c :: u8) = 255 then 1 else unat (ucast c :: u8) + 1)"
proof -
  have "(ucast c :: u8) = 255 \<longleftrightarrow> unat (ucast c :: u8) = 255"
    using word_unat_eq_iff [of "ucast c :: u8" 255] by simp
  moreover have "unat (ucast c + 1 :: u8) = unat (ucast c :: u8) + 1" if "unat (ucast c :: u8) \<noteq> 255"
    using that unat_byte_less [of "ucast c"] by (simp add: unat_word_ariths)
  ultimately show ?thesis by (auto simp: nextWmSeq_cases)
qed

lemma wm_seq_at_formula: "unat (wm_seq_at c k) = 1 + (unat (ucast c :: u8) + k) mod 255"
proof (induction k)
  case 0
  show ?case using unat_byte_less [of "ucast c"]
    by (auto simp: wm_seq_at_def unat_nextWmSeq mod_if)
next
  case (Suc k)
  let ?x = "((\<lambda>x. snd (nextWmSeq x)) ^^ k) c" and ?m = "(unat (ucast c :: u8) + k) mod 255"
  have "unat (ucast (snd (nextWmSeq ?x)) :: u8) = 1 + ?m"
    using Suc by (simp add: nextWmSeq_low wm_seq_at_def)
  then have "unat (wm_seq_at c (Suc k)) = (if ?m = 254 then 1 else ?m + 2)"
    by (simp add: wm_seq_at_def unat_nextWmSeq)
  moreover have "(unat (ucast c :: u8) + Suc k) mod 255 = (if ?m = 254 then 0 else ?m + 1)"
    by (simp add: mod_Suc)
  ultimately show ?case by simp
qed

text \<open>
  C37. The WM\_RPC codec is exact: a frame encodes to 38 bytes, and a buffer decodes to a frame if
  and only if it starts with that frame's encoding. So nothing is lost either way, and the bytes
  after the frame are ignored.
\<close>

theorem rpc_codec_exact:
  assumes "wf_rpc m"
  shows "length (Encode m) = 38 \<and> (DecodeWmRpc b = Some m \<longleftrightarrow> (\<exists>r. b = Encode m @ r))"
  using assms decode_encode_append encode_decode_take [of b m]
  by auto (metis append_take_drop_id)

theorem rpc_codec_exact_witness:
  "DecodeWmRpc (Encode (SetTitle_rpc zero_rpc ''Calc'') @ [7]) = Some (SetTitle_rpc zero_rpc ''Calc'')"
  using rpc_codec_exact [of "SetTitle_rpc zero_rpc ''Calc''"] by simp

text \<open>
  Request sequence numbers: none is zero (zero marks an unsequenced frame), and any two
  requests fewer than 255 apart carry different numbers, so an ack can be matched to its request.
\<close>

theorem wm_seq_distinct:
  "wm_seq_at c k \<noteq> 0 \<and> (0 < d \<and> d < 255 \<longrightarrow> wm_seq_at c (k + d) \<noteq> wm_seq_at c k)"
proof (intro conjI impI)
  have "unat (wm_seq_at c k) \<noteq> 0" by (simp add: wm_seq_at_formula)
  then show "wm_seq_at c k \<noteq> 0" by auto
  assume d: "0 < d \<and> d < 255"
  define a where "a = unat (ucast c :: u8) + k"
  have "(a + d) mod 255 \<noteq> a mod 255"
  proof
    assume "(a + d) mod 255 = a mod 255"
    then have "255 dvd a + d - a" by (rule mod_eq_dvd_iff_nat [THEN iffD1, rotated]) simp
    then show False using d by (auto dest: dvd_imp_le)
  qed
  moreover have "unat (wm_seq_at c (k + d)) = 1 + (a + d) mod 255"
    by (simp only: wm_seq_at_formula a_def add.assoc)
  moreover have "unat (wm_seq_at c k) = 1 + a mod 255"
    by (simp only: wm_seq_at_formula a_def)
  ultimately show "wm_seq_at c (k + d) \<noteq> wm_seq_at c k" by (metis add_left_cancel)
qed

theorem wm_seq_distinct_witness: "wm_seq_at 250 4 \<noteq> 0 \<and> wm_seq_at 250 (4 + 3) \<noteq> wm_seq_at 250 4"
  using wm_seq_distinct [of 250 4 3] by simp

text \<open>
  The wait for an ack returns within seven sleeps, and it returns the first matching ack of
  the eight probes, or nothing exactly when none of the eight matches.
\<close>

theorem wait_ack_bounded_exact:
  "(case waitWmRpcAck recv seq replyTo of
      (r, slept) \<Rightarrow> slept \<le> 7 \<and> r = ack_at recv seq replyTo slept
        \<and> (\<forall>t < slept. ack_at recv seq replyTo t = None)
        \<and> (r = None \<longleftrightarrow> (\<forall>t < 8. ack_at recv seq replyTo t = None)))"
proof -
  obtain r n where rn: "wait_ack_loop recv seq replyTo 0 = (r, n)"
    by (cases "wait_ack_loop recv seq replyTo 0")
  have sp: "n < 8" "r = ack_at recv seq replyTo n" "\<forall>t < n. ack_at recv seq replyTo t = None"
    "r = None \<Longrightarrow> n = 7"
    using wait_ack_loop_spec [OF zero_less_numeral rn] le0 by blast+
  have all: "ack_at recv seq replyTo t = None" if "r = None" "t < 8" for t
  proof (cases "t = 7")
    case True
    then show ?thesis using sp(2) sp(4) that(1) by metis
  next
    case False
    then have "t < n" using sp(4) that by linarith
    then show ?thesis using sp(3) by blast
  qed
  have none: "r = None" if "\<forall>t < 8. ack_at recv seq replyTo t = None" using that sp(1,2) by metis
  have "n \<le> 7" using sp(1) by linarith
  moreover have "r = None \<longleftrightarrow> (\<forall>t < 8. ack_at recv seq replyTo t = None)"
    by (rule iffI) (use all in metis, use none in metis)
  ultimately show ?thesis
    unfolding waitWmRpcAck_def rn prod.case using sp(2,3) by (intro conjI) assumption+
qed

theorem wait_ack_bounded_exact_witness:
  "fst (waitWmRpcAck (\<lambda>t. []) 3 9) = None \<and> snd (waitWmRpcAck (\<lambda>t. []) 3 9) \<le> 7"
proof -
  have "\<forall>t < 8. ack_at (\<lambda>t. []) 3 9 t = None" by (simp add: ack_at_def DecodeWmRpc_def)
  then show ?thesis using wait_ack_bounded_exact [of "\<lambda>t. []" 3 9] by (auto simp: split_def)
qed

text \<open>
  Finding the window manager never waits more than seven ticks, whatever the process table
  reports; with an empty name it does not wait at all.
\<close>

theorem WmPeers_bounded: "snd (WmPeers scans selfName) \<le> (if selfName = [] then 0 else 7)"
proof -
  obtain out n where "wm_peers_loop scans selfName zero_seat 0 0 = (out, n)"
    by (cases "wm_peers_loop scans selfName zero_seat 0 0")
  from wm_peers_loop_yields [OF this] this show ?thesis by (simp add: WmPeers_def)
qed

end
