(* ===== verification/History.thy ===== *)
theory History
  imports Prelude
begin

text \<open>
  Navigation histories. Two components keep one: each tab of the window manager's strip
  (\<^verbatim>\<open>user/go/gotabwm/tabs.go\<close>, fixed arrays of eight 24-byte paths, evicting the oldest) and the
  browser (\<^verbatim>\<open>user/go/browser/history.go\<close>, an unbounded slice). Both promise the same thing: a
  cursor in a list of entries, back and forward move it, a new visit drops what lay ahead and
  appends. The locale \<open>visit_history\<close> states that promise; both implementations interpret it.
\<close>

subsection \<open>The seat's per-tab history\<close>

abbreviation (input) navHistMax :: nat where "navHistMax \<equiv> 8"
abbreviation (input) navPathMax :: nat where "navPathMax \<equiv> 24"

text \<open>The \<^verbatim>\<open>navHist\<close>, \<^verbatim>\<open>navLen\<close>, \<^verbatim>\<open>navCount\<close> and \<^verbatim>\<open>navPos\<close> fields of \<^verbatim>\<open>Tab\<close>.\<close>

record nav =
  nav_hist :: "bytes list"
  nav_len :: "nat list"
  nav_count :: nat
  nav_pos :: nat

definition nav_zero :: nav where
  "nav_zero = \<lparr>nav_hist = replicate navHistMax (replicate navPathMax 0),
     nav_len = replicate navHistMax 0, nav_count = 0, nav_pos = 0\<rparr>"

definition navEntry :: "nav \<Rightarrow> nat \<Rightarrow> string" where
  "navEntry t i = string_of (take (nav_len t ! i) (nav_hist t ! i))"

definition navSet :: "nav \<Rightarrow> nat \<Rightarrow> string \<Rightarrow> nav" where
  "navSet t i path =
     (let n = (if length path > navPathMax then navPathMax else length path)
      in t\<lparr>nav_hist := (nav_hist t)[i := go_copy (nav_hist t ! i) (bytes_of (take n path))],
           nav_len := (nav_len t)[i := n]\<rparr>)"

text \<open>The shift at the cap moves the paths and their lengths together.\<close>

definition nav_evict :: "nav \<Rightarrow> nav" where
  "nav_evict t =
     (if nav_count t = navHistMax
      then t\<lparr>nav_hist := shift_down (nav_hist t) 0 navHistMax,
             nav_len := shift_down (nav_len t) 0 navHistMax,
             nav_count := navHistMax - 1\<rparr>
      else t)"

definition navRecord :: "nav \<Rightarrow> string \<Rightarrow> bool \<times> nav" where
  "navRecord t path =
     (if path = [] then (False, t)
      else if nav_count t > 0 \<and> navEntry t (nav_pos t) = path then (False, t)
      else
        let t1 = (if nav_count t \<noteq> 0 then t\<lparr>nav_count := nav_pos t + 1\<rparr> else t);
            t2 = nav_evict t1;
            t3 = navSet t2 (nav_count t2) path;
            t4 = t3\<lparr>nav_count := nav_count t3 + 1\<rparr>
        in (True, t4\<lparr>nav_pos := nav_count t4 - 1\<rparr>))"

definition canNavBack :: "nav \<Rightarrow> bool" where
  "canNavBack t \<longleftrightarrow> nav_count t > 0 \<and> nav_pos t > 0"

definition canNavForward :: "nav \<Rightarrow> bool" where
  "canNavForward t \<longleftrightarrow> nav_pos t + 1 < nav_count t"

definition navBack :: "nav \<Rightarrow> string option \<times> nav" where
  "navBack t =
     (if \<not> canNavBack t then (None, t)
      else let t' = t\<lparr>nav_pos := nav_pos t - 1\<rparr> in (Some (navEntry t' (nav_pos t')), t'))"

definition navForward :: "nav \<Rightarrow> string option \<times> nav" where
  "navForward t =
     (if \<not> canNavForward t then (None, t)
      else let t' = t\<lparr>nav_pos := nav_pos t + 1\<rparr> in (Some (navEntry t' (nav_pos t')), t'))"

text \<open>Well-formedness: the array shapes, the bounds, and a cursor inside the used part.\<close>

definition wf_nav :: "nav \<Rightarrow> bool" where
  "wf_nav t \<longleftrightarrow>
     length (nav_hist t) = navHistMax \<and> length (nav_len t) = navHistMax
     \<and> (\<forall>h \<in> set (nav_hist t). length h = navPathMax) \<and> (\<forall>n \<in> set (nav_len t). n \<le> navPathMax)
     \<and> nav_count t \<le> navHistMax
     \<and> (if nav_count t = 0 then nav_pos t = 0 else nav_pos t < nav_count t)"

definition nav_entries :: "nav \<Rightarrow> string list" where
  "nav_entries t = map (navEntry t) [0..<nav_count t]"

subsection \<open>The browser's history\<close>

record br_entry =
  br_target :: string
  br_title :: string

record br_history =
  br_entries :: "br_entry list"
  br_pos :: int

definition newHistory :: br_history where
  "newHistory = \<lparr>br_entries = [], br_pos = -1\<rparr>"

definition br_current :: "br_history \<Rightarrow> br_entry option" where
  "br_current h =
     (if br_pos h < 0 \<or> br_pos h \<ge> int (length (br_entries h)) then None
      else Some (br_entries h ! nat (br_pos h)))"

definition br_push :: "br_history \<Rightarrow> br_entry \<Rightarrow> br_history" where
  "br_push h e =
     (let h1 = (if br_pos h + 1 < int (length (br_entries h))
                then h\<lparr>br_entries := take (nat (br_pos h + 1)) (br_entries h)\<rparr> else h)
      in if br_pos h1 \<ge> 0 \<and> br_target (br_entries h1 ! nat (br_pos h1)) = br_target e
         then (if br_title e \<noteq> []
               then h1\<lparr>br_entries := (br_entries h1)[nat (br_pos h1) :=
                      (br_entries h1 ! nat (br_pos h1))\<lparr>br_title := br_title e\<rparr>]\<rparr>
               else h1)
         else let es = br_entries h1 @ [e]
              in h1\<lparr>br_entries := es, br_pos := int (length es) - 1\<rparr>)"

definition br_replace :: "br_history \<Rightarrow> br_entry \<Rightarrow> br_history" where
  "br_replace h e =
     (if br_pos h < 0 \<or> br_pos h \<ge> int (length (br_entries h)) then br_push h e
      else h\<lparr>br_entries := (br_entries h)[nat (br_pos h) := e]\<rparr>)"

definition canBack :: "br_history \<Rightarrow> bool" where
  "canBack h \<longleftrightarrow> br_pos h > 0"

definition canForward :: "br_history \<Rightarrow> bool" where
  "canForward h \<longleftrightarrow> br_pos h \<ge> 0 \<and> br_pos h + 1 < int (length (br_entries h))"

definition br_back :: "br_history \<Rightarrow> br_entry option \<times> br_history" where
  "br_back h =
     (if \<not> canBack h then (None, h)
      else let h' = h\<lparr>br_pos := br_pos h - 1\<rparr> in (Some (br_entries h' ! nat (br_pos h')), h'))"

definition br_forward :: "br_history \<Rightarrow> br_entry option \<times> br_history" where
  "br_forward h =
     (if \<not> canForward h then (None, h)
      else let h' = h\<lparr>br_pos := br_pos h + 1\<rparr> in (Some (br_entries h' ! nat (br_pos h')), h'))"

definition wf_br :: "br_history \<Rightarrow> bool" where
  "wf_br h \<longleftrightarrow>
     (if br_entries h = [] then br_pos h = -1
      else 0 \<le> br_pos h \<and> br_pos h < int (length (br_entries h)))"

subsection \<open>What a history promises\<close>

text \<open>
  \<open>fresh\<close> says that a visit is a new navigation, \<open>clip\<close> is what the store keeps of a path. A fresh
  visit keeps the entries up to the cursor, drops the ones ahead, appends the new one and may evict
  from the front, but never the entry it navigated away from.
\<close>

locale visit_history =
  fixes invar :: "'h \<Rightarrow> bool"
    and entries :: "'h \<Rightarrow> 'e list"
    and cursor :: "'h \<Rightarrow> nat"
    and fresh :: "'p \<Rightarrow> 'h \<Rightarrow> bool"
    and clip :: "'p \<Rightarrow> 'e"
    and visit :: "'p \<Rightarrow> 'h \<Rightarrow> 'h"
    and go_back :: "'h \<Rightarrow> 'e option \<times> 'h"
    and go_forward :: "'h \<Rightarrow> 'e option \<times> 'h"
  assumes cursor_bound: "invar h \<Longrightarrow> entries h \<noteq> [] \<Longrightarrow> cursor h < length (entries h)"
    and invar_visit: "invar h \<Longrightarrow> invar (visit p h)"
    and invar_back: "invar h \<Longrightarrow> invar (snd (go_back h))"
    and invar_forward: "invar h \<Longrightarrow> invar (snd (go_forward h))"
    and visit_entries: "invar h \<Longrightarrow> fresh p h \<Longrightarrow>
      \<exists>k. (entries h = [] \<longrightarrow> k = 0) \<and> (entries h \<noteq> [] \<longrightarrow> k \<le> cursor h) \<and>
          entries (visit p h) = drop k (take (cursor h + 1) (entries h)) @ [clip p]"
    and visit_cursor: "invar h \<Longrightarrow> fresh p h \<Longrightarrow>
      cursor (visit p h) = length (entries (visit p h)) - 1"
    and back_spec: "invar h \<Longrightarrow>
      (if entries h \<noteq> [] \<and> cursor h > 0
       then fst (go_back h) = Some (entries h ! (cursor h - 1)) \<and>
            cursor (snd (go_back h)) = cursor h - 1 \<and> entries (snd (go_back h)) = entries h
       else go_back h = (None, h))"
    and forward_spec: "invar h \<Longrightarrow>
      (if cursor h + 1 < length (entries h)
       then fst (go_forward h) = Some (entries h ! (cursor h + 1)) \<and>
            cursor (snd (go_forward h)) = cursor h + 1 \<and> entries (snd (go_forward h)) = entries h
       else go_forward h = (None, h))"
begin

text \<open>Back then forward is where we started, and the other way round.\<close>

lemma back_then_forward:
  assumes "invar h" and "fst (go_back h) = Some e"
  shows "fst (go_forward (snd (go_back h))) = Some (entries h ! cursor h)
    \<and> cursor (snd (go_forward (snd (go_back h)))) = cursor h
    \<and> entries (snd (go_forward (snd (go_back h)))) = entries h"
proof -
  let ?b = "snd (go_back h)"
  have c: "entries h \<noteq> [] \<and> cursor h > 0" using assms back_spec [OF assms(1)] by (auto split: if_splits)
  then have b: "cursor ?b = cursor h - 1" "entries ?b = entries h"
    using back_spec [OF assms(1)] by auto
  have "cursor ?b + 1 < length (entries ?b)" using b c cursor_bound [OF assms(1)] by auto
  then show ?thesis using forward_spec [OF invar_back [OF assms(1)]] b c by auto
qed

text \<open>A visit can be undone: back returns to the entry it navigated away from.\<close>

lemma visit_then_back:
  assumes "invar h" and "fresh p h" and "entries h \<noteq> []"
  shows "fst (go_back (visit p h)) = Some (entries h ! cursor h)"
proof -
  obtain k where k: "k \<le> cursor h"
    and es: "entries (visit p h) = drop k (take (cursor h + 1) (entries h)) @ [clip p]"
    using visit_entries [OF assms(1,2)] assms(3) by auto
  have cb: "cursor h < length (entries h)" using cursor_bound assms(1,3) by simp
  let ?kept = "drop k (take (cursor h + 1) (entries h))"
  have len: "length ?kept = cursor h + 1 - k" using cb by simp
  have cur: "cursor (visit p h) = cursor h + 1 - k"
    using visit_cursor [OF assms(1,2)] es len by simp
  have "(?kept @ [clip p]) ! (cursor h + 1 - k - 1) = entries h ! cursor h"
    using k cb len by (auto simp: nth_append)
  then show ?thesis
    using back_spec [OF invar_visit [OF assms(1)], of p] es cur k by auto
qed

text \<open>A visit leaves nothing ahead.\<close>

lemma visit_no_forward:
  assumes "invar h" and "fresh p h"
  shows "go_forward (visit p h) = (None, visit p h)"
proof -
  have "entries (visit p h) \<noteq> []" using visit_entries [OF assms] by auto
  then have "\<not> cursor (visit p h) + 1 < length (entries (visit p h))"
    using visit_cursor [OF assms] by simp
  then show ?thesis using forward_spec [OF invar_visit [OF assms(1)], of p] by auto
qed

text \<open>The current entry after a visit is the one visited.\<close>

lemma visit_current:
  assumes "invar h" and "fresh p h"
  shows "entries (visit p h) ! cursor (visit p h) = clip p"
  using visit_entries [OF assms] visit_cursor [OF assms] by (auto simp: nth_append)

end

subsection \<open>The seat's history keeps the promise\<close>

lemma navEntry_count_upd [simp]:
  "navEntry (t\<lparr>nav_count := n\<rparr>) i = navEntry t i" "navEntry (t\<lparr>nav_pos := n\<rparr>) i = navEntry t i"
  by (simp_all add: navEntry_def)

lemma nav_entries_pos_upd [simp]: "nav_entries (t\<lparr>nav_pos := n\<rparr>) = nav_entries t"
  by (simp add: nav_entries_def)

lemma length_nav_entries [simp]: "length (nav_entries t) = nav_count t"
  by (simp add: nav_entries_def)

lemma nth_nav_entries: "i < nav_count t \<Longrightarrow> nav_entries t ! i = navEntry t i"
  by (simp add: nav_entries_def)

lemma nav_entries_truncate: "n \<le> nav_count t \<Longrightarrow> nav_entries (t\<lparr>nav_count := n\<rparr>) = take n (nav_entries t)"
  by (simp add: nav_entries_def take_map)

lemma wf_nav_zero [simp]: "wf_nav nav_zero"
  by (simp add: wf_nav_def nav_zero_def)

lemma wf_nav_evict: "wf_nav t \<Longrightarrow> nav_count t = nav_pos t + 1 \<or> nav_count t = 0 \<Longrightarrow>
    nav_count (nav_evict t) < navHistMax \<and> length (nav_hist (nav_evict t)) = navHistMax \<and>
    length (nav_len (nav_evict t)) = navHistMax \<and>
    (\<forall>h \<in> set (nav_hist (nav_evict t)). length h = navPathMax) \<and>
    (\<forall>n \<in> set (nav_len (nav_evict t)). n \<le> navPathMax)"
  by (auto simp: wf_nav_def nav_evict_def all_set_conv_all_nth nth_shift_down split: if_splits)

lemma nav_entries_evict:
  assumes "wf_nav t"
  shows "nav_entries (nav_evict t) =
    (if nav_count t = navHistMax then tl (nav_entries t) else nav_entries t)"
proof (cases "nav_count t = navHistMax")
  case True
  have "nav_entries (nav_evict t) = map (\<lambda>i. navEntry t (i + 1)) [0..<7]"
    using assms True by (auto simp: nav_entries_def nav_evict_def navEntry_def wf_nav_def nth_shift_down)
  also have "\<dots> = tl (nav_entries t)"
    using True by (simp add: nav_entries_def upt_rec)
  finally show ?thesis using True by simp
qed (simp add: nav_evict_def)

lemma navEntry_navSet:
  assumes "i < length (nav_hist t)" "i < length (nav_len t)" "length (nav_hist t ! i) = navPathMax"
  shows "navEntry (navSet t i p) j = (if j = i then take navPathMax p else navEntry t j)"
proof (cases "j = i")
  case True
  let ?q = "bytes_of (take navPathMax p)"
  have "length ?q = min (length p) 24" by simp
  then have "take (min (length p) 24) (go_copy (nav_hist t ! i) ?q) = ?q"
    using take_go_copy [of ?q "nav_hist t ! i"] assms(3) by simp
  then show ?thesis
    using True assms
    by (auto simp: navSet_def navEntry_def Let_def min_def split: if_splits)
qed (simp add: navSet_def navEntry_def Let_def)

lemma navSet_shape [simp]:
  "nav_count (navSet t i p) = nav_count t" "nav_pos (navSet t i p) = nav_pos t"
  "length (nav_hist (navSet t i p)) = length (nav_hist t)"
  "length (nav_len (navSet t i p)) = length (nav_len t)"
  by (simp_all add: navSet_def Let_def)

definition nav_fresh :: "string \<Rightarrow> nav \<Rightarrow> bool" where
  "nav_fresh p t \<longleftrightarrow> p \<noteq> [] \<and> (nav_entries t = [] \<or> nav_entries t ! nav_pos t \<noteq> p)"

definition nav_visit :: "string \<Rightarrow> nav \<Rightarrow> nav" where
  "nav_visit p t = snd (navRecord t p)"

lemma navRecord_fst: "wf_nav t \<Longrightarrow> fst (navRecord t p) \<longleftrightarrow> nav_fresh p t"
  by (auto simp: navRecord_def nav_fresh_def wf_nav_def nth_nav_entries Let_def nav_entries_def)

text \<open>A fresh visit, step by step: cut at the cursor, evict at the cap, append.\<close>

lemma nav_visit_fresh:
  assumes wf: "wf_nav t" and fr: "nav_fresh p t"
  defines "kept \<equiv> take (nav_pos t + 1) (nav_entries t)"
  shows "nav_entries (nav_visit p t) = drop (length kept div navHistMax) kept @ [take navPathMax p]"
    and "nav_pos (nav_visit p t) = nav_count (nav_visit p t) - 1"
    and "wf_nav (nav_visit p t)"
proof -
  define t1 where "t1 = (if nav_count t \<noteq> 0 then t\<lparr>nav_count := nav_pos t + 1\<rparr> else t)"
  define t2 where "t2 = nav_evict t1"
  define t3 where "t3 = navSet t2 (nav_count t2) p"
  have wf1: "wf_nav t1" and c1: "nav_count t1 = nav_pos t1 + 1 \<or> nav_count t1 = 0"
    using wf by (auto simp: t1_def wf_nav_def split: if_splits)
  have e1: "nav_entries t1 = kept"
    using wf nav_entries_truncate [of "nav_pos t + 1" t] length_0_conv [of "nav_entries t"]
    by (cases "nav_count t = 0") (auto simp: t1_def kept_def wf_nav_def)
  have e2: "nav_entries t2 = drop (length kept div navHistMax) kept"
  proof -
    have lk: "length kept = nav_count t1" using e1 by (metis length_nav_entries)
    then have "length kept \<le> 8" using wf1 by (simp add: wf_nav_def)
    then show ?thesis
      using nav_entries_evict [OF wf1] e1 lk
      by (cases "length kept = 8") (auto simp: t2_def drop_Suc)
  qed
  note sh = wf_nav_evict [OF wf1 c1, folded t2_def]
  then have i: "nav_count t2 < length (nav_hist t2)" "nav_count t2 < length (nav_len t2)"
    "length (nav_hist t2 ! nav_count t2) = navPathMax" by auto
  have e3: "map (navEntry t3) [0..<nav_count t2 + 1] = nav_entries t2 @ [take navPathMax p]"
    using navEntry_navSet [OF i] by (auto simp: t3_def nav_entries_def)
  have rec: "nav_visit p t = t3\<lparr>nav_count := nav_count t2 + 1, nav_pos := nav_count t2\<rparr>"
    using fr navRecord_fst [OF wf, of p]
    by (auto simp: nav_visit_def navRecord_def t1_def t2_def t3_def Let_def split: if_splits)
  have "navEntry (nav_visit p t) = navEntry t3" by (rule ext) (simp add: rec)
  then have "nav_entries (nav_visit p t) = map (navEntry t3) [0..<nav_count t2 + 1]"
    by (simp add: nav_entries_def) (simp add: rec)
  then show "nav_entries (nav_visit p t) = drop (length kept div navHistMax) kept @ [take navPathMax p]"
    unfolding e3 e2 .
  show "nav_pos (nav_visit p t) = nav_count (nav_visit p t) - 1" by (simp add: rec)
  have l3: "length (nav_hist t3) = 8" "length (nav_len t3) = 8" using sh by (simp_all add: t3_def)
  have "\<forall>h \<in> set (nav_hist t3). length h = 24" "\<forall>n \<in> set (nav_len t3). n \<le> 24"
    using sh i by (auto simp: t3_def navSet_def Let_def dest!: set_update_subset_insert [THEN subsetD])
  then show "wf_nav (nav_visit p t)" using l3 sh by (simp add: rec wf_nav_def)
qed

lemma nav_visit_stale: "wf_nav t \<Longrightarrow> \<not> nav_fresh p t \<Longrightarrow> nav_visit p t = t"
  using navRecord_fst [of t p] by (auto simp: nav_visit_def navRecord_def Let_def split: if_splits)

interpretation seat_nav: visit_history wf_nav nav_entries nav_pos nav_fresh "take navPathMax"
  nav_visit navBack navForward
proof unfold_locales
  fix h :: nav and p :: string
  assume wf: "wf_nav h"
  show "nav_entries h \<noteq> [] \<Longrightarrow> nav_pos h < length (nav_entries h)"
    using wf by (auto simp: wf_nav_def nav_entries_def split: if_splits)
  show "wf_nav (nav_visit p h)"
    using wf nav_visit_fresh(3) nav_visit_stale by (cases "nav_fresh p h") auto
  show "wf_nav (snd (navBack h))"
    using wf by (auto simp: navBack_def wf_nav_def canNavBack_def)
  show "wf_nav (snd (navForward h))"
    using wf by (auto simp: navForward_def wf_nav_def canNavForward_def)
  show "if nav_entries h \<noteq> [] \<and> 0 < nav_pos h
    then fst (navBack h) = Some (nav_entries h ! (nav_pos h - 1)) \<and>
         nav_pos (snd (navBack h)) = nav_pos h - 1 \<and> nav_entries (snd (navBack h)) = nav_entries h
    else navBack h = (None, h)"
    using wf by (auto simp: navBack_def canNavBack_def wf_nav_def Let_def nth_nav_entries
        nav_entries_def split: if_splits)
  show "if nav_pos h + 1 < length (nav_entries h)
    then fst (navForward h) = Some (nav_entries h ! (nav_pos h + 1)) \<and>
         nav_pos (snd (navForward h)) = nav_pos h + 1 \<and>
         nav_entries (snd (navForward h)) = nav_entries h
    else navForward h = (None, h)"
    using wf by (auto simp: navForward_def canNavForward_def Let_def nth_nav_entries)
  assume fr: "nav_fresh p h"
  let ?kept = "take (nav_pos h + 1) (nav_entries h)"
  have lk: "length ?kept \<le> 8" "nav_entries h \<noteq> [] \<Longrightarrow> length ?kept = nav_pos h + 1"
    using wf by (auto simp: wf_nav_def nav_entries_def split: if_splits)
  then have "length ?kept div 8 = (if length ?kept = 8 then 1 else 0)" by auto
  then show "\<exists>k. (nav_entries h = [] \<longrightarrow> k = 0) \<and> (nav_entries h \<noteq> [] \<longrightarrow> k \<le> nav_pos h) \<and>
      nav_entries (nav_visit p h) = drop k ?kept @ [take navPathMax p]"
    using nav_visit_fresh(1) [OF wf fr] lk
    by (intro exI [of _ "length ?kept div 8"]) (auto split: if_splits)
  show "nav_pos (nav_visit p h) = length (nav_entries (nav_visit p h)) - 1"
    using nav_visit_fresh(2) [OF wf fr] by simp
qed

subsection \<open>So does the browser's\<close>

definition br_fresh :: "br_entry \<Rightarrow> br_history \<Rightarrow> bool" where
  "br_fresh e h \<longleftrightarrow> br_entries h = [] \<or> br_target (br_entries h ! nat (br_pos h)) \<noteq> br_target e"

lemma wf_newHistory [simp]: "wf_br newHistory"
  by (simp add: wf_br_def newHistory_def)

lemma wf_br_push: "wf_br h \<Longrightarrow> wf_br (br_push h e)"
  by (auto simp: wf_br_def br_push_def Let_def split: if_splits)

lemma wf_br_replace: "wf_br h \<Longrightarrow> wf_br (br_replace h e)"
  by (auto simp: wf_br_push br_replace_def) (auto simp: wf_br_def split: if_splits)

lemma br_push_fresh:
  assumes "wf_br h" and "br_fresh e h"
  shows "br_entries (br_push h e) = take (nat (br_pos h) + 1) (br_entries h) @ [e]"
    and "br_pos (br_push h e) = int (length (br_entries (br_push h e))) - 1"
proof -
  have nt: "br_entries h \<noteq> [] \<Longrightarrow> nat (br_pos h + 1) = nat (br_pos h) + 1"
    using assms(1) by (auto simp: wf_br_def)
  show "br_entries (br_push h e) = take (nat (br_pos h) + 1) (br_entries h) @ [e]"
    using assms nt by (cases "br_entries h = []") (auto simp: wf_br_def br_fresh_def br_push_def Let_def)
  show "br_pos (br_push h e) = int (length (br_entries (br_push h e))) - 1"
    using assms nt by (cases "br_entries h = []") (auto simp: wf_br_def br_fresh_def br_push_def Let_def)
qed

interpretation browser_nav: visit_history wf_br br_entries "\<lambda>h. nat (br_pos h)" br_fresh id
  "\<lambda>e h. br_push h e" br_back br_forward
proof unfold_locales
  fix h :: br_history and e :: br_entry
  assume wf: "wf_br h"
  show "br_entries h \<noteq> [] \<Longrightarrow> nat (br_pos h) < length (br_entries h)"
    using wf by (auto simp: wf_br_def)
  show "wf_br (br_push h e)" using wf by (rule wf_br_push)
  show "wf_br (snd (br_back h))"
    using wf by (auto simp: br_back_def wf_br_def canBack_def Let_def split: if_splits)
  show "wf_br (snd (br_forward h))"
    using wf by (auto simp: br_forward_def wf_br_def canForward_def Let_def split: if_splits)
  show "if br_entries h \<noteq> [] \<and> 0 < nat (br_pos h)
    then fst (br_back h) = Some (br_entries h ! (nat (br_pos h) - 1)) \<and>
         nat (br_pos (snd (br_back h))) = nat (br_pos h) - 1 \<and>
         br_entries (snd (br_back h)) = br_entries h
    else br_back h = (None, h)"
    using wf by (auto simp: br_back_def canBack_def wf_br_def Let_def nat_diff_distrib split: if_splits)
  show "if nat (br_pos h) + 1 < length (br_entries h)
    then fst (br_forward h) = Some (br_entries h ! (nat (br_pos h) + 1)) \<and>
         nat (br_pos (snd (br_forward h))) = nat (br_pos h) + 1 \<and>
         br_entries (snd (br_forward h)) = br_entries h
    else br_forward h = (None, h)"
    using wf by (auto simp: br_forward_def canForward_def wf_br_def Let_def nat_add_distrib split: if_splits)
  assume fr: "br_fresh e h"
  show "\<exists>k. (br_entries h = [] \<longrightarrow> k = 0) \<and> (br_entries h \<noteq> [] \<longrightarrow> k \<le> nat (br_pos h)) \<and>
      br_entries (br_push h e) = drop k (take (nat (br_pos h) + 1) (br_entries h)) @ [id e]"
    using br_push_fresh(1) [OF wf fr] by (intro exI [of _ 0]) simp
  show "nat (br_pos (br_push h e)) = length (br_entries (br_push h e)) - 1"
    using br_push_fresh [OF wf fr] by simp
qed

subsection \<open>Properties\<close>

text \<open>The entry a tab's cursor is on.\<close>

definition nav_current :: "nav \<Rightarrow> string option" where
  "nav_current t = (if nav_entries t = [] then None else Some (nav_entries t ! nav_pos t))"

lemma nav_wire_clip: "length p \<le> 24 \<Longrightarrow> take navPathMax p = p"
  by simp

text \<open>
  A tab's navigation can be undone: after an app declares a new path that fits the wire, the
  tab is on that path with nothing ahead of it, stepping back returns the path it left, and
  stepping forward again returns the new one. Declaring the same path once more changes nothing.
\<close>

theorem nav_declare_undo:
  assumes "wf_nav t" and "nav_current t = Some q" and "p \<noteq> q" "p \<noteq> []" "length p \<le> 24"
  defines "t' \<equiv> snd (navRecord t p)"
  shows "fst (navRecord t p) \<and> wf_nav t' \<and> nav_current t' = Some p
    \<and> navForward t' = (None, t') \<and> fst (navBack t') = Some q
    \<and> fst (navForward (snd (navBack t'))) = Some p \<and> navRecord t' p = (False, t')"
proof -
  have ne: "nav_entries t \<noteq> []" and q: "nav_entries t ! nav_pos t = q"
    using assms(2) by (auto simp: nav_current_def split: if_splits)
  have fr: "nav_fresh p t" using assms q ne by (simp add: nav_fresh_def)
  have t': "t' = nav_visit p t" by (simp add: t'_def nav_visit_def)
  have wf': "wf_nav t'" using seat_nav.invar_visit [OF assms(1)] t' by simp
  have bk: "fst (navBack t') = Some q"
    using seat_nav.visit_then_back [OF assms(1) fr ne] q t' by simp
  have cur: "nav_entries t' ! nav_pos t' = p" and ne': "nav_entries t' \<noteq> []"
    using seat_nav.visit_current [OF assms(1) fr] seat_nav.visit_entries [OF assms(1) fr]
      nav_wire_clip [OF assms(5)] t' by auto
  then have "\<not> nav_fresh p t'" by (simp add: nav_fresh_def)
  then have again: "navRecord t' p = (False, t')"
    using navRecord_fst [OF wf', of p] nav_visit_stale [OF wf', of p]
    by (metis nav_visit_def prod.collapse)
  show ?thesis
    using fr navRecord_fst [OF assms(1), of p] seat_nav.visit_no_forward [OF assms(1) fr]
      seat_nav.back_then_forward [OF wf' bk] bk wf' cur ne' again t'
    by (auto simp: nav_current_def t'_def)
qed

theorem nav_declare_undo_witness:
  "fst (navBack (snd (navRecord (snd (navRecord nav_zero ''/a'')) ''/b''))) = Some ''/a''"
proof -
  let ?t = "snd (navRecord nav_zero ''/a'')"
  have "wf_nav ?t" using seat_nav.invar_visit [of nav_zero "''/a''"] by (simp add: nav_visit_def)
  moreover have "nav_current ?t = Some ''/a''" by code_simp
  ultimately show ?thesis using nav_declare_undo [of ?t "''/a''" "''/b''"] by simp
qed



text \<open>
  The browser keeps the same promise: pushing a new target and going back returns to the page
  that was current, with the pushed page one step ahead.
\<close>

theorem browser_push_undo:
  assumes "wf_br h" and "br_current h = Some e" and "br_target e' \<noteq> br_target e"
  shows "br_current (br_push h e') = Some e' \<and> fst (br_back (br_push h e')) = Some e
    \<and> fst (br_forward (snd (br_back (br_push h e')))) = Some e'"
proof -
  have ne: "br_entries h \<noteq> []" and e: "br_entries h ! nat (br_pos h) = e"
    using assms(2) by (auto simp: br_current_def split: if_splits)
  have fr: "br_fresh e' h" using assms(3) e by (auto simp: br_fresh_def)
  note p = br_push_fresh [OF assms(1) fr]
  have bk: "fst (br_back (br_push h e')) = Some e"
    using browser_nav.visit_then_back [OF assms(1) fr ne] e by simp
  have cur: "br_entries (br_push h e') ! nat (br_pos (br_push h e')) = e'"
    using browser_nav.visit_current [OF assms(1) fr] by simp
  show ?thesis
    using bk cur p browser_nav.back_then_forward [OF wf_br_push [OF assms(1)] bk]
    by (auto simp: br_current_def)
qed

theorem browser_push_undo_witness:
  "fst (br_back (br_push (br_push newHistory \<lparr>br_target = ''a'', br_title = []\<rparr>)
     \<lparr>br_target = ''b'', br_title = []\<rparr>)) = Some \<lparr>br_target = ''a'', br_title = []\<rparr>"
  using browser_push_undo [of "br_push newHistory \<lparr>br_target = ''a'', br_title = []\<rparr>"
      "\<lparr>br_target = ''a'', br_title = []\<rparr>" "\<lparr>br_target = ''b'', br_title = []\<rparr>"]
  by (simp add: wf_br_push) (simp add: br_current_def br_push_def newHistory_def)

end
