(* ===== verification/Format.thy ===== *)
theory Format
  imports Prelude
begin

text \<open>
  The number formatters and the clock of the guest programs: \<^verbatim>\<open>dec\<close> (\<^verbatim>\<open>gotabwm/tabs.go\<close>),
  \<^verbatim>\<open>Itoa64\<close> (\<^verbatim>\<open>vsys/console.go\<close>), \<^verbatim>\<open>Hex6\<close> (\<^verbatim>\<open>theme/theme.go\<close>) and the clock face of the seat's
  chrome (\<^verbatim>\<open>gotabwm/chrome.go\<close>). Each fills a fixed array from its end; the model builds the same
  bytes as a list and proves that they fit the array.
\<close>

subsection \<open>Decimal\<close>

text \<open>The digit loop \<^verbatim>\<open>for v > 0 { i--; b[i] = '0' + v%10; v /= 10 }\<close>; \<open>acc\<close> is \<^verbatim>\<open>b[i:]\<close>.\<close>

fun dec_loop :: "nat \<Rightarrow> string \<Rightarrow> string" where
  "dec_loop v acc = (if v > 0 then dec_loop (v div 10) (char_of (48 + v mod 10) # acc) else acc)"

declare dec_loop.simps [simp del]

definition dec :: "u32 \<Rightarrow> string" where
  "dec v = (if v = 0 then ''0'' else dec_loop (unat v) [])"

text \<open>\<^verbatim>\<open>Itoa64\<close> on the 64-bit two's complement value; \<open>- (v + 1) + 1\<close> is formed unsigned.\<close>

definition Itoa64 :: "u64 \<Rightarrow> string" where
  "Itoa64 v =
     (if v = 0 then ''0''
      else let neg = sint v < 0;
               u = (if neg then - (v + 1) + 1 else v);
               digits = dec_loop (unat u) []
           in if neg then CHR ''-'' # digits else digits)"

text \<open>\<^verbatim>\<open>vi.Itoa64(int64(id))\<close> for a 32-bit id, as every marker line writes it.\<close>

definition itoa_id :: "u32 \<Rightarrow> string" where
  "itoa_id v = Itoa64 (ucast v)"

subsection \<open>Hexadecimal\<close>

definition hex_digit :: "nat \<Rightarrow> char" where
  "hex_digit n = ''0123456789abcdef'' ! n"

text \<open>\<^verbatim>\<open>Hex6\<close>: six digits, filled from the right, each the low nibble of what is left.\<close>

fun hex_loop :: "nat \<Rightarrow> u32 \<Rightarrow> string \<Rightarrow> string" where
  "hex_loop 0 v acc = acc"
| "hex_loop (Suc i) v acc = hex_loop i (drop_bit 4 v) (hex_digit (unat (v AND 0xf)) # acc)"

definition Hex6 :: "u32 \<Rightarrow> string" where
  "Hex6 v = ''0x'' @ hex_loop 6 v []"

subsection \<open>The clock face\<close>

definition isClockWS :: "u8 \<Rightarrow> bool" where
  "isClockWS c \<longleftrightarrow> c = 32 \<or> c = 9 \<or> c = 10 \<or> c = 13"

definition is_digit_byte :: "u8 \<Rightarrow> bool" where
  "is_digit_byte c \<longleftrightarrow> 48 \<le> c \<and> c \<le> 57"

text \<open>The digit loop of \<^verbatim>\<open>parseClockEpoch\<close>: at most six digits, then what is left of the input.\<close>

fun clock_digits :: "bytes \<Rightarrow> u32 \<Rightarrow> nat \<Rightarrow> (u32 \<times> nat \<times> bytes) option" where
  "clock_digits [] val digits = Some (val, digits, [])"
| "clock_digits (c # cs) val digits =
     (if is_digit_byte c then
        if digits \<ge> 6 then None
        else clock_digits cs (val * 10 + ucast (c - 48)) (digits + 1)
      else Some (val, digits, c # cs))"

definition parseClockEpoch :: "bytes \<Rightarrow> u32 option" where
  "parseClockEpoch b =
     (case clock_digits (dropWhile isClockWS b) 0 0 of
        None \<Rightarrow> None
      | Some (val, digits, rest) \<Rightarrow>
          if digits = 0 then None
          else if \<not> list_all isClockWS rest then None
          else if val \<ge> 86400 then None
          else Some val)"

definition clockHMS :: "u64 \<Rightarrow> u32 \<Rightarrow> bool \<Rightarrow> u64 \<times> u64 \<times> u64" where
  "clockHMS elapsed epoch haveEpoch =
     (let total = (if haveEpoch then (ucast epoch + elapsed) mod 86400 else elapsed);
          h = (if haveEpoch then (total div 3600) mod 24 else total div 3600)
      in (h, (total div 60) mod 60, total mod 60))"

definition put2 :: "int \<Rightarrow> string" where
  "put2 v = (let v = (if v < 0 then 0 else v); v = (if v > 99 then 99 else v)
             in [char_of (48 + nat v div 10), char_of (48 + nat v mod 10)])"

definition formatClock :: "int \<Rightarrow> int \<Rightarrow> int \<Rightarrow> string" where
  "formatClock h m s = put2 h @ '':'' @ put2 m @ '':'' @ put2 s"

datatype clock_source = ClockKernel | ClockHost | ClockUptime

text \<open>
  \<^verbatim>\<open>clockNow\<close>: the kernel epoch, else the host's \<^verbatim>\<open>.clock\<close> file, else uptime. \<open>now\<close> is the result of
  \<^verbatim>\<open>vi.Time()\<close>, \<open>clockfile\<close> the bytes of the file when it could be read.
\<close>

definition kernelEpoch :: "int \<Rightarrow> u32 option" where
  "kernelEpoch now = (if now \<le> 0 then None else Some (word_of_int (now mod 86400)))"

definition clockNow :: "int \<Rightarrow> bytes option \<Rightarrow> u64 \<Rightarrow> (u64 \<times> u64 \<times> u64) \<times> clock_source" where
  "clockNow now clockfile ticks =
     (case kernelEpoch now of
        Some ep \<Rightarrow> (clockHMS 0 ep True, ClockKernel)
      | None \<Rightarrow>
          (case Option.bind clockfile parseClockEpoch of
             Some ep \<Rightarrow> (clockHMS ticks ep True, ClockHost)
           | None \<Rightarrow> (clockHMS ticks 0 False, ClockUptime)))"

subsection \<open>The decimal formatters are right\<close>

lemma dec_loop_append: "dec_loop v acc = dec_loop v [] @ acc"
proof (induction v arbitrary: acc rule: less_induct)
  case (less v)
  show ?case
  proof (cases "v > 0")
    case True
    then have lt: "v div 10 < v" by simp
    have "dec_loop v acc = dec_loop (v div 10) [] @ char_of (48 + v mod 10) # acc"
      using True less [OF lt, of "char_of (48 + v mod 10) # acc"] by (simp add: dec_loop.simps [of v acc])
    moreover have "dec_loop v [] = dec_loop (v div 10) [] @ [char_of (48 + v mod 10)]"
      using True less [OF lt, of "[char_of (48 + v mod 10)]"] by (simp add: dec_loop.simps [of v "[]"])
    ultimately show ?thesis by simp
  next
    case False
    then show ?thesis by (simp add: dec_loop.simps)
  qed
qed

lemma dec_loop_dec_nat: "v > 0 \<Longrightarrow> dec_loop v [] = dec_nat v"
proof (induction v rule: less_induct)
  case (less v)
  have unf: "dec_loop v [] = dec_loop (v div 10) [] @ [char_of (48 + v mod 10)]"
    using less.prems dec_loop_append [of "v div 10" "[char_of (48 + v mod 10)]"]
    by (simp add: dec_loop.simps [of v "[]"])
  show ?case
  proof (cases "v < 10")
    case True
    then show ?thesis using unf by (simp add: dec_nat.simps [of v] dec_loop.simps [of 0])
  next
    case False
    then have "dec_loop (v div 10) [] = dec_nat (v div 10)" using less by simp
    then show ?thesis using unf False by (simp add: dec_nat.simps [of v])
  qed
qed

lemma dec_nat_0: "dec_nat 0 = ''0''"
  by code_simp

lemma dec_eq: "dec v = dec_nat (unat v)"
proof (cases "v = 0")
  case True
  then show ?thesis by (simp add: dec_def dec_nat_0)
next
  case False
  then have "unat v > 0" by (simp add: unat_gt_0)
  then show ?thesis using False by (simp add: dec_def dec_loop_dec_nat)
qed

lemma length_dec_nat: "n < 10 ^ k \<Longrightarrow> k > 0 \<Longrightarrow> length (dec_nat n) \<le> k"
proof (induction k arbitrary: n)
  case (Suc k)
  show ?case
  proof (cases "n < 10")
    case True
    then show ?thesis by (simp add: dec_nat.simps [of n])
  next
    case False
    then have "k > 0" using Suc.prems by (cases k) auto
    moreover have "n div 10 < 10 ^ k" using Suc.prems by (simp add: less_mult_imp_div_less mult.commute)
    ultimately have "length (dec_nat (n div 10)) \<le> k" using Suc.IH by blast
    then show ?thesis using False by (simp add: dec_nat.simps [of n])
  qed
qed simp

lemma Itoa64_eq:
  "Itoa64 v = (if sint v < 0 then CHR ''-'' # dec_nat (nat (- sint v)) else dec_nat (nat (sint v)))"
proof -
  have v: "v = word_of_int (sint v)" by simp
  have b: "- (2 ^ 63) \<le> sint v" "sint v < 2 ^ 63"
    using sint_greater_eq [of v] sint_less [of v] by simp_all
  have "uint (- v) = (- sint v) mod 2 ^ 64"
    by (subst v) (simp only: uint_word_of_int flip: of_int_minus, simp)
  then have neg: "unat (- v) = nat (- sint v)" if "sint v < 0"
    using that b by (simp add: unat_eq_nat_uint)
  have "uint v = sint v mod 2 ^ 64"
    by (subst v) (simp only: uint_word_of_int, simp)
  then have pos: "unat v = nat (sint v)" if "\<not> sint v < 0"
    using that b by (simp add: unat_eq_nat_uint)
  show ?thesis
  proof (cases "v = 0")
    case True
    then show ?thesis by (simp add: Itoa64_def dec_nat_0)
  next
    case False
    then have "unat v > 0" by (simp add: unat_gt_0)
    then show ?thesis
      using False pos neg by (auto simp: Itoa64_def Let_def dec_loop_dec_nat)
  qed
qed

lemma itoa_id_eq [simp]: "itoa_id v = dec_nat (unat v)"
proof -
  have u: "0 \<le> uint v" "uint v < 2 ^ 32" using unsigned_less [of v, where ?'a = int] by simp_all
  then have "uint (ucast v :: u64) = uint v"
    by (simp add: unsigned_ucast_eq take_bit_int_eq_self)
  moreover have "signed_take_bit 63 (uint v) = uint v"
  proof (rule signed_take_bit_int_eq_self)
    show "- (2 ^ 63) \<le> uint v" by (rule order_trans [OF _ u(1)]) simp
    show "uint v < 2 ^ 63" by (rule less_trans [OF u(2)]) simp
  qed
  ultimately have "sint (ucast v :: u64) = uint v" by (subst sint_uint) simp
  then show ?thesis by (simp add: itoa_id_def Itoa64_eq)
qed

subsection \<open>Properties\<close>

text \<open>
  \<^verbatim>\<open>Itoa64\<close> prints every 64-bit value right, the most negative included: reading back its digits
  gives the magnitude, the sign is there exactly for negative values, and the text fits the
  20-byte buffer.
\<close>

theorem Itoa64_correct:
  "(if sint v < 0 then \<exists>ds. Itoa64 v = CHR ''-'' # ds \<and> int (undec ds) = - sint v
    else int (undec (Itoa64 v)) = sint v) \<and> length (Itoa64 v) \<le> 20"
proof -
  have b: "- (2 ^ 63) \<le> sint v" "sint v < 2 ^ 63"
    using sint_greater_eq [of v] sint_less [of v] by simp_all
  have "length (dec_nat (nat (\<bar>sint v\<bar>))) \<le> 19"
    using b by (intro length_dec_nat) auto
  then show ?thesis using b by (auto simp: Itoa64_eq abs_if)
qed

end
