(* ===== verification/Geometry.thy ===== *)
theory Geometry
  imports Prelude
begin

text \<open>
  The pure geometry of the seat: the two-pane split and its draggable sash (\<^verbatim>\<open>gotabwm/tabs.go\<close>),
  the rail's cells and close zones (\<^verbatim>\<open>gotabwm/hid.go\<close>), the clock panel and the start surface
  (\<^verbatim>\<open>gotabwm/chrome.go\<close>) and the stack of toasts (\<^verbatim>\<open>gotabwm/notify.go\<close>). Scanout sizes and rectangles
  are 32-bit as in the code, the divider and the panel arithmetic is in Go's signed \<^verbatim>\<open>int\<close>.
\<close>

subsection \<open>Rectangles and the split\<close>

record rect =
  rect_X :: u32
  rect_Y :: u32
  rect_W :: u32
  rect_H :: u32

definition mk_rect :: "u32 \<Rightarrow> u32 \<Rightarrow> u32 \<Rightarrow> u32 \<Rightarrow> rect" where
  "mk_rect x y w h = \<lparr>rect_X = x, rect_Y = y, rect_W = w, rect_H = h\<rparr>"

datatype split_kind = SplitNone | SplitHoriz | SplitVert

fun split_String :: "split_kind \<Rightarrow> string" where
  "split_String SplitHoriz = ''h''"
| "split_String SplitVert = ''v''"
| "split_String SplitNone = ''none''"

abbreviation (input) PaneMinW :: u32 where "PaneMinW \<equiv> 160"
abbreviation (input) PaneMinH :: u32 where "PaneMinH \<equiv> 120"
abbreviation (input) SashWidth :: int where "SashWidth \<equiv> 6"
abbreviation (input) sash_half :: int where "sash_half \<equiv> 3"
abbreviation (input) RailHeight :: int where "RailHeight \<equiv> 22"

definition FullRect :: "u32 \<Rightarrow> u32 \<Rightarrow> rect" where
  "FullRect scanW scanH = mk_rect 0 0 scanW scanH"

definition SplitRects :: "split_kind \<Rightarrow> u32 \<Rightarrow> u32 \<Rightarrow> (rect \<times> rect) option" where
  "SplitRects kind scanW scanH =
     (case kind of
        SplitNone \<Rightarrow> Some (FullRect scanW scanH, FullRect scanW scanH)
      | SplitVert \<Rightarrow>
          let left = scanW div 2; right = scanW - left
          in if left < PaneMinW \<or> right < PaneMinW \<or> scanH < PaneMinH then None
             else Some (mk_rect 0 0 left scanH, mk_rect left 0 right scanH)
      | SplitHoriz \<Rightarrow>
          let top = scanH div 2; bot = scanH - top
          in if scanW < PaneMinW \<or> top < PaneMinH \<or> bot < PaneMinH then None
             else Some (mk_rect 0 0 scanW top, mk_rect 0 top scanW bot))"

definition clampSash :: "split_kind \<Rightarrow> int \<Rightarrow> u32 \<Rightarrow> u32 \<Rightarrow> int" where
  "clampSash kind pos scanW scanH =
     (case kind of
        SplitVert \<Rightarrow>
          let lo = uint PaneMinW + sash_half; hi = uint scanW - uint PaneMinW - sash_half
          in if hi < lo then 0 else if pos < lo then lo else if pos > hi then hi else pos
      | SplitHoriz \<Rightarrow>
          let lo = uint PaneMinH + sash_half; hi = uint scanH - uint PaneMinH - sash_half
          in if hi < lo then 0 else if pos < lo then lo else if pos > hi then hi else pos
      | SplitNone \<Rightarrow> 0)"

definition SplitRectsSash :: "split_kind \<Rightarrow> u32 \<Rightarrow> u32 \<Rightarrow> int \<Rightarrow> (rect \<times> rect) option" where
  "SplitRectsSash kind scanW scanH sash =
     (if kind = SplitNone then Some (FullRect scanW scanH, FullRect scanW scanH)
      else if sash \<le> 0 then SplitRects kind scanW scanH
      else
        let c = clampSash kind sash scanW scanH in
        if c \<le> 0 then None
        else if kind = SplitVert then
          let lw = c - sash_half; rx = c + sash_half; rw = uint scanW - rx
          in if lw < uint PaneMinW \<or> rw < uint PaneMinW \<or> scanH < PaneMinH then None
             else Some (mk_rect 0 0 (word_of_int lw) scanH,
                        mk_rect (word_of_int rx) 0 (word_of_int rw) scanH)
        else
          let th = c - sash_half; by = c + sash_half; bh = uint scanH - by
          in if scanW < PaneMinW \<or> th < uint PaneMinH \<or> bh < uint PaneMinH then None
             else Some (mk_rect 0 0 scanW (word_of_int th),
                        mk_rect 0 (word_of_int by) scanW (word_of_int bh)))"

definition sashZoneAt :: "u32 \<Rightarrow> u32 \<Rightarrow> split_kind \<Rightarrow> int \<Rightarrow> int \<Rightarrow> int \<Rightarrow> bool" where
  "sashZoneAt px py kind center scanW scanH =
     (if center < 0 \<or> scanW \<le> 0 \<or> scanH \<le> 0 then False
      else if py < word_of_int RailHeight \<or> uint py + 22 > scanH then False
      else case kind of
        SplitVert \<Rightarrow> if uint px \<ge> scanW then False
          else let d = uint px - center in d \<ge> - sash_half \<and> d \<le> sash_half
      | SplitHoriz \<Rightarrow> if uint px \<ge> scanW then False
          else let d = uint py - center in d \<ge> - sash_half \<and> d \<le> sash_half
      | SplitNone \<Rightarrow> False)"

definition uabs :: "u32 \<Rightarrow> u32 \<Rightarrow> u32" where
  "uabs a b = (if a > b then a - b else b - a)"

definition rectsWithin :: "rect \<Rightarrow> rect \<Rightarrow> u32 \<Rightarrow> bool" where
  "rectsWithin a b tol \<longleftrightarrow> uabs (rect_X a) (rect_X b) \<le> tol \<and> uabs (rect_Y a) (rect_Y b) \<le> tol
     \<and> uabs (rect_W a) (rect_W b) \<le> tol \<and> uabs (rect_H a) (rect_H b) \<le> tol"

subsection \<open>The rail\<close>

text \<open>The cell width \<^verbatim>\<open>paintRail\<close>, \<^verbatim>\<open>railCellAt\<close> and \<^verbatim>\<open>railCloseZoneAt\<close> all compute.\<close>

definition rail_cellW :: "int \<Rightarrow> int \<Rightarrow> int" where
  "rail_cellW width n = (let cellW = width div n in if cellW < 48 then 48 else cellW)"

definition railCellAt :: "u32 \<Rightarrow> u32 \<Rightarrow> int \<Rightarrow> int \<Rightarrow> int \<Rightarrow> int option" where
  "railCellAt px py width n stripH =
     (if n \<le> 0 \<or> width \<le> 0 \<or> stripH \<le> 0 \<or> py \<ge> word_of_int stripH then None
      else let i = uint px div rail_cellW width n in
           if i < 0 then None else Some (if i \<ge> n then n - 1 else i))"

abbreviation (input) railCloseW :: int where "railCloseW \<equiv> 16"

definition railCloseZoneAt :: "u32 \<Rightarrow> u32 \<Rightarrow> int \<Rightarrow> int \<Rightarrow> int \<Rightarrow> int option" where
  "railCloseZoneAt px py width n stripH =
     (case railCellAt px py width n stripH of
        None \<Rightarrow> None
      | Some i \<Rightarrow>
          let cellW = rail_cellW width n; x = i * cellW;
              w = (if x + cellW > width then width - x else cellW)
          in if w < railCloseW \<or> uint px < x + w - railCloseW \<or> uint px \<ge> x + w then None
             else Some i)"

subsection \<open>Panels and toasts\<close>

abbreviation (input) chromeInset :: int where "chromeInset \<equiv> 8"
abbreviation (input) ChromeW :: int where "ChromeW \<equiv> 148"
abbreviation (input) ChromeH :: int where "ChromeH \<equiv> 20"
abbreviation (input) StartW :: int where "StartW \<equiv> 336"
abbreviation (input) StartH :: int where "StartH \<equiv> 76"
abbreviation (input) NotifyW :: int where "NotifyW \<equiv> 208"
abbreviation (input) NotifyH :: int where "NotifyH \<equiv> 20"
abbreviation (input) notifyInset :: int where "notifyInset \<equiv> 8"
abbreviation (input) notifyGap :: int where "notifyGap \<equiv> 4"

type_synonym panel = "int \<times> int \<times> int \<times> int"

definition chromeRect :: "int \<Rightarrow> int \<Rightarrow> panel" where
  "chromeRect width height =
     (let w = (if width < ChromeW + 2 * chromeInset then width - 2 * chromeInset else ChromeW);
          h = (if height < ChromeH + 2 * chromeInset then height - 2 * chromeInset else ChromeH)
      in if w \<le> 0 \<or> h \<le> 0 \<or> width \<le> 0 \<or> height \<le> 0 then (0, 0, 0, 0)
         else (width - chromeInset - w, height - chromeInset - h, w, h))"

definition startSurfaceRect :: "int \<Rightarrow> int \<Rightarrow> panel" where
  "startSurfaceRect width height =
     (let w = (if width < StartW + 2 * chromeInset then width - 2 * chromeInset else StartW);
          h = (if height < StartH + 2 * chromeInset then height - 2 * chromeInset else StartH)
      in if w \<le> 0 \<or> h \<le> 0 \<or> width \<le> 0 \<or> height \<le> 0 then (0, 0, 0, 0)
         else ((width - w) div 2, (height - h) div 2, w, h))"

text \<open>The point-in-panel test every click target uses.\<close>

definition in_panel :: "u32 \<Rightarrow> u32 \<Rightarrow> panel \<Rightarrow> bool" where
  "in_panel px py p =
     (let (x, y, w, h) = p in
      uint px \<ge> x \<and> uint px < x + w \<and> uint py \<ge> y \<and> uint py < y + h)"

abbreviation (input) ScanoutWidth :: int where "ScanoutWidth \<equiv> 1280"
abbreviation (input) ScanoutHeight :: int where "ScanoutHeight \<equiv> 720"

definition startSurfaceHit :: "u32 \<Rightarrow> u32 \<Rightarrow> bool" where
  "startSurfaceHit px py =
     (let (x, y, w, h) = startSurfaceRect ScanoutWidth ScanoutHeight
      in if w \<le> 0 \<or> h \<le> 0 then False else in_panel px py (x, y, w, h))"

definition notifyRect :: "int \<Rightarrow> int \<Rightarrow> int \<Rightarrow> int \<Rightarrow> panel" where
  "notifyRect width height slot n =
     (if slot < 0 \<or> n \<le> 0 \<or> slot \<ge> n \<or> width \<le> 0 \<or> height \<le> 0 \<or> NotifyH \<le> 0 then (0, 0, 0, 0)
      else
        let w = (if width < NotifyW + 2 * notifyInset then width - 2 * notifyInset else NotifyW)
        in if w \<le> 0 then (0, 0, 0, 0)
           else let below = n - 1 - slot;
                    y = height - notifyInset - (below + 1) * NotifyH - below * notifyGap
                in if y < 0 then (0, 0, 0, 0) else (notifyInset, y, w, NotifyH))"

text \<open>\<^verbatim>\<open>for slot := 0; slot < n; slot++\<close>: the first panel the point is in.\<close>

function slot_loop :: "u32 \<Rightarrow> u32 \<Rightarrow> int \<Rightarrow> int \<Rightarrow> int \<Rightarrow> int \<Rightarrow> int option" where
  "slot_loop px py width height n slot =
     (if slot < n then
        let (x, y, w, h) = notifyRect width height slot n in
        if w \<le> 0 \<or> h \<le> 0 then slot_loop px py width height n (slot + 1)
        else if in_panel px py (x, y, w, h) then Some slot
        else slot_loop px py width height n (slot + 1)
      else None)"
  by pat_completeness auto
termination
  by (relation "measure (\<lambda>(_, _, _, _, n, slot). nat (n - slot))") auto

declare slot_loop.simps [simp del]

definition notifySlotOf :: "u32 \<Rightarrow> u32 \<Rightarrow> int \<Rightarrow> int \<Rightarrow> int \<Rightarrow> int option" where
  "notifySlotOf px py width height n = slot_loop px py width height n 0"

subsection \<open>What the geometry guarantees\<close>

text \<open>Membership of a pixel in a rectangle, over the naturals so that nothing wraps.\<close>

definition in_rect :: "nat \<Rightarrow> nat \<Rightarrow> rect \<Rightarrow> bool" where
  "in_rect x y r \<longleftrightarrow> unat (rect_X r) \<le> x \<and> x < unat (rect_X r) + unat (rect_W r)
     \<and> unat (rect_Y r) \<le> y \<and> y < unat (rect_Y r) + unat (rect_H r)"

text \<open>The divider's gutter: \<open>g\<close> pixels that start where the first pane ends.\<close>

definition in_gutter :: "split_kind \<Rightarrow> nat \<Rightarrow> nat \<Rightarrow> nat \<Rightarrow> rect \<Rightarrow> bool" where
  "in_gutter kind g x y a \<longleftrightarrow>
     (case kind of SplitVert \<Rightarrow> unat (rect_W a) \<le> x \<and> x < unat (rect_W a) + g
        | SplitHoriz \<Rightarrow> unat (rect_H a) \<le> y \<and> y < unat (rect_H a) + g
        | SplitNone \<Rightarrow> False)"

lemma uint_range_u32: "0 \<le> uint (v :: u32)" "uint v < 4294967296"
  using unsigned_less [of v, where ?'a = int] by simp_all

lemma uint_word_of_int_u32:
  "0 \<le> i \<Longrightarrow> i < 4294967296 \<Longrightarrow> uint (word_of_int i :: u32) = i"
  by (simp add: uint_word_of_int)

lemma uint_u32_half: "uint (v div 2 :: u32) = uint v div 2"
  by (simp add: uint_div_distrib)

lemma uint_u32_minus: "w \<le> v \<Longrightarrow> uint (v - w :: u32) = uint v - uint w"
  by (simp add: uint_sub_if' word_le_def)

lemma half_le_u32: "v div 2 \<le> (v :: u32)"
  using uint_range_u32(1) [of v] unfolding word_le_def uint_u32_half by linarith

lemmas u32_as_int = word_less_def word_le_def uint_u32_half uint_u32_minus half_le_u32

lemma clampSash_range:
  "clampSash SplitVert p W H = (if uint W < 326 then 0 else max 163 (min p (uint W - 163)))"
  "clampSash SplitHoriz p W H = (if uint H < 246 then 0 else max 123 (min p (uint H - 123)))"
  by (auto simp: clampSash_def Let_def max_def min_def)

lemma clampSash_idem: "clampSash k (clampSash k p W H) W H = clampSash k p W H"
  by (cases k) (auto simp: clampSash_range, simp add: clampSash_def)

text \<open>
  The two panes of a successful split, in integers: the first pane ends at \<open>d\<close>, the second starts
  \<open>g\<close> pixels later and runs to the end, and both have the pane minimum.
\<close>

definition panes_at :: "split_kind \<Rightarrow> int \<Rightarrow> int \<Rightarrow> int \<Rightarrow> int \<Rightarrow> rect \<Rightarrow> rect \<Rightarrow> bool" where
  "panes_at kind W H d g a b \<longleftrightarrow>
     uint (rect_X a) = 0 \<and> uint (rect_Y a) = 0 \<and>
     (if kind = SplitVert
      then uint (rect_W a) = d \<and> uint (rect_X b) = d + g \<and> uint (rect_W b) = W - d - g
        \<and> uint (rect_H a) = H \<and> uint (rect_H b) = H \<and> uint (rect_Y b) = 0
        \<and> d \<ge> 160 \<and> W - d - g \<ge> 160 \<and> H \<ge> 120
      else uint (rect_H a) = d \<and> uint (rect_Y b) = d + g \<and> uint (rect_H b) = H - d - g
        \<and> uint (rect_W a) = W \<and> uint (rect_W b) = W \<and> uint (rect_X b) = 0
        \<and> d \<ge> 120 \<and> H - d - g \<ge> 120 \<and> W \<ge> 160)"

lemma SplitRects_panes:
  "SplitRects k W H = Some (a, b) \<Longrightarrow> k \<noteq> SplitNone \<Longrightarrow>
     panes_at k (uint W) (uint H) (if k = SplitVert then uint W div 2 else uint H div 2) 0 a b"
  by (cases k) (auto simp: SplitRects_def Let_def panes_at_def mk_rect_def u32_as_int
      split: if_splits)

lemma SplitRectsSash_panes:
  assumes "SplitRectsSash k W H s = Some (a, b)" "k \<noteq> SplitNone" "s > 0"
  shows "panes_at k (uint W) (uint H) (clampSash k s W H - 3) 6 a b"
proof -
  note r = uint_range_u32 [of W] uint_range_u32 [of H]
  note of_int_add [simp del] of_int_diff [simp del]
  show ?thesis using assms r
    by (cases k) (auto simp: SplitRectsSash_def Let_def panes_at_def mk_rect_def word_less_def
        uint_word_of_int_u32 split: if_splits)
qed

lemma panes_at_nat:
  assumes "panes_at k (uint W) (uint H) d (int g) a b" "k \<noteq> SplitNone"
  shows "unat (rect_X a) = 0" "unat (rect_Y a) = 0"
    and "k = SplitVert \<Longrightarrow> unat (rect_X b) = unat (rect_W a) + g \<and> unat (rect_Y b) = 0
      \<and> unat (rect_X b) + unat (rect_W b) = unat W \<and> unat (rect_H a) = unat H \<and> unat (rect_H b) = unat H"
    and "k = SplitHoriz \<Longrightarrow> unat (rect_Y b) = unat (rect_H a) + g \<and> unat (rect_X b) = 0
      \<and> unat (rect_Y b) + unat (rect_H b) = unat H \<and> unat (rect_W a) = unat W \<and> unat (rect_W b) = unat W"
  using assms(1) unfolding panes_at_def uint_nat by (simp_all del: of_nat_unat split: if_splits)

lemma panes_tile_nat:
  assumes "panes_at k (uint W) (uint H) d (int g) a b" "k \<noteq> SplitNone"
    and "x < unat W" "y < unat H"
  shows "in_rect x y a \<or> in_rect x y b \<or> in_gutter k g x y a"
    and "\<not> (in_rect x y a \<and> in_rect x y b)"
    and "in_gutter k g x y a \<Longrightarrow> \<not> in_rect x y a \<and> \<not> in_rect x y b"
  using assms(2-4) panes_at_nat [OF assms(1,2)]
  by (cases k; simp add: in_rect_def in_gutter_def; linarith?)+

subsection \<open>Rail cells and toasts\<close>

lemma rail_cellW_pos: "rail_cellW width n \<ge> 48"
  by (simp add: rail_cellW_def Let_def)

lemma div_eq_cell: "0 < (c :: int) \<Longrightarrow> i * c \<le> p \<Longrightarrow> p < i * c + c \<Longrightarrow> p div c = i"
  by (rule int_div_pos_eq [of _ _ _ "p - i * c"]) (auto simp: algebra_simps)

lemma railCellAt_bounds: "railCellAt px py width n stripH = Some i \<Longrightarrow> 0 \<le> i \<and> i < n"
  by (auto simp: railCellAt_def Let_def split: if_splits)

lemma notifyRect_shape:
  "notifyRect W H s n = (x, y, w, h) \<Longrightarrow> w > 0 \<Longrightarrow>
     0 \<le> s \<and> s < n \<and> x = 8 \<and> h = 20 \<and> y = H - 28 - 24 * (n - 1 - s) \<and> 0 \<le> y \<and> y + h < H \<and> x + w < W"
  by (auto simp: notifyRect_def Let_def split: if_splits)

lemma in_panel_zero [simp]: "\<not> in_panel px py (0, 0, 0, 0)"
  by (simp add: in_panel_def)

lemma in_notifyRect_pos: "in_panel px py (notifyRect W H s n) \<Longrightarrow> fst (snd (snd (notifyRect W H s n))) > 0"
  by (cases "notifyRect W H s n") (auto simp: in_panel_def)

text \<open>Two toasts never share a pixel.\<close>

lemma notifyRect_disjoint:
  assumes "in_panel px py (notifyRect W H s n)" and "in_panel px py (notifyRect W H t n)"
  shows "s = t"
proof -
  obtain x y w h where s: "notifyRect W H s n = (x, y, w, h)" by (cases "notifyRect W H s n")
  obtain x' y' w' h' where t: "notifyRect W H t n = (x', y', w', h')" by (cases "notifyRect W H t n")
  have "w > 0" "w' > 0" using in_notifyRect_pos [OF assms(1)] in_notifyRect_pos [OF assms(2)] s t by auto
  then show ?thesis
    using notifyRect_shape [OF s] notifyRect_shape [OF t] assms s t by (auto simp: in_panel_def)
qed

lemma slot_loop_spec:
  "0 \<le> slot \<Longrightarrow> slot_loop px py W H n slot = Some s \<longleftrightarrow> slot \<le> s \<and> in_panel px py (notifyRect W H s n)"
proof (induction px py W H n slot rule: slot_loop.induct)
  case (1 px py W H n slot)
  obtain x y w h where r: "notifyRect W H slot n = (x, y, w, h)" by (cases "notifyRect W H slot n")
  show ?case
  proof (cases "slot < n")
    case False
    then have "notifyRect W H s n = (0, 0, 0, 0)" if "slot \<le> s" using that by (simp add: notifyRect_def)
    then show ?thesis using False by (auto simp: slot_loop.simps [of px py W H n slot])
  next
    case lt: True
    show ?thesis
    proof (cases "in_panel px py (notifyRect W H slot n)")
      case True
      then have "w > 0" "h > 0" using r by (auto simp: in_panel_def)
      then have "slot_loop px py W H n slot = Some slot"
        using True lt r by (simp add: slot_loop.simps [of px py W H n slot])
      then show ?thesis using True notifyRect_disjoint by auto
    next
      case False
      then have "slot_loop px py W H n slot = slot_loop px py W H n (slot + 1)"
        using lt r by (simp add: slot_loop.simps [of px py W H n slot])
      then show ?thesis
        using 1 False lt r by (cases "w \<le> 0 \<or> h \<le> 0") (auto simp: le_less)
    qed
  qed
qed

subsection \<open>Properties\<close>

text \<open>
  Whenever the seat lays out a split, with or without a dragged sash, the two panes and the
  sash gutter (six pixels once the sash is set, none before) tile the scanout: every pixel is in
  exactly one of the three. Both panes keep the 160 by 120 minimum.
\<close>

theorem split_panes_tile:
  assumes "SplitRectsSash kind scanW scanH sash = Some (a, b)" and "kind \<noteq> SplitNone"
  defines "g \<equiv> (if sash \<le> 0 then 0 else 6)"
  shows "(\<forall>x < unat scanW. \<forall>y < unat scanH.
      (in_rect x y a \<and> \<not> in_rect x y b \<and> \<not> in_gutter kind g x y a)
    \<or> (\<not> in_rect x y a \<and> in_rect x y b \<and> \<not> in_gutter kind g x y a)
    \<or> (\<not> in_rect x y a \<and> \<not> in_rect x y b \<and> in_gutter kind g x y a))
    \<and> rect_W a \<ge> 160 \<and> rect_H a \<ge> 120 \<and> rect_W b \<ge> 160 \<and> rect_H b \<ge> 120"
proof -
  obtain d where p: "panes_at kind (uint scanW) (uint scanH) d (int g) a b"
  proof (cases "sash \<le> 0")
    case True
    then have "SplitRects kind scanW scanH = Some (a, b)" using assms by (simp add: SplitRectsSash_def)
    from SplitRects_panes [OF this assms(2)] show ?thesis using that True by (auto simp: g_def)
  next
    case False
    then show ?thesis using SplitRectsSash_panes [OF assms(1,2)] that by (auto simp: g_def)
  qed
  have "rect_W a \<ge> 160 \<and> rect_H a \<ge> 120 \<and> rect_W b \<ge> 160 \<and> rect_H b \<ge> 120"
    using p by (auto simp: panes_at_def word_le_def split: if_splits)
  then show ?thesis using panes_tile_nat [OF p assms(2)] by blast
qed

theorem split_panes_tile_witness:
  "SplitRectsSash SplitVert 1280 720 500 = Some (mk_rect 0 0 497 720, mk_rect 503 0 777 720)
   \<and> in_gutter SplitVert 6 500 10 (mk_rect 0 0 497 720)
   \<and> \<not> in_rect 500 10 (mk_rect 503 0 777 720)"
proof -
  have e: "SplitRectsSash SplitVert 1280 720 500 = Some (mk_rect 0 0 497 720, mk_rect 503 0 777 720)"
    by code_simp
  show ?thesis using split_panes_tile [OF e] e by (auto simp: in_gutter_def mk_rect_def in_rect_def)
qed

text \<open>
  The rail's hit test agrees with the rail's paint: a point of the strip inside the painted
  cell of tab \<open>i\<close> resolves to \<open>i\<close>; and a close-x hit resolves to a cell of the strip and lies in the
  rightmost sixteen pixels of that cell's painted part, never outside it.
\<close>

theorem rail_hit_matches_paint:
  assumes "0 < n" "0 < width" "0 < stripH" "stripH < 2 ^ 32" "uint py < stripH"
  defines "c \<equiv> rail_cellW width n"
  shows "(0 \<le> i \<and> i < n \<and> i * c \<le> uint px \<and> uint px < min width ((i + 1) * c)
      \<longrightarrow> railCellAt px py width n stripH = Some i)
    \<and> (railCloseZoneAt px py width n stripH = Some i
      \<longrightarrow> railCellAt px py width n stripH = Some i \<and> 0 \<le> i \<and> i < n \<and> i * c \<le> uint px
        \<and> min width ((i + 1) * c) - 16 \<le> uint px \<and> uint px < min width ((i + 1) * c))"
proof (intro conjI impI)
  have c: "c > 0" using rail_cellW_pos [of width n] by (simp add: c_def)
  have "uint (word_of_int stripH :: u32) = stripH" using assms by (simp add: uint_word_of_int_u32)
  then have py: "\<not> py \<ge> word_of_int stripH" using assms by (simp add: word_le_def)
  assume a: "0 \<le> i \<and> i < n \<and> i * c \<le> uint px \<and> uint px < min width ((i + 1) * c)"
  have "uint px div c = i" using a c by (intro div_eq_cell) (auto simp: algebra_simps)
  then show "railCellAt px py width n stripH = Some i"
    using a py assms by (simp add: railCellAt_def c_def)
qed (use railCellAt_bounds [of px py width n stripH i] in
    \<open>auto simp: railCloseZoneAt_def Let_def algebra_simps c_def min_def split: option.splits if_splits\<close>)

theorem rail_hit_matches_paint_witness:
  "railCellAt 700 5 1280 3 22 = Some 1 \<and> railCloseZoneAt 845 5 1280 3 22 = Some 1
   \<and> 852 - 16 \<le> (845 :: int)"
proof -
  have "rail_cellW 1280 3 = 426" by code_simp
  moreover have "railCloseZoneAt 845 5 1280 3 22 = Some 1" by code_simp
  ultimately show ?thesis
    using rail_hit_matches_paint [of 3 1280 22 5 1 700] rail_hit_matches_paint [of 3 1280 22 5 1 845]
    by simp
qed

text \<open>
  Clicking a toast is exact: the hit test names slot \<open>s\<close> if and only if the point is inside the
  panel painted for \<open>s\<close>. So no point belongs to two toasts, and no point off every panel is a hit.
\<close>

theorem notify_hit_exact:
  "notifySlotOf px py width height n = Some s \<longleftrightarrow> in_panel px py (notifyRect width height s n)"
proof (cases "0 \<le> s")
  case True
  then show ?thesis by (simp add: notifySlotOf_def slot_loop_spec)
next
  case False
  then have "notifyRect width height s n = (0, 0, 0, 0)" by (simp add: notifyRect_def)
  then show ?thesis using slot_loop_spec [of 0 px py width height n s] False
    by (auto simp: notifySlotOf_def)
qed

end
