(* ===== verification/TabStrip.thy ===== *)
theory TabStrip
  imports History Format Geometry "HOL-Library.Multiset"
begin

text \<open>
  The tab strip of the window-manager seat (\<^verbatim>\<open>gotabwm/tabs.go\<close>): a pure state machine over a fixed
  array of sixteen tabs, a focus index, a two-pane split with its sash, and a bounded ring of closed
  tabs for reopening. Every operation returns its Go result and the strip after it. The abstract
  view is the list of open tabs; the ring's abstract view is a stack of at most sixteen entries.
\<close>

subsection \<open>State\<close>

abbreviation (input) MaxTabs :: nat where "MaxTabs \<equiv> 16"

record tab =
  tab_ID :: u32
  tab_Title :: string
  tab_Bin :: string
  tab_Pinned :: bool
  tab_Frozen :: bool
  tab_nav :: nav

record closed_tab =
  cl_Bin :: string
  cl_Title :: string

record strip =
  ts_tabs :: "tab list"
  ts_count :: nat
  ts_focus :: int
  ts_split :: split_kind
  ts_sash :: int
  ts_closed :: "closed_tab list"
  ts_closedCount :: nat
  ts_closedLive :: nat

definition zero_tab :: tab where
  "zero_tab = \<lparr>tab_ID = 0, tab_Title = [], tab_Bin = [], tab_Pinned = False, tab_Frozen = False,
     tab_nav = nav_zero\<rparr>"

definition zero_closed :: closed_tab where
  "zero_closed = \<lparr>cl_Bin = [], cl_Title = []\<rparr>"

text \<open>The zero value of \<^verbatim>\<open>TabStrip\<close>.\<close>

definition empty_strip :: strip where
  "empty_strip = \<lparr>ts_tabs = replicate MaxTabs zero_tab, ts_count = 0, ts_focus = 0,
     ts_split = SplitNone, ts_sash = 0, ts_closed = replicate MaxTabs zero_closed,
     ts_closedCount = 0, ts_closedLive = 0\<rparr>"

subsection \<open>Lookup\<close>

abbreviation (input) FlagPinned :: u8 where "FlagPinned \<equiv> 0x01"
abbreviation (input) FlagFrozen :: u8 where "FlagFrozen \<equiv> 0x02"

definition tabFlags :: "tab \<Rightarrow> u8" where
  "tabFlags t = (if tab_Pinned t then FlagPinned else 0) OR (if tab_Frozen t then FlagFrozen else 0)"

text \<open>The used part of the array.\<close>

definition open_tabs :: "strip \<Rightarrow> tab list" where
  "open_tabs s = take (ts_count s) (ts_tabs s)"

definition index :: "strip \<Rightarrow> u32 \<Rightarrow> int" where
  "index s wid = (case first_index (\<lambda>t. tab_ID t = wid) (open_tabs s) of
                   None \<Rightarrow> -1 | Some i \<Rightarrow> int i)"

definition At :: "strip \<Rightarrow> int \<Rightarrow> tab" where
  "At s i = (if i < 0 \<or> i \<ge> int (ts_count s) then zero_tab else ts_tabs s ! nat i)"

definition Focused :: "strip \<Rightarrow> u32 option" where
  "Focused s =
     (if ts_count s = 0 \<or> ts_focus s < 0 \<or> ts_focus s \<ge> int (ts_count s) then None
      else Some (tab_ID (ts_tabs s ! nat (ts_focus s))))"

definition NextID :: "strip \<Rightarrow> u32 option" where
  "NextID s =
     (if ts_count s = 0 then None
      else let i = (if ts_focus s \<ge> 0 \<and> ts_focus s < int (ts_count s)
                    then (ts_focus s + 1) mod int (ts_count s) else 0)
           in Some (tab_ID (ts_tabs s ! nat i)))"

definition guessBin :: "string \<Rightarrow> string" where
  "guessBin title =
     (if title = ''Calc'' then ''GOCALC.ELF''
      else if title = ''Notepad'' then ''NOTE.ELF''
      else if title = ''Edit'' then ''GOEDIT.ELF''
      else if title = ''Term'' then ''GOTERM.ELF''
      else if title = ''RSS Reader'' then ''RSS.ELF''
      else title)"

text \<open>\<^verbatim>\<open>s.tabs[i].f = v\<close>.\<close>

definition upd_tab :: "strip \<Rightarrow> int \<Rightarrow> (tab \<Rightarrow> tab) \<Rightarrow> strip" where
  "upd_tab s i f = s\<lparr>ts_tabs := (ts_tabs s)[nat i := f (ts_tabs s ! nat i)]\<rparr>"

definition Freeze :: "strip \<Rightarrow> u32 \<Rightarrow> bool \<times> strip" where
  "Freeze s wid =
     (let i = index s wid in
      if i < 0 \<or> tab_Frozen (ts_tabs s ! nat i) then (False, s)
      else (True, upd_tab s i (\<lambda>t. t\<lparr>tab_Frozen := True\<rparr>)))"

definition Thaw :: "strip \<Rightarrow> u32 \<Rightarrow> bool \<times> strip" where
  "Thaw s wid =
     (let i = index s wid in
      if i < 0 \<or> \<not> tab_Frozen (ts_tabs s ! nat i) then (False, s)
      else (True, upd_tab s i (\<lambda>t. t\<lparr>tab_Frozen := False\<rparr>)))"

definition FrozenCount :: "strip \<Rightarrow> nat" where
  "FrozenCount s = foldl (\<lambda>n t. if tab_Frozen t then n + 1 else n) 0 (open_tabs s)"

subsection \<open>Opening, titles, navigation\<close>

definition OpenTab :: "strip \<Rightarrow> u32 \<Rightarrow> string \<Rightarrow> bool \<times> strip" where
  "OpenTab s wid title =
     (if wid = 0 then (False, s)
      else
        let i = index s wid in
        if i \<ge> 0 then
          (False, upd_tab s i (\<lambda>t. let t = t\<lparr>tab_Title := title\<rparr> in
             if tab_Bin t = [] then t\<lparr>tab_Bin := guessBin title\<rparr> else t))
        else if ts_count s \<ge> MaxTabs then (False, s)
        else (True, s\<lparr>ts_tabs := (ts_tabs s)[ts_count s :=
                        zero_tab\<lparr>tab_ID := wid, tab_Title := title, tab_Bin := guessBin title\<rparr>],
                      ts_focus := (if ts_count s = 0 then 0 else ts_focus s),
                      ts_count := ts_count s + 1\<rparr>))"

definition SetTitle :: "strip \<Rightarrow> u32 \<Rightarrow> string \<Rightarrow> bool \<times> strip" where
  "SetTitle s wid title =
     (if title = [] then (False, s)
      else let i = index s wid in
           if i < 0 then (False, s)
           else (True, upd_tab s i (\<lambda>t. t\<lparr>tab_Title := title\<rparr>)))"

text \<open>\<^verbatim>\<open>known, changed\<close> and the strip.\<close>

definition NavDeclare :: "strip \<Rightarrow> u32 \<Rightarrow> string \<Rightarrow> bool \<times> bool \<times> strip" where
  "NavDeclare s wid path =
     (let i = index s wid in
      if i < 0 then (False, False, s)
      else let r = navRecord (tab_nav (ts_tabs s ! nat i)) path
           in (True, fst r, upd_tab s i (\<lambda>t. t\<lparr>tab_nav := snd r\<rparr>)))"

definition NavBack :: "strip \<Rightarrow> u32 \<Rightarrow> string option \<times> strip" where
  "NavBack s wid =
     (let i = index s wid in
      if i < 0 then (None, s)
      else let r = navBack (tab_nav (ts_tabs s ! nat i))
           in (fst r, upd_tab s i (\<lambda>t. t\<lparr>tab_nav := snd r\<rparr>)))"

definition NavForward :: "strip \<Rightarrow> u32 \<Rightarrow> string option \<times> strip" where
  "NavForward s wid =
     (let i = index s wid in
      if i < 0 then (None, s)
      else let r = navForward (tab_nav (ts_tabs s ! nat i))
           in (fst r, upd_tab s i (\<lambda>t. t\<lparr>tab_nav := snd r\<rparr>)))"

definition NavDepth :: "strip \<Rightarrow> u32 \<Rightarrow> nat" where
  "NavDepth s wid = (let i = index s wid in if i < 0 then 0 else nav_count (tab_nav (ts_tabs s ! nat i)))"

subsection \<open>Closing and reopening\<close>

definition recordClosed :: "strip \<Rightarrow> tab \<Rightarrow> strip" where
  "recordClosed s t =
     s\<lparr>ts_closed := (ts_closed s)[ts_closedCount s mod MaxTabs :=
         \<lparr>cl_Bin = tab_Bin t, cl_Title = tab_Title t\<rparr>],
       ts_closedCount := ts_closedCount s + 1,
       ts_closedLive := (if ts_closedLive s < MaxTabs then ts_closedLive s + 1 else ts_closedLive s)\<rparr>"

text \<open>
  The strip's part of \<^verbatim>\<open>CloseTab\<close>. Between recording the tab and shifting the array the Go function
  also clears the seat's pending navigation and toasts of the tab, which live outside the strip;
  theory \<open>Seat\<close> composes the two.
\<close>

definition remove_at :: "strip \<Rightarrow> nat \<Rightarrow> strip" where
  "remove_at s i =
     (let tabs = (shift_down (ts_tabs s) i (ts_count s))[ts_count s - 1 := zero_tab];
          n = ts_count s - 1
      in if n = 0
         then s\<lparr>ts_tabs := tabs, ts_count := n, ts_focus := 0, ts_split := SplitNone, ts_sash := 0\<rparr>
         else s\<lparr>ts_tabs := tabs, ts_count := n,
                ts_focus := (if ts_focus s > int i then ts_focus s - 1
                             else if ts_focus s \<ge> int n then int n - 1 else ts_focus s),
                ts_split := (if n < 2 then SplitNone else ts_split s),
                ts_sash := (if n < 2 then 0 else ts_sash s)\<rparr>)"

definition close_strip :: "strip \<Rightarrow> u32 \<Rightarrow> bool \<times> strip" where
  "close_strip s wid =
     (let i = index s wid in
      if i < 0 then (False, s)
      else (True, remove_at (recordClosed s (ts_tabs s ! nat i)) (nat i)))"

definition RecentlyClosed :: "strip \<Rightarrow> int \<Rightarrow> closed_tab option" where
  "RecentlyClosed s k =
     (if k < 0 \<or> k \<ge> int (ts_closedLive s) then None
      else Some (ts_closed s ! ((ts_closedCount s - 1 - nat k) mod MaxTabs)))"

function ReopenLastClosed :: "strip \<Rightarrow> closed_tab option \<times> strip" where
  "ReopenLastClosed s =
     (if ts_closedLive s > 0 then
        let c = ts_closed s ! ((ts_closedCount s - 1) mod MaxTabs);
            s' = s\<lparr>ts_closedCount := ts_closedCount s - 1, ts_closedLive := ts_closedLive s - 1\<rparr>
        in if cl_Bin c = [] then ReopenLastClosed s' else (Some c, s')
      else (None, s))"
  by pat_completeness auto
termination
  by (relation "measure ts_closedLive") auto

declare ReopenLastClosed.simps [simp del]

definition DuplicateFocused :: "strip \<Rightarrow> string option" where
  "DuplicateFocused s =
     (case Focused s of
        None \<Rightarrow> None
      | Some wid \<Rightarrow>
          let i = index s wid in
          if i < 0 \<or> tab_Bin (ts_tabs s ! nat i) = [] then None
          else Some (tab_Bin (ts_tabs s ! nat i)))"

subsection \<open>Focus, pin, order\<close>

definition FocusTab :: "strip \<Rightarrow> u32 \<Rightarrow> bool \<times> strip" where
  "FocusTab s wid =
     (let i = index s wid in if i < 0 then (False, s) else (True, s\<lparr>ts_focus := i\<rparr>))"

text \<open>\<^verbatim>\<open>if has { s.focus = s.index(fid) }\<close> after the array was rearranged.\<close>

definition refocus :: "u32 option \<Rightarrow> strip \<Rightarrow> strip" where
  "refocus f s = (case f of None \<Rightarrow> s | Some fid \<Rightarrow> s\<lparr>ts_focus := index s fid\<rparr>)"

text \<open>The two scratch arrays are the pinned and the other tabs in strip order.\<close>

definition normalizePinned :: "strip \<Rightarrow> strip" where
  "normalizePinned s =
     (if ts_count s = 0 then s
      else
        let pinned = filter tab_Pinned (open_tabs s);
            rest = filter (\<lambda>t. \<not> tab_Pinned t) (open_tabs s)
        in refocus (Focused s) (s\<lparr>ts_tabs := go_copy (ts_tabs s) (pinned @ rest)\<rparr>))"

definition Pin :: "strip \<Rightarrow> u32 \<Rightarrow> bool \<times> strip" where
  "Pin s wid =
     (let i = index s wid in
      if i < 0 \<or> tab_Pinned (ts_tabs s ! nat i) then (False, s)
      else (True, normalizePinned (upd_tab s i (\<lambda>t. t\<lparr>tab_Pinned := True\<rparr>))))"

definition Unpin :: "strip \<Rightarrow> u32 \<Rightarrow> bool \<times> strip" where
  "Unpin s wid =
     (let i = index s wid in
      if i < 0 \<or> \<not> tab_Pinned (ts_tabs s ! nat i) then (False, s)
      else (True, normalizePinned (upd_tab s i (\<lambda>t. t\<lparr>tab_Pinned := False\<rparr>))))"

definition Reorder :: "strip \<Rightarrow> int \<Rightarrow> int \<Rightarrow> bool \<times> strip" where
  "Reorder s from to =
     (if from < 0 \<or> to < 0 \<or> from \<ge> int (ts_count s) \<or> to \<ge> int (ts_count s) \<or> from = to
      then (False, s)
      else
        let f = nat from; t = nat to; moved = ts_tabs s ! f;
            shifted = (if f < t then shift_down (ts_tabs s) f (t + 1) else shift_up (ts_tabs s) f t)
        in (True, refocus (Focused s) (s\<lparr>ts_tabs := shifted[t := moved]\<rparr>)))"

subsection \<open>Split and sash\<close>

definition setSplit :: "strip \<Rightarrow> split_kind \<Rightarrow> bool \<times> strip" where
  "setSplit s k =
     (if ts_count s \<noteq> 2 \<or> k = SplitNone then (False, s)
      else (True, s\<lparr>ts_split := k, ts_sash := 0\<rparr>))"

definition SplitH :: "strip \<Rightarrow> bool \<times> strip" where
  "SplitH s = setSplit s SplitHoriz"

definition SplitV :: "strip \<Rightarrow> bool \<times> strip" where
  "SplitV s = setSplit s SplitVert"

definition Unsplit :: "strip \<Rightarrow> bool \<times> strip" where
  "Unsplit s =
     (if ts_split s = SplitNone then (False, s) else (True, s\<lparr>ts_split := SplitNone, ts_sash := 0\<rparr>))"

definition PaneRects :: "strip \<Rightarrow> u32 \<Rightarrow> u32 \<Rightarrow> (rect \<times> rect) option" where
  "PaneRects s scanW scanH =
     (if ts_count s \<noteq> 2 then None else SplitRectsSash (ts_split s) scanW scanH (ts_sash s))"

definition sashCenter :: "strip \<Rightarrow> u32 \<Rightarrow> u32 \<Rightarrow> int" where
  "sashCenter s scanW scanH =
     (case ts_split s of
        SplitVert \<Rightarrow> if ts_sash s > 0 then clampSash (ts_split s) (ts_sash s) scanW scanH
                     else uint scanW div 2
      | SplitHoriz \<Rightarrow> if ts_sash s > 0 then clampSash (ts_split s) (ts_sash s) scanW scanH
                      else uint scanH div 2
      | SplitNone \<Rightarrow> -1)"

definition SetSash :: "strip \<Rightarrow> int \<Rightarrow> u32 \<Rightarrow> u32 \<Rightarrow> bool \<times> strip" where
  "SetSash s pos scanW scanH =
     (if ts_count s \<noteq> 2 \<or> (ts_split s \<noteq> SplitVert \<and> ts_split s \<noteq> SplitHoriz) then (False, s)
      else let c = clampSash (ts_split s) pos scanW scanH in
           if c \<le> 0 \<or> c = sashCenter s scanW scanH then (False, s)
           else (True, s\<lparr>ts_sash := c\<rparr>))"

subsection \<open>Report lines\<close>

fun join_comma :: "string list \<Rightarrow> string" where
  "join_comma [] = []"
| "join_comma [x] = x"
| "join_comma (x # xs) = x @ '','' @ join_comma xs"

definition orderLine :: "strip \<Rightarrow> string" where
  "orderLine s =
     ''ids='' @ join_comma (map (\<lambda>t. dec (tab_ID t)) (open_tabs s)) @ '' ''
     @ ''pin='' @ join_comma (map (\<lambda>t. if tab_Pinned t then ''1'' else ''0'') (open_tabs s))
     @ '' focus='' @ dec (case Focused s of None \<Rightarrow> 0 | Some wid \<Rightarrow> wid)"

definition layoutLine :: "u32 \<Rightarrow> string \<Rightarrow> rect \<Rightarrow> bool \<Rightarrow> split_kind \<Rightarrow> string" where
  "layoutLine wid bin r focus kind =
     ''tab='' @ dec wid @ '' bin='' @ (if bin = [] then ''-'' else bin)
     @ '' x='' @ dec (rect_X r) @ '' y='' @ dec (rect_Y r) @ '' w='' @ dec (rect_W r)
     @ '' h='' @ dec (rect_H r) @ '' focus='' @ (if focus then ''1'' else ''0'')
     @ '' split='' @ split_String kind"

definition paneLine :: "u32 \<Rightarrow> rect \<Rightarrow> string" where
  "paneLine wid r =
     ''id='' @ dec wid @ '' x='' @ dec (rect_X r) @ '' y='' @ dec (rect_Y r)
     @ '' w='' @ dec (rect_W r) @ '' h='' @ dec (rect_H r)"

definition layoutBin :: "tab \<Rightarrow> string" where
  "layoutBin t = (if tab_Bin t \<noteq> [] then tab_Bin t else tab_Title t)"

text \<open>\<^verbatim>\<open>layoutFileBody\<close> (\<^verbatim>\<open>gotabwm/layout.go\<close>): one line per tab; nothing for an empty strip.\<close>

definition layoutFileBody :: "strip \<Rightarrow> u32 \<Rightarrow> u32 \<Rightarrow> string" where
  "layoutFileBody s scanW scanH =
     (let full = FullRect scanW scanH;
          panes = (if ts_count s = 2 then PaneRects s scanW scanH else None)
      in concat (map (\<lambda>i.
           let t = At s (int i);
               r = (case panes of None \<Rightarrow> full | Some (a, b) \<Rightarrow> if i = 0 then a else b)
           in layoutLine (tab_ID t) (layoutBin t) r (Focused s = Some (tab_ID t)) (ts_split s)
              @ [CHR 0x0A]) [0..<ts_count s]))"

subsection \<open>The invariant\<close>

definition wf_strip :: "strip \<Rightarrow> bool" where
  "wf_strip s \<longleftrightarrow>
     length (ts_tabs s) = MaxTabs \<and> ts_count s \<le> MaxTabs
     \<and> distinct (map tab_ID (open_tabs s)) \<and> (\<forall>t \<in> set (open_tabs s). tab_ID t \<noteq> 0 \<and> wf_nav (tab_nav t))
     \<and> (if ts_count s = 0 then ts_focus s = 0 else 0 \<le> ts_focus s \<and> ts_focus s < int (ts_count s))
     \<and> (ts_split s \<noteq> SplitNone \<longrightarrow> ts_count s \<ge> 2)
     \<and> 0 \<le> ts_sash s \<and> (ts_sash s \<noteq> 0 \<longrightarrow> ts_split s \<noteq> SplitNone)
     \<and> length (ts_closed s) = MaxTabs \<and> ts_closedLive s \<le> MaxTabs \<and> ts_closedLive s \<le> ts_closedCount s"

text \<open>The ring's live entries, most recent first.\<close>

definition closed_stack :: "strip \<Rightarrow> closed_tab list" where
  "closed_stack s = map (\<lambda>k. ts_closed s ! ((ts_closedCount s - 1 - k) mod MaxTabs)) [0..<ts_closedLive s]"

lemma length_open_tabs: "wf_strip s \<Longrightarrow> length (open_tabs s) = ts_count s"
  by (simp add: wf_strip_def open_tabs_def)

lemma nth_open_tabs: "i < ts_count s \<Longrightarrow> open_tabs s ! i = ts_tabs s ! i"
  by (simp add: open_tabs_def)

lemma tab_in_open: "wf_strip s \<Longrightarrow> i < ts_count s \<Longrightarrow> ts_tabs s ! i \<in> set (open_tabs s)"
  using length_open_tabs [of s] nth_open_tabs [of i s] by (metis nth_mem)

lemma wf_empty_strip [simp]: "wf_strip empty_strip"
  by (simp add: wf_strip_def empty_strip_def open_tabs_def)

text \<open>The index of an id: the position in the list of open tabs.\<close>

lemma index_cases:
  assumes "wf_strip s"
  obtains (missing) "index s wid = -1" "wid \<notin> tab_ID ` set (open_tabs s)"
  | (found) i where "index s wid = int i" "i < ts_count s" "tab_ID (ts_tabs s ! i) = wid"
      "open_tabs s ! i = ts_tabs s ! i" "ts_tabs s ! i \<in> set (open_tabs s)"
proof (cases "first_index (\<lambda>t. tab_ID t = wid) (open_tabs s)")
  case None
  show ?thesis
  proof (rule missing)
    show "index s wid = -1" using None by (simp add: index_def)
    show "wid \<notin> tab_ID ` set (open_tabs s)" using None by (auto simp: first_index_None)
  qed
next
  case (Some i)
  then have i: "i < ts_count s" "tab_ID (open_tabs s ! i) = wid"
    using length_open_tabs [OF assms] by (auto simp: first_index_Some)
  moreover have "open_tabs s ! i \<in> set (open_tabs s)" using i length_open_tabs [OF assms] by simp
  ultimately show ?thesis using found [of i] Some by (auto simp: index_def nth_open_tabs)
qed

lemma index_eq:
  assumes "wf_strip s" "i < ts_count s" "tab_ID (ts_tabs s ! i) = wid"
  shows "index s wid = int i"
proof (rule index_cases [OF assms(1), of wid])
  assume "wid \<notin> tab_ID ` set (open_tabs s)"
  moreover have "open_tabs s ! i \<in> set (open_tabs s)" using assms length_open_tabs by simp
  ultimately show ?thesis using assms by (auto simp: nth_open_tabs)
next
  fix j assume j: "index s wid = int j" "j < ts_count s" "tab_ID (ts_tabs s ! j) = wid"
  have "map tab_ID (open_tabs s) ! i = map tab_ID (open_tabs s) ! j"
    using j assms length_open_tabs [OF assms(1)] by (simp add: nth_open_tabs)
  then have "i = j"
    using assms j length_open_tabs [OF assms(1)] by (simp add: wf_strip_def distinct_conv_nth) metis
  then show ?thesis using j by simp
qed

lemma index_nonneg_iff: "wf_strip s \<Longrightarrow> index s wid \<ge> 0 \<longleftrightarrow> wid \<in> tab_ID ` set (open_tabs s)"
  by (rule index_cases [of s wid]) (auto simp: image_iff)

lemma index_less: "wf_strip s \<Longrightarrow> index s wid < int (ts_count s)"
  by (rule index_cases [of s wid]) auto

lemma focus_range: "wf_strip s \<Longrightarrow> ts_count s > 0 \<Longrightarrow> 0 \<le> ts_focus s \<and> ts_focus s < int (ts_count s)"
  by (simp add: wf_strip_def)

lemma Focused_wf: "wf_strip s \<Longrightarrow> ts_count s > 0 \<Longrightarrow> Focused s = Some (tab_ID (ts_tabs s ! nat (ts_focus s)))"
  by (auto simp: Focused_def wf_strip_def)

lemma Focused_open: "wf_strip s \<Longrightarrow> Focused s = Some wid \<Longrightarrow> wid \<in> tab_ID ` set (open_tabs s)"
proof -
  assume wf: "wf_strip s" and f: "Focused s = Some wid"
  then have "nat (ts_focus s) < ts_count s" "tab_ID (ts_tabs s ! nat (ts_focus s)) = wid"
    by (auto simp: Focused_def split: if_splits)
  then show ?thesis using tab_in_open [OF wf] by auto
qed

lemma Focused_None: "wf_strip s \<Longrightarrow> Focused s = None \<longleftrightarrow> ts_count s = 0"
  by (auto simp: Focused_def wf_strip_def split: if_splits)

subsection \<open>Updating one tab\<close>

lemma upd_tab_frame [frame_simps]:
  "ts_count (upd_tab s i f) = ts_count s" "ts_focus (upd_tab s i f) = ts_focus s"
  "ts_split (upd_tab s i f) = ts_split s" "ts_sash (upd_tab s i f) = ts_sash s"
  "ts_closed (upd_tab s i f) = ts_closed s" "ts_closedCount (upd_tab s i f) = ts_closedCount s"
  "ts_closedLive (upd_tab s i f) = ts_closedLive s"
  "length (ts_tabs (upd_tab s i f)) = length (ts_tabs s)"
  by (simp_all add: upd_tab_def)

lemma open_tabs_upd_tab: "open_tabs (upd_tab s i f) = (open_tabs s)[nat i := f (ts_tabs s ! nat i)]"
  by (simp add: open_tabs_def upd_tab_def take_update_swap)

lemma upd_same: "i < length xs \<Longrightarrow> g y = g (xs ! i) \<Longrightarrow> map g (xs[i := y]) = map g xs"
  by (simp add: map_update list_update_same_conv)

text \<open>A change that keeps the id and a well-formed history keeps the strip well formed.\<close>

lemma wf_upd_tab [wf_intros]:
  assumes "wf_strip s" "i < ts_count s" "tab_ID (f (ts_tabs s ! i)) = tab_ID (ts_tabs s ! i)"
    "wf_nav (tab_nav (f (ts_tabs s ! i)))"
  shows "wf_strip (upd_tab s (int i) f)"
proof -
  have l: "length (open_tabs s) = ts_count s" by (rule length_open_tabs [OF assms(1)])
  have ids: "map tab_ID (open_tabs (upd_tab s (int i) f)) = map tab_ID (open_tabs s)"
    using assms l by (simp add: open_tabs_upd_tab upd_same nth_open_tabs)
  have "tab_ID (ts_tabs s ! i) \<noteq> 0" using assms l nth_open_tabs [of i s]
    by (metis (no_types, lifting) nth_mem wf_strip_def)
  then have "\<forall>t \<in> set (open_tabs (upd_tab s (int i) f)). tab_ID t \<noteq> 0 \<and> wf_nav (tab_nav t)"
    using assms(1,3,4) by (auto simp: open_tabs_upd_tab wf_strip_def
        dest!: set_update_subset_insert [THEN subsetD])
  then show ?thesis using assms(1) ids by (simp add: wf_strip_def frame_simps)
qed

lemma wf_tab_nav: "wf_strip s \<Longrightarrow> i < ts_count s \<Longrightarrow> wf_nav (tab_nav (ts_tabs s ! i))"
  using tab_in_open [of s i] by (auto simp: wf_strip_def)

subsection \<open>Every operation keeps the invariant\<close>

definition fresh_tab :: "u32 \<Rightarrow> string \<Rightarrow> tab" where
  "fresh_tab wid title = zero_tab\<lparr>tab_ID := wid, tab_Title := title, tab_Bin := guessBin title\<rparr>"

lemma OpenTab_fresh:
  assumes "wf_strip s" "wid \<noteq> 0" "wid \<notin> tab_ID ` set (open_tabs s)" "ts_count s < 16"
  shows "fst (OpenTab s wid title)"
    and "open_tabs (snd (OpenTab s wid title)) = open_tabs s @ [fresh_tab wid title]"
    and "ts_count (snd (OpenTab s wid title)) = ts_count s + 1"
    and "ts_focus (snd (OpenTab s wid title)) = ts_focus s"
    and "wf_strip (snd (OpenTab s wid title))"
proof -
  have ix: "\<not> index s wid \<ge> 0" using assms index_nonneg_iff by blast
  have tk: "take (Suc n) (xs[n := y]) = take n xs @ [y]" if "n < length xs" for n y and xs :: "tab list"
    using that by (simp add: take_Suc_conv_app_nth)
  show "fst (OpenTab s wid title)" using ix assms by (simp add: OpenTab_def)
  show o: "open_tabs (snd (OpenTab s wid title)) = open_tabs s @ [fresh_tab wid title]"
    using assms ix tk by (simp add: OpenTab_def open_tabs_def wf_strip_def fresh_tab_def)
  show c: "ts_count (snd (OpenTab s wid title)) = ts_count s + 1"
    using assms ix by (simp add: OpenTab_def)
  show f: "ts_focus (snd (OpenTab s wid title)) = ts_focus s"
    using assms ix by (simp add: OpenTab_def wf_strip_def)
  show "wf_strip (snd (OpenTab s wid title))"
    using assms ix o c unfolding wf_strip_def
    by (auto simp: OpenTab_def fresh_tab_def zero_tab_def split: if_splits)
qed

lemma wf_OpenTab [wf_intros]:
  assumes "wf_strip s"
  shows "wf_strip (snd (OpenTab s wid title))"
  using assms
proof (cases rule: index_cases [where wid = wid])
  case missing
  then show ?thesis
    using assms OpenTab_fresh(5) [OF assms, of wid title]
    by (cases "wid \<noteq> 0 \<and> ts_count s < 16") (auto simp: OpenTab_def)
next
  case (found i)
  then show ?thesis using assms wf_tab_nav [OF assms, of i]
    by (auto simp: OpenTab_def Let_def intro!: wf_intros)
qed

lemma wf_upd_op:
  assumes "wf_strip s" and "\<And>t. tab_ID (f t) = tab_ID t" "\<And>t. wf_nav (tab_nav t) \<Longrightarrow> wf_nav (tab_nav (f t))"
    and "index s wid \<ge> 0"
  shows "wf_strip (upd_tab s (index s wid) f)"
  by (rule index_cases [OF assms(1), of wid])
    (use assms wf_tab_nav in \<open>auto intro!: wf_intros\<close>)

lemma wf_Freeze [wf_intros]: "wf_strip s \<Longrightarrow> wf_strip (snd (Freeze s wid))"
  by (auto simp: Freeze_def Let_def intro!: wf_upd_op)

lemma wf_Thaw [wf_intros]: "wf_strip s \<Longrightarrow> wf_strip (snd (Thaw s wid))"
  by (auto simp: Thaw_def Let_def intro!: wf_upd_op)

lemma wf_SetTitle [wf_intros]: "wf_strip s \<Longrightarrow> wf_strip (snd (SetTitle s wid title))"
  by (auto simp: SetTitle_def Let_def intro!: wf_upd_op)

lemma wf_nav_op:
  assumes "wf_strip s" and "\<And>h. wf_nav h \<Longrightarrow> wf_nav (g h)" and "index s wid \<ge> 0"
  shows "wf_strip (upd_tab s (index s wid) (\<lambda>t. t\<lparr>tab_nav := g (tab_nav (ts_tabs s ! nat (index s wid)))\<rparr>))"
  by (rule index_cases [OF assms(1), of wid])
    (use assms wf_tab_nav in \<open>auto intro!: wf_intros\<close>)

lemma wf_NavDeclare [wf_intros]: "wf_strip s \<Longrightarrow> wf_strip (snd (snd (NavDeclare s wid path)))"
  using wf_nav_op [of s "nav_visit path" wid] seat_nav.invar_visit
  by (auto simp: NavDeclare_def Let_def nav_visit_def)

lemma wf_NavBack [wf_intros]: "wf_strip s \<Longrightarrow> wf_strip (snd (NavBack s wid))"
  using wf_nav_op [of s "\<lambda>h. snd (navBack h)" wid] seat_nav.invar_back
  by (auto simp: NavBack_def Let_def)

lemma wf_NavForward [wf_intros]: "wf_strip s \<Longrightarrow> wf_strip (snd (NavForward s wid))"
  using wf_nav_op [of s "\<lambda>h. snd (navForward h)" wid] seat_nav.invar_forward
  by (auto simp: NavForward_def Let_def)

lemma wf_FocusTab [wf_intros]: "wf_strip s \<Longrightarrow> wf_strip (snd (FocusTab s wid))"
  by (rule index_cases [of s wid])
    (auto simp: FocusTab_def wf_strip_def open_tabs_def)

lemma wf_setSplit [wf_intros]: "wf_strip s \<Longrightarrow> wf_strip (snd (setSplit s k))"
  by (auto simp: setSplit_def wf_strip_def open_tabs_def)

lemma wf_Unsplit [wf_intros]: "wf_strip s \<Longrightarrow> wf_strip (snd (Unsplit s))"
  by (auto simp: Unsplit_def wf_strip_def open_tabs_def)

lemma wf_SetSash [wf_intros]: "wf_strip s \<Longrightarrow> wf_strip (snd (SetSash s pos W H))"
  by (auto simp: SetSash_def Let_def wf_strip_def open_tabs_def)

lemma open_recordClosed [simp]: "open_tabs (recordClosed s t) = open_tabs s"
  by (simp add: recordClosed_def open_tabs_def)

lemma recordClosed_frame [simp]:
  "ts_tabs (recordClosed s t) = ts_tabs s" "ts_count (recordClosed s t) = ts_count s"
  "ts_focus (recordClosed s t) = ts_focus s" "ts_split (recordClosed s t) = ts_split s"
  "ts_sash (recordClosed s t) = ts_sash s"
  by (simp_all add: recordClosed_def)

lemma wf_recordClosed [wf_intros]: "wf_strip s \<Longrightarrow> wf_strip (recordClosed s t)"
  by (auto simp: wf_strip_def) (auto simp: recordClosed_def)

text \<open>Removing the element at a position is filtering by its key when the keys are distinct.\<close>

lemma remove_nth_filter:
  assumes "distinct (map f xs)" "i < length xs"
  shows "take i xs @ drop (Suc i) xs = filter (\<lambda>x. f x \<noteq> f (xs ! i)) xs"
proof -
  have x: "xs = take i xs @ xs ! i # drop (Suc i) xs" using assms(2) by (rule id_take_nth_drop)
  have "distinct (map f (take i xs @ xs ! i # drop (Suc i) xs))" using assms(1) x by metis
  then have "\<forall>y \<in> set (take i xs). f y \<noteq> f (xs ! i)" "\<forall>y \<in> set (drop (Suc i) xs). f y \<noteq> f (xs ! i)"
    by (simp_all add: image_iff) metis+
  then have "filter (\<lambda>x. f x \<noteq> f (xs ! i)) (take i xs @ xs ! i # drop (Suc i) xs)
      = take i xs @ drop (Suc i) xs"
    by (simp add: filter_id_conv)
  then show ?thesis using x by metis
qed

lemma open_remove_at:
  assumes "wf_strip s" "i < ts_count s"
  shows "open_tabs (remove_at s i) = take i (open_tabs s) @ drop (Suc i) (open_tabs s)"
proof -
  have "open_tabs (remove_at s i) = take (ts_count s - 1) (shift_down (ts_tabs s) i (ts_count s))"
    by (auto simp: remove_at_def open_tabs_def Let_def)
  also have "\<dots> = take i (ts_tabs s) @ drop (i + 1) (open_tabs s)"
    using assms take_shift_down [of i "ts_count s" "ts_tabs s"] by (simp add: wf_strip_def open_tabs_def)
  finally show ?thesis using assms by (simp add: open_tabs_def)
qed

lemma open_remove_at_filter:
  assumes "wf_strip s" "i < ts_count s"
  shows "open_tabs (remove_at s i) = filter (\<lambda>t. tab_ID t \<noteq> tab_ID (ts_tabs s ! i)) (open_tabs s)"
  using open_remove_at [OF assms] remove_nth_filter [of tab_ID "open_tabs s" i] assms
    length_open_tabs [OF assms(1)] nth_open_tabs [OF assms(2)]
  by (simp add: wf_strip_def)

lemma wf_remove_at [wf_intros]:
  assumes "wf_strip s" "i < ts_count s"
  shows "wf_strip (remove_at s i)"
proof -
  note o = open_remove_at_filter [OF assms]
  have "distinct (map tab_ID (open_tabs (remove_at s i)))"
    "\<forall>t \<in> set (open_tabs (remove_at s i)). tab_ID t \<noteq> 0 \<and> wf_nav (tab_nav t)"
    using assms(1) unfolding o by (auto simp: wf_strip_def distinct_map_filter)
  then show ?thesis
    using assms unfolding wf_strip_def
    by (auto simp: remove_at_def Let_def split: if_splits)
qed

lemma wf_close_strip [wf_intros]: "wf_strip s \<Longrightarrow> wf_strip (snd (close_strip s wid))"
  by (rule index_cases [of s wid])
    (auto simp: close_strip_def Let_def intro!: wf_intros)

text \<open>Rearranging the open tabs keeps the invariant, the focus following its tab by id.\<close>

lemma index_arranged:
  assumes "wid \<in> tab_ID ` set (open_tabs s)"
  shows "0 \<le> index s wid \<and> index s wid < int (ts_count s)"
proof (cases "first_index (\<lambda>t. tab_ID t = wid) (open_tabs s)")
  case None
  then show ?thesis using assms by (auto simp: first_index_None)
next
  case (Some i)
  then have "i < length (open_tabs s)" by (simp add: first_index_Some)
  then show ?thesis using Some by (simp add: index_def open_tabs_def)
qed

lemma wf_rearrange:
  assumes wf: "wf_strip s" and len: "length tabs = 16"
    and perm: "mset (take (ts_count s) tabs) = mset (open_tabs s)"
  shows "wf_strip (refocus (Focused s) (s\<lparr>ts_tabs := tabs\<rparr>))"
    and "open_tabs (refocus (Focused s) (s\<lparr>ts_tabs := tabs\<rparr>)) = take (ts_count s) tabs"
    and "Focused (refocus (Focused s) (s\<lparr>ts_tabs := tabs\<rparr>)) = Focused s"
proof -
  let ?u = "s\<lparr>ts_tabs := tabs\<rparr>" and ?r = "refocus (Focused s) (s\<lparr>ts_tabs := tabs\<rparr>)"
  have ou: "open_tabs ?u = take (ts_count s) tabs" by (simp add: open_tabs_def)
  show o: "open_tabs ?r = take (ts_count s) tabs"
    by (cases "Focused s") (auto simp: refocus_def open_tabs_def)
  have ids: "mset (map tab_ID (take (ts_count s) tabs)) = mset (map tab_ID (open_tabs s))"
    using perm by simp
  have d: "distinct (map tab_ID (open_tabs ?r))"
    using wf mset_eq_imp_distinct_iff [OF ids] unfolding o by (simp add: wf_strip_def)
  have st: "set (open_tabs ?r) = set (open_tabs s)" using mset_eq_setD [OF perm] o by simp
  show "wf_strip ?r"
  proof (cases "Focused s")
    case None
    then show ?thesis using wf d st len Focused_None [OF wf] by (auto simp: refocus_def wf_strip_def)
  next
    case (Some f)
    then have "0 \<le> index ?u f \<and> index ?u f < int (ts_count s)"
      using index_arranged [of f ?u] Focused_open [OF wf Some] mset_eq_setD [OF perm] ou by simp
    then show ?thesis using wf d st len Some Focused_None [OF wf] by (auto simp: refocus_def wf_strip_def)
  qed
  show "Focused ?r = Focused s"
  proof (cases "Focused s")
    case None
    then show ?thesis using Focused_None [OF wf] by (simp add: refocus_def Focused_def)
  next
    case (Some f)
    obtain i where i: "first_index (\<lambda>t. tab_ID t = f) (open_tabs ?u) = Some i"
      using Focused_open [OF wf Some] mset_eq_setD [OF perm] ou
      by (cases "first_index (\<lambda>t. tab_ID t = f) (open_tabs ?u)") (auto simp: first_index_None)
    then have "i < length (open_tabs ?u)" "tab_ID (open_tabs ?u ! i) = f" by (auto simp: first_index_Some)
    then show ?thesis using i Some by (auto simp: refocus_def Focused_def index_def open_tabs_def)
  qed
qed

text \<open>The abstract move: take the element out and put it back at the target position.\<close>

definition move_item :: "nat \<Rightarrow> nat \<Rightarrow> 'a list \<Rightarrow> 'a list" where
  "move_item f t xs = (let ys = take f xs @ drop (Suc f) xs in take t ys @ xs ! f # drop t ys)"

lemma length_move_item [simp]: "f < length xs \<Longrightarrow> length (move_item f t xs) = length xs"
  by (simp add: move_item_def Let_def)

lemma mset_move_item: "f < length xs \<Longrightarrow> mset (move_item f t xs) = mset xs"
proof -
  assume f: "f < length xs"
  have ins: "mset (take t ys @ x # drop t ys) = add_mset x (mset ys)" for ys :: "'a list" and x
    by (metis append_take_drop_id mset.simps(2) mset_append union_mset_add_mset_right)
  show ?thesis
    unfolding move_item_def Let_def ins by (subst (4) id_take_nth_drop [OF f]) simp
qed

lemma nth_move_item:
  "f < length xs \<Longrightarrow> t < length xs \<Longrightarrow> k < length xs \<Longrightarrow>
     move_item f t xs ! k =
       (if k = t then xs ! f
        else if f \<le> k \<and> k < t then xs ! (k + 1)
        else if t < k \<and> k \<le> f then xs ! (k - 1) else xs ! k)"
  by (auto simp: move_item_def Let_def nth_append nth_Cons' min_def)

lemma wf_normalizePinned:
  assumes "wf_strip s"
  shows "wf_strip (normalizePinned s)"
    and "open_tabs (normalizePinned s) =
      filter tab_Pinned (open_tabs s) @ filter (\<lambda>t. \<not> tab_Pinned t) (open_tabs s)"
    and "Focused (normalizePinned s) = Focused s"
proof -
  let ?part = "filter tab_Pinned (open_tabs s) @ filter (\<lambda>t. \<not> tab_Pinned t) (open_tabs s)"
  have lp: "length ?part = ts_count s"
    using sum_length_filter_compl [of tab_Pinned "open_tabs s"] length_open_tabs [OF assms] by simp
  have lt: "length (ts_tabs s) = 16" "ts_count s \<le> 16" using assms by (simp_all add: wf_strip_def)
  have tk: "take (ts_count s) (go_copy (ts_tabs s) ?part) = ?part"
    using take_go_copy [of ?part "ts_tabs s"] lp lt by simp
  then have perm: "mset (take (ts_count s) (go_copy (ts_tabs s) ?part)) = mset (open_tabs s)" by simp
  note r = wf_rearrange [OF assms _ perm]
  have e: "open_tabs s = [] \<longleftrightarrow> ts_count s = 0" using length_open_tabs [OF assms] by auto
  show "wf_strip (normalizePinned s)" "open_tabs (normalizePinned s) = ?part"
    "Focused (normalizePinned s) = Focused s"
    using r assms lt tk e by (auto simp: normalizePinned_def)
qed

lemma wf_Pin [wf_intros]: "wf_strip s \<Longrightarrow> wf_strip (snd (Pin s wid))"
  by (auto simp: Pin_def Let_def intro!: wf_normalizePinned wf_upd_op)

lemma wf_Unpin [wf_intros]: "wf_strip s \<Longrightarrow> wf_strip (snd (Unpin s wid))"
  by (auto simp: Unpin_def Let_def intro!: wf_normalizePinned wf_upd_op)

lemma Reorder_list:
  assumes wf: "wf_strip s" and g: "fst (Reorder s from to)"
  shows "wf_strip (snd (Reorder s from to))"
    and "open_tabs (snd (Reorder s from to)) = move_item (nat from) (nat to) (open_tabs s)"
    and "Focused (snd (Reorder s from to)) = Focused s"
proof -
  define f where "f = nat from"
  define t where "t = nat to"
  have ft: "f < ts_count s" "t < ts_count s" "f \<noteq> t"
    using g by (auto simp: Reorder_def f_def t_def split: if_splits)
  have lt: "length (ts_tabs s) = 16" "ts_count s \<le> 16" using wf by (simp_all add: wf_strip_def)
  define tabs where "tabs = (if f < t then shift_down (ts_tabs s) f (t + 1)
    else shift_up (ts_tabs s) f t)[t := ts_tabs s ! f]"
  have len: "length tabs = 16" using lt by (simp add: tabs_def)
  have nth: "tabs ! k = move_item f t (open_tabs s) ! k" if "k < ts_count s" for k
    using ft lt that length_open_tabs [OF wf]
    by (auto simp: tabs_def nth_list_update nth_shift_down nth_shift_up nth_move_item nth_open_tabs)
  have tk: "take (ts_count s) tabs = move_item f t (open_tabs s)"
    using ft len lt length_open_tabs [OF wf] by (intro nth_equalityI) (auto simp: nth)
  then have perm: "mset (take (ts_count s) tabs) = mset (open_tabs s)"
    using mset_move_item [of f "open_tabs s" t] ft length_open_tabs [OF wf] by simp
  have "snd (Reorder s from to) = refocus (Focused s) (s\<lparr>ts_tabs := tabs\<rparr>)"
    using g by (auto simp: Reorder_def tabs_def f_def t_def Let_def split: if_splits)
  then show "wf_strip (snd (Reorder s from to))"
    "open_tabs (snd (Reorder s from to)) = move_item (nat from) (nat to) (open_tabs s)"
    "Focused (snd (Reorder s from to)) = Focused s"
    using wf_rearrange [OF wf len perm] tk by (simp_all add: f_def t_def)
qed

lemma wf_Reorder [wf_intros]: "wf_strip s \<Longrightarrow> wf_strip (snd (Reorder s from to))"
proof (cases "fst (Reorder s from to)")
  case False
  then show "wf_strip s \<Longrightarrow> ?thesis" by (auto simp: Reorder_def Let_def split: if_splits)
qed (rule Reorder_list)

subsection \<open>The reopen ring is a bounded stack\<close>

text \<open>
  A bounded stack: a push keeps the newest \<open>cap\<close> entries, a pop takes the newest. \<open>entry\<close> is what
  the store keeps of the pushed thing.
\<close>

locale bounded_stack =
  fixes invar :: "'s \<Rightarrow> bool"
    and stack :: "'s \<Rightarrow> 'e list"
    and cap :: nat
    and entry :: "'a \<Rightarrow> 'e"
    and push :: "'s \<Rightarrow> 'a \<Rightarrow> 's"
    and pop :: "'s \<Rightarrow> 'e option \<times> 's"
  assumes cap_pos: "cap > 0"
    and invar_push: "invar s \<Longrightarrow> invar (push s a)"
    and invar_pop: "invar s \<Longrightarrow> invar (snd (pop s))"
    and stack_bound: "invar s \<Longrightarrow> length (stack s) \<le> cap"
    and push_stack: "invar s \<Longrightarrow> stack (push s a) = take cap (entry a # stack s)"
    and pop_stack: "invar s \<Longrightarrow>
      (case stack s of [] \<Rightarrow> pop s = (None, s)
       | x # xs \<Rightarrow> fst (pop s) = Some x \<and> stack (snd (pop s)) = xs)"
begin

lemma push_pop:
  assumes "invar s"
  shows "fst (pop (push s a)) = Some (entry a)"
    and "stack (snd (pop (push s a))) = take (cap - 1) (stack s)"
  using pop_stack [OF invar_push [OF assms], of a] push_stack [OF assms, of a] cap_pos
  by (cases cap; simp)+

lemma invar_pushes: "invar s \<Longrightarrow> invar (foldl push s xs)"
  by (induction xs arbitrary: s) (auto simp: invar_push)

lemma stack_pushes: "invar s \<Longrightarrow> stack (foldl push s xs) = take cap (rev (map entry xs) @ stack s)"
proof (induction xs arbitrary: s)
  case Nil
  then show ?case using stack_bound by simp
next
  case (Cons a xs)
  have tt: "take cap (ys @ take cap zs) = take cap (ys @ zs)" for ys zs :: "'e list"
    by (simp add: min_def)
  have "stack (foldl push (push s a) xs) = take cap (rev (map entry xs) @ take cap (entry a # stack s))"
    using Cons.IH [OF invar_push [OF Cons.prems], of a] push_stack [OF Cons.prems, of a] by simp
  then show ?case using tt [of "rev (map entry xs)" "entry a # stack s"] by simp
qed

end

definition cl_of :: "tab \<Rightarrow> closed_tab" where
  "cl_of t = \<lparr>cl_Bin = tab_Bin t, cl_Title = tab_Title t\<rparr>"

text \<open>One turn of the loop of \<^verbatim>\<open>ReopenLastClosed\<close>.\<close>

definition ring_pop :: "strip \<Rightarrow> closed_tab option \<times> strip" where
  "ring_pop s =
     (if ts_closedLive s > 0
      then (Some (ts_closed s ! ((ts_closedCount s - 1) mod MaxTabs)),
            s\<lparr>ts_closedCount := ts_closedCount s - 1, ts_closedLive := ts_closedLive s - 1\<rparr>)
      else (None, s))"

lemma ring_slot_neq: "1 \<le> k \<Longrightarrow> k < 16 \<Longrightarrow> k \<le> n \<Longrightarrow> (n - k) mod 16 \<noteq> n mod (16 :: nat)"
proof
  assume k: "1 \<le> k" "k < 16" "k \<le> n" and "(n - k) mod 16 = n mod 16"
  then have "16 dvd n - (n - k)" using mod_eq_dvd_iff_nat [of "n - k" n 16] by simp
  then show False using k by (auto dest: dvd_imp_le)
qed

lemma closed_stack_push:
  assumes "wf_strip s"
  shows "closed_stack (recordClosed s t) = take 16 (cl_of t # closed_stack s)"
proof (rule nth_equalityI)
  have l: "ts_closedLive s \<le> 16" "ts_closedLive s \<le> ts_closedCount s" "length (ts_closed s) = 16"
    using assms by (auto simp: wf_strip_def)
  then show "length (closed_stack (recordClosed s t)) = length (take 16 (cl_of t # closed_stack s))"
    by (auto simp: closed_stack_def recordClosed_def)
  fix k assume "k < length (closed_stack (recordClosed s t))"
  then have k: "k < 16" "k \<le> ts_closedLive s"
    using l by (auto simp: closed_stack_def recordClosed_def split: if_splits)
  show "closed_stack (recordClosed s t) ! k = take 16 (cl_of t # closed_stack s) ! k"
  proof (cases k)
    case 0
    then show ?thesis using l by (simp add: closed_stack_def recordClosed_def cl_of_def)
  next
    case (Suc j)
    then have "(ts_closedCount s - Suc j) mod 16 \<noteq> ts_closedCount s mod 16"
      using ring_slot_neq [of "Suc j" "ts_closedCount s"] k l by simp
    then show ?thesis using Suc k l by (simp add: closed_stack_def recordClosed_def)
  qed
qed

lemma closed_stack_pop:
  "ts_closedLive s > 0 \<Longrightarrow> closed_stack s = the (fst (ring_pop s)) # closed_stack (snd (ring_pop s))"
proof -
  assume p: "ts_closedLive s > 0"
  have "closed_stack s = map (\<lambda>k. ts_closed s ! ((ts_closedCount s - 1 - k) mod 16))
      (0 # map Suc [0..<ts_closedLive s - 1])"
    using p unfolding closed_stack_def by (metis Suc_pred' map_Suc_upt upt_conv_Cons)
  then show ?thesis using p by (auto simp: ring_pop_def closed_stack_def)
qed

lemma wf_ring_pop: "wf_strip s \<Longrightarrow> wf_strip (snd (ring_pop s))"
  by (auto simp: ring_pop_def wf_strip_def open_tabs_def)

interpretation reopen: bounded_stack wf_strip closed_stack 16 cl_of recordClosed ring_pop
proof unfold_locales
  fix s assume wf: "wf_strip s"
  show "case closed_stack s of [] \<Rightarrow> ring_pop s = (None, s)
    | x # xs \<Rightarrow> fst (ring_pop s) = Some x \<and> closed_stack (snd (ring_pop s)) = xs"
  proof (cases "ts_closedLive s > 0")
    case True
    then show ?thesis using closed_stack_pop [of s] by (auto simp: ring_pop_def)
  next
    case False
    then show ?thesis by (simp add: closed_stack_def ring_pop_def)
  qed
qed (simp_all add: wf_recordClosed wf_ring_pop closed_stack_push, simp add: closed_stack_def wf_strip_def)

lemma ReopenLastClosed_ring:
  "ReopenLastClosed s =
     (case ring_pop s of (None, _) \<Rightarrow> (None, s)
      | (Some c, s') \<Rightarrow> if cl_Bin c = [] then ReopenLastClosed s' else (Some c, s'))"
  by (subst ReopenLastClosed.simps) (simp add: ring_pop_def Let_def)

text \<open>Reopening pops to the newest entry that names an executable.\<close>

lemma ReopenLastClosed_stack:
  "wf_strip s \<Longrightarrow>
     (case dropWhile (\<lambda>c. cl_Bin c = []) (closed_stack s) of
        [] \<Rightarrow> fst (ReopenLastClosed s) = None \<and> closed_stack (snd (ReopenLastClosed s)) = []
      | c # cs \<Rightarrow> fst (ReopenLastClosed s) = Some c \<and> closed_stack (snd (ReopenLastClosed s)) = cs)
     \<and> wf_strip (snd (ReopenLastClosed s)) \<and> open_tabs (snd (ReopenLastClosed s)) = open_tabs s"
proof (induction "closed_stack s" arbitrary: s)
  case Nil
  then have "ring_pop s = (None, s)" using reopen.pop_stack [OF Nil.prems] by simp
  then show ?case using Nil by (simp add: ReopenLastClosed_ring [of s])
next
  case (Cons c cs)
  obtain s' where p: "ring_pop s = (Some c, s')" and st: "closed_stack s' = cs"
    using reopen.pop_stack [OF Cons.prems] Cons.hyps(2) [symmetric] by (cases "ring_pop s") auto
  have wf': "wf_strip s'" using wf_ring_pop [OF Cons.prems] p by simp
  have o: "open_tabs s' = open_tabs s"
    using p by (auto simp: ring_pop_def open_tabs_def split: if_splits)
  have r: "ReopenLastClosed s = (if cl_Bin c = [] then ReopenLastClosed s' else (Some c, s'))"
    using p by (subst ReopenLastClosed_ring) simp
  show ?case
  proof (cases "cl_Bin c = []")
    case True
    then have e: "ReopenLastClosed s = ReopenLastClosed s'" using r by simp
    show ?thesis
      using Cons.hyps(1) [OF st [symmetric] wf'] st o True
      unfolding Cons.hyps(2) [symmetric] e by simp
  next
    case False
    then show ?thesis using r st wf' o unfolding Cons.hyps(2) [symmetric] by simp
  qed
qed

lemma remove_at_closed [simp]:
  "ts_closed (remove_at s i) = ts_closed s" "ts_closedCount (remove_at s i) = ts_closedCount s"
  "ts_closedLive (remove_at s i) = ts_closedLive s" "closed_stack (remove_at s i) = closed_stack s"
  by (simp_all add: remove_at_def Let_def closed_stack_def)

subsection \<open>Sequences of operations\<close>

datatype strip_op =
    OpOpen u32 string | OpSetTitle u32 string | OpClose u32 | OpFocus u32 | OpFreeze u32 | OpThaw u32
  | OpPin u32 | OpUnpin u32 | OpReorder int int | OpSplit split_kind | OpUnsplit
  | OpSash int u32 u32 | OpNavDeclare u32 string | OpNavBack u32 | OpNavForward u32 | OpReopen

fun strip_apply :: "strip \<Rightarrow> strip_op \<Rightarrow> strip" where
  "strip_apply s (OpOpen wid title) = snd (OpenTab s wid title)"
| "strip_apply s (OpSetTitle wid title) = snd (SetTitle s wid title)"
| "strip_apply s (OpClose wid) = snd (close_strip s wid)"
| "strip_apply s (OpFocus wid) = snd (FocusTab s wid)"
| "strip_apply s (OpFreeze wid) = snd (Freeze s wid)"
| "strip_apply s (OpThaw wid) = snd (Thaw s wid)"
| "strip_apply s (OpPin wid) = snd (Pin s wid)"
| "strip_apply s (OpUnpin wid) = snd (Unpin s wid)"
| "strip_apply s (OpReorder a b) = snd (Reorder s a b)"
| "strip_apply s (OpSplit k) = snd (setSplit s k)"
| "strip_apply s OpUnsplit = snd (Unsplit s)"
| "strip_apply s (OpSash p W H) = snd (SetSash s p W H)"
| "strip_apply s (OpNavDeclare wid path) = snd (snd (NavDeclare s wid path))"
| "strip_apply s (OpNavBack wid) = snd (NavBack s wid)"
| "strip_apply s (OpNavForward wid) = snd (NavForward s wid)"
| "strip_apply s OpReopen = snd (ReopenLastClosed s)"

lemma wf_strip_apply [wf_intros]: "wf_strip s \<Longrightarrow> wf_strip (strip_apply s op)"
  by (cases op) (auto intro: wf_intros simp: ReopenLastClosed_stack)

lemma wf_strip_run: "wf_strip s \<Longrightarrow> wf_strip (foldl strip_apply s ops)"
  by (induction ops arbitrary: s) (auto intro: wf_intros)

lemma nth_removed:
  "k < length xs \<Longrightarrow> j < length xs - 1 \<Longrightarrow>
     (take k xs @ drop (Suc k) xs) ! j = (if j < k then xs ! j else xs ! Suc j)"
  by (auto simp: nth_append)

text \<open>Where the focus goes when the tab at \<open>k\<close> is removed.\<close>

lemma focus_remove_at:
  assumes "wf_strip s" "k < ts_count s" "ts_count s > 1"
  shows "nat (ts_focus (remove_at s k)) =
    (if k < nat (ts_focus s) then nat (ts_focus s) - 1 else min (nat (ts_focus s)) (ts_count s - 2))"
  using assms by (auto simp: remove_at_def Let_def wf_strip_def)

lemma Focused_is_at:
  assumes "wf_strip s" "k < ts_count s"
  shows "Focused s = Some (tab_ID (ts_tabs s ! k)) \<longleftrightarrow> nat (ts_focus s) = k"
proof -
  have fs: "0 \<le> ts_focus s" "nat (ts_focus s) < ts_count s" using assms by (auto simp: wf_strip_def)
  then show ?thesis
    using index_eq [OF assms(1) fs(2)] index_eq [OF assms refl] Focused_wf [OF assms(1)] assms(2) by auto
qed

lemma Focused_remove_at:
  assumes wf: "wf_strip s" and k: "k < ts_count s"
  defines "s' \<equiv> remove_at s k"
  shows "Focused s' =
    (if open_tabs s' = [] then None
     else if nat (ts_focus s) \<noteq> k then Focused s
     else Some (tab_ID (open_tabs s' ! min k (length (open_tabs s') - 1))))"
proof (cases "ts_count s > 1")
  case False
  then have "ts_count s' = 0" by (simp add: s'_def remove_at_def Let_def)
  then show ?thesis by (simp add: Focused_def open_tabs_def)
next
  case True
  have wf': "wf_strip s'" unfolding s'_def by (rule wf_remove_at [OF wf k])
  have c': "ts_count s' = ts_count s - 1" by (simp add: s'_def remove_at_def Let_def)
  have len: "length (open_tabs s) = ts_count s" "length (open_tabs s') = ts_count s - 1"
    using length_open_tabs wf wf' c' by simp_all
  have fs: "nat (ts_focus s) < ts_count s" "nat (ts_focus s') < ts_count s'"
    using wf wf' k True c' by (auto simp: wf_strip_def)
  have f': "Focused s' = Some (tab_ID (open_tabs s' ! nat (ts_focus s')))"
    using Focused_wf [OF wf'] fs True c' by (simp add: nth_open_tabs)
  note ff = focus_remove_at [OF wf k True, folded s'_def]
  have ne: "open_tabs s' \<noteq> []" using len True by auto
  show ?thesis
  proof (cases "nat (ts_focus s) = k")
    case eq: True
    then have "nat (ts_focus s') = min k (length (open_tabs s') - 1)"
      using ff len by (simp add: numeral_2_eq_2)
    then show ?thesis using f' ne eq by simp
  next
    case False
    have j: "nat (ts_focus s') < length (open_tabs s) - 1" using fs(2) c' len by simp
    have "open_tabs s' ! nat (ts_focus s') = open_tabs s ! nat (ts_focus s)"
    proof (cases "k < nat (ts_focus s)")
      case True
      then have "nat (ts_focus s') = nat (ts_focus s) - 1" using ff by simp
      then show ?thesis
        using True j k len nth_removed [of k "open_tabs s" "nat (ts_focus s')"]
          open_remove_at [OF wf k, folded s'_def] by simp
    next
      case below: False
      then have "nat (ts_focus s') = nat (ts_focus s)" "nat (ts_focus s) < k"
        using ff False k by (simp_all add: min_def)
      then show ?thesis
        using j k len nth_removed [of k "open_tabs s" "nat (ts_focus s')"]
          open_remove_at [OF wf k, folded s'_def] by simp
    qed
    also have "\<dots> = ts_tabs s ! nat (ts_focus s)" by (rule nth_open_tabs [OF fs(1)])
    finally have "Focused s' = Focused s" using f' Focused_wf [OF wf] True by simp
    then show ?thesis using ne False by simp
  qed
qed

subsection \<open>Properties\<close>

text \<open>
  C33. Whatever sequence of operations runs on the strip, it stays well formed: at most sixteen
  tabs, their ids distinct and non-zero, the focus on an open tab whenever there is one, a split
  only with two tabs or more, a sash only with a split, every tab's history well formed, and no
  more live entries in the reopen ring than it has slots.
\<close>

theorem strip_always_wf: "wf_strip (foldl strip_apply empty_strip ops)"
  by (rule wf_strip_run) simp

text \<open>
  C34. Closing a tab removes exactly that tab and keeps the order of the others. The focus stays
  on its tab when another one is closed; when the focused tab is closed it moves to the tab that
  takes its place, or to the last tab. The closed tab is on top of the reopen stack.
\<close>

theorem close_refines:
  assumes "wf_strip s" "wid \<in> tab_ID ` set (open_tabs s)"
  defines "s' \<equiv> snd (close_strip s wid)" and "i \<equiv> nat (index s wid)"
  shows "fst (close_strip s wid)
    \<and> open_tabs s' = filter (\<lambda>t. tab_ID t \<noteq> wid) (open_tabs s)
    \<and> Focused s' =
        (if open_tabs s' = [] then None
         else if Focused s \<noteq> Some wid then Focused s
         else Some (tab_ID (open_tabs s' ! min i (length (open_tabs s') - 1))))
    \<and> closed_stack s' = take 16 (cl_of (open_tabs s ! i) # closed_stack s)"
proof -
  obtain k where k: "index s wid = int k" "k < ts_count s" "tab_ID (ts_tabs s ! k) = wid"
    using assms(2) index_nonneg_iff [OF assms(1), of wid] by (auto intro: index_cases [OF assms(1), of wid])
  let ?r = "recordClosed s (ts_tabs s ! k)"
  have s': "s' = remove_at ?r k" and i: "i = k" by (simp_all add: s'_def close_strip_def i_def k)
  have wfr: "wf_strip ?r" by (rule wf_recordClosed [OF assms(1)])
  have kr: "k < ts_count ?r" using k by simp
  have fr: "Focused ?r = Focused s" by (simp add: Focused_def)
  show ?thesis
    using open_remove_at_filter [OF wfr kr] Focused_remove_at [OF wfr kr] Focused_is_at [OF assms(1) k(2)]
      closed_stack_push [OF assms(1), of "ts_tabs s ! k"] k i s' fr
    by (simp add: close_strip_def nth_open_tabs)
qed

theorem close_refines_witness:
  "let s = foldl strip_apply empty_strip [OpOpen 3 ''Calc'', OpOpen 5 ''Edit'', OpOpen 7 ''Term'', OpFocus 5];
       s' = snd (close_strip s 5)
   in Focused s = Some 5 \<and> open_tabs s' = filter (\<lambda>t. tab_ID t \<noteq> 5) (open_tabs s)
      \<and> map tab_ID (open_tabs s') = [3, 7]"
proof -
  let ?s = "foldl strip_apply empty_strip
    [OpOpen 3 ''Calc'', OpOpen 5 ''Edit'', OpOpen 7 ''Term'', OpFocus 5]"
  have wf: "wf_strip ?s" by (rule wf_strip_run) simp
  have ids: "map tab_ID (open_tabs ?s) = [3, 5, 7]" and f: "Focused ?s = Some 5"
    and m: "map tab_ID (open_tabs (snd (close_strip ?s 5))) = [3, 7]" by code_simp+
  have mem: "5 \<in> tab_ID ` set (open_tabs ?s)" by (metis ids list.set_intros list.set_map)
  show ?thesis using close_refines [OF wf mem] f m unfolding Let_def by blast
qed

text \<open>
  Reordering is the list move: the tab is taken out of its place and put at the target
  position, every other tab keeps its relative order, and the focus follows its tab. Out-of-range
  or equal indices change nothing.
\<close>

theorem reorder_refines:
  assumes "wf_strip s"
  shows "(if 0 \<le> from \<and> from < int (ts_count s) \<and> 0 \<le> to \<and> to < int (ts_count s) \<and> from \<noteq> to
    then fst (Reorder s from to)
      \<and> open_tabs (snd (Reorder s from to)) = move_item (nat from) (nat to) (open_tabs s)
      \<and> Focused (snd (Reorder s from to)) = Focused s
    else Reorder s from to = (False, s))"
proof (cases "0 \<le> from \<and> from < int (ts_count s) \<and> 0 \<le> to \<and> to < int (ts_count s) \<and> from \<noteq> to")
  case True
  then have "fst (Reorder s from to)" by (simp add: Reorder_def Let_def)
  then show ?thesis using True Reorder_list [OF assms] by simp
next
  case False
  then show ?thesis by (auto simp: Reorder_def)
qed

theorem reorder_refines_witness:
  "let s = foldl strip_apply empty_strip [OpOpen 3 ''a'', OpOpen 5 ''b'', OpOpen 7 ''c'']
   in open_tabs (snd (Reorder s 0 2)) = move_item 0 2 (open_tabs s)
      \<and> map tab_ID (move_item 0 2 (open_tabs s)) = [5, 7, 3]"
proof -
  let ?s = "foldl strip_apply empty_strip [OpOpen 3 ''a'', OpOpen 5 ''b'', OpOpen 7 ''c'']"
  have "wf_strip ?s" by (rule wf_strip_run) simp
  moreover have "ts_count ?s = 3" "map tab_ID (move_item 0 2 (open_tabs ?s)) = [5, 7, 3]" by code_simp+
  ultimately show ?thesis using reorder_refines [of ?s 0 2] by (simp add: Let_def)
qed

text \<open>
  Pinning a tab is a stable partition: afterwards the pinned tabs (the new one among them)
  come first and both groups keep the order they had; the focus stays on the same tab.
\<close>

theorem pin_partitions:
  assumes "wf_strip s" "fst (Pin s wid)"
  defines "marked \<equiv> map (\<lambda>t. if tab_ID t = wid then t\<lparr>tab_Pinned := True\<rparr> else t) (open_tabs s)"
  shows "open_tabs (snd (Pin s wid)) = filter tab_Pinned marked @ filter (\<lambda>t. \<not> tab_Pinned t) marked
    \<and> Focused (snd (Pin s wid)) = Focused s"
proof -
  have "index s wid \<ge> 0" using assms(2) by (auto simp: Pin_def Let_def split: if_splits)
  then obtain k where k: "index s wid = int k" "k < ts_count s" "tab_ID (ts_tabs s ! k) = wid"
    by (auto intro: index_cases [OF assms(1), of wid])
  let ?u = "upd_tab s (int k) (\<lambda>t. t\<lparr>tab_Pinned := True\<rparr>)"
  have wfu: "wf_strip ?u" using wf_upd_op [OF assms(1), of "\<lambda>t. t\<lparr>tab_Pinned := True\<rparr>" wid] k by simp
  have same: "tab_ID (ts_tabs s ! j) = wid \<longleftrightarrow> j = k" if "j < ts_count s" for j
    using index_eq [OF assms(1) that, of wid] k by (cases "j = k") auto
  have m: "open_tabs ?u = marked"
    unfolding marked_def open_tabs_upd_tab using k length_open_tabs [OF assms(1)] same
    by (intro nth_equalityI) (auto simp: nth_list_update nth_open_tabs)
  have "Focused ?u = Focused s"
    using k assms(1) by (auto simp: Focused_def upd_tab_def nth_list_update wf_strip_def)
  then show ?thesis
    using wf_normalizePinned(2,3) [OF wfu] m assms(2) k by (auto simp: Pin_def Let_def split: if_splits)
qed

theorem pin_partitions_witness:
  "let s = foldl strip_apply empty_strip [OpOpen 3 ''a'', OpOpen 5 ''b'', OpOpen 7 ''c'']
   in Focused (snd (Pin s 7)) = Focused s \<and> map tab_ID (open_tabs (snd (Pin s 7))) = [7, 3, 5]"
proof -
  let ?s = "foldl strip_apply empty_strip [OpOpen 3 ''a'', OpOpen 5 ''b'', OpOpen 7 ''c'']"
  have "wf_strip ?s" by (rule wf_strip_run) simp
  moreover have "fst (Pin ?s 7)" "map tab_ID (open_tabs (snd (Pin ?s 7))) = [7, 3, 5]" by code_simp+
  ultimately show ?thesis using pin_partitions [of ?s 7] by (simp add: Let_def)
qed



end
