(* ===== verification/TabsCodec.thy ===== *)
theory TabsCodec
  imports TabStrip
begin

text \<open>
  The \<^verbatim>\<open>.tabs\<close> v2 session format, twice: the seat's guest-safe codec (\<^verbatim>\<open>gotabwm/tabsv2.go\<close>) and the
  host tool's independent one (\<^verbatim>\<open>tools/go/tabcodec/tabcodec.go\<close>). A file is a 6-byte header and up to
  sixteen 69-byte records. The locale \<open>record_codec\<close> states what a fixed-width record codec
  promises; both record codecs interpret it, and the two encoders and decoders are proved equal.
\<close>

subsection \<open>Fields and records\<close>

text \<open>\<^verbatim>\<open>putFixed\<close> into a slice of \<open>w\<close> bytes and \<^verbatim>\<open>readFixed\<close>; both files have the same two.\<close>

definition putFixed :: "nat \<Rightarrow> string \<Rightarrow> bytes" where
  "putFixed w s = pad_field w (bytes_of s)"

definition readFixed :: "bytes \<Rightarrow> string" where
  "readFixed src = string_of (trim_field src)"

abbreviation (input) tabsV2Version :: u8 where "tabsV2Version \<equiv> 2"
abbreviation (input) HeaderBytes :: nat where "HeaderBytes \<equiv> 6"
abbreviation (input) TitleMax :: nat where "TitleMax \<equiv> 32"
abbreviation (input) GroupMax :: nat where "GroupMax \<equiv> 12"
abbreviation (input) BinMax :: nat where "BinMax \<equiv> 24"
abbreviation (input) RecordBytes :: nat where "RecordBytes \<equiv> 69"

text \<open>The record loops of both decoders: \<open>n\<close> records, each \<open>w\<close> bytes further on.\<close>

fun dec_recs :: "(bytes \<Rightarrow> 'r) \<Rightarrow> nat \<Rightarrow> nat \<Rightarrow> bytes \<Rightarrow> 'r list" where
  "dec_recs d w 0 b = []"
| "dec_recs d w (Suc n) b = d b # dec_recs d w n (drop w b)"

subsection \<open>The seat's codec\<close>

record tabsV2Record =
  rec_Title :: string
  rec_Bin :: string
  rec_Pinned :: bool
  rec_Frozen :: bool

definition encode_tab :: "tab \<Rightarrow> bytes" where
  "encode_tab t = putFixed TitleMax (tab_Title t) @ [tabFlags t] @ putFixed GroupMax [] @ putFixed BinMax (tab_Bin t)"

definition encodeTabsV2 :: "strip \<Rightarrow> u16 \<Rightarrow> bytes option" where
  "encodeTabsV2 s seq =
     (if ts_count s > MaxTabs then None
      else Some ([tabsV2Version,
                  if ts_count s > 0 \<and> ts_focus s \<ge> 0 \<and> ts_focus s < int (ts_count s)
                  then word_of_int (ts_focus s + 1) else 0,
                  of_nat (ts_count s), ucast (seq AND 0xff), ucast (drop_bit 8 seq AND 0xff), 0]
                 @ concat (map encode_tab (open_tabs s))))"

definition decode_tab :: "bytes \<Rightarrow> tabsV2Record" where
  "decode_tab b = \<lparr>rec_Title = readFixed (take TitleMax b), rec_Bin = readFixed (take BinMax (drop 45 b)),
     rec_Pinned = (b ! TitleMax) AND FlagPinned \<noteq> 0, rec_Frozen = (b ! TitleMax) AND FlagFrozen \<noteq> 0\<rparr>"

text \<open>Sequence number, records, and the active index if there is one.\<close>

definition decodeTabsV2 :: "bytes \<Rightarrow> (u16 \<times> tabsV2Record list \<times> nat option) option" where
  "decodeTabsV2 b =
     (if length b < HeaderBytes then None
      else if b ! 0 \<noteq> tabsV2Version then None
      else let count = unat (b ! 2) in
        if count > MaxTabs then None
        else if length b < HeaderBytes + count * RecordBytes then None
        else if b ! 1 \<noteq> 0 \<and> unat (b ! 1) - 1 \<ge> count then None
        else Some (ucast (b ! 3) OR push_bit 8 (ucast (b ! 4)),
                   dec_recs decode_tab RecordBytes count (drop HeaderBytes b),
                   if b ! 1 \<noteq> 0 then Some (unat (b ! 1) - 1) else None))"

abbreviation (input) sessionIDBase :: u32 where "sessionIDBase \<equiv> 0x100"

text \<open>The loop of \<^verbatim>\<open>applyTabsV2\<close>; None is the reset after a refused \<^verbatim>\<open>OpenTab\<close>.\<close>

fun apply_recs :: "strip \<Rightarrow> nat \<Rightarrow> tabsV2Record list \<Rightarrow> strip option" where
  "apply_recs s i [] = Some s"
| "apply_recs s i (r # rs) =
     (let (ok, s1) = OpenTab s (sessionIDBase + of_nat i) (rec_Title r) in
      if \<not> ok then None
      else apply_recs (upd_tab s1 (int i) (\<lambda>t. t\<lparr>tab_Bin := rec_Bin r, tab_Pinned := rec_Pinned r,
                                               tab_Frozen := rec_Frozen r\<rparr>)) (i + 1) rs)"

definition applyTabsV2 :: "strip \<Rightarrow> bytes \<Rightarrow> u16 option \<times> strip" where
  "applyTabsV2 s raw =
     (case decodeTabsV2 raw of
        None \<Rightarrow> (None, s)
      | Some (seq, recs, active) \<Rightarrow>
          (case apply_recs empty_strip 0 recs of
             None \<Rightarrow> (None, empty_strip)
           | Some s' \<Rightarrow>
               (Some seq,
                case active of
                  None \<Rightarrow> s'
                | Some a \<Rightarrow> if a < ts_count s' then s'\<lparr>ts_focus := int a\<rparr> else s')))"

subsection \<open>The host tool's codec\<close>

record tc_tab =
  tc_Title :: string
  tc_Flags :: u8
  tc_Group :: string
  tc_Bin :: string

record tc_state =
  tc_Active :: "int option"
  tc_Seq :: u16
  tc_Prefs :: u8
  tc_Tabs :: "tc_tab list"

datatype tc_error = ErrTooManyTabs | ErrActiveOutOfRange | ErrShortHeader | ErrBadVersion
  | ErrCountTooLarge | ErrShortBody

definition tc_encode_tab :: "tc_tab \<Rightarrow> bytes" where
  "tc_encode_tab t = putFixed TitleMax (tc_Title t) @ [tc_Flags t] @ putFixed GroupMax (tc_Group t)
     @ putFixed BinMax (tc_Bin t)"

definition tc_Encode :: "tc_state \<Rightarrow> tc_error + bytes" where
  "tc_Encode s =
     (let n = length (tc_Tabs s) in
      if n > MaxTabs then Inl ErrTooManyTabs
      else let body = concat (map tc_encode_tab (tc_Tabs s));
               rest = [of_nat n, ucast (tc_Seq s AND 0xff), ucast (drop_bit 8 (tc_Seq s) AND 0xff),
                       tc_Prefs s] @ body
           in case tc_Active s of
                None \<Rightarrow> Inr (tabsV2Version # 0 # rest)
              | Some a \<Rightarrow> if a < 0 \<or> a \<ge> int n then Inl ErrActiveOutOfRange
                          else Inr (tabsV2Version # word_of_int (a + 1) # rest))"

definition tc_decode_tab :: "bytes \<Rightarrow> tc_tab" where
  "tc_decode_tab b = \<lparr>tc_Title = readFixed (take TitleMax b), tc_Flags = b ! TitleMax,
     tc_Group = readFixed (take GroupMax (drop 33 b)), tc_Bin = readFixed (take BinMax (drop 45 b))\<rparr>"

definition tc_Decode :: "bytes \<Rightarrow> tc_error + tc_state" where
  "tc_Decode b =
     (if length b < HeaderBytes then Inl ErrShortHeader
      else if b ! 0 \<noteq> tabsV2Version then Inl ErrBadVersion
      else let count = unat (b ! 2) in
        if count > MaxTabs then Inl ErrCountTooLarge
        else if length b < HeaderBytes + count * RecordBytes then Inl ErrShortBody
        else if b ! 1 \<noteq> 0 \<and> unat (b ! 1) - 1 \<ge> count then Inl ErrActiveOutOfRange
        else Inr \<lparr>tc_Active = (if b ! 1 \<noteq> 0 then Some (int (unat (b ! 1) - 1)) else None),
                  tc_Seq = ucast (b ! 3) OR push_bit 8 (ucast (b ! 4)), tc_Prefs = b ! 5,
                  tc_Tabs = dec_recs tc_decode_tab RecordBytes count (drop HeaderBytes b)\<rparr>)"

definition tc_ActiveIndex :: "tc_state \<Rightarrow> int option" where
  "tc_ActiveIndex s = tc_Active s"

subsection \<open>What a record codec promises\<close>

text \<open>
  \<open>enc\<close> writes a record of fixed width, \<open>decode\<close> reads one from the front of a buffer, and reading
  what was written gives the record's \<open>view\<close> (the fields cut at their widths).
\<close>

locale record_codec =
  fixes enc :: "'a \<Rightarrow> bytes" and decode :: "bytes \<Rightarrow> 'r" and view :: "'a \<Rightarrow> 'r"
    and width :: nat and clean :: "'a \<Rightarrow> bool"
  assumes enc_width: "length (enc a) = width"
    and decode_enc: "clean a \<Longrightarrow> decode (enc a @ r) = view a"
begin

lemma length_encs: "length (concat (map enc as)) = length as * width"
  by (induction as) (simp_all add: enc_width)

lemma decode_encs:
  "\<forall>a \<in> set as. clean a \<Longrightarrow> dec_recs decode width (length as) (concat (map enc as) @ r) = map view as"
  by (induction as) (simp_all add: enc_width decode_enc)

end

lemma readFixed_put:
  "CHR 0x00 \<notin> set s \<Longrightarrow> readFixed (putFixed w s) = take w s"
  by (simp add: readFixed_def putFixed_def trim_pad_field string_of_take)

lemma length_putFixed [simp]: "length (putFixed w s) = w"
  by (simp add: putFixed_def)

lemma tabFlags_bits:
  "(tabFlags t AND FlagPinned \<noteq> 0) = tab_Pinned t" "(tabFlags t AND FlagFrozen \<noteq> 0) = tab_Frozen t"
  by (simp_all add: tabFlags_def)

definition tab_view :: "tab \<Rightarrow> tabsV2Record" where
  "tab_view t = \<lparr>rec_Title = take 32 (tab_Title t), rec_Bin = take 24 (tab_Bin t),
     rec_Pinned = tab_Pinned t, rec_Frozen = tab_Frozen t\<rparr>"

definition tab_clean :: "tab \<Rightarrow> bool" where
  "tab_clean t \<longleftrightarrow> CHR 0x00 \<notin> set (tab_Title t) \<and> CHR 0x00 \<notin> set (tab_Bin t)"

definition tc_view :: "tc_tab \<Rightarrow> tc_tab" where
  "tc_view t = t\<lparr>tc_Title := take 32 (tc_Title t), tc_Group := take 12 (tc_Group t), tc_Bin := take 24 (tc_Bin t)\<rparr>"

definition tc_clean :: "tc_tab \<Rightarrow> bool" where
  "tc_clean t \<longleftrightarrow> CHR 0x00 \<notin> set (tc_Title t) \<and> CHR 0x00 \<notin> set (tc_Group t) \<and> CHR 0x00 \<notin> set (tc_Bin t)"

interpretation seat_rec: record_codec encode_tab decode_tab tab_view 69 tab_clean
proof unfold_locales
  fix t r
  show "length (encode_tab t) = 69" by (simp add: encode_tab_def)
  assume "tab_clean t"
  then show "decode_tab (encode_tab t @ r) = tab_view t"
    by (simp add: decode_tab_def encode_tab_def tab_view_def tab_clean_def readFixed_put tabFlags_bits
        nth_append)
qed

interpretation tool_rec: record_codec tc_encode_tab tc_decode_tab tc_view 69 tc_clean
proof unfold_locales
  fix t r
  show "length (tc_encode_tab t) = 69" by (simp add: tc_encode_tab_def)
  assume "tc_clean t"
  then show "tc_decode_tab (tc_encode_tab t @ r) = tc_view t"
    by (simp add: tc_decode_tab_def tc_encode_tab_def tc_view_def tc_clean_def readFixed_put nth_append)
qed

lemma seq_bytes:
  "(ucast (ucast (seq AND 0xff :: u16) :: u8) :: u16)
     OR push_bit 8 (ucast (ucast (drop_bit 8 seq AND 0xff) :: u8)) = seq"
  by (rule bit_word_eqI) (auto simp: bit_simps)

subsection \<open>The two codecs agree\<close>

text \<open>The host state that describes a strip with a given sequence number.\<close>

definition tc_of_tab :: "tab \<Rightarrow> tc_tab" where
  "tc_of_tab t = \<lparr>tc_Title = tab_Title t, tc_Flags = tabFlags t, tc_Group = [], tc_Bin = tab_Bin t\<rparr>"

definition tc_of_strip :: "strip \<Rightarrow> u16 \<Rightarrow> tc_state" where
  "tc_of_strip s seq = \<lparr>tc_Active = (if ts_count s = 0 \<or> ts_focus s < 0 then None else Some (ts_focus s)),
     tc_Seq = seq, tc_Prefs = 0, tc_Tabs = map tc_of_tab (open_tabs s)\<rparr>"

text \<open>
  What the encoder needs of a strip: it also runs on the rows of a session, where no tab may be focused.
\<close>

definition encodable :: "strip \<Rightarrow> bool" where
  "encodable s \<longleftrightarrow> ts_count s \<le> 16 \<and> length (open_tabs s) = ts_count s
     \<and> (ts_count s > 0 \<longrightarrow> ts_focus s < int (ts_count s))"

lemma encodable_wf: "wf_strip s \<Longrightarrow> encodable s"
  using length_open_tabs [of s] focus_range [of s] by (auto simp: encodable_def wf_strip_def)

text \<open>What the seat keeps of a host record.\<close>

definition rec_of_tc :: "tc_tab \<Rightarrow> tabsV2Record" where
  "rec_of_tc t = \<lparr>rec_Title = tc_Title t, rec_Bin = tc_Bin t,
     rec_Pinned = tc_Flags t AND FlagPinned \<noteq> 0, rec_Frozen = tc_Flags t AND FlagFrozen \<noteq> 0\<rparr>"

lemma encode_tab_tc: "tc_encode_tab (tc_of_tab t) = encode_tab t"
  by (simp add: tc_encode_tab_def tc_of_tab_def encode_tab_def)

lemma dec_recs_map: "dec_recs (f \<circ> d) w n b = map f (dec_recs d w n b)"
  by (induction n arbitrary: b) simp_all

lemma dec_recs_range: "length (dec_recs d w n b) = n \<and> set (dec_recs d w n b) \<subseteq> range d"
  by (induction n arbitrary: b) auto

lemma decode_tab_tc: "decode_tab = rec_of_tc \<circ> tc_decode_tab"
  by (rule ext) (simp add: decode_tab_def rec_of_tc_def tc_decode_tab_def)

lemma encode_same:
  assumes "encodable s"
  shows "\<exists>b. encodeTabsV2 s seq = Some b \<and> tc_Encode (tc_of_strip s seq) = Inr b \<and> length b \<le> 1110"
proof -
  have c: "ts_count s \<le> 16" "length (open_tabs s) = ts_count s"
    using assms by (auto simp: encodable_def)
  have "length (concat (map encode_tab (open_tabs s))) \<le> 1104"
    using seat_rec.length_encs [of "open_tabs s"] c by simp
  then show ?thesis
    using assms c
    by (cases "ts_count s = 0") (auto simp: encodable_def encodeTabsV2_def tc_Encode_def tc_of_strip_def Let_def encode_tab_tc o_def)
qed

lemma decode_same:
  "decodeTabsV2 b =
     (case tc_Decode b of
        Inl _ \<Rightarrow> None
      | Inr st \<Rightarrow> Some (tc_Seq st, map rec_of_tc (tc_Tabs st), map_option nat (tc_Active st)))"
  by (auto simp: decodeTabsV2_def tc_Decode_def Let_def decode_tab_tc dec_recs_map)

subsection \<open>Properties\<close>

text \<open>
  C36. The seat and the host tool write the same bytes: for every well-formed strip and sequence
  number the seat's encoder succeeds and produces exactly what the host encoder produces.
\<close>

theorem encoders_agree:
  assumes "wf_strip s"
  shows "\<exists>b. encodeTabsV2 s seq = Some b \<and> tc_Encode (tc_of_strip s seq) = Inr b \<and> length b \<le> 1110"
  by (rule encode_same) (rule encodable_wf [OF assms])

theorem encoders_agree_witness:
  "\<exists>b. encodeTabsV2 (snd (OpenTab empty_strip 7 ''Calc'')) 1 = Some b
     \<and> tc_Encode (tc_of_strip (snd (OpenTab empty_strip 7 ''Calc'')) 1) = Inr b \<and> length b \<le> 1110"
  by (rule encoders_agree) (intro wf_intros wf_empty_strip)

text \<open>
  They also read the same: on every byte string the two decoders accept and reject together,
  and on acceptance the seat's records, sequence number and active tab are those of the host.
\<close>

theorem decoders_agree:
  "decodeTabsV2 b =
     (case tc_Decode b of
        Inl _ \<Rightarrow> None
      | Inr st \<Rightarrow> Some (tc_Seq st, map rec_of_tc (tc_Tabs st), map_option nat (tc_Active st)))"
  by (rule decode_same)

subsection \<open>Round trips\<close>

text \<open>A host state the format can represent.\<close>

definition tc_ok :: "tc_state \<Rightarrow> bool" where
  "tc_ok st \<longleftrightarrow> length (tc_Tabs st) \<le> 16 \<and> (\<forall>t \<in> set (tc_Tabs st). tc_clean t)
     \<and> (case tc_Active st of None \<Rightarrow> True | Some a \<Rightarrow> 0 \<le> a \<and> a < int (length (tc_Tabs st)))"

lemma unat_small_byte: "n \<le> 255 \<Longrightarrow> unat (of_nat n :: u8) = n"
  by (simp add: unat_of_nat take_bit_nat_eq_self_iff)

lemma active_byte:
  assumes "0 \<le> a" "a < 16"
  shows "(word_of_int (a + 1) :: u8) \<noteq> 0 \<and> unat (word_of_int (a + 1) :: u8) = nat a + 1"
proof -
  have e: "(word_of_int (a + 1) :: u8) = of_nat (nat a + 1)" using assms by simp
  have u: "unat (of_nat (nat a + 1) :: u8) = nat a + 1" using assms by (intro unat_small_byte) simp
  then show ?thesis unfolding e by (metis Suc_eq_plus1 nat.distinct(1) unat_0)
qed

lemma tc_decode_encode:
  assumes "tc_ok st"
  shows "\<exists>b. tc_Encode st = Inr b
    \<and> (\<forall>r. tc_Decode (b @ r) = Inr (st\<lparr>tc_Tabs := map tc_view (tc_Tabs st)\<rparr>))"
proof -
  let ?n = "length (tc_Tabs st)" and ?body = "concat (map tc_encode_tab (tc_Tabs st))"
  define act where "act = (case tc_Active st of None \<Rightarrow> 0 | Some a \<Rightarrow> (word_of_int (a + 1) :: u8))"
  let ?b = "[2, act, of_nat ?n, ucast (tc_Seq st AND 0xff), ucast (drop_bit 8 (tc_Seq st) AND 0xff),
      tc_Prefs st] @ ?body"
  have n: "?n \<le> 16" and cl: "\<forall>t \<in> set (tc_Tabs st). tc_clean t" using assms by (auto simp: tc_ok_def)
  have enc: "tc_Encode st = Inr ?b"
    using assms by (cases "tc_Active st") (auto simp: tc_ok_def tc_Encode_def Let_def act_def)
  have un: "unat (of_nat ?n :: u8) = ?n" using n by (intro unat_small_byte) simp
  have "(act \<noteq> 0 \<longrightarrow> unat act - 1 < ?n)
      \<and> tc_Active st = (if act \<noteq> 0 then Some (int (unat act - 1)) else None)"
    using assms n active_byte by (cases "tc_Active st") (auto simp: tc_ok_def act_def)
  then have "tc_Decode (?b @ r) = Inr (st\<lparr>tc_Tabs := map tc_view (tc_Tabs st)\<rparr>)" for r
    using n un tool_rec.length_encs [of "tc_Tabs st"] tool_rec.decode_encs [OF cl, of r]
    by (cases "act = 0") (auto simp: tc_Decode_def Let_def seq_bytes)
  then show ?thesis using enc by auto
qed

lemma decode_encodeTabsV2:
  assumes "encodable s" "\<forall>t \<in> set (open_tabs s). tab_clean t"
  shows "\<exists>b. encodeTabsV2 s seq = Some b \<and> decodeTabsV2 b = Some (seq, map tab_view (open_tabs s),
      if ts_count s = 0 \<or> ts_focus s < 0 then None else Some (nat (ts_focus s)))"
proof -
  let ?st = "tc_of_strip s seq"
  have ok: "tc_ok ?st"
    using assms by (auto simp: encodable_def tc_ok_def tc_of_strip_def tc_of_tab_def tc_clean_def tab_clean_def)
  obtain b where b: "encodeTabsV2 s seq = Some b" "tc_Encode ?st = Inr b"
    using encode_same [OF assms(1)] by blast
  then have "tc_Decode b = Inr (?st\<lparr>tc_Tabs := map tc_view (tc_Tabs ?st)\<rparr>)"
    using tc_decode_encode [OF ok] by (metis append_Nil2 sum.inject(2))
  then show ?thesis using b(1)
    by (auto simp: decode_same tc_of_strip_def tc_of_tab_def tc_view_def rec_of_tc_def tab_view_def tabFlags_bits)
qed

text \<open>Applying records to a strip: placeholder ids in order, the fields as recorded.\<close>

definition rec_of_tab :: "tab \<Rightarrow> tabsV2Record" where
  "rec_of_tab t = \<lparr>rec_Title = tab_Title t, rec_Bin = tab_Bin t, rec_Pinned = tab_Pinned t,
     rec_Frozen = tab_Frozen t\<rparr>"

definition placeholder :: "nat \<Rightarrow> u32" where
  "placeholder i = 0x100 + of_nat i"

lemma unat_placeholder: "i < 16 \<Longrightarrow> unat (placeholder i) = 256 + i"
proof -
  assume "i < 16"
  then have "unat (of_nat i :: u32) = i" by (simp add: unat_of_nat take_bit_nat_eq_self_iff)
  then show ?thesis using \<open>i < 16\<close> by (simp add: placeholder_def unat_word_ariths)
qed

lemma placeholder_inject: "i < 16 \<Longrightarrow> j < 16 \<Longrightarrow> placeholder i = placeholder j \<longleftrightarrow> i = j"
  by (metis add_left_cancel unat_placeholder)

lemma placeholder_not_0: "i < 16 \<Longrightarrow> placeholder i \<noteq> 0"
  using unat_placeholder [of i] by auto

definition restored :: "tabsV2Record list \<Rightarrow> strip \<Rightarrow> bool" where
  "restored rs s \<longleftrightarrow> wf_strip s \<and> ts_count s = length rs \<and> ts_focus s = 0
     \<and> map rec_of_tab (open_tabs s) = rs \<and> map tab_ID (open_tabs s) = map placeholder [0..<length rs]"

lemma restored_step:
  assumes r: "restored rs s" and n: "length rs < 16"
  shows "fst (OpenTab s (placeholder (length rs)) (rec_Title r))
    \<and> restored (rs @ [r]) (upd_tab (snd (OpenTab s (placeholder (length rs)) (rec_Title r))) (int (length rs))
        (\<lambda>t. t\<lparr>tab_Bin := rec_Bin r, tab_Pinned := rec_Pinned r, tab_Frozen := rec_Frozen r\<rparr>))"
proof -
  let ?i = "length rs" and ?f = "\<lambda>t. t\<lparr>tab_Bin := rec_Bin r, tab_Pinned := rec_Pinned r, tab_Frozen := rec_Frozen r\<rparr>"
  let ?o = "snd (OpenTab s (placeholder ?i) (rec_Title r))"
  have wf: "wf_strip s" and c: "ts_count s = ?i" using r by (auto simp: restored_def)
  have "tab_ID ` set (open_tabs s) = placeholder ` {0..<?i}"
    using r by (metis atLeastLessThan_upt list.set_map restored_def)
  then have "placeholder ?i \<notin> tab_ID ` set (open_tabs s)"
    using placeholder_inject n by (auto simp: less_trans)
  note of = OpenTab_fresh [OF wf placeholder_not_0 [OF n] this, of "rec_Title r", unfolded c, OF n]
  have nth: "ts_tabs ?o ! ?i = fresh_tab (placeholder ?i) (rec_Title r)"
    using nth_open_tabs [of ?i ?o] of length_open_tabs [OF wf] c by (simp add: nth_append)
  have wfu: "wf_strip (upd_tab ?o (int ?i) ?f)"
    using wf_tab_nav [OF of(5), of ?i] of(3) by (intro wf_upd_tab) (auto simp: of(5))
  have "open_tabs (upd_tab ?o (int ?i) ?f) = open_tabs s @ [?f (fresh_tab (placeholder ?i) (rec_Title r))]"
    using of(2) length_open_tabs [OF wf] c nth
    by (simp add: open_tabs_upd_tab list_update_append)
  then show ?thesis
    using of r wfu by (simp add: restored_def frame_simps rec_of_tab_def fresh_tab_def)
qed

lemma apply_recs_restored:
  "restored pre s \<Longrightarrow> length pre + length rs \<le> 16 \<Longrightarrow>
     \<exists>s'. apply_recs s (length pre) rs = Some s' \<and> restored (pre @ rs) s'"
proof (induction rs arbitrary: pre s)
  case (Cons r rs)
  note st = restored_step [OF Cons.prems(1), of r]
  then show ?case
    using Cons.prems(2) Cons.IH [of "pre @ [r]"]
    by (auto simp: placeholder_def case_prod_unfold Let_def)
qed simp

lemma restored_empty: "restored [] empty_strip"
  by (simp add: restored_def) (simp add: empty_strip_def open_tabs_def)

lemma apply_decoded:
  assumes "decodeTabsV2 b = Some (seq, recs, act)"
  shows "\<exists>s'. applyTabsV2 any b = (Some seq, s') \<and> wf_strip s' \<and> map rec_of_tab (open_tabs s') = recs
    \<and> map tab_ID (open_tabs s') = map placeholder [0..<length recs]
    \<and> ts_focus s' = (case act of None \<Rightarrow> 0 | Some a \<Rightarrow> int a)"
proof -
  have n: "length recs \<le> 16" and act: "act = Some a \<Longrightarrow> a < length recs" for a
    using assms dec_recs_range [of decode_tab] by (auto simp: decodeTabsV2_def Let_def split: if_splits)
  obtain s' where s': "apply_recs empty_strip 0 recs = Some s'" "restored recs s'"
    using apply_recs_restored [OF restored_empty, of recs] n by auto
  let ?r = "case act of None \<Rightarrow> s' | Some a \<Rightarrow> s'\<lparr>ts_focus := int a\<rparr>"
  have "applyTabsV2 any b = (Some seq, ?r)"
    using assms s' act by (auto simp: applyTabsV2_def restored_def split: option.split)
  moreover have "wf_strip ?r" "open_tabs ?r = open_tabs s'"
    using s' act by (auto simp: restored_def wf_strip_def open_tabs_def split: option.split)
  moreover have "ts_focus ?r = (case act of None \<Rightarrow> 0 | Some a \<Rightarrow> int a)"
    using s' by (auto simp: restored_def split: option.split)
  ultimately show ?thesis using s' by (auto simp: restored_def)
qed

text \<open>
  A session file can be read back: encoding a strip and applying the bytes to any strip gives
  the same tabs in the same order, with titles and executables (cut at 32 and 24 bytes), pin and
  frozen marks, the sequence number and the focus of the original, under fresh placeholder ids.
\<close>

theorem session_bytes_roundtrip:
  assumes "wf_strip s" "\<forall>t \<in> set (open_tabs s). tab_clean t"
  shows "\<exists>b s'. encodeTabsV2 s seq = Some b \<and> applyTabsV2 any b = (Some seq, s') \<and> wf_strip s'
    \<and> map rec_of_tab (open_tabs s') = map tab_view (open_tabs s)
    \<and> map tab_ID (open_tabs s') = map placeholder [0..<ts_count s] \<and> ts_focus s' = ts_focus s"
proof -
  have c: "ts_count s \<le> 16" "length (open_tabs s) = ts_count s"
    using assms(1) length_open_tabs by (auto simp: wf_strip_def)
  obtain b where b: "encodeTabsV2 s seq = Some b" and d: "decodeTabsV2 b = Some (seq, map tab_view (open_tabs s),
      if ts_count s = 0 \<or> ts_focus s < 0 then None else Some (nat (ts_focus s)))"
    using decode_encodeTabsV2 [OF encodable_wf [OF assms(1)] assms(2)] by blast
  obtain s' where s': "applyTabsV2 any b = (Some seq, s')" "wf_strip s'"
      "map rec_of_tab (open_tabs s') = map tab_view (open_tabs s)"
      "map tab_ID (open_tabs s') = map placeholder [0..<length (map tab_view (open_tabs s))]"
      "ts_focus s' = (case (if ts_count s = 0 \<or> ts_focus s < 0 then None else Some (nat (ts_focus s)))
         of None \<Rightarrow> 0 | Some a \<Rightarrow> int a)"
    using apply_decoded [OF d, of any] by metis
  have "ts_focus s' = ts_focus s"
    unfolding s'(5) using assms(1) by (cases "ts_count s = 0") (simp_all add: wf_strip_def)
  then show ?thesis using b s'(1-4) c(2) by (intro exI [of _ b] exI [of _ s'] conjI) simp_all
qed

theorem session_bytes_roundtrip_witness:
  "let s = foldl strip_apply empty_strip [OpOpen 3 ''Calc'', OpOpen 5 ''Edit'', OpFocus 5, OpFreeze 3]
   in \<exists>b s'. encodeTabsV2 s 9 = Some b \<and> applyTabsV2 empty_strip b = (Some 9, s') \<and> ts_focus s' = 1"
proof -
  let ?s = "foldl strip_apply empty_strip [OpOpen 3 ''Calc'', OpOpen 5 ''Edit'', OpFocus 5, OpFreeze 3]"
  have "wf_strip ?s" by (rule wf_strip_run) simp
  moreover have "list_all tab_clean (open_tabs ?s)" "ts_focus ?s = 1" by code_simp+
  ultimately show ?thesis
    using session_bytes_roundtrip [of ?s 9 empty_strip] unfolding Let_def list_all_iff by metis
qed

text \<open>
  The host decoder is exact about rejection: it accepts a buffer if and only if the header is
  complete with version 2, the count is at most 16, all records are present and the active index
  lies inside the list.
\<close>

theorem tool_decode_total:
  "(\<exists>st. tc_Decode b = Inr st) \<longleftrightarrow>
     length b \<ge> 6 \<and> b ! 0 = 2 \<and> unat (b ! 2) \<le> 16 \<and> length b \<ge> 6 + unat (b ! 2) * 69
     \<and> (b ! 1 = 0 \<or> unat (b ! 1) \<le> unat (b ! 2))"
proof (cases "b ! 1 = 0")
  case False
  then have "unat (b ! 1) > 0" by (simp add: unat_gt_0)
  then have "unat (b ! 1) - 1 \<ge> unat (b ! 2) \<longleftrightarrow> \<not> unat (b ! 1) \<le> unat (b ! 2)" by linarith
  then show ?thesis using False by (auto simp: tc_Decode_def Let_def)
qed (auto simp: tc_Decode_def Let_def)

lemma readFixed_clean: "CHR 0x00 \<notin> set (readFixed b)" "length (readFixed b) \<le> length b"
proof -
  have "0 \<notin> set (bytes_of (readFixed b))" using trim_field_no_nul [of b] by (simp add: readFixed_def)
  then show "CHR 0x00 \<notin> set (readFixed b)" by simp
  show "length (readFixed b) \<le> length b" using length_trim_field [of b] by (simp add: readFixed_def)
qed

lemma length_readFixed_take: "length (readFixed (take n b)) \<le> n"
  using readFixed_clean(2) [of "take n b"] by simp

lemma tc_decode_tab_ok: "tc_clean (tc_decode_tab b) \<and> tc_view (tc_decode_tab b) = tc_decode_tab b"
  by (simp add: tc_clean_def tc_decode_tab_def tc_view_def readFixed_clean(1) length_readFixed_take)

text \<open>
  The host tool's two directions are inverse: a state whose fields fit is read back unchanged
  from its encoding, whatever bytes follow; and whatever the decoder accepts can be encoded again
  and reads back as the same state.
\<close>

theorem tool_roundtrip:
  "(tc_ok st \<and> map tc_view (tc_Tabs st) = tc_Tabs st \<longrightarrow>
      (\<exists>b. tc_Encode st = Inr b \<and> (\<forall>r. tc_Decode (b @ r) = Inr st)))
   \<and> (tc_Decode raw = Inr st \<longrightarrow> (\<exists>b. tc_Encode st = Inr b \<and> tc_Decode b = Inr st))"
proof -
  have fwd: "\<exists>b. tc_Encode st = Inr b \<and> (\<forall>r. tc_Decode (b @ r) = Inr st)"
    if "tc_ok st" "map tc_view (tc_Tabs st) = tc_Tabs st"
    using tc_decode_encode [OF that(1)] that(2) by (cases st) simp
  have "tc_ok st \<and> map tc_view (tc_Tabs st) = tc_Tabs st" if d: "tc_Decode raw = Inr st"
  proof -
    have tabs: "tc_Tabs st = dec_recs tc_decode_tab 69 (unat (raw ! 2)) (drop 6 raw)"
      "unat (raw ! 2) \<le> 16" "\<forall>a. tc_Active st = Some a \<longrightarrow> 0 \<le> a \<and> a < int (unat (raw ! 2))"
      using d by (auto simp: tc_Decode_def Let_def split: if_splits simp del: of_nat_unat)
    have "\<forall>t \<in> set (tc_Tabs st). tc_clean t \<and> tc_view t = t"
      using dec_recs_range [of tc_decode_tab 69 "unat (raw ! 2)" "drop 6 raw"] tc_decode_tab_ok tabs(1) by auto
    moreover have "length (tc_Tabs st) = unat (raw ! 2)" using dec_recs_range tabs(1) by metis
    ultimately show ?thesis
      using tabs by (auto simp: tc_ok_def map_idI split: option.splits simp del: of_nat_unat)
  qed
  then show ?thesis using fwd by (metis append_Nil2)
qed

theorem tool_roundtrip_witness:
  "\<exists>b. tc_Encode \<lparr>tc_Active = Some 0, tc_Seq = 258, tc_Prefs = 0,
       tc_Tabs = [\<lparr>tc_Title = ''a'', tc_Flags = 3, tc_Group = [], tc_Bin = ''A.ELF''\<rparr>]\<rparr> = Inr b
     \<and> (\<forall>r. tc_Decode (b @ r) = Inr \<lparr>tc_Active = Some 0, tc_Seq = 258, tc_Prefs = 0,
       tc_Tabs = [\<lparr>tc_Title = ''a'', tc_Flags = 3, tc_Group = [], tc_Bin = ''A.ELF''\<rparr>]\<rparr>)"
  by (rule tool_roundtrip [THEN conjunct1, THEN mp])
    (simp add: tc_ok_def tc_clean_def tc_view_def)

end
