(* ===== verification/Theme.thy ===== *)
theory Theme
  imports Format
begin

text \<open>
  The colour tokens of the Go programs (\<^verbatim>\<open>theme/theme.go\<close>): the two palettes, the selection of one
  by name, and the reading of the \<^verbatim>\<open>theme=\<close> line of a settings file. The active table, a package
  variable in Go, is passed explicitly.
\<close>

record tokens =
  tok_Bg :: u32
  tok_Surface :: u32
  tok_Border :: u32
  tok_Text :: u32
  tok_Muted :: u32
  tok_Accent :: u32
  tok_BtnIdle :: u32
  tok_BtnHover :: u32
  tok_BtnPressed :: u32
  tok_Success :: u32
  tok_Danger :: u32
  tok_Warning :: u32
  tok_OnAccent :: u32
  tok_Caret :: u32
  tok_Selection :: u32
  tok_Gutter :: u32
  tok_Ink :: u32
  tok_ChromeBg :: u32
  tok_Rule :: u32
  tok_Ok :: u32
  tok_InkMuted :: u32
  tok_PadXS :: int
  tok_PadSM :: int
  tok_PadMD :: int
  tok_PadLG :: int
  tok_BorderW :: int
  tok_FocusW :: int

definition Dark :: tokens where
  "Dark = \<lparr>tok_Bg = 0x182026, tok_Surface = 0x222d35, tok_Border = 0x334155, tok_Text = 0xffffff,
     tok_Muted = 0x94a3b8, tok_Accent = 0x3b82f6, tok_BtnIdle = 0x2d3748, tok_BtnHover = 0x4a5568,
     tok_BtnPressed = 0x1a202c, tok_Success = 0x22c55e, tok_Danger = 0xef4444, tok_Warning = 0xf59e0b,
     tok_OnAccent = 0xffffff, tok_Caret = 0x3b82f6, tok_Selection = 0x2a4460, tok_Gutter = 0x0b0e11,
     tok_Ink = 0xe6edf3, tok_ChromeBg = 0x11171c, tok_Rule = 0x2e3a44, tok_Ok = 0x3fb950,
     tok_InkMuted = 0x8b98a5, tok_PadXS = 2, tok_PadSM = 4, tok_PadMD = 8, tok_PadLG = 16,
     tok_BorderW = 1, tok_FocusW = 2\<rparr>"

definition Light :: tokens where
  "Light = \<lparr>tok_Bg = 0xf1f5f9, tok_Surface = 0xffffff, tok_Border = 0xcbd5e1, tok_Text = 0x0f172a,
     tok_Muted = 0x64748b, tok_Accent = 0x2563eb, tok_BtnIdle = 0xe2e8f0, tok_BtnHover = 0xcbd5e1,
     tok_BtnPressed = 0x94a3b8, tok_Success = 0x16a34a, tok_Danger = 0xdc2626, tok_Warning = 0xd97706,
     tok_OnAccent = 0xffffff, tok_Caret = 0x2563eb, tok_Selection = 0xbfdbfe, tok_Gutter = 0xe5e7eb,
     tok_Ink = 0x0f172a, tok_ChromeBg = 0xe2e8f0, tok_Rule = 0xcbd5e1, tok_Ok = 0x16a34a,
     tok_InkMuted = 0x64748b, tok_PadXS = 2, tok_PadSM = 4, tok_PadMD = 8, tok_PadLG = 16,
     tok_BorderW = 1, tok_FocusW = 2\<rparr>"

definition theme_Name :: "tokens \<Rightarrow> string" where
  "theme_Name cur = (if tok_Bg cur = tok_Bg Light \<and> tok_Accent cur = tok_Accent Light then ''light'' else ''dark'')"

definition theme_Set :: "tokens \<Rightarrow> string \<Rightarrow> bool \<times> tokens" where
  "theme_Set cur name =
     (if name = ''dark'' then (True, Dark) else if name = ''light'' then (True, Light) else (False, cur))"

text \<open>One line of \<^verbatim>\<open>ParseSettings\<close>: the value it finds, if it is a theme line with a known name.\<close>

definition theme_line :: "bytes \<Rightarrow> string option" where
  "theme_line line =
     (if length line > 6 \<and> string_of (take 6 line) = ''theme='' then
        let val = string_of (drop 6 line);
            val = (if val \<noteq> [] \<and> val ! (length val - 1) = CHR 0x0D then take (length val - 1) val else val)
        in if val = ''dark'' \<or> val = ''light'' then Some val else None
      else None)"

function theme_loop :: "bytes \<Rightarrow> string \<Rightarrow> string" where
  "theme_loop buf found =
     (if buf = [] then found
      else let line = takeWhile (\<lambda>b. b \<noteq> 10) buf;
               rest = dropWhile (\<lambda>b. b \<noteq> 10) buf;
               found = (case theme_line line of None \<Rightarrow> found | Some v \<Rightarrow> v)
           in if rest \<noteq> [] then theme_loop (tl rest) found else found)"
  by pat_completeness auto
termination
proof (relation "measure (\<lambda>(buf, _). length buf)", simp)
  fix buf :: bytes and rest
  assume "buf \<noteq> []" "rest = dropWhile (\<lambda>b. b \<noteq> 10) buf" "rest \<noteq> []"
  then have "length (tl rest) < length rest" "length rest \<le> length buf"
    by (simp_all add: length_dropWhile_le)
  then show "((tl rest, y), buf, found) \<in> measure (\<lambda>(buf, _). length buf)" for y found
    by simp
qed

declare theme_loop.simps [simp del]

definition theme_ParseSettings :: "bytes \<Rightarrow> string" where
  "theme_ParseSettings buf = theme_loop buf []"

definition theme_ApplySettings :: "tokens \<Rightarrow> bytes \<Rightarrow> bool \<times> tokens" where
  "theme_ApplySettings cur buf =
     (let name = theme_ParseSettings buf in if name = [] then (False, cur) else theme_Set cur name)"

end
