(* ===== verification/Notify.thy ===== *)
theory Notify
  imports Geometry Theme
begin

text \<open>
  The seat's toasts (\<^verbatim>\<open>gotabwm/notify.go\<close>): a queue of at most four notifications, oldest first,
  each with the tab that raised it and the tick at which it expires; the one-shot latch of the
  paint marker; and the colours of the fade. The parts that print markers are in \<open>Seat\<close>.
\<close>

subsection \<open>The queue\<close>

abbreviation (input) NotifyMax :: nat where "NotifyMax \<equiv> 4"
abbreviation (input) NotifyTicks :: u64 where "NotifyTicks \<equiv> 8"
abbreviation (input) notifyFadeTicks :: u64 where "notifyFadeTicks \<equiv> 3"

record notifyToast =
  toast_tabID :: u32
  toast_text :: string
  toast_born :: u64
  toast_expires :: u64

record notify =
  nq_queue :: "notifyToast list"
  nq_dropped :: nat
  nq_painted :: bool

definition no_toasts :: notify where
  "no_toasts = \<lparr>nq_queue = [], nq_dropped = 0, nq_painted = False\<rparr>"

definition notifyQueueSet :: "notify \<Rightarrow> notifyToast list \<Rightarrow> notify" where
  "notifyQueueSet n q = n\<lparr>nq_queue := q, nq_painted := (if q = [] then False else nq_painted n)\<rparr>"

text \<open>The bounded text, whether it was queued, whether an older toast was dropped.\<close>

definition notifyPush :: "notify \<Rightarrow> u32 \<Rightarrow> string \<Rightarrow> u64 \<Rightarrow> (string \<times> bool \<times> bool) \<times> notify" where
  "notifyPush n wid text ticks =
     (if text = [] then (([], False, False), n)
      else
        let dropped = length (nq_queue n) \<ge> NotifyMax;
            n1 = (if dropped then n\<lparr>nq_queue := tl (nq_queue n), nq_dropped := nq_dropped n + 1\<rparr> else n);
            t = \<lparr>toast_tabID = wid, toast_text = text, toast_born = ticks, toast_expires = ticks + NotifyTicks\<rparr>
        in ((text, True, dropped), n1\<lparr>nq_queue := nq_queue n1 @ [t]\<rparr>))"

text \<open>\<^verbatim>\<open>clearNotify\<close> without its marker lines: how many left, and the queue.\<close>

definition notify_clear :: "notify \<Rightarrow> u32 \<Rightarrow> nat \<times> notify" where
  "notify_clear n wid =
     (length (filter (\<lambda>t. toast_tabID t = wid) (nq_queue n)),
      notifyQueueSet n (filter (\<lambda>t. toast_tabID t \<noteq> wid) (nq_queue n)))"

definition notifyExpire :: "notify \<Rightarrow> u64 \<Rightarrow> u32 list \<times> notify" where
  "notifyExpire n ticks =
     (map toast_tabID (filter (\<lambda>t. ticks \<ge> toast_expires t) (nq_queue n)),
      notifyQueueSet n (filter (\<lambda>t. \<not> ticks \<ge> toast_expires t) (nq_queue n)))"

definition notifyHit :: "notify \<Rightarrow> u32 \<Rightarrow> u32 \<Rightarrow> int \<Rightarrow> int \<Rightarrow> int option" where
  "notifyHit n px py width height =
     (if nq_queue n = [] then None else notifySlotOf px py width height (int (length (nq_queue n))))"

definition notifyDismissByIndex :: "notify \<Rightarrow> int \<Rightarrow> u32 option \<times> notify" where
  "notifyDismissByIndex n i =
     (if i < 0 \<or> i \<ge> int (length (nq_queue n)) then (None, n)
      else (Some (toast_tabID (nq_queue n ! nat i)),
            notifyQueueSet n (take (nat i) (nq_queue n) @ drop (nat i + 1) (nq_queue n))))"

text \<open>The id the paint marker names, if it is to be printed.\<close>

definition notifyPaintMarker :: "notify \<Rightarrow> bool \<Rightarrow> u32 option \<times> notify" where
  "notifyPaintMarker n painted =
     (if \<not> painted \<or> nq_painted n \<or> nq_queue n = [] then (None, n)
      else (Some (toast_tabID (nq_queue n ! (length (nq_queue n) - 1))), n\<lparr>nq_painted := True\<rparr>))"

subsection \<open>The fade\<close>

definition notifyRamp :: "u64 \<Rightarrow> u32" where
  "notifyRamp remaining =
     (if remaining = 0 \<or> remaining > notifyFadeTicks then 0 else ucast (notifyFadeTicks - remaining + 1))"

text \<open>One 8-bit channel of \<^verbatim>\<open>mixRGB\<close>, in 32-bit signed arithmetic; Go's division truncates.\<close>

definition mix_channel :: "u32 \<Rightarrow> u32 \<Rightarrow> u32 \<Rightarrow> u32 \<Rightarrow> u32" where
  "mix_channel ca cb num den =
     (let c = sint (ca - word_of_int (sint ((ca - cb) * num) sdiv sint den))
      in if c < 0 then 0 else if c > 255 then 255 else word_of_int c)"

definition mixRGB :: "u32 \<Rightarrow> u32 \<Rightarrow> u32 \<Rightarrow> u32 \<Rightarrow> u32" where
  "mixRGB a b num den =
     (if den = 0 then a
      else mix_channel (a AND 0xff) (b AND 0xff) num den
        OR push_bit 8 (mix_channel (drop_bit 8 a AND 0xff) (drop_bit 8 b AND 0xff) num den)
        OR push_bit 16 (mix_channel (drop_bit 16 a AND 0xff) (drop_bit 16 b AND 0xff) num den))"

definition notifyFill :: "tokens \<Rightarrow> u64 \<Rightarrow> u32" where
  "notifyFill tok remaining =
     (let step = notifyRamp remaining in
      if step = 0 then tok_Surface tok else mixRGB (tok_Surface tok) (tok_Bg tok) step 3)"

definition notifyRule :: "tokens \<Rightarrow> u64 \<Rightarrow> u32" where
  "notifyRule tok remaining =
     (let step = notifyRamp remaining in
      if step = 0 then tok_Accent tok else mixRGB (tok_Accent tok) (tok_Bg tok) step 3)"

definition notifyText :: "tokens \<Rightarrow> u64 \<Rightarrow> u32" where
  "notifyText tok remaining =
     (let step = notifyRamp remaining in
      if step = 0 then tok_Ink tok else mixRGB (tok_Ink tok) (tok_Bg tok) step 3)"

subsection \<open>The invariant\<close>

text \<open>Bounded, nothing empty on screen, and the latch set only while something is shown.\<close>

definition wf_notify :: "notify \<Rightarrow> bool" where
  "wf_notify n \<longleftrightarrow> length (nq_queue n) \<le> NotifyMax \<and> (\<forall>t \<in> set (nq_queue n). toast_text t \<noteq> [])
     \<and> (nq_painted n \<longrightarrow> nq_queue n \<noteq> [])"

definition toast_ids :: "notify \<Rightarrow> u32 set" where
  "toast_ids n = toast_tabID ` set (nq_queue n)"

lemma wf_no_toasts [simp]: "wf_notify no_toasts" "toast_ids no_toasts = {}"
  by (simp_all add: wf_notify_def no_toasts_def toast_ids_def)

lemma wf_notifyPush [wf_intros]: "wf_notify n \<Longrightarrow> wf_notify (snd (notifyPush n wid text ticks))"
  by (auto simp: wf_notify_def notifyPush_def Let_def dest: in_set_tlD split: if_splits)

lemma toast_ids_push: "toast_ids (snd (notifyPush n wid text ticks)) \<subseteq> insert wid (toast_ids n)"
  by (auto simp: toast_ids_def notifyPush_def Let_def dest: in_set_tlD split: if_splits)

text \<open>Every removal installs a shorter queue of the same toasts.\<close>

lemma wf_notifyQueueSet:
  "wf_notify n \<Longrightarrow> set q \<subseteq> set (nq_queue n) \<Longrightarrow> length q \<le> length (nq_queue n) \<Longrightarrow>
     wf_notify (notifyQueueSet n q)"
  by (auto simp: wf_notify_def notifyQueueSet_def)

lemma toast_ids_QueueSet: "toast_ids (notifyQueueSet n q) = toast_tabID ` set q"
  by (simp add: toast_ids_def notifyQueueSet_def)

lemma wf_notify_clear [wf_intros]: "wf_notify n \<Longrightarrow> wf_notify (snd (notify_clear n wid))"
  by (auto simp: notify_clear_def intro!: wf_notifyQueueSet length_filter_le)

lemma toast_ids_clear: "toast_ids (snd (notify_clear n wid)) = toast_ids n - {wid}"
  by (auto simp: notify_clear_def toast_ids_QueueSet) (auto simp: toast_ids_def)

lemma wf_notifyExpire [wf_intros]: "wf_notify n \<Longrightarrow> wf_notify (snd (notifyExpire n ticks))"
  by (auto simp: notifyExpire_def intro!: wf_notifyQueueSet length_filter_le)

lemma toast_ids_expire: "toast_ids (snd (notifyExpire n ticks)) \<subseteq> toast_ids n"
  by (auto simp: notifyExpire_def toast_ids_QueueSet) (auto simp: toast_ids_def)

lemma wf_notifyDismiss [wf_intros]: "wf_notify n \<Longrightarrow> wf_notify (snd (notifyDismissByIndex n i))"
  by (auto simp: notifyDismissByIndex_def intro!: wf_notifyQueueSet dest: in_set_takeD in_set_dropD)

lemma toast_ids_dismiss: "toast_ids (snd (notifyDismissByIndex n i)) \<subseteq> toast_ids n"
  by (auto simp: notifyDismissByIndex_def toast_ids_QueueSet dest!: in_set_takeD in_set_dropD)
    (auto simp: toast_ids_def)

lemma wf_notifyPaintMarker [wf_intros]: "wf_notify n \<Longrightarrow> wf_notify (snd (notifyPaintMarker n p))"
  by (auto simp: wf_notify_def notifyPaintMarker_def)

lemma toast_ids_paint [simp]: "toast_ids (snd (notifyPaintMarker n p)) = toast_ids n"
  by (auto simp: toast_ids_def notifyPaintMarker_def)

subsection \<open>The ends of the ramp\<close>

lemma sint_small_u32: "- 2147483648 \<le> i \<Longrightarrow> i < 2147483648 \<Longrightarrow> sint (word_of_int i :: u32) = i"
  by (simp add: signed_of_int signed_take_bit_int_eq_self)

lemma uint_byte_mask: "0 \<le> uint (v AND 0xff :: u32) \<and> uint (v AND 0xff :: u32) \<le> 255"
  using AND_upper2 [of 255 "uint v"] by (simp add: uint_and)

lemma sdiv_whole: "(d * 3 :: int) sdiv 3 = d"
  by (auto simp: signed_divide_int_def abs_mult sgn_if)

text \<open>The ends of the ramp, per channel.\<close>

lemma mix_channel_ends:
  assumes "0 \<le> x" "x \<le> 255" "0 \<le> y" "y \<le> 255"
  shows "mix_channel (word_of_int x) (word_of_int y) 3 3 = word_of_int y"
    and "mix_channel (word_of_int x) (word_of_int y) 0 3 = word_of_int x"
proof -
  have "(word_of_int x - word_of_int y) * 3 = (word_of_int ((x - y) * 3) :: u32)" by simp
  moreover have "sint (word_of_int ((x - y) * 3) :: u32) = (x - y) * 3"
    using assms by (intro sint_small_u32) auto
  ultimately have s: "sint ((word_of_int x - word_of_int y) * 3 :: u32) sdiv sint (3 :: u32) = x - y"
    using sdiv_whole [of "x - y"] by (simp only:) simp
  have d: "(word_of_int x - word_of_int (x - y) :: u32) = word_of_int y" by simp
  show "mix_channel (word_of_int x) (word_of_int y) 3 3 = word_of_int y"
    unfolding mix_channel_def s d Let_def using assms sint_small_u32 [of y] by simp
  show "mix_channel (word_of_int x) (word_of_int y) 0 3 = word_of_int x"
    using assms sint_small_u32 [of x] by (simp add: mix_channel_def signed_divide_int_def)
qed

lemma mix_channel_masked:
  "mix_channel (a AND 0xff) (b AND 0xff) 3 3 = b AND 0xff"
  "mix_channel (a AND 0xff) (b AND 0xff) 0 3 = a AND 0xff"
  using mix_channel_ends [of "uint (a AND 0xff)" "uint (b AND 0xff)"] uint_byte_mask [of a] uint_byte_mask [of b]
  by (simp_all del: uint_and)

lemma rgb_bytes: 
  "(b AND 0xff) OR push_bit 8 (drop_bit 8 b AND 0xff) OR push_bit 16 (drop_bit 16 b AND 0xff) = (b AND 0xffffff :: u32)"
proof -
  have m: "(0xffffff :: u32) = mask 24" "(0xff :: u32) = mask 8" by (simp_all add: mask_eq_exp_minus_1)
  show ?thesis unfolding m
  proof (rule bit_word_eqI)
    fix n assume "n < LENGTH(32)"
    then show "bit ((b AND mask 8) OR push_bit 8 (drop_bit 8 b AND mask 8) OR
        push_bit 16 (drop_bit 16 b AND mask 8)) n = bit (b AND mask 24) n"
      by (cases "16 \<le> n"; cases "8 \<le> n") (auto simp: bit_simps)
  qed
qed


subsection \<open>Properties\<close>

text \<open>
  The fade starts at the panel's colour and ends at the desktop's: with no step taken the
  24-bit colour is the source's, at the last of the three steps it is exactly the target's, in
  every channel, also where the target is the darker one.
\<close>

theorem fade_ends: "mixRGB a b 0 3 = a AND 0xffffff \<and> mixRGB a b 3 3 = b AND 0xffffff"
  by (simp only: mixRGB_def mix_channel_masked rgb_bytes) simp

text \<open>The toasts on screen at tick \<open>t\<close> after the expiry pass of that tick.\<close>

definition shown_at :: "notify \<Rightarrow> u64 \<Rightarrow> notifyToast list" where
  "shown_at n t = nq_queue (snd (notifyExpire n t))"

text \<open>
  A toast queued at tick \<open>t\<close> is on screen for the seven ticks \<open>t + 1\<close> to \<open>t + 7\<close> and gone from tick
  \<open>t + 8\<close> on. A message to a full queue drops the oldest toast only, and the newest is always last.
\<close>

theorem toast_lifetime:
  fixes wid :: u32
  assumes "wf_notify n" "text \<noteq> []" "unat t < 2 ^ 63" "unat t \<le> unat u" "unat u < 2 ^ 63"
  defines "n' \<equiv> snd (notifyPush n wid text t)"
    and "e \<equiv> \<lparr>toast_tabID = wid, toast_text = text, toast_born = t, toast_expires = t + 8\<rparr>"
  shows "nq_queue n' = drop (length (nq_queue n) - 3) (nq_queue n) @ [e]
    \<and> (e \<in> set (shown_at n' u) \<longleftrightarrow> unat u < unat t + 8)"
proof -
  have e8: "unat (t + 8) = unat t + 8" using assms(3) by (simp add: unat_word_ariths)
  have q: "nq_queue n' = drop (length (nq_queue n) - 3) (nq_queue n) @ [e]"
    using assms(1,2) by (auto simp: n'_def e_def notifyPush_def Let_def wf_notify_def drop_Suc)
  then have "e \<in> set (shown_at n' u) \<longleftrightarrow> \<not> u \<ge> t + 8"
    by (auto simp: shown_at_def notifyExpire_def notifyQueueSet_def e_def)
  then show ?thesis using q e8 by (simp add: word_le_nat_alt not_le)
qed

theorem toast_lifetime_witness:
  "let e = \<lparr>toast_tabID = 5, toast_text = ''saved'', toast_born = 10, toast_expires = 10 + 8\<rparr>
   in e \<in> set (shown_at (snd (notifyPush no_toasts 5 ''saved'' 10)) 17)
      \<and> e \<notin> set (shown_at (snd (notifyPush no_toasts 5 ''saved'' 10)) 18)"
  using toast_lifetime [of no_toasts "''saved''" 10 17 5] toast_lifetime [of no_toasts "''saved''" 10 18 5]
  by (simp add: Let_def)

end
