(* ===== verification/Launcher.thy ===== *)
theory Launcher
  imports Theme "HOL-Library.Sublist"
begin

text \<open>
  The application manifest and the launcher (\<^verbatim>\<open>gotabwm/apps.go\<close> and the pure half of
  \<^verbatim>\<open>gotabwm/launcher.go\<close>): parsing \<^verbatim>\<open>/host/APPS.TXT\<close>, filtering the catalog by a typed query, the
  selection, and the row under a point. The parts that open files, exec and print are in \<open>Seat\<close>.
\<close>

subsection \<open>String helpers\<close>

definition cutLine :: "string \<Rightarrow> string \<times> string" where
  "cutLine s = (if CHR 0x0A \<in> set s
     then (takeWhile (\<lambda>c. c \<noteq> CHR 0x0A) s, tl (dropWhile (\<lambda>c. c \<noteq> CHR 0x0A) s)) else (s, []))"

definition trimCR :: "string \<Rightarrow> string" where
  "trimCR s = (if s \<noteq> [] \<and> s ! (length s - 1) = CHR 0x0D then take (length s - 1) s else s)"

definition is_blank :: "char \<Rightarrow> bool" where
  "is_blank c \<longleftrightarrow> c = CHR '' '' \<or> c = CHR 0x09"

text \<open>Advance past leading blanks, then back over trailing ones.\<close>

definition trimSpace :: "string \<Rightarrow> string" where
  "trimSpace s = rev (dropWhile is_blank (rev (dropWhile is_blank s)))"

definition hasPrefix :: "string \<Rightarrow> string \<Rightarrow> bool" where
  "hasPrefix s p \<longleftrightarrow> length s \<ge> length p \<and> take (length p) s = p"

fun splitPipe :: "string \<Rightarrow> string list" where
  "splitPipe [] = [[]]"
| "splitPipe (c # cs) =
     (if c = CHR ''|'' then [] # splitPipe cs
      else case splitPipe cs of f # fs \<Rightarrow> (c # f) # fs | [] \<Rightarrow> [[c]])"

definition asciiFold :: "char \<Rightarrow> char" where
  "asciiFold c = (let n = (of_char c :: nat) in if 65 \<le> n \<and> n \<le> 90 then char_of (n + 32) else c)"

text \<open>The inner loop compares \<open>q\<close> with \<open>s[i:i+len(q)]\<close> case-folded, the outer one tries every \<open>i\<close>.\<close>

definition asciiContainsFold :: "string \<Rightarrow> string \<Rightarrow> bool" where
  "asciiContainsFold s q =
     (if q = [] then True
      else if length q > length s then False
      else list_ex (\<lambda>i. list_all (\<lambda>j. asciiFold (s ! (i + j)) = asciiFold (q ! j)) [0..<length q])
             [0..<length s - length q + 1])"

subsection \<open>The manifest\<close>

record app_entry =
  app_Bin :: string
  app_Label :: string
  app_Icon :: char
  app_Dock :: bool

abbreviation (input) appsMax :: nat where "appsMax \<equiv> 24"

definition parseAppLine :: "string \<Rightarrow> app_entry option" where
  "parseAppLine line =
     (let fields = splitPipe line in
      if length fields < 2 then None
      else
        let bin = trimSpace (fields ! 0); label = trimSpace (fields ! 1) in
        if bin = [] \<or> label = [] then None
        else
          let icon = (if length fields \<ge> 3 then
                        let ic = trimSpace (fields ! 2) in if ic \<noteq> [] then ic ! 0 else CHR ''?''
                      else CHR ''?'');
              dock = (length fields \<ge> 4 \<and> trimSpace (fields ! 3) = ''dock=true'')
          in Some \<lparr>app_Bin = bin, app_Label = label, app_Icon = icon, app_Dock = dock\<rparr>)"

lemma cutLine_shorter: "s \<noteq> [] \<Longrightarrow> length (snd (cutLine s)) < length s"
proof -
  assume "s \<noteq> []"
  then have "length (tl (dropWhile (\<lambda>c. c \<noteq> CHR 0x0A) s)) < length s"
    using length_dropWhile_le [of "\<lambda>c. c \<noteq> CHR 0x0A" s] by (cases s) auto
  then show ?thesis using \<open>s \<noteq> []\<close> by (simp add: cutLine_def)
qed

function apps_loop :: "string \<Rightarrow> app_entry list \<Rightarrow> app_entry list" where
  "apps_loop rest out =
     (if rest \<noteq> [] \<and> length out < appsMax then
        let (line, rest') = cutLine rest;
            line = trimSpace (trimCR line)
        in if line = [] \<or> hasPrefix line ''#'' then apps_loop rest' out
           else case parseAppLine line of
                  Some e \<Rightarrow> apps_loop rest' (out @ [e])
                | None \<Rightarrow> apps_loop rest' out
      else out)"
  by pat_completeness auto
termination
  by (relation "measure (\<lambda>(rest, _). length rest)")
    (auto, (metis cutLine_shorter snd_conv)+)

declare apps_loop.simps [simp del]

definition parseAppsTXT :: "string \<Rightarrow> app_entry list" where
  "parseAppsTXT text = apps_loop text []"

definition filterApps :: "app_entry list \<Rightarrow> string \<Rightarrow> nat list" where
  "filterApps catalog q =
     filter (\<lambda>i. q = [] \<or> asciiContainsFold (app_Bin (catalog ! i)) q \<or> asciiContainsFold (app_Label (catalog ! i)) q)
       [0..<length catalog]"

subsection \<open>The launcher\<close>

record launcher =
  l_open :: bool
  l_catalog :: "app_entry list"
  l_filter :: string
  l_filtered :: "nat list"
  l_sel :: int

definition zero_launcher :: launcher where
  "zero_launcher = \<lparr>l_open = False, l_catalog = [], l_filter = [], l_filtered = [], l_sel = 0\<rparr>"

abbreviation (input) launchX :: int where "launchX \<equiv> 240"
abbreviation (input) launchY :: int where "launchY \<equiv> 80"
abbreviation (input) launchW :: int where "launchW \<equiv> 800"
abbreviation (input) launchHdr :: int where "launchHdr \<equiv> 36"
abbreviation (input) launchMaxH :: int where "launchMaxH \<equiv> 520"
abbreviation (input) filterMax :: nat where "filterMax \<equiv> 24"

definition rowH :: "tokens \<Rightarrow> int" where
  "rowH tok = (let h = tok_PadLG tok + tok_PadMD tok in if h < 20 then 20 else h)"

definition panelH :: "tokens \<Rightarrow> launcher \<Rightarrow> int" where
  "panelH tok l =
     (let n = (if int (length (l_filtered l)) < 1 then 1 else int (length (l_filtered l)));
          h = launchHdr + n * rowH tok + tok_PadMD tok
      in if h > launchMaxH then launchMaxH else h)"

definition refresh :: "launcher \<Rightarrow> launcher" where
  "refresh l =
     (let fs = filterApps (l_catalog l) (l_filter l);
          sel = (if l_sel l \<ge> int (length fs) then int (length fs) - 1 else l_sel l)
      in l\<lparr>l_filtered := fs, l_sel := (if sel < 0 then 0 else sel)\<rparr>)"

definition selected :: "launcher \<Rightarrow> app_entry option" where
  "selected l =
     (if l_sel l < 0 \<or> l_sel l \<ge> int (length (l_filtered l)) then None
      else let i = l_filtered l ! nat (l_sel l)
           in if i \<ge> length (l_catalog l) then None else Some (l_catalog l ! i))"

definition hidUsageChar :: "u8 \<Rightarrow> char option" where
  "hidUsageChar usage =
     (if 0x04 \<le> usage \<and> usage \<le> 0x1d then Some (char_of (97 + unat (usage - 0x04)))
      else if 0x1e \<le> usage \<and> usage \<le> 0x26 then Some (char_of (49 + unat (usage - 0x1e)))
      else if usage = 0x27 then Some (CHR ''0'')
      else if usage = 0x2C then Some (CHR '' '')
      else if usage = 0x2d then Some (CHR ''-'')
      else if usage = 0x37 then Some (CHR ''.'')
      else None)"

text \<open>Go's integer division truncates towards zero.\<close>

definition launchRowAt :: "tokens \<Rightarrow> launcher \<Rightarrow> u32 \<Rightarrow> u32 \<Rightarrow> int option" where
  "launchRowAt tok l px py =
     (if \<not> l_open l then None
      else
        let x = uint px; y = uint py in
        if x < launchX \<or> x \<ge> launchX + launchW \<or> y < launchY \<or> y \<ge> launchY + panelH tok l then None
        else let row = (y - launchY - launchHdr) sdiv rowH tok in
             if row < 0 \<or> row \<ge> int (length (l_filtered l)) then None else Some row)"

text \<open>The row whose painted band contains a point: \<^verbatim>\<open>paintLauncher\<close> draws row \<open>i\<close> from
  \<^verbatim>\<open>launchY + launchHdr + i*rowH\<close> on, for as long as a whole row fits the panel.\<close>

definition painted_row :: "tokens \<Rightarrow> launcher \<Rightarrow> int \<Rightarrow> int \<Rightarrow> bool" where
  "painted_row tok l y i \<longleftrightarrow>
     0 \<le> i \<and> i < int (length (l_filtered l))
     \<and> launchY + launchHdr + (i + 1) * rowH tok \<le> launchY + panelH tok l
     \<and> launchY + launchHdr + i * rowH tok \<le> y \<and> y < launchY + launchHdr + (i + 1) * rowH tok"

subsection \<open>Lemmas\<close>

lemma match_at_iff:
  assumes "i + length q \<le> length s"
  shows "list_all (\<lambda>j. asciiFold (s ! (i + j)) = asciiFold (q ! j)) [0..<length q]
    \<longleftrightarrow> take (length q) (drop i (map asciiFold s)) = map asciiFold q"
proof -
  have "take (length q) (drop i (map asciiFold s)) = map asciiFold q \<longleftrightarrow>
      (\<forall>j < length q. take (length q) (drop i (map asciiFold s)) ! j = map asciiFold q ! j)"
    by (subst list_eq_iff_nth_eq) (use assms in simp)
  also have "\<dots> \<longleftrightarrow> (\<forall>j < length q. asciiFold (s ! (i + j)) = asciiFold (q ! j))"
    using assms by simp
  finally show ?thesis by (simp add: list_all_iff Ball_def)
qed

lemma sublist_take_drop: "sublist ys xs \<longleftrightarrow> (\<exists>i. i + length ys \<le> length xs \<and> take (length ys) (drop i xs) = ys)"
proof
  assume "sublist ys xs"
  then obtain ps ss where "xs = ps @ ys @ ss" by (auto simp: sublist_def)
  then show "\<exists>i. i + length ys \<le> length xs \<and> take (length ys) (drop i xs) = ys"
    by (intro exI [of _ "length ps"]) simp
next
  assume "\<exists>i. i + length ys \<le> length xs \<and> take (length ys) (drop i xs) = ys"
  then obtain i where "take (length ys) (drop i xs) = ys" by blast
  then have "xs = take i xs @ ys @ drop (length ys) (drop i xs)" by (metis append_take_drop_id)
  then show "sublist ys xs" unfolding sublist_def by blast
qed

lemma asciiContainsFold_sublist:
  "asciiContainsFold s q \<longleftrightarrow> sublist (map asciiFold q) (map asciiFold s)"
proof (cases "q = [] \<or> length q > length s")
  case True
  then show ?thesis by (auto simp: asciiContainsFold_def sublist_take_drop)
next
  case False
  let ?P = "\<lambda>i. list_all (\<lambda>j. asciiFold (s ! (i + j)) = asciiFold (q ! j)) [0..<length q]"
  have "asciiContainsFold s q \<longleftrightarrow> (\<exists>i. i < length s - length q + 1 \<and> ?P i)"
  proof -
    have "list_ex P [0..<m] \<longleftrightarrow> (\<exists>i. i < m \<and> P i)" for P m by (auto simp: list_ex_iff)
    then show ?thesis using False by (simp only: asciiContainsFold_def) simp
  qed
  also have "\<dots> \<longleftrightarrow> (\<exists>i. i + length q \<le> length s \<and> ?P i)"
  proof -
    have "i < length s - length q + 1 \<longleftrightarrow> i + length q \<le> length s" for i using False by linarith
    then show ?thesis by simp
  qed
  also have "\<dots> \<longleftrightarrow> (\<exists>i. i + length q \<le> length s \<and> take (length q) (drop i (map asciiFold s)) = map asciiFold q)"
    using match_at_iff [of _ q s] by blast
  finally show ?thesis by (simp add: sublist_take_drop)
qed

lemma contains_prefix: "asciiContainsFold s (q @ r) \<Longrightarrow> asciiContainsFold s q"
  unfolding asciiContainsFold_sublist map_append by (rule sublist_order.order_trans) auto

lemma trimSpace_ends:
  "trimSpace s \<noteq> [] \<Longrightarrow> \<not> is_blank (hd (trimSpace s)) \<and> \<not> is_blank (last (trimSpace s))"
proof -
  define d where "d = dropWhile is_blank s"
  define r where "r = dropWhile is_blank (rev d)"
  assume ne: "trimSpace s \<noteq> []"
  then have r: "r \<noteq> []" and t: "trimSpace s = rev r" by (auto simp: trimSpace_def r_def d_def)
  have "\<not> is_blank (hd r)" using r unfolding r_def by (rule hd_dropWhile)
  then have l: "\<not> is_blank (last (trimSpace s))" using r t by (simp add: last_rev)
  have dn: "d \<noteq> []" using r by (auto simp: r_def)
  have "last r = last (rev d)"
    using r unfolding r_def by (metis append_is_Nil_conv last_append takeWhile_dropWhile_id)
  then have "hd (trimSpace s) = hd d" using dn r t by (simp add: hd_rev last_rev)
  moreover have "\<not> is_blank (hd d)" using dn unfolding d_def by (rule hd_dropWhile)
  ultimately show ?thesis using l by simp
qed

definition app_ok :: "app_entry \<Rightarrow> bool" where
  "app_ok e \<longleftrightarrow> app_Bin e \<noteq> [] \<and> app_Label e \<noteq> [] \<and> \<not> is_blank (hd (app_Bin e)) \<and> \<not> is_blank (last (app_Bin e))
     \<and> \<not> is_blank (hd (app_Label e)) \<and> \<not> is_blank (last (app_Label e))"

lemma parseAppLine_ok: "parseAppLine line = Some e \<Longrightarrow> app_ok e"
  using trimSpace_ends by (auto simp: parseAppLine_def app_ok_def Let_def split: if_splits)

lemma apps_loop_ok:
  "length out \<le> 24 \<Longrightarrow> list_all app_ok out \<Longrightarrow>
     length (apps_loop rest out) \<le> 24 \<and> list_all app_ok (apps_loop rest out)"
proof (induction rest out rule: apps_loop.induct)
  case (1 rest out)
  show ?case
    using 1 parseAppLine_ok
    by (subst (1 2) apps_loop.simps) (auto simp: Let_def split: prod.splits option.splits)
qed

subsection \<open>Properties\<close>

text \<open>
  The catalog is bounded and clean whatever the manifest holds: at most 24 entries, each with
  an executable and a label that are not empty and do not start or end in a blank.
\<close>

theorem manifest_clean: "length (parseAppsTXT text) \<le> 24 \<and> list_all app_ok (parseAppsTXT text)"
  unfolding parseAppsTXT_def by (rule apps_loop_ok) simp_all

text \<open>
  Typing narrows: an application is listed for a query exactly when the case-folded query is a
  contiguous part of its executable name or label, so every extension of the query lists a subset
  of what the query listed, in the same order.
\<close>

theorem filter_narrows:
  "(\<forall>i. i \<in> set (filterApps cat q) \<longleftrightarrow> i < length cat
      \<and> (sublist (map asciiFold q) (map asciiFold (app_Bin (cat ! i)))
         \<or> sublist (map asciiFold q) (map asciiFold (app_Label (cat ! i)))))
   \<and> filterApps cat (q @ r) = filter (\<lambda>i. i \<in> set (filterApps cat (q @ r))) (filterApps cat q)"
proof (intro conjI allI)
  show "i \<in> set (filterApps cat q) \<longleftrightarrow> i < length cat
      \<and> (sublist (map asciiFold q) (map asciiFold (app_Bin (cat ! i)))
         \<or> sublist (map asciiFold q) (map asciiFold (app_Label (cat ! i))))" for i
    by (auto simp: filterApps_def asciiContainsFold_sublist)
  show "filterApps cat (q @ r) = filter (\<lambda>i. i \<in> set (filterApps cat (q @ r))) (filterApps cat q)"
    unfolding filterApps_def
    by (auto simp: filter_filter dest: contains_prefix intro!: filter_cong)
qed

text \<open>
  A click on a painted row of the open launcher selects that row, in either palette.
\<close>

theorem painted_row_hit:
  assumes "l_open l" "tok = Dark \<or> tok = Light" "painted_row tok l (uint py) i"
    and "240 \<le> uint px" "uint px < 1040"
  shows "launchRowAt tok l px py = Some i"
proof -
  have rh: "rowH tok = 24" using assms(2) by (auto simp: rowH_def Dark_def Light_def)
  define d where "d = uint py - 80 - 36"
  have p: "0 \<le> i" "i < int (length (l_filtered l))" "36 + (i + 1) * 24 \<le> panelH tok l"
    "i * 24 \<le> d" "d < i * 24 + 24"
    using assms(3) rh by (auto simp: painted_row_def d_def algebra_simps)
  then have "d sdiv 24 = d div 24" by (simp add: signed_divide_int_def sgn_if)
  also have "\<dots> = i" using p by auto
  finally have "d sdiv 24 = i" .
  then show ?thesis
    using p assms rh by (simp add: launchRowAt_def Let_def d_def)
qed

theorem painted_row_hit_witness:
  "launchRowAt Dark \<lparr>l_open = True, l_catalog = [], l_filter = [], l_filtered = [0, 1], l_sel = 0\<rparr> 300 150 = Some 1"
  by (rule painted_row_hit) (simp_all add: painted_row_def rowH_def panelH_def Dark_def)

text \<open>
  The converse fails: the header of the open launcher is part of the first row's click target.
  The division truncates, so every point of the lower 23 pixels of the header, where no row is
  painted, is taken as a hit on row 0 as soon as the list is not empty.
\<close>

theorem header_click_hits_first_row:
  assumes "l_open l" "l_filtered l \<noteq> []" "240 \<le> uint px" "uint px < 1040" "93 \<le> uint py" "uint py < 116"
  shows "launchRowAt Dark l px py = Some 0 \<and> \<not> (\<exists>i. painted_row Dark l (uint py) i)"
proof -
  have rh: "rowH Dark = 24" by (simp add: rowH_def Dark_def)
  have "(uint py - 80 - 36) sdiv 24 = 0" using assms(5,6) by (auto simp: signed_divide_int_def)
  moreover have "panelH Dark l \<ge> 36" using assms(2) by (auto simp: panelH_def Let_def rh) (simp add: Dark_def)+
  ultimately have "launchRowAt Dark l px py = Some 0"
    using assms rh by (auto simp: launchRowAt_def Let_def)
  moreover have "\<not> painted_row Dark l (uint py) i" for i
  proof
    assume "painted_row Dark l (uint py) i"
    then have "0 \<le> i" "116 + i * 24 \<le> uint py" using rh by (auto simp: painted_row_def)
    then show False using assms(6) by simp
  qed
  ultimately show ?thesis by blast
qed

theorem header_click_hits_first_row_witness:
  "launchRowAt Dark \<lparr>l_open = True, l_catalog = [], l_filter = [], l_filtered = [0], l_sel = 0\<rparr> 300 100 = Some 0"
  by (rule header_click_hits_first_row [THEN conjunct1]) simp_all

end
