(* ===== verification/Paint.thy ===== *)
theory Paint
  imports TabStrip Notify Launcher
begin

text \<open>
  What the seat draws: the clipped fill, the 8x8 text, the tab rail (\<^verbatim>\<open>gotabwm/tabs.go\<close>), the blank
  desktop (\<^verbatim>\<open>gotabwm/seat.go\<close>), the clock panel and the start surface (\<^verbatim>\<open>gotabwm/chrome.go\<close>), the
  toasts (\<^verbatim>\<open>gotabwm/notify.go\<close>) and the launcher (\<^verbatim>\<open>gotabwm/launcher.go\<close>). The scanout is the list of
  its 32-bit pixels (the Go code views the byte slice as such); each painter returns how many pixels
  it wrote and the scanout after it. The active palette is an argument, and so is the glyph table
  of the font, which is plain data.
\<close>

type_synonym pixels = "u32 list"

subsection \<open>Filling\<close>

text \<open>The indices the two loops of \<^verbatim>\<open>fillRect\<close> write, in order.\<close>

definition fill_indices :: "nat \<Rightarrow> int \<Rightarrow> int \<Rightarrow> int \<Rightarrow> int \<Rightarrow> int \<Rightarrow> int \<Rightarrow> nat list" where
  "fill_indices len width height x y w h =
     [nat (row * width + col).
        row \<leftarrow> [y..min (y + h) height - 1], col \<leftarrow> [x..min (x + w) width - 1],
        \<not> (row * width + col < 0 \<or> row * width + col \<ge> int len)]"

definition opaque :: "u32 \<Rightarrow> u32" where
  "opaque rgb = rgb OR 0xff000000"

definition fillRect :: "pixels \<Rightarrow> int \<Rightarrow> int \<Rightarrow> int \<Rightarrow> int \<Rightarrow> int \<Rightarrow> int \<Rightarrow> u32 \<Rightarrow> nat \<times> pixels" where
  "fillRect pix width height x y w h rgb =
     (if w \<le> 0 \<or> h \<le> 0 \<or> width \<le> 0 then (0, pix)
      else
        let (x, w) = (if x < 0 then (0, w + x) else (x, w));
            (y, h) = (if y < 0 then (0, h + y) else (y, h));
            idxs = fill_indices (length pix) width height x y w h
        in (length idxs, foldl (\<lambda>p i. p[i := opaque rgb]) pix idxs))"

text \<open>Painting in sequence, adding up the counts.\<close>

definition and_then :: "nat \<times> pixels \<Rightarrow> (pixels \<Rightarrow> nat \<times> pixels) \<Rightarrow> nat \<times> pixels" where
  "and_then a f = (let (n, p) = a; (m, q) = f p in (n + m, q))"

definition paintBlank :: "pixels \<Rightarrow> u32 \<Rightarrow> nat \<times> pixels" where
  "paintBlank pix rgb = (length pix, map (\<lambda>_. opaque rgb) pix)"

subsection \<open>Text\<close>

type_synonym font = "u8 list list"

definition Glyph8 :: "font \<Rightarrow> nat \<Rightarrow> u8 list" where
  "Glyph8 Font8x8 ch =
     (if ch < 0x20 \<or> ch > 0x7e
      then (if ch = 32 \<or> ch = 9 then Font8x8 ! 0 else Font8x8 ! (63 - 0x20))
      else Font8x8 ! (ch - 0x20))"

definition Advance :: "int \<Rightarrow> int" where
  "Advance sc = 8 * (if sc < 1 then 1 else sc)"

definition Measure :: "string \<Rightarrow> int \<Rightarrow> int" where
  "Measure text sc = int (length text) * Advance sc"

text \<open>The lit runs of one glyph row, from column \<open>col\<close>: start and length.\<close>

fun run_len :: "nat \<Rightarrow> u8 \<Rightarrow> nat \<Rightarrow> nat" where
  "run_len fuel bits c = (case fuel of 0 \<Rightarrow> 0 | Suc k \<Rightarrow> if c < 8 \<and> bit bits c then Suc (run_len k bits (c + 1)) else 0)"

declare run_len.simps [simp del]

function glyph_runs :: "u8 \<Rightarrow> nat \<Rightarrow> (nat \<times> nat) list" where
  "glyph_runs bits col =
     (if col < 8 then
        if \<not> bit bits col then glyph_runs bits (col + 1)
        else let run = 1 + run_len 8 bits (col + 1) in (col, run) # glyph_runs bits (col + run)
      else [])"
  by pat_completeness auto
termination
  by (relation "measure (\<lambda>(_, col). 8 - col)") auto

declare glyph_runs.simps [simp del]

definition draw_row :: "int \<Rightarrow> int \<Rightarrow> int \<Rightarrow> int \<Rightarrow> u32 \<Rightarrow> u8 \<Rightarrow> pixels \<Rightarrow> nat \<times> pixels" where
  "draw_row width maxH cx y rgb bits pix =
     foldl (\<lambda>a (col, run). and_then a (\<lambda>p. fillRect p width maxH (cx + int col) y (int run) 1 rgb))
       (0, pix) (glyph_runs bits 0)"

definition draw_glyph :: "int \<Rightarrow> int \<Rightarrow> int \<Rightarrow> int \<Rightarrow> u32 \<Rightarrow> u8 list \<Rightarrow> pixels \<Rightarrow> nat \<times> pixels" where
  "draw_glyph width maxH cx y rgb g pix =
     foldl (\<lambda>a row. and_then a (draw_row width maxH cx (y + int row) rgb (g ! row))) (0, pix) [0..<8]"

definition drawText8 :: "font \<Rightarrow> pixels \<Rightarrow> int \<Rightarrow> int \<Rightarrow> int \<Rightarrow> int \<Rightarrow> string \<Rightarrow> u32 \<Rightarrow> nat \<times> pixels" where
  "drawText8 fnt pix width maxH x y text rgb =
     foldl (\<lambda>a i. and_then a (draw_glyph width maxH (x + int i * Advance 1) y rgb
              (Glyph8 fnt (of_char (text ! i))))) (0, pix) [0..<length text]"

subsection \<open>The rail\<close>

definition rail_rgb :: "tokens \<Rightarrow> strip \<Rightarrow> int \<Rightarrow> int \<Rightarrow> u32" where
  "rail_rgb tok ts hover i =
     (if tab_ID (At ts i) = (case Focused ts of None \<Rightarrow> 0 | Some f \<Rightarrow> f) then tok_Accent tok
      else if i = hover then tok_BtnHover tok else tok_BtnIdle tok)"

text \<open>One cell: the body, the frozen badge, the close glyph.\<close>

definition rail_cell :: "tokens \<Rightarrow> font \<Rightarrow> int \<Rightarrow> int \<Rightarrow> int \<Rightarrow> strip \<Rightarrow> int \<Rightarrow> int \<Rightarrow> int \<Rightarrow> int \<Rightarrow> pixels \<Rightarrow> nat \<times> pixels" where
  "rail_cell tok fnt width maxH stripH ts hover i x w pix =
     (let body = fillRect pix width maxH (x + 1) 0 (w - 1) stripH (rail_rgb tok ts hover i);
          badge = (if tab_Frozen (At ts i) then
                     let bw = (if 4 > w - 2 then w - 2 else 4) in
                     if bw > 0 \<and> stripH > 2 * 4
                     then and_then body (\<lambda>p. fillRect p width maxH (x + w - 1 - bw) 4 bw (stripH - 2 * 4) (tok_Warning tok))
                     else body
                   else body)
      in if w \<ge> railCloseW \<and> stripH \<ge> 8
         then and_then badge (\<lambda>p. drawText8 fnt p width maxH (x + w - railCloseW + 2) ((stripH - 8) div 2) ''x'' (tok_Muted tok))
         else badge)"

function rail_loop :: "tokens \<Rightarrow> font \<Rightarrow> int \<Rightarrow> int \<Rightarrow> int \<Rightarrow> strip \<Rightarrow> int \<Rightarrow> int \<Rightarrow> int \<Rightarrow> nat \<times> pixels \<Rightarrow> nat \<times> pixels" where
  "rail_loop tok fnt width maxH stripH ts hover cellW i a =
     (if i < int (ts_count ts) then
        let x = i * cellW in
        if x \<ge> width then a
        else let w = (if x + cellW > width then width - x else cellW) in
             if w \<le> 1 then rail_loop tok fnt width maxH stripH ts hover cellW (i + 1) a
             else rail_loop tok fnt width maxH stripH ts hover cellW (i + 1)
                    (and_then a (rail_cell tok fnt width maxH stripH ts hover i x w))
      else a)"
  by pat_completeness auto
termination
  by (relation "measure (\<lambda>(_, _, _, _, _, ts, _, _, i, _). nat (int (ts_count ts) - i))") auto

declare rail_loop.simps [simp del]

definition paintRail :: "tokens \<Rightarrow> font \<Rightarrow> pixels \<Rightarrow> int \<Rightarrow> int \<Rightarrow> int \<Rightarrow> strip \<Rightarrow> int \<Rightarrow> nat \<times> pixels" where
  "paintRail tok fnt pix width height stripH ts hover =
     (let n = int (ts_count ts) in
      if n = 0 \<or> width \<le> 0 \<or> height \<le> 0 \<or> stripH \<le> 0 \<or> pix = [] then (0, pix)
      else
        let stripH = (if stripH > height then height else stripH);
            pixN = int (length pix)
        in if pixN < width then (0, pix)
           else
             let maxH = pixN div width;
                 stripH = (if maxH < stripH then maxH else stripH)
             in if stripH \<le> 0 then (0, pix)
                else rail_loop tok fnt width maxH stripH ts hover (rail_cellW width n) 0
                       (fillRect pix width maxH 0 0 width stripH (tok_Bg tok)))"

subsection \<open>Panels\<close>

definition statusText :: string where "statusText = ''GOTABWM''"
definition startHint :: string where "startHint = ''Ctrl+Space: apps''"

definition paintChrome :: "tokens \<Rightarrow> font \<Rightarrow> pixels \<Rightarrow> int \<Rightarrow> int \<Rightarrow> string \<Rightarrow> nat \<times> pixels" where
  "paintChrome tok fnt pix width height clock =
     (if width \<le> 0 \<or> height \<le> 0 \<or> pix = [] then (0, pix)
      else
        let (x, y, w, h) = chromeRect width height in
        if w \<le> 0 \<or> h \<le> 0 then (0, pix)
        else
          let maxH = int (length pix) div width in
          if maxH \<le> 0 then (0, pix)
          else
            let a = fillRect pix width maxH x y w h (tok_ChromeBg tok);
                a = and_then a (\<lambda>p. fillRect p width maxH x y w (tok_BorderW tok) (tok_Rule tok));
                a = and_then a (\<lambda>p. fillRect p width maxH x y 2 h (tok_Accent tok));
                tx = x + 6; ty = y + 6;
                a = and_then a (\<lambda>p. drawText8 fnt p width maxH tx ty clock (tok_Ink tok))
            in and_then a (\<lambda>p. drawText8 fnt p width maxH (tx + Measure clock 1 + 8) ty statusText (tok_Muted tok)))"

definition paintStartSurface :: "tokens \<Rightarrow> font \<Rightarrow> pixels \<Rightarrow> int \<Rightarrow> int \<Rightarrow> nat \<times> pixels" where
  "paintStartSurface tok fnt pix width height =
     (if width \<le> 0 \<or> height \<le> 0 \<or> pix = [] then (0, pix)
      else
        let (x, y, w, h) = startSurfaceRect width height in
        if w \<le> 0 \<or> h \<le> 0 then (0, pix)
        else
          let maxH = int (length pix) div width in
          if maxH \<le> 0 then (0, pix)
          else
            let a = fillRect pix width maxH x y w h (tok_Surface tok);
                a = and_then a (\<lambda>p. fillRect p width maxH x y w (tok_BorderW tok) (tok_Border tok));
                a = and_then a (\<lambda>p. fillRect p width maxH x y 2 h (tok_Accent tok));
                tx = x + 12; ty = y + 12;
                a = and_then a (\<lambda>p. drawText8 fnt p width maxH tx ty statusText (tok_Ink tok))
            in and_then a (\<lambda>p. drawText8 fnt p width maxH tx (ty + 14) startHint (tok_InkMuted tok)))"

definition paint_toast :: "tokens \<Rightarrow> font \<Rightarrow> int \<Rightarrow> int \<Rightarrow> panel \<Rightarrow> u64 \<Rightarrow> string \<Rightarrow> pixels \<Rightarrow> nat \<times> pixels" where
  "paint_toast tok fnt width maxH r remaining text pix =
     (let (x, y, w, h) = r;
          a = fillRect pix width maxH x y w h (notifyFill tok remaining);
          a = and_then a (\<lambda>p. fillRect p width maxH x y w (tok_BorderW tok)
                 (mixRGB (tok_Border tok) (tok_Bg tok) (notifyRamp remaining) 3));
          a = and_then a (\<lambda>p. fillRect p width maxH x y 2 h (notifyRule tok remaining))
      in and_then a (\<lambda>p. drawText8 fnt p width maxH (x + 6) (y + 6) text (notifyText tok remaining)))"

definition paintNotify :: "tokens \<Rightarrow> font \<Rightarrow> notify \<Rightarrow> pixels \<Rightarrow> int \<Rightarrow> int \<Rightarrow> u64 \<Rightarrow> nat \<times> pixels" where
  "paintNotify tok fnt nq pix width height ticks =
     (if width \<le> 0 \<or> height \<le> 0 \<or> pix = [] \<or> nq_queue nq = [] then (0, pix)
      else
        let maxH = int (length pix) div width; n = length (nq_queue nq) in
        if maxH \<le> 0 then (0, pix)
        else foldl (\<lambda>a slot.
               let e = nq_queue nq ! slot; r = notifyRect width height (int slot) (int n); (x, y, w, h) = r in
               if w \<le> 0 \<or> h \<le> 0 then a
               else and_then a (paint_toast tok fnt width maxH r (toast_expires e - ticks) (toast_text e)))
             (0, pix) [0..<n])"

text \<open>The row loop of \<^verbatim>\<open>paintLauncher\<close>, which stops at the first row that does not fit.\<close>

function launch_rows :: "tokens \<Rightarrow> int \<Rightarrow> int \<Rightarrow> int \<Rightarrow> launcher \<Rightarrow> nat \<Rightarrow> nat \<times> pixels \<Rightarrow> nat \<times> pixels" where
  "launch_rows tok width maxH h l i a =
     (if i < length (l_filtered l) then
        let y = launchY + launchHdr + int i * rowH tok in
        if y + rowH tok > launchY + h then a
        else launch_rows tok width maxH h l (i + 1)
               (and_then a (\<lambda>p. fillRect p width maxH (launchX + tok_PadMD tok) y
                  (launchW - 2 * tok_PadMD tok) (rowH tok - tok_PadXS tok)
                  (if int i = l_sel l then tok_Selection tok else tok_Surface tok)))
      else a)"
  by pat_completeness auto
termination
  by (relation "measure (\<lambda>(_, _, _, _, l, i, _). length (l_filtered l) - i)") auto

declare launch_rows.simps [simp del]

definition paintLauncher :: "tokens \<Rightarrow> launcher \<Rightarrow> pixels \<Rightarrow> int \<Rightarrow> int \<Rightarrow> nat \<times> pixels" where
  "paintLauncher tok l pix width height =
     (if \<not> l_open l \<or> width \<le> 0 \<or> height \<le> 0 \<or> pix = [] then (0, pix)
      else
        let maxH = int (length pix) div width in
        if maxH \<le> 0 then (0, pix)
        else
          let h = panelH tok l;
              a = fillRect pix width maxH launchX launchY launchW h (tok_Surface tok);
              a = and_then a (\<lambda>p. fillRect p width maxH launchX launchY (tok_BorderW tok) h (tok_Accent tok));
              a = and_then a (\<lambda>p. fillRect p width maxH (launchX + launchW - tok_BorderW tok) launchY
                    (tok_BorderW tok) h (tok_Accent tok))
          in launch_rows tok width maxH h l 0 a)"

subsection \<open>What a fill writes\<close>

lemma length_fold_upd [simp]: "length (foldl (\<lambda>p i. p[i := v]) pix is) = length pix"
  by (induction "is" arbitrary: pix) simp_all

lemma nth_fold_upd:
  "i < length pix \<Longrightarrow> foldl (\<lambda>p i. p[i := v]) pix is ! i = (if i \<in> set is then v else pix ! i)"
  by (induction "is" arbitrary: pix) (auto simp: nth_list_update)

lemma in_set_fill:
  "i \<in> set (fill_indices len width height x y w h) \<longleftrightarrow>
     (\<exists>row col. i = nat (row * width + col) \<and> y \<le> row \<and> row < min (y + h) height \<and> x \<le> col
        \<and> col < min (x + w) width \<and> 0 \<le> row * width + col \<and> row * width + col < int len)"
proof
  assume "i \<in> set (fill_indices len width height x y w h)"
  then obtain row col where "i = nat (row * width + col)" "row \<in> {y..min (y + h) height - 1}"
    "col \<in> {x..min (x + w) width - 1}" "\<not> (row * width + col < 0 \<or> row * width + col \<ge> int len)"
    unfolding fill_indices_def by auto
  then show "\<exists>row col. i = nat (row * width + col) \<and> y \<le> row \<and> row < min (y + h) height \<and> x \<le> col
        \<and> col < min (x + w) width \<and> 0 \<le> row * width + col \<and> row * width + col < int len"
    by (intro exI [of _ row] exI [of _ col]) auto
next
  assume "\<exists>row col. i = nat (row * width + col) \<and> y \<le> row \<and> row < min (y + h) height \<and> x \<le> col
        \<and> col < min (x + w) width \<and> 0 \<le> row * width + col \<and> row * width + col < int len"
  then obtain row col where "i = nat (row * width + col)" "row \<in> set [y..min (y + h) height - 1]"
    "col \<in> set [x..min (x + w) width - 1]" "\<not> (row * width + col < 0 \<or> row * width + col \<ge> int len)"
    by auto
  then show "i \<in> set (fill_indices len width height x y w h)"
    unfolding fill_indices_def by (auto simp del: set_upto)
qed

lemma row_col_unique:
  assumes "0 < (width :: int)" "0 \<le> c" "c < width" "0 \<le> c'" "c' < width" "r * width + c = r' * width + c'"
  shows "r = r'" "c = c'"
proof -
  have "(r * width + c) div width = r" "(r' * width + c') div width = r'"
    using assms by (intro div_eq_cell; simp)+
  then show "r = r'" using assms(6) by simp
  then show "c = c'" using assms(6) by simp
qed

lemma in_fill_indices:
  assumes "0 < width" "0 \<le> x" "0 \<le> y" "0 \<le> c" "c < width" "0 \<le> r" "r * width + c < int len"
  shows "nat (r * width + c) \<in> set (fill_indices len width height x y w h)
    \<longleftrightarrow> y \<le> r \<and> r < min (y + h) height \<and> x \<le> c \<and> c < x + w"
proof -
  have nn: "0 \<le> r * width + c" using assms by simp
  have "r = r' \<and> c = c'"
    if "nat (r * width + c) = nat (r' * width + c')" "y \<le> r'" "x \<le> c'" "c' < width" for r' c'
  proof -
    have "0 \<le> r' * width + c'" using that assms by simp
    then have "r * width + c = r' * width + c'" using that(1) nn by simp
    then show ?thesis using row_col_unique [of width c c' r r'] that assms by simp
  qed
  then show ?thesis using assms nn unfolding in_set_fill by (auto 0 4)
qed

text \<open>
  A painter's frame: the scanout keeps its size, pixels outside the rows \<open>a\<close> to \<open>b\<close> are untouched,
  and every pixel that changed is opaque.
\<close>

definition is_opaque :: "u32 \<Rightarrow> bool" where
  "is_opaque v \<longleftrightarrow> v OR 0xff000000 = v"

definition paints :: "int \<Rightarrow> int \<Rightarrow> int \<Rightarrow> pixels \<Rightarrow> nat \<times> pixels \<Rightarrow> bool" where
  "paints width a b pix r \<longleftrightarrow>
     length (snd r) = length pix
     \<and> (\<forall>i < length pix. snd r ! i = pix ! i \<or> (is_opaque (snd r ! i) \<and> a * width \<le> int i \<and> int i < b * width))"

lemma opaque_is_opaque [simp]: "is_opaque (opaque rgb)"
  by (simp add: is_opaque_def opaque_def or.assoc)

lemma paints_refl [simp]: "paints width a b pix (n, pix)"
  by (simp add: paints_def)

lemma paints_trans:
  assumes "paints width a b pix r" and "\<And>p. length p = length pix \<Longrightarrow> paints width a b p (f p)"
  shows "paints width a b pix (and_then r f)"
proof -
  obtain n p where r: "r = (n, p)" by (cases r)
  obtain m q where q: "f p = (m, q)" by (cases "f p")
  have l: "length p = length pix" using assms(1) r by (simp add: paints_def)
  show ?thesis
    using assms(1) assms(2) [OF l] l unfolding r q and_then_def paints_def by (simp add: q) metis
qed

lemma paints_foldl:
  assumes "\<And>x p. x \<in> set xs \<Longrightarrow> length p = length pix \<Longrightarrow> paints width a b p (g x p)"
    and "paints width a b pix r"
  shows "paints width a b pix (foldl (\<lambda>acc x. and_then acc (g x)) r xs)"
  using assms
proof (induction xs arbitrary: r)
  case (Cons x xs)
  have "paints width a b pix (and_then r (g x))" using Cons.prems by (intro paints_trans) auto
  then show ?case using Cons by simp
qed simp

lemma paints_fillRect:
  assumes "a \<le> y" "y + h \<le> b" "0 \<le> y"
  shows "paints width a b pix (fillRect pix width height x y w h rgb)"
proof (cases "w \<le> 0 \<or> h \<le> 0 \<or> width \<le> 0")
  case True
  then show ?thesis by (auto simp: fillRect_def)
next
  case False
  have rng: "a * width \<le> int i \<and> int i < b * width"
    if i: "i \<in> set (fill_indices len width height x' y w' h)" and x': "0 \<le> x'" for i len x' w'
  proof -
    obtain row col where rc: "i = nat (row * width + col)" "y \<le> row" "row < y + h" "x' \<le> col" "col < width"
      "0 \<le> row * width + col"
      using i unfolding in_set_fill by auto
    have "a * width \<le> row * width" using rc(2) assms(1) False by (intro mult_right_mono) auto
    moreover have "(row + 1) * width \<le> b * width" using rc(3) assms(2) False by (intro mult_right_mono) auto
    ultimately have "a * width \<le> row * width + col" "row * width + col < b * width"
      using rc(4,5) x' unfolding distrib_right by linarith+
    then show ?thesis using rc(1,6) by simp
  qed
  show ?thesis
    using False assms(3) rng
    by (auto simp: fillRect_def Let_def paints_def nth_fold_upd split: prod.splits if_splits)
qed

subsection \<open>The rail stays in its strip\<close>

lemma run_len_le: "run_len k bits c \<le> k"
  by (induction k arbitrary: c) (simp_all add: run_len.simps [of _ bits] split: nat.splits)

lemma paints_draw_row:
  assumes "a \<le> y" "y + 1 \<le> b" "0 \<le> y"
  shows "paints width a b pix (draw_row width maxH cx y rgb bits pix)"
proof -
  have "paints width a b pix (foldl (\<lambda>acc x. and_then acc
      ((\<lambda>x p. fillRect p width maxH (cx + int (fst x)) y (int (snd x)) 1 rgb) x)) (0, pix) (glyph_runs bits 0))"
    using assms by (intro paints_foldl paints_fillRect) auto
  then show ?thesis by (simp add: draw_row_def case_prod_unfold)
qed

lemma paints_drawText8:
  assumes "a \<le> y" "y + 8 \<le> b" "0 \<le> y"
  shows "paints width a b pix (drawText8 fnt pix width maxH x y text rgb)"
proof -
  have "paints width a b p (draw_glyph width maxH cx y rgb g p)" for p cx g
    unfolding draw_glyph_def
    by (intro paints_foldl paints_draw_row) (use assms in auto)
  then show ?thesis unfolding drawText8_def by (intro paints_foldl) auto
qed

lemma paints_rail_cell:
  assumes "0 < stripH"
  shows "paints width 0 stripH pix (rail_cell tok fnt width maxH stripH ts hover i x w pix)"
proof -
  have body: "paints width 0 stripH pix (fillRect pix width maxH (x + 1) 0 (w - 1) stripH (rail_rgb tok ts hover i))"
    using assms by (intro paints_fillRect) auto
  have badge: "paints width 0 stripH p (fillRect p width maxH x' 4 bw (stripH - 2 * 4) v)"
    if "stripH > 2 * 4" for p x' bw v
    using that by (intro paints_fillRect) auto
  have glyph: "paints width 0 stripH p (drawText8 fnt p width maxH x' ((stripH - 8) div 2) ''x'' v)"
    if "stripH \<ge> 8" for p x' v
    using that by (intro paints_drawText8) auto
  show ?thesis
    unfolding rail_cell_def Let_def using body badge glyph by (auto intro!: paints_trans)
qed

lemma paints_rail_loop:
  "0 < stripH \<Longrightarrow> paints width 0 stripH pix r \<Longrightarrow>
     paints width 0 stripH pix (rail_loop tok fnt width maxH stripH ts hover cellW i r)"
proof (induction tok fnt width maxH stripH ts hover cellW i r rule: rail_loop.induct)
  case (1 tok fnt width maxH stripH ts hover cellW i a)
  have step: "paints width 0 stripH pix (and_then a (rail_cell tok fnt width maxH stripH ts hover i x w))" for x w
    using 1 by (intro paints_trans paints_rail_cell) auto
  show ?case
    using 1 step by (subst rail_loop.simps) (auto simp: Let_def)
qed

subsection \<open>Properties\<close>

text \<open>
  The clipped fill writes exactly its rectangle: a pixel of the scanout inside the rectangle and
  above the height limit takes the opaque colour, every other pixel keeps its value, wherever the
  rectangle lies and however far it sticks out.
\<close>

theorem fillRect_exact:
  assumes "0 < width" "0 < w" "0 < h" "0 \<le> c" "c < width" "0 \<le> r" "r * width + c < int (length pix)"
  shows "snd (fillRect pix width height x y w h rgb) ! nat (r * width + c) =
    (if x \<le> c \<and> c < x + w \<and> y \<le> r \<and> r < y + h \<and> r < height then opaque rgb
     else pix ! nat (r * width + c))"
proof -
  define x' w' y' h' where "x' = (if x < 0 then 0 else x)" and "w' = (if x < 0 then w + x else w)"
    and "y' = (if y < 0 then 0 else y)" and "h' = (if y < 0 then h + y else h)"
  have lt: "nat (r * width + c) < length pix" using assms by (simp add: nat_less_iff)
  have mem: "nat (r * width + c) \<in> set (fill_indices (length pix) width height x' y' w' h')
      \<longleftrightarrow> y' \<le> r \<and> r < min (y' + h') height \<and> x' \<le> c \<and> c < x' + w'"
    using assms by (intro in_fill_indices) (auto simp: x'_def y'_def)
  have f: "snd (fillRect pix width height x y w h rgb) =
      foldl (\<lambda>p i. p[i := opaque rgb]) pix (fill_indices (length pix) width height x' y' w' h')"
    using assms by (auto simp: fillRect_def Let_def x'_def w'_def y'_def h'_def)
  have iff: "(y' \<le> r \<and> r < min (y' + h') height \<and> x' \<le> c \<and> c < x' + w')
      \<longleftrightarrow> (x \<le> c \<and> c < x + w \<and> y \<le> r \<and> r < y + h \<and> r < height)"
    using assms by (auto simp: x'_def w'_def y'_def h'_def)
  show ?thesis unfolding f nth_fold_upd [OF lt] mem iff ..
qed

theorem fillRect_exact_witness:
  "snd (fillRect (replicate 12 0) 4 3 (- 1) 1 3 5 7) ! nat (2 * 4 + 1) = opaque 7
   \<and> snd (fillRect (replicate 12 0) 4 3 (- 1) 1 3 5 7) ! nat (2 * 4 + 2) = 0"
  using fillRect_exact [of 4 3 5 1 2 "replicate 12 0" 3 "- 1" 1 7]
    fillRect_exact [of 4 3 5 2 2 "replicate 12 0" 3 "- 1" 1 7]
  by (simp add: nat_add_distrib)

text \<open>
  Painting the rail stays in the rail: the scanout keeps its size, only pixels of the top strip
  change, and every pixel that changes is opaque, for any number of tabs, widths and fonts.
\<close>

theorem rail_paint_confined:
  fixes tok :: tokens and fnt :: font and pix :: pixels and width height stripH hover :: int and ts :: strip
  assumes "0 < stripH"
  defines "q \<equiv> snd (paintRail tok fnt pix width height stripH ts hover)"
  shows "length q = length pix
    \<and> (\<forall>i < length pix. q ! i = pix ! i \<or> (is_opaque (q ! i) \<and> int i < stripH * width))"
proof -
  define sh where "sh = (if int (length pix) div width < (if stripH > height then height else stripH)
    then int (length pix) div width else (if stripH > height then height else stripH))"
  have "paints width 0 sh pix (rail_loop tok fnt width mh sh ts hover cw 0 (fillRect pix width mh 0 0 width sh v))"
    if "0 < sh" for mh cw v
    using that by (intro paints_rail_loop paints_fillRect) auto
  then have p: "paints width 0 sh pix (paintRail tok fnt pix width height stripH ts hover) \<or> q = pix"
    by (auto simp: paintRail_def Let_def sh_def q_def)
  have le: "sh \<le> stripH" by (simp add: sh_def)
  show ?thesis
  proof (cases "0 \<le> width")
    case True
    then have "sh * width \<le> stripH * width" using le by (intro mult_right_mono)
    then show ?thesis using p by (auto simp: paints_def q_def [symmetric])
  next
    case False
    then have "q = pix" by (simp add: q_def paintRail_def)
    then show ?thesis by simp
  qed
qed

theorem rail_paint_confined_witness:
  "snd (paintRail Dark (replicate 95 (replicate 8 0)) (replicate 2000 0) 40 50 22 (snd (OpenTab empty_strip 3 ''a'')) 0)
     ! 1500 = 0"
proof -
  have pos: "(0 :: int) < 22" by simp
  show ?thesis
    using rail_paint_confined [OF pos, where pix = "replicate 2000 0" and tok = Dark
        and fnt = "replicate 95 (replicate 8 0)" and width = 40 and height = 50
        and ts = "snd (OpenTab empty_strip 3 ''a'')" and hover = 0, THEN conjunct2, rule_format, of 1500]
    by simp
qed

end
