(* ===== verification/SeatState.thy ===== *)
theory SeatState
  imports Wire TabsCodec Notify Launcher Paint "HOL-Library.State_Monad"
begin

text \<open>
  The process state of the window-manager seat (\<^verbatim>\<open>gotabwm\<close>) and the primitives every handler is
  made of. The package-level variables of the Go program are the fields of one record; a Go function
  that reads or writes them is a computation of the state monad. The kernel is a parameter: a
  \<^emph>\<open>world\<close> answers every call as an arbitrary function of the calls made so far, and the state keeps
  the log of calls and answers, newest first, which is what the theorems about system calls read.

  The theory then gives the seat's small shared operations (pending navigation, toasts of a closed
  tab, closing a tab, focusing, proposing rectangles, the session file, the layout file), the seat
  invariant, and the relational rules by which whole handlers are checked against it.
\<close>

subsection \<open>The kernel seam\<close>

text \<open>
  Slot 65 calls keep their command number and argument words; the other calls of package \<^verbatim>\<open>vi\<close> are
  named by what they ask for.
\<close>

datatype kcall =
    KConsole string
  | KWmctl nat "u32 list"
  | KExec string
  | KWriteSafe string bytes
  | KReadAll string nat
  | KMkdir string
  | KProbe string
  | KSend u32 bytes
  | KRecv
  | KPoll
  | KProcs
  | KTime
  | KSleep nat
  | KMap nat
  | KWinOpen u32 u32 u32 u32
  | KWinQuery u32
  | KChrome u32 bytes

type_synonym klog = "(kcall \<times> int) list"

record world =
  w_ret :: "klog \<Rightarrow> kcall \<Rightarrow> int"
  w_read :: "klog \<Rightarrow> string \<Rightarrow> bytes option"
  w_recv :: "klog \<Rightarrow> bytes option"
  w_poll :: "klog \<Rightarrow> ui_event option"
  w_procs :: "klog \<Rightarrow> proc_row list \<times> int"
  w_query :: "klog \<Rightarrow> u32 \<Rightarrow> u32 list"
  w_scan :: pixels
  w_font :: font

definition WmctlTaskbarClick :: "u32 \<Rightarrow> kcall" where
  "WmctlTaskbarClick wid = KWmctl 12 [wid]"

definition WmctlWinClose :: "u32 \<Rightarrow> kcall" where
  "WmctlWinClose wid = KWmctl 13 [wid]"

definition WmctlRequestPresent :: kcall where
  "WmctlRequestPresent = KWmctl 3 []"

definition WmctlRegister :: kcall where
  "WmctlRegister = KWmctl 1 []"

definition pack16 :: "u32 \<Rightarrow> u32 \<Rightarrow> u32" where
  "pack16 lo hi = (lo AND 0xffff) OR push_bit 16 (hi AND 0xffff)"

definition WmctlSetWindowRect :: "u32 \<Rightarrow> u32 \<Rightarrow> u32 \<Rightarrow> u32 \<Rightarrow> u32 \<Rightarrow> kcall" where
  "WmctlSetWindowRect wid x y w h = KWmctl 2 [wid, pack16 x y, pack16 w h, 0, 0]"

definition WmctlContentPtr :: "u32 \<Rightarrow> u32 \<Rightarrow> u8 \<Rightarrow> kcall" where
  "WmctlContentPtr x y buttons = KWmctl 15 [x OR push_bit 16 y, ucast buttons, 0, 0, 0]"

subsection \<open>The state of the seat\<close>

record seat =
  st_tabs :: strip
  st_hosted :: u32
  st_dogfood :: bool
  st_hostTicksLeft :: int
  st_stripSawTwo :: bool
  st_stripClosedOne :: bool
  st_stripDone :: bool
  st_stripStep :: nat
  st_stripHoldLeft :: nat
  st_pendingNavID :: u32
  st_pendingNavPath :: string
  st_replyPayload :: string
  st_sessionSeq :: u16
  st_sessionDirty :: bool
  st_notify :: notify
  st_seatTick :: u64
  st_prevPtr :: u8
  st_railDragFrom :: int
  st_contentDown :: bool
  st_railHover :: int
  st_sashDragging :: bool
  st_launch :: launcher
  st_lastRailN :: nat
  st_lastRailFocus :: u32
  st_railMarked :: bool
  st_chromeLogged :: bool
  st_startLogged :: bool
  st_demo :: bool
  st_presents :: nat
  st_ticks :: nat
  st_theme :: tokens
  st_scan :: pixels
  st_log :: klog

definition init_seat :: seat where
  "init_seat = \<lparr>st_tabs = empty_strip, st_hosted = 0, st_dogfood = False, st_hostTicksLeft = 0,
     st_stripSawTwo = False, st_stripClosedOne = False, st_stripDone = False, st_stripStep = 0,
     st_stripHoldLeft = 0, st_pendingNavID = 0, st_pendingNavPath = [], st_replyPayload = [],
     st_sessionSeq = 1, st_sessionDirty = False, st_notify = no_toasts, st_seatTick = 0,
     st_prevPtr = 0, st_railDragFrom = -1, st_contentDown = False, st_railHover = -1,
     st_sashDragging = False, st_launch = zero_launcher, st_lastRailN = 0, st_lastRailFocus = 0,
     st_railMarked = False, st_chromeLogged = False, st_startLogged = False, st_demo = False,
     st_presents = 0, st_ticks = 0, st_theme = Dark, st_scan = [], st_log = []\<rparr>"

type_synonym 'a seat_m = "(seat, 'a) state"

subsection \<open>Primitives\<close>

abbreviation ret :: "'a \<Rightarrow> 'a seat_m" where "ret \<equiv> State_Monad.return"

definition gets :: "(seat \<Rightarrow> 'a) \<Rightarrow> 'a seat_m" where
  "gets f = State (\<lambda>s. (f s, s))"

definition modify :: "(seat \<Rightarrow> seat) \<Rightarrow> unit seat_m" where
  "modify f = State (\<lambda>s. ((), f s))"

definition on_tabs :: "(strip \<Rightarrow> 'a \<times> strip) \<Rightarrow> 'a seat_m" where
  "on_tabs f = State (\<lambda>s. (fst (f (st_tabs s)), s\<lparr>st_tabs := snd (f (st_tabs s))\<rparr>))"

definition on_notify :: "(notify \<Rightarrow> 'a \<times> notify) \<Rightarrow> 'a seat_m" where
  "on_notify f = State (\<lambda>s. (fst (f (st_notify s)), s\<lparr>st_notify := snd (f (st_notify s))\<rparr>))"

text \<open>One call: the world answers from the log so far, and the call is logged with its answer.\<close>

definition kdo :: "world \<Rightarrow> kcall \<Rightarrow> int seat_m" where
  "kdo W c = State (\<lambda>s. (w_ret W (st_log s) c, s\<lparr>st_log := (c, w_ret W (st_log s) c) # st_log s\<rparr>))"

definition ReadFileAll :: "world \<Rightarrow> string \<Rightarrow> nat \<Rightarrow> bytes option seat_m" where
  "ReadFileAll W path mx = State (\<lambda>s.
     let b = map_option (take mx) (w_read W (st_log s) path)
     in (b, s\<lparr>st_log := (KReadAll path mx, case b of None \<Rightarrow> -1 | Some d \<Rightarrow> int (length d)) # st_log s\<rparr>))"

definition IpcRecv :: "world \<Rightarrow> bytes option seat_m" where
  "IpcRecv W = State (\<lambda>s.
     let b = map_option (take WmRpcMax) (w_recv W (st_log s))
     in (b, s\<lparr>st_log := (KRecv, case b of None \<Rightarrow> -1 | Some d \<Rightarrow> int (length d)) # st_log s\<rparr>))"

definition PollEvent :: "world \<Rightarrow> ui_event option seat_m" where
  "PollEvent W = State (\<lambda>s.
     let e = w_poll W (st_log s)
     in (e, s\<lparr>st_log := (KPoll, if e = None then 0 else 1) # st_log s\<rparr>))"

definition say :: "world \<Rightarrow> string \<Rightarrow> unit seat_m" where
  "say W line = do { _ \<leftarrow> kdo W (KConsole line); ret () }"

definition itoa_n :: "nat \<Rightarrow> string" where
  "itoa_n n = Itoa64 (of_nat n)"

definition itoa_i :: "int \<Rightarrow> string" where
  "itoa_i i = Itoa64 (word_of_int i)"

text \<open>A loop over a list, for its effects; \<open>stop_unless\<close> ends it at the first body that fails.\<close>

fun for_each :: "'b list \<Rightarrow> ('b \<Rightarrow> unit seat_m) \<Rightarrow> unit seat_m" where
  "for_each [] f = ret ()"
| "for_each (x # xs) f = do { f x; for_each xs f }"

fun for_all :: "'b list \<Rightarrow> ('b \<Rightarrow> bool seat_m) \<Rightarrow> bool seat_m" where
  "for_all [] f = ret True"
| "for_all (x # xs) f = do { ok \<leftarrow> f x; if ok then for_all xs f else ret False }"

lemma run_prims [simp]:
  "run_state (gets g) s = (g s, s)"
  "run_state (modify f) s = ((), f s)"
  "run_state (on_tabs h) s = (fst (h (st_tabs s)), s\<lparr>st_tabs := snd (h (st_tabs s))\<rparr>)"
  "run_state (on_notify j) s = (fst (j (st_notify s)), s\<lparr>st_notify := snd (j (st_notify s))\<rparr>)"
  "run_state (kdo W c) s = (w_ret W (st_log s) c, s\<lparr>st_log := (c, w_ret W (st_log s) c) # st_log s\<rparr>)"
  "run_state (say W line) s =
     ((), s\<lparr>st_log := (KConsole line, w_ret W (st_log s) (KConsole line)) # st_log s\<rparr>)"
  by (simp_all add: gets_def modify_def on_tabs_def on_notify_def kdo_def say_def)


subsection \<open>Navigation hand-over\<close>

definition setPendingNav :: "u32 \<Rightarrow> string \<Rightarrow> unit seat_m" where
  "setPendingNav wid path = modify (\<lambda>s. s\<lparr>st_pendingNavID := wid, st_pendingNavPath := path\<rparr>)"

definition navPoll :: "u32 \<Rightarrow> string option seat_m" where
  "navPoll wid = do {
     s \<leftarrow> gets id;
     if wid = 0 \<or> st_pendingNavID s \<noteq> wid \<or> st_pendingNavPath s = [] then ret None
     else do {
       modify (\<lambda>s. s\<lparr>st_pendingNavID := 0, st_pendingNavPath := []\<rparr>);
       ret (Some (st_pendingNavPath s))
     }
   }"

definition clearPendingNav :: "u32 \<Rightarrow> unit seat_m" where
  "clearPendingNav wid = modify (\<lambda>s. if st_pendingNavID s = wid
     then s\<lparr>st_pendingNavID := 0, st_pendingNavPath := []\<rparr> else s)"

definition takeReplyPayload :: "string seat_m" where
  "takeReplyPayload = do {
     p \<leftarrow> gets st_replyPayload;
     modify (\<lambda>s. s\<lparr>st_replyPayload := []\<rparr>);
     ret p
   }"

subsection \<open>Closing and focusing a tab\<close>

definition clearNotify :: "world \<Rightarrow> u32 \<Rightarrow> nat seat_m" where
  "clearNotify W wid = do {
     gone \<leftarrow> on_notify (\<lambda>n. notify_clear n wid);
     for_each [0..<gone] (\<lambda>_. say W (''gotabwm: notify dismiss id='' @ itoa_id wid));
     ret gone
   }"

text \<open>\<^verbatim>\<open>CloseTab\<close>: record the tab, drop its queued target and its toasts, take it off the strip.\<close>

definition CloseTab :: "world \<Rightarrow> u32 \<Rightarrow> bool seat_m" where
  "CloseTab W wid = do {
     i \<leftarrow> gets (\<lambda>s. index (st_tabs s) wid);
     if i < 0 then ret False
     else do {
       on_tabs (\<lambda>t. ((), recordClosed t (ts_tabs t ! nat i)));
       clearPendingNav wid;
       _ \<leftarrow> clearNotify W wid;
       on_tabs (\<lambda>t. ((), remove_at t (nat i)));
       ret True
     }
   }"

definition syncHostedFromStrip :: "unit seat_m" where
  "syncHostedFromStrip = modify (\<lambda>s. s\<lparr>st_hosted :=
     (case Focused (st_tabs s) of Some wid \<Rightarrow> wid | None \<Rightarrow> 0)\<rparr>)"

definition noteStripOpen :: "unit seat_m" where
  "noteStripOpen = modify (\<lambda>s. if ts_count (st_tabs s) \<noteq> 1 then s
     else s\<lparr>st_stripDone := False, st_stripSawTwo := False, st_stripClosedOne := False,
            st_stripStep := 0, st_stripHoldLeft := 0\<rparr>)"

definition focusHosted :: "world \<Rightarrow> u32 \<Rightarrow> bool seat_m" where
  "focusHosted W wid =
     (if wid = 0 then ret False
      else do {
        r \<leftarrow> kdo W (WmctlTaskbarClick wid);
        if r \<noteq> 0 then ret False
        else do {
          ok \<leftarrow> on_tabs (\<lambda>t. FocusTab t wid);
          if \<not> ok then ret False
          else do { modify (\<lambda>s. s\<lparr>st_hosted := wid\<rparr>); ret True }
        }
      })"

subsection \<open>Rectangles, dumps, the layout file\<close>

abbreviation (input) scanW :: u32 where "scanW \<equiv> 1280"
abbreviation (input) scanH :: u32 where "scanH \<equiv> 720"

definition applyRect :: "world \<Rightarrow> u32 \<Rightarrow> rect \<Rightarrow> bool seat_m" where
  "applyRect W wid r = do {
     first \<leftarrow> (if rect_X r \<noteq> 0 \<or> rect_Y r \<noteq> 0
               then kdo W (WmctlSetWindowRect wid 0 0 (rect_W r) (rect_H r)) else ret 0);
     if first \<noteq> 0 then ret False
     else do {
       k \<leftarrow> kdo W (WmctlSetWindowRect wid (rect_X r) (rect_Y r) (rect_W r) (rect_H r));
       ret (k = 0)
     }
   }"

definition dumpOrder :: "world \<Rightarrow> unit seat_m" where
  "dumpOrder W = do {
     t \<leftarrow> gets st_tabs;
     say W (''gotabwm: order '' @ orderLine t)
   }"

definition dumpTab :: "world \<Rightarrow> tab \<Rightarrow> rect \<Rightarrow> split_kind \<Rightarrow> unit seat_m" where
  "dumpTab W t applied kind = do {
     ts \<leftarrow> gets st_tabs;
     say W (''gotabwm: layout '' @
       layoutLine (tab_ID t) (layoutBin t) applied (Focused ts = Some (tab_ID t)) kind);
     say W (''gotabwm: pane '' @ paneLine (tab_ID t) applied)
   }"

definition writeHostFile :: "world \<Rightarrow> string \<Rightarrow> bytes \<Rightarrow> bool seat_m" where
  "writeHostFile W path dat = do { r \<leftarrow> kdo W (KWriteSafe path dat); ret (r = 0) }"

definition mkdirHost :: "world \<Rightarrow> string \<Rightarrow> unit seat_m" where
  "mkdirHost W path = do { _ \<leftarrow> kdo W (KMkdir path); ret () }"

definition writeLayoutFile :: "world \<Rightarrow> bool seat_m" where
  "writeLayoutFile W = do {
     t \<leftarrow> gets st_tabs;
     let body = layoutFileBody t scanW scanH;
     if body = [] then ret False
     else do {
       mkdirHost W ''/host/SELFTEST'';
       ok \<leftarrow> writeHostFile W ''/host/SELFTEST/LAYOUT.txt'' (bytes_of body);
       if \<not> ok then do { say W ''gotabwm: layout write fail''; ret False }
       else do { say W ''gotabwm: layout file=/host/SELFTEST/LAYOUT.txt''; ret True }
     }
   }"

subsection \<open>The session file\<close>

definition sessionPath :: string where "sessionPath = ''/host/SESSION.TABS''"

text \<open>
  \<^verbatim>\<open>sessionRows\<close>: the tabs of this boot (ids below the placeholder base) on a fresh strip; a failed
  \<^verbatim>\<open>OpenTab\<close> empties the result.
\<close>

fun session_loop :: "strip \<Rightarrow> tab list \<Rightarrow> strip option" where
  "session_loop out [] = Some out"
| "session_loop out (t # ts) =
     (if tab_ID t \<ge> sessionIDBase then session_loop out ts
      else let r = OpenTab out (tab_ID t) (tab_Title t) in
           if \<not> fst r then None
           else session_loop (upd_tab (snd r) (int (ts_count (snd r)) - 1)
                  (\<lambda>u. u\<lparr>tab_Bin := tab_Bin t, tab_Pinned := tab_Pinned t, tab_Frozen := tab_Frozen t\<rparr>)) ts)"

definition sessionRows :: "strip \<Rightarrow> strip" where
  "sessionRows s =
     (case session_loop empty_strip (open_tabs s) of
        None \<Rightarrow> empty_strip
      | Some out \<Rightarrow>
          let out = out\<lparr>ts_focus := -1\<rparr> in
          case Focused s of
            None \<Rightarrow> out
          | Some fid \<Rightarrow> if index out fid \<ge> 0 then out\<lparr>ts_focus := index out fid\<rparr> else out)"

definition writeSession :: "world \<Rightarrow> bool seat_m" where
  "writeSession W = do {
     live \<leftarrow> gets (\<lambda>s. sessionRows (st_tabs s));
     seq \<leftarrow> gets st_sessionSeq;
     if ts_count live = 0 then ret False
     else case encodeTabsV2 live seq of
            None \<Rightarrow> do { say W ''gotabwm: session write fail''; ret False }
          | Some raw \<Rightarrow> do {
              ok \<leftarrow> writeHostFile W sessionPath raw;
              if \<not> ok then do { say W ''gotabwm: session write fail''; ret False }
              else do {
                modify (\<lambda>s. s\<lparr>st_sessionDirty := False, st_sessionSeq := st_sessionSeq s + 1\<rparr>);
                say W (''gotabwm: session write n='' @ itoa_n (ts_count live));
                ret True
              }
            }
   }"

definition noteSessionMutation :: "world \<Rightarrow> bool seat_m" where
  "noteSessionMutation W = do {
     modify (\<lambda>s. s\<lparr>st_sessionDirty := True\<rparr>);
     writeSession W
   }"

subsection \<open>Relations every step of a handler respects\<close>

named_theorems seat_rules \<open>handlers respect a relation between the state before and after\<close>

text \<open>
  A relation that holds of equal states and composes is respected by a handler as soon as it is
  respected by the handler's steps. The interface fixes such a relation; the rules below walk the
  structure of a handler.
\<close>

locale seat_relation =
  fixes R :: "seat \<Rightarrow> seat \<Rightarrow> bool"
  assumes R_refl: "R s s"
    and R_trans: "R s t \<Longrightarrow> R t u \<Longrightarrow> R s u"
begin

lemma io_ret [seat_rules]: "state_io_rel R (ret a)"
  by (simp add: state_io_rel_def R_refl)

lemma io_gets [seat_rules]: "state_io_rel R (gets g)"
  by (simp add: state_io_rel_def R_refl)

lemma io_bind [seat_rules]:
  assumes "state_io_rel R m" "\<And>a. state_io_rel R (f a)"
  shows "state_io_rel R (State_Monad.bind m f)"
  unfolding state_io_rel_def
proof
  fix s
  have "R s (snd (run_state m s))" using assms(1) by (simp add: state_io_rel_def)
  moreover have "R (snd (run_state m s)) (snd (run_state (f (fst (run_state m s))) (snd (run_state m s))))"
    using assms(2) by (simp add: state_io_rel_def)
  ultimately have "R s (snd (run_state (f (fst (run_state m s))) (snd (run_state m s))))" by (rule R_trans)
  then show "R s (snd (run_state (State_Monad.bind m f) s))" by (simp add: split_def)
qed

lemma io_if [seat_rules]:
  "(b \<Longrightarrow> state_io_rel R m) \<Longrightarrow> (\<not> b \<Longrightarrow> state_io_rel R n) \<Longrightarrow> state_io_rel R (if b then m else n)"
  by simp

lemma io_option [seat_rules]:
  "state_io_rel R m \<Longrightarrow> (\<And>x. state_io_rel R (f x)) \<Longrightarrow> state_io_rel R (case z of None \<Rightarrow> m | Some x \<Rightarrow> f x)"
  by (simp split: option.split)

lemma io_prod [seat_rules]: "(\<And>x y. state_io_rel R (f x y)) \<Longrightarrow> state_io_rel R (case z of (x, y) \<Rightarrow> f x y)"
  by (simp split: prod.split)

lemma io_let [seat_rules]: "(\<And>x. state_io_rel R (f x)) \<Longrightarrow> state_io_rel R (Let z f)"
  by simp

lemma io_split_kind [seat_rules]:
  "state_io_rel R a \<Longrightarrow> state_io_rel R b \<Longrightarrow> state_io_rel R c \<Longrightarrow>
   state_io_rel R (case k of SplitNone \<Rightarrow> a | SplitHoriz \<Rightarrow> b | SplitVert \<Rightarrow> c)"
  by (cases k) simp_all

lemma io_for_each [seat_rules]: "(\<And>x. state_io_rel R (f x)) \<Longrightarrow> state_io_rel R (for_each xs f)"
  by (induction xs) (simp_all add: io_ret io_bind)

lemma io_for_all [seat_rules]: "(\<And>x. state_io_rel R (f x)) \<Longrightarrow> state_io_rel R (for_all xs f)"
  by (induction xs) (simp_all add: io_ret io_bind)

end

end
