(* ===== verification/SeatInv.thy ===== *)
theory SeatInv
  imports SeatState
begin

text \<open>
  The seat invariant and the three relations the handlers are checked against: they keep the
  invariant, they leave a field alone, and they only make calls of a given kind. Each relation is an
  instance of \<open>seat_relation\<close>; the rules for the primitives and for the shared operations of
  \<open>SeatState\<close> are collected in \<open>seat_rules\<close>.
\<close>

subsection \<open>Strip operations never lose a tab, closing apart\<close>

definition ids_of :: "strip \<Rightarrow> u32 set" where
  "ids_of t = tab_ID ` set (open_tabs t)"

definition grows :: "(strip \<Rightarrow> 'a \<times> strip) \<Rightarrow> bool" where
  "grows f \<longleftrightarrow> (\<forall>t. wf_strip t \<longrightarrow> wf_strip (snd (f t)) \<and> ids_of t \<subseteq> ids_of (snd (f t)))"

named_theorems grow_rules \<open>strip operations that keep the invariant and every tab\<close>

lemma ids_upd_index:
  assumes "wf_strip t" "index t wid \<ge> 0" "\<And>u. tab_ID (f u) = tab_ID u"
  shows "ids_of (upd_tab t (index t wid) f) = ids_of t"
proof -
  have "map tab_ID (open_tabs (upd_tab t (index t wid) f)) = map tab_ID (open_tabs t)"
    by (rule index_cases [OF assms(1), of wid])
      (use assms length_open_tabs [OF assms(1)] in \<open>auto simp: open_tabs_upd_tab upd_same\<close>)
  then have "set (map tab_ID (open_tabs (upd_tab t (index t wid) f))) = set (map tab_ID (open_tabs t))"
    by simp
  then show ?thesis by (simp add: ids_of_def)
qed

lemma ids_same: "open_tabs t' = open_tabs t \<Longrightarrow> ids_of t' = ids_of t"
  by (simp add: ids_of_def)

lemma growsI:
  "(\<And>t. wf_strip t \<Longrightarrow> wf_strip (snd (f t))) \<Longrightarrow> (\<And>t. wf_strip t \<Longrightarrow> ids_of t \<subseteq> ids_of (snd (f t))) \<Longrightarrow> grows f"
  by (simp add: grows_def)

lemma grows_Freeze [grow_rules]: "grows (\<lambda>t. Freeze t wid)"
  by (rule growsI, rule wf_intros, assumption) (auto simp: Freeze_def Let_def ids_upd_index split: if_splits)

lemma grows_Thaw [grow_rules]: "grows (\<lambda>t. Thaw t wid)"
  by (rule growsI, rule wf_intros, assumption) (auto simp: Thaw_def Let_def ids_upd_index split: if_splits)

lemma grows_SetTitle [grow_rules]: "grows (\<lambda>t. SetTitle t wid title)"
  by (rule growsI, rule wf_intros, assumption) (auto simp: SetTitle_def Let_def ids_upd_index split: if_splits)

lemma grows_FocusTab [grow_rules]: "grows (\<lambda>t. FocusTab t wid)"
  by (rule growsI, rule wf_intros, assumption) (auto simp: FocusTab_def Let_def ids_of_def open_tabs_def)

lemma grows_setSplit [grow_rules]: "grows (\<lambda>t. setSplit t k)"
  by (rule growsI, rule wf_intros, assumption) (auto simp: setSplit_def ids_of_def open_tabs_def)

lemma grows_SplitV [grow_rules]: "grows SplitV"
  using grows_setSplit [of SplitVert] by (simp add: grows_def SplitV_def)

lemma grows_SplitH [grow_rules]: "grows SplitH"
  using grows_setSplit [of SplitHoriz] by (simp add: grows_def SplitH_def)

lemma grows_Unsplit [grow_rules]: "grows Unsplit"
  by (rule growsI, rule wf_intros, assumption) (auto simp: Unsplit_def ids_of_def open_tabs_def)

lemma grows_NavDeclare [grow_rules]:
  "grows (\<lambda>t. let (known, changed, t') = NavDeclare t wid path in ((known, changed), t'))"
proof (rule growsI)
  fix t assume wf: "wf_strip t"
  show "wf_strip (snd (let (known, changed, t') = NavDeclare t wid path in ((known, changed), t')))"
    using wf_NavDeclare [OF wf, of wid path] by (simp add: split_def Let_def)
  show "ids_of t \<subseteq> ids_of (snd (let (known, changed, t') = NavDeclare t wid path in ((known, changed), t')))"
    using wf by (auto simp: NavDeclare_def split_def Let_def ids_upd_index)
qed

lemma grows_NavBack [grow_rules]: "grows (\<lambda>t. NavBack t wid)"
  by (rule growsI, rule wf_intros, assumption) (auto simp: NavBack_def Let_def ids_upd_index)

lemma grows_NavForward [grow_rules]: "grows (\<lambda>t. NavForward t wid)"
  by (rule growsI, rule wf_intros, assumption) (auto simp: NavForward_def Let_def ids_upd_index)

lemma grows_OpenTab [grow_rules]: "grows (\<lambda>t. OpenTab t wid title)"
proof (rule growsI)
  fix t assume wf: "wf_strip t"
  show "wf_strip (snd (OpenTab t wid title))" using wf by (rule wf_intros)
  show "ids_of t \<subseteq> ids_of (snd (OpenTab t wid title))"
  proof (cases "wid \<noteq> 0 \<and> \<not> index t wid \<ge> 0 \<and> ts_count t < 16")
    case True
    then have "wid \<notin> tab_ID ` set (open_tabs t)" using wf index_nonneg_iff by blast
    then show ?thesis using OpenTab_fresh(2) [OF wf, of wid title] True by (auto simp: ids_of_def)
  next
    case False
    then show ?thesis using wf
      by (auto simp: OpenTab_def Let_def ids_upd_index)
  qed
qed

lemma ids_Pin: "wf_strip t \<Longrightarrow> ids_of (snd (Pin t wid)) = ids_of t"
proof -
  assume wf: "wf_strip t"
  show ?thesis
  proof (cases "index t wid < 0 \<or> tab_Pinned (ts_tabs t ! nat (index t wid))")
    case True
    then show ?thesis by (auto simp: Pin_def Let_def)
  next
    case False
    let ?u = "upd_tab t (index t wid) (\<lambda>t. t\<lparr>tab_Pinned := True\<rparr>)"
    have "set (open_tabs (normalizePinned ?u)) = set (open_tabs ?u)"
      using wf_normalizePinned(2) [of ?u] wf_upd_op [OF wf, of "\<lambda>t. t\<lparr>tab_Pinned := True\<rparr>" wid] False
      by auto
    then have "ids_of (normalizePinned ?u) = ids_of ?u" by (simp add: ids_of_def)
    also have "\<dots> = ids_of t" using wf False by (intro ids_upd_index) auto
    finally show ?thesis using False by (auto simp: Pin_def Let_def)
  qed
qed

lemma grows_Pin [grow_rules]: "grows (\<lambda>t. Pin t wid)"
  by (rule growsI) (auto intro: wf_intros simp: ids_Pin)

lemma ids_Reorder: "wf_strip t \<Longrightarrow> ids_of (snd (Reorder t i j)) = ids_of t"
proof (cases "fst (Reorder t i j)")
  case True
  assume wf: "wf_strip t"
  have "nat i < length (open_tabs t)"
    using True length_open_tabs [OF wf] by (auto simp: Reorder_def split: if_splits)
  then have "mset (open_tabs (snd (Reorder t i j))) = mset (open_tabs t)"
    using Reorder_list(2) [OF wf True] mset_move_item by metis
  then have "set (open_tabs (snd (Reorder t i j))) = set (open_tabs t)" by (rule mset_eq_setD)
  then show ?thesis by (simp add: ids_of_def)
next
  case False
  then show ?thesis by (auto simp: Reorder_def Let_def split: if_splits)
qed

lemma grows_Reorder [grow_rules]: "grows (\<lambda>t. Reorder t i j)"
  by (rule growsI) (auto intro: wf_intros simp: ids_Reorder)

lemma grows_Reopen [grow_rules]: "grows ReopenLastClosed"
  by (rule growsI) (auto simp: ReopenLastClosed_stack ids_of_def)

lemma grows_recordClosed [grow_rules]: "grows (\<lambda>t. ((), recordClosed t (g t)))"
  by (rule growsI) (auto intro: wf_intros simp: ids_of_def)

subsection \<open>The invariant\<close>

definition wf_launcher :: "launcher \<Rightarrow> bool" where
  "wf_launcher l \<longleftrightarrow> length (l_filter l) \<le> filterMax \<and> (l_open l \<longrightarrow>
     l_filtered l = filterApps (l_catalog l) (l_filter l)
     \<and> 0 \<le> l_sel l \<and> (l_sel l < int (length (l_filtered l)) \<or> l_sel l = 0))"

definition seat_inv :: "seat \<Rightarrow> bool" where
  "seat_inv s \<longleftrightarrow> wf_strip (st_tabs s) \<and> wf_notify (st_notify s) \<and> wf_launcher (st_launch s)
     \<and> toast_ids (st_notify s) \<subseteq> ids_of (st_tabs s)
     \<and> (st_pendingNavPath s \<noteq> [] \<longrightarrow> st_pendingNavID s \<in> ids_of (st_tabs s))"

definition inv_kept :: "seat \<Rightarrow> seat \<Rightarrow> bool" where
  "inv_kept s s' \<longleftrightarrow> (seat_inv s \<longrightarrow> seat_inv s')"

definition same :: "(seat \<Rightarrow> 'a) \<Rightarrow> seat \<Rightarrow> seat \<Rightarrow> bool" where
  "same f s s' \<longleftrightarrow> f s' = f s"

definition calls_in :: "(kcall \<Rightarrow> bool) \<Rightarrow> seat \<Rightarrow> seat \<Rightarrow> bool" where
  "calls_in Q s s' \<longleftrightarrow> (\<exists>new. st_log s' = new @ st_log s \<and> (\<forall>c \<in> set new. Q (fst c)))"

interpretation inv: seat_relation inv_kept
  by unfold_locales (auto simp: inv_kept_def)

interpretation same: seat_relation "same f"
  by unfold_locales (auto simp: same_def)

interpretation calls: seat_relation "calls_in Q"
proof unfold_locales
  show "calls_in Q s s" for s by (simp add: calls_in_def)
  fix s t u assume st: "calls_in Q s t" and tu: "calls_in Q t u"
  obtain a where "st_log t = a @ st_log s" "\<forall>c \<in> set a. Q (fst c)"
    using st unfolding calls_in_def by blast
  moreover obtain b where "st_log u = b @ st_log t" "\<forall>c \<in> set b. Q (fst c)"
    using tu unfolding calls_in_def by blast
  ultimately show "calls_in Q s u" unfolding calls_in_def by (intro exI [of _ "b @ a"]) auto
qed

lemma seat_inv_init: "seat_inv init_seat"
  by (simp add: seat_inv_def init_seat_def wf_launcher_def zero_launcher_def)

subsection \<open>Primitives\<close>

lemma seat_inv_log [simp]: "seat_inv (s\<lparr>st_log := l\<rparr>) = seat_inv s"
  by (simp add: seat_inv_def)

lemma inv_kdo [seat_rules]: "state_io_rel inv_kept (kdo W c)"
  and inv_say [seat_rules]: "state_io_rel inv_kept (say W line)"
  and inv_read [seat_rules]: "state_io_rel inv_kept (ReadFileAll W path n)"
  and inv_recv [seat_rules]: "state_io_rel inv_kept (IpcRecv W)"
  and inv_poll [seat_rules]: "state_io_rel inv_kept (PollEvent W)"
  by (simp_all add: state_io_rel_def inv_kept_def ReadFileAll_def IpcRecv_def PollEvent_def Let_def)

lemma inv_modify [seat_rules]:
  "(\<And>s. seat_inv s \<Longrightarrow> seat_inv (f s)) \<Longrightarrow> state_io_rel inv_kept (modify f)"
  by (simp add: state_io_rel_def inv_kept_def)

lemma seat_inv_grow: "seat_inv s \<Longrightarrow> wf_strip t \<Longrightarrow> ids_of (st_tabs s) \<subseteq> ids_of t \<Longrightarrow> seat_inv (s\<lparr>st_tabs := t\<rparr>)"
  by (auto simp: seat_inv_def)

lemma inv_on_tabs [seat_rules]: "grows f \<Longrightarrow> state_io_rel inv_kept (on_tabs f)"
  unfolding state_io_rel_def inv_kept_def grows_def
  by (auto intro!: seat_inv_grow) (simp_all add: seat_inv_def subset_iff)

lemma inv_on_notify:
  "(\<And>n. wf_notify n \<Longrightarrow> wf_notify (snd (f n))) \<Longrightarrow> (\<And>n. toast_ids (snd (f n)) \<subseteq> toast_ids n)
     \<Longrightarrow> state_io_rel inv_kept (on_notify f)"
  by (simp add: state_io_rel_def inv_kept_def seat_inv_def) blast

lemma inv_notify_clear [seat_rules]: "state_io_rel inv_kept (on_notify (\<lambda>n. notify_clear n wid))"
  by (rule inv_on_notify) (auto intro: wf_intros simp: toast_ids_clear)

lemma inv_notify_expire [seat_rules]: "state_io_rel inv_kept (on_notify (\<lambda>n. notifyExpire n t))"
  by (rule inv_on_notify) (auto intro: wf_intros dest: toast_ids_expire [THEN subsetD])

lemma inv_notify_dismiss [seat_rules]: "state_io_rel inv_kept (on_notify (\<lambda>n. notifyDismissByIndex n i))"
  by (rule inv_on_notify) (auto intro: wf_intros dest: toast_ids_dismiss [THEN subsetD])

lemma inv_notify_marker [seat_rules]: "state_io_rel inv_kept (on_notify (\<lambda>n. notifyPaintMarker n b))"
  by (rule inv_on_notify) (auto intro: wf_intros)

text \<open>Frames: which fields a primitive can touch.\<close>

lemma same_kdo [seat_rules]: "(\<And>s l. f (s\<lparr>st_log := l\<rparr>) = f s) \<Longrightarrow> state_io_rel (same f) (kdo W c)"
  and same_say [seat_rules]: "(\<And>s l. f (s\<lparr>st_log := l\<rparr>) = f s) \<Longrightarrow> state_io_rel (same f) (say W line)"
  and same_read [seat_rules]: "(\<And>s l. f (s\<lparr>st_log := l\<rparr>) = f s) \<Longrightarrow> state_io_rel (same f) (ReadFileAll W p n)"
  and same_recv [seat_rules]: "(\<And>s l. f (s\<lparr>st_log := l\<rparr>) = f s) \<Longrightarrow> state_io_rel (same f) (IpcRecv W)"
  and same_poll [seat_rules]: "(\<And>s l. f (s\<lparr>st_log := l\<rparr>) = f s) \<Longrightarrow> state_io_rel (same f) (PollEvent W)"
  by (simp_all add: state_io_rel_def same_def ReadFileAll_def IpcRecv_def PollEvent_def Let_def)

lemma same_modify [seat_rules]: "(\<And>s. f (g s) = f s) \<Longrightarrow> state_io_rel (same f) (modify g)"
  and same_on_tabs [seat_rules]: "(\<And>s t. f (s\<lparr>st_tabs := t\<rparr>) = f s) \<Longrightarrow> state_io_rel (same f) (on_tabs h)"
  and same_on_notify [seat_rules]: "(\<And>s n. f (s\<lparr>st_notify := n\<rparr>) = f s) \<Longrightarrow> state_io_rel (same f) (on_notify j)"
  by (simp_all add: state_io_rel_def same_def)

text \<open>Calls.\<close>

lemma calls_push: "Q c \<Longrightarrow> st_log t = (c, r) # st_log s \<Longrightarrow> calls_in Q s t"
  unfolding calls_in_def by (intro exI [of _ "[(c, r)]"]) simp

lemma calls_kdo [seat_rules]: "Q c \<Longrightarrow> state_io_rel (calls_in Q) (kdo W c)"
  and calls_say [seat_rules]: "Q (KConsole line) \<Longrightarrow> state_io_rel (calls_in Q) (say W line)"
  and calls_read [seat_rules]: "Q (KReadAll p n) \<Longrightarrow> state_io_rel (calls_in Q) (ReadFileAll W p n)"
  and calls_recv [seat_rules]: "Q KRecv \<Longrightarrow> state_io_rel (calls_in Q) (IpcRecv W)"
  and calls_poll [seat_rules]: "Q KPoll \<Longrightarrow> state_io_rel (calls_in Q) (PollEvent W)"
  by (simp_all add: state_io_rel_def ReadFileAll_def IpcRecv_def PollEvent_def Let_def calls_push)

lemma calls_none: "st_log t = st_log s \<Longrightarrow> calls_in Q s t"
  by (simp add: calls_in_def)

lemma calls_modify [seat_rules]: "(\<And>s. st_log (f s) = st_log s) \<Longrightarrow> state_io_rel (calls_in Q) (modify f)"
  and calls_on_tabs [seat_rules]: "state_io_rel (calls_in Q) (on_tabs h)"
  and calls_on_notify [seat_rules]: "state_io_rel (calls_in Q) (on_notify j)"
  by (simp_all add: state_io_rel_def calls_none)


subsection \<open>The shared operations\<close>

lemmas seat_fields = seat_inv_def

lemma inv_setPendingNav:
  "seat_inv s \<Longrightarrow> wid \<in> ids_of (st_tabs s) \<Longrightarrow> seat_inv (snd (run_state (setPendingNav wid path) s))"
  by (simp add: setPendingNav_def seat_inv_def)

lemma inv_navPoll [seat_rules]: "state_io_rel inv_kept (navPoll wid)"
  unfolding navPoll_def by (intro seat_rules) (simp add: seat_inv_def)

lemma inv_takeReplyPayload [seat_rules]: "state_io_rel inv_kept takeReplyPayload"
  unfolding takeReplyPayload_def by (intro seat_rules) (simp add: seat_inv_def)

lemma inv_clearNotify [seat_rules]: "state_io_rel inv_kept (clearNotify W wid)"
  unfolding clearNotify_def by (intro seat_rules)

lemma inv_sync [seat_rules]: "state_io_rel inv_kept syncHostedFromStrip"
  unfolding syncHostedFromStrip_def by (intro seat_rules) (simp add: seat_inv_def)

lemma inv_noteStripOpen [seat_rules]: "state_io_rel inv_kept noteStripOpen"
  unfolding noteStripOpen_def by (intro seat_rules) (simp add: seat_inv_def)

lemma inv_focusHosted [seat_rules]: "state_io_rel inv_kept (focusHosted W wid)"
  unfolding focusHosted_def by (intro seat_rules grow_rules) (simp add: seat_inv_def)

lemma inv_applyRect [seat_rules]: "state_io_rel inv_kept (applyRect W wid r)"
  unfolding applyRect_def by (intro seat_rules)

lemma inv_dumpOrder [seat_rules]: "state_io_rel inv_kept (dumpOrder W)"
  unfolding dumpOrder_def by (intro seat_rules)

lemma inv_dumpTab [seat_rules]: "state_io_rel inv_kept (dumpTab W t r k)"
  unfolding dumpTab_def by (intro seat_rules)

lemma inv_writeLayoutFile [seat_rules]: "state_io_rel inv_kept (writeLayoutFile W)"
  unfolding writeLayoutFile_def mkdirHost_def writeHostFile_def by (intro seat_rules)

lemma inv_writeSession [seat_rules]: "state_io_rel inv_kept (writeSession W)"
  unfolding writeSession_def writeHostFile_def by (intro seat_rules) (simp add: seat_inv_def)

lemma inv_noteSessionMutation [seat_rules]: "state_io_rel inv_kept (noteSessionMutation W)"
  unfolding noteSessionMutation_def by (intro seat_rules) (simp add: seat_inv_def)

text \<open>What the session and layout writers, the dumps and the rectangle proposals leave alone.\<close>

lemma tabs_applyRect [seat_rules]: "state_io_rel (same st_tabs) (applyRect W wid r)"
  unfolding applyRect_def by (intro seat_rules) simp_all

lemma tabs_dumpOrder [seat_rules]: "state_io_rel (same st_tabs) (dumpOrder W)"
  unfolding dumpOrder_def by (intro seat_rules) simp_all

lemma tabs_dumpTab [seat_rules]: "state_io_rel (same st_tabs) (dumpTab W t r k)"
  unfolding dumpTab_def by (intro seat_rules) simp_all

lemma tabs_writeLayoutFile [seat_rules]: "state_io_rel (same st_tabs) (writeLayoutFile W)"
  unfolding writeLayoutFile_def mkdirHost_def writeHostFile_def by (intro seat_rules) simp_all

lemma tabs_writeSession [seat_rules]: "state_io_rel (same st_tabs) (writeSession W)"
  unfolding writeSession_def writeHostFile_def by (intro seat_rules) simp_all

lemma tabs_noteSessionMutation [seat_rules]: "state_io_rel (same st_tabs) (noteSessionMutation W)"
  unfolding noteSessionMutation_def by (intro seat_rules) simp_all

lemma tabs_clearNotify [seat_rules]: "state_io_rel (same st_tabs) (clearNotify W wid)"
  unfolding clearNotify_def by (intro seat_rules) simp_all

lemma io_relD: "state_io_rel R m \<Longrightarrow> R s (snd (run_state m s))"
  by (simp add: state_io_rel_def)

lemma sameD: "state_io_rel (same f) m \<Longrightarrow> f (snd (run_state m s)) = f s"
  by (simp add: state_io_rel_def same_def)

lemma invD: "state_io_rel inv_kept m \<Longrightarrow> seat_inv s \<Longrightarrow> seat_inv (snd (run_state m s))"
  by (simp add: state_io_rel_def inv_kept_def)

text \<open>
  Closing a tab: the strip part is \<open>close_strip\<close>, and afterwards nothing of the seat refers to the
  tab any more.
\<close>

lemma notify_for_each_say:
  "st_notify (snd (run_state (for_each xs (\<lambda>_. say W l)) s)) = st_notify s"
  "st_tabs (snd (run_state (for_each xs (\<lambda>_. say W l)) s)) = st_tabs s"
  "st_pendingNavID (snd (run_state (for_each xs (\<lambda>_. say W l)) s)) = st_pendingNavID s"
  "st_pendingNavPath (snd (run_state (for_each xs (\<lambda>_. say W l)) s)) = st_pendingNavPath s"
  "st_launch (snd (run_state (for_each xs (\<lambda>_. say W l)) s)) = st_launch s"
  by (rule sameD, (intro seat_rules; simp))+

lemma CloseTab_run:
  "fst (run_state (CloseTab W wid) s) = fst (close_strip (st_tabs s) wid)"
  "st_tabs (snd (run_state (CloseTab W wid) s)) = snd (close_strip (st_tabs s) wid)"
  by (auto simp: CloseTab_def clearPendingNav_def clearNotify_def close_strip_def Let_def split_def
      notify_for_each_say)

lemma CloseTab_rest:
  assumes "index (st_tabs s) wid \<ge> 0"
  shows "st_notify (snd (run_state (CloseTab W wid) s)) = snd (notify_clear (st_notify s) wid)"
    and "st_launch (snd (run_state (CloseTab W wid) s)) = st_launch s"
    and "st_pendingNavID (snd (run_state (CloseTab W wid) s)) =
           (if st_pendingNavID s = wid then 0 else st_pendingNavID s)"
    and "st_pendingNavPath (snd (run_state (CloseTab W wid) s)) =
           (if st_pendingNavID s = wid then [] else st_pendingNavPath s)"
  using assms by (simp_all add: CloseTab_def clearPendingNav_def clearNotify_def split_def notify_for_each_say)

lemma ids_close_strip:
  assumes "wf_strip t"
  shows "ids_of (snd (close_strip t wid)) = ids_of t - {wid}"
proof (rule index_cases [OF assms, of wid])
  assume "index t wid = -1" "wid \<notin> tab_ID ` set (open_tabs t)"
  then show ?thesis by (simp add: close_strip_def ids_of_def)
next
  fix i assume i: "index t wid = int i" "i < ts_count t" "tab_ID (ts_tabs t ! i) = wid"
  let ?r = "recordClosed t (ts_tabs t ! i)"
  have "open_tabs (remove_at ?r i) = filter (\<lambda>u. tab_ID u \<noteq> wid) (open_tabs t)"
    using open_remove_at_filter [of ?r i] wf_recordClosed [OF assms] i by simp
  then show ?thesis using i by (auto simp: close_strip_def Let_def ids_of_def)
qed

lemma inv_CloseTab [seat_rules]: "state_io_rel inv_kept (CloseTab W wid)"
  unfolding state_io_rel_def inv_kept_def
proof (intro allI impI)
  fix s assume inv: "seat_inv s"
  show "seat_inv (snd (run_state (CloseTab W wid) s))"
  proof (cases "index (st_tabs s) wid \<ge> 0")
    case False
    then show ?thesis using inv by (simp add: CloseTab_def)
  next
    case True
    show ?thesis
      using inv wf_close_strip [of "st_tabs s" wid] wf_notify_clear [of "st_notify s" wid]
      by (auto simp: seat_inv_def CloseTab_run CloseTab_rest [OF True] ids_close_strip toast_ids_clear)
  qed
qed

end
