(* ===== verification/SeatRpc.thy ===== *)
theory SeatRpc
  imports SeatInv
begin

text \<open>
  The seat as a server (\<^verbatim>\<open>gotabwm/interop.go\<close>): the requests a client can make over the mailbox, the
  ack each of them gets, the drain of the mailbox, and the one seam through which every tab is
  closed. The request kinds are one definition each, \<open>applyRPC\<close> is their dispatch.
\<close>

subsection \<open>Applying a request\<close>

abbreviation (input) hostTicks :: int where "hostTicks \<equiv> 16"

definition rpc_declare :: "world \<Rightarrow> u32 \<Rightarrow> string \<Rightarrow> bool seat_m" where
  "rpc_declare W wid title = do {
     fresh \<leftarrow> on_tabs (\<lambda>t. OpenTab t wid title);
     (if fresh then do {
        noteStripOpen;
        modify (\<lambda>s. s\<lparr>st_dogfood := True\<rparr>);
        say W (''gotabwm: tab open id='' @ itoa_id wid)
      } else ret ());
     modify (\<lambda>s. s\<lparr>st_hosted := wid, st_hostTicksLeft := hostTicks\<rparr>);
     r \<leftarrow> kdo W (WmctlTaskbarClick wid);
     (if r = 0 then do {
        _ \<leftarrow> on_tabs (\<lambda>t. FocusTab t wid);
        say W (''gotabwm: host focus id='' @ itoa_id wid);
        say W (''gotabwm: tab focus id='' @ itoa_id wid)
      } else ret ());
     v \<leftarrow> kdo W (WmctlSetWindowRect wid 0 0 scanW scanH);
     (if v = 0 then say W (''gotabwm: host view id='' @ itoa_id wid) else ret ());
     say W (''gotabwm: rpc declare id='' @ itoa_id wid);
     _ \<leftarrow> noteSessionMutation W;
     ret True
   }"

definition rpc_raise :: "world \<Rightarrow> u32 \<Rightarrow> bool seat_m" where
  "rpc_raise W wid = do {
     r \<leftarrow> kdo W (WmctlTaskbarClick wid);
     if r = 0 then do {
       _ \<leftarrow> on_tabs (\<lambda>t. FocusTab t wid);
       say W (''gotabwm: rpc raise id='' @ itoa_id wid);
       say W (''gotabwm: tab focus id='' @ itoa_id wid);
       ret True
     } else ret False
   }"

definition rpc_attach :: "world \<Rightarrow> u32 \<Rightarrow> string \<Rightarrow> bool seat_m" where
  "rpc_attach W wid title = do {
     fresh \<leftarrow> on_tabs (\<lambda>t. OpenTab t wid title);
     (if fresh then do {
        noteStripOpen;
        modify (\<lambda>s. s\<lparr>st_dogfood := True\<rparr>);
        say W (''gotabwm: tab open id='' @ itoa_id wid);
        _ \<leftarrow> noteSessionMutation W;
        ret ()
      } else ret ());
     _ \<leftarrow> on_tabs (\<lambda>t. FocusTab t wid);
     modify (\<lambda>s. s\<lparr>st_hosted := wid, st_hostTicksLeft := hostTicks\<rparr>);
     say W (''gotabwm: rpc attach id='' @ itoa_id wid);
     ret True
   }"

definition rpc_detach :: "world \<Rightarrow> u32 \<Rightarrow> bool seat_m" where
  "rpc_detach W wid = do {
     closed \<leftarrow> CloseTab W wid;
     syncHostedFromStrip;
     say W (''gotabwm: rpc detach id='' @ itoa_id wid);
     (if closed then do { _ \<leftarrow> noteSessionMutation W; ret () } else ret ());
     ret True
   }"

definition rpc_cycle :: "world \<Rightarrow> bool seat_m" where
  "rpc_cycle W = do {
     next \<leftarrow> gets (\<lambda>s. NextID (st_tabs s));
     (case next of
        None \<Rightarrow> ret ()
      | Some nid \<Rightarrow> do {
          r \<leftarrow> kdo W (WmctlTaskbarClick nid);
          if r = 0 then do {
            _ \<leftarrow> on_tabs (\<lambda>t. FocusTab t nid);
            say W (''gotabwm: tab focus id='' @ itoa_id nid)
          } else ret ()
        });
     say W ''gotabwm: rpc cycle'';
     ret True
   }"

definition rpc_nav_declare :: "world \<Rightarrow> u32 \<Rightarrow> string \<Rightarrow> bool seat_m" where
  "rpc_nav_declare W wid path = do {
     (known, changed) \<leftarrow> on_tabs (\<lambda>t. let (known, changed, t') = NavDeclare t wid path in ((known, changed), t'));
     if \<not> known then ret False
     else if \<not> changed then ret True
     else do {
       say W (''gotabwm: nav declare id='' @ itoa_id wid @ '' path='' @ path);
       ret True
     }
   }"

definition rpc_nav_poll :: "world \<Rightarrow> u32 \<Rightarrow> bool seat_m" where
  "rpc_nav_poll W wid = do {
     p \<leftarrow> navPoll wid;
     case p of
       None \<Rightarrow> ret False
     | Some path \<Rightarrow> do {
         modify (\<lambda>s. s\<lparr>st_replyPayload := path\<rparr>);
         say W (''gotabwm: nav poll id='' @ itoa_id wid @ '' path='' @ path);
         ret True
       }
   }"

definition rpc_set_title :: "world \<Rightarrow> u32 \<Rightarrow> string \<Rightarrow> bool seat_m" where
  "rpc_set_title W wid title = do {
     ok \<leftarrow> on_tabs (\<lambda>t. SetTitle t wid title);
     if \<not> ok then ret False
     else do {
       say W (''gotabwm: title id='' @ itoa_id wid @ '' '' @ title);
       _ \<leftarrow> noteSessionMutation W;
       ret True
     }
   }"

definition rpc_notify :: "world \<Rightarrow> u32 \<Rightarrow> string \<Rightarrow> bool seat_m" where
  "rpc_notify W wid text = do {
     i \<leftarrow> gets (\<lambda>s. index (st_tabs s) wid);
     if text = [] \<or> i < 0 then ret False
     else do {
       now \<leftarrow> gets st_seatTick;
       (shown, _, dropped) \<leftarrow> on_notify (\<lambda>n. notifyPush n wid text now);
       total \<leftarrow> gets (\<lambda>s. nq_dropped (st_notify s));
       (if dropped then say W (''gotabwm: notify drop total='' @ itoa_n total) else ret ());
       say W (''gotabwm: notify id='' @ itoa_id wid @ '' '' @ shown);
       ret True
     }
   }"

definition applyRPC :: "world \<Rightarrow> wm_rpc \<Rightarrow> bool seat_m" where
  "applyRPC W req =
     (let wid = ucast (rpc_id req); kind = rpc_kind req AND 0x7f; title = TitleString req in
      if kind = WmRpcKindDeclareFullscreen then rpc_declare W wid title
      else if kind = WmRpcKindRaise then rpc_raise W wid
      else if kind = WmRpcKindAttachTab then rpc_attach W wid title
      else if kind = WmRpcKindDetachTab then rpc_detach W wid
      else if kind = WmRpcKindCycleTab then rpc_cycle W
      else if kind = WmRpcKindNavDeclare then rpc_nav_declare W wid title
      else if kind = WmRpcKindNavPoll then rpc_nav_poll W wid
      else if kind = WmRpcKindSetTitle then rpc_set_title W wid title
      else if kind = WmRpcKindNotify then rpc_notify W wid title
      else do {
        say W (''gotabwm: rpc other kind='' @ Itoa64 (ucast kind));
        ret False
      })"

subsection \<open>The ack\<close>

definition buildReply :: "wm_rpc \<Rightarrow> bool \<Rightarrow> string \<Rightarrow> wm_rpc" where
  "buildReply req applied payload =
     (let rep = zero_rpc\<lparr>rpc_kind := rpc_kind req OR WmRpcReplyFlag, rpc_id := rpc_id req,
                  rpc_seq := rpc_seq req, rpc_reply_to := rpc_reply_to req\<rparr>
      in if \<not> applied then rep
         else let rep = rep\<lparr>rpc_applied := 1\<rparr> in
              if payload = [] then rep
              else rep\<lparr>rpc_title := go_copy (rpc_title rep) (take WmRpcTitleMax (bytes_of payload))\<rparr>)"

definition replyRPC :: "world \<Rightarrow> wm_rpc \<Rightarrow> bool \<Rightarrow> unit seat_m" where
  "replyRPC W req applied =
     (if rpc_reply_to req \<noteq> 0 then do {
        p \<leftarrow> takeReplyPayload;
        _ \<leftarrow> kdo W (KSend (ucast (rpc_reply_to req)) (Encode (buildReply req applied p)));
        ret ()
      } else ret ())"

text \<open>
  \<^verbatim>\<open>serviceRPC\<close>: at most eight receives; a short message ends the drain, an undecodable message or
  an ack is skipped. The result is the number of requests served.
\<close>

fun serve :: "world \<Rightarrow> nat \<Rightarrow> nat \<Rightarrow> nat seat_m" where
  "serve W 0 served = ret served"
| "serve W (Suc left) served = do {
     m \<leftarrow> IpcRecv W;
     case m of
       None \<Rightarrow> ret served
     | Some raw \<Rightarrow>
         if length raw < 38 then ret served
         else case DecodeWmRpc raw of
                None \<Rightarrow> serve W left served
              | Some req \<Rightarrow>
                  if rpc_kind req AND WmRpcReplyFlag \<noteq> 0 then serve W left served
                  else do {
                    applied \<leftarrow> applyRPC W req;
                    replyRPC W req applied;
                    serve W left (served + 1)
                  }
   }"

definition serviceRPC :: "world \<Rightarrow> nat seat_m" where
  "serviceRPC W = serve W 8 0"

subsection \<open>The close seam\<close>

text \<open>The end of \<^verbatim>\<open>closeTabByID\<close>: the single remaining tab gets the viewport, and a focused close hands over.\<close>

definition close_report :: "world \<Rightarrow> bool \<Rightarrow> unit seat_m" where
  "close_report W wasFocused = do {
     f \<leftarrow> gets (\<lambda>s. Focused (st_tabs s));
     case f of
       None \<Rightarrow> say W ''gotabwm: tabs empty''
     | Some nid \<Rightarrow> do {
         n \<leftarrow> gets (\<lambda>s. ts_count (st_tabs s));
         (if n = 1 then do { _ \<leftarrow> applyRect W nid (FullRect scanW scanH); ret () } else ret ());
         if wasFocused then do {
           k \<leftarrow> kdo W (WmctlTaskbarClick nid);
           if k = 0 then do {
             say W (''gotabwm: tab focus id='' @ itoa_id nid);
             say W (''gotabwm: host focus id='' @ itoa_id nid)
           } else ret ()
         } else ret ()
       }
   }"

definition closeTabByID :: "world \<Rightarrow> u32 \<Rightarrow> bool seat_m" where
  "closeTabByID W wid =
     (if wid = 0 then ret False
      else do {
        wasFocused \<leftarrow> gets (\<lambda>s. Focused (st_tabs s) = Some wid);
        r \<leftarrow> kdo W (WmctlWinClose wid);
        if r \<noteq> 0 then ret False
        else do {
          say W (''gotabwm: host close id='' @ itoa_id wid);
          say W (''gotabwm: tab close id='' @ itoa_id wid);
          closed \<leftarrow> CloseTab W wid;
          syncHostedFromStrip;
          (if closed then do { _ \<leftarrow> noteSessionMutation W; ret () } else ret ());
          close_report W wasFocused;
          ret True
        }
      })"

definition closeHosted :: "world \<Rightarrow> bool seat_m" where
  "closeHosted W = do {
     f \<leftarrow> gets (\<lambda>s. Focused (st_tabs s));
     hosted \<leftarrow> gets st_hosted;
     case f of
       Some wid \<Rightarrow> closeTabByID W wid
     | None \<Rightarrow> if hosted = 0 then ret False else closeTabByID W hosted
   }"

subsection \<open>Every request keeps the invariant\<close>

lemma inv_rpc_declare [seat_rules]: "state_io_rel inv_kept (rpc_declare W wid title)"
  unfolding rpc_declare_def by (intro seat_rules grow_rules) (simp_all add: seat_inv_def)

lemma inv_rpc_raise [seat_rules]: "state_io_rel inv_kept (rpc_raise W wid)"
  unfolding rpc_raise_def by (intro seat_rules grow_rules)

lemma inv_rpc_attach [seat_rules]: "state_io_rel inv_kept (rpc_attach W wid title)"
  unfolding rpc_attach_def by (intro seat_rules grow_rules) (simp_all add: seat_inv_def)

lemma inv_rpc_detach [seat_rules]: "state_io_rel inv_kept (rpc_detach W wid)"
  unfolding rpc_detach_def by (intro seat_rules)

lemma inv_rpc_cycle [seat_rules]: "state_io_rel inv_kept (rpc_cycle W)"
  unfolding rpc_cycle_def by (intro seat_rules grow_rules)

lemma inv_rpc_nav_declare [seat_rules]: "state_io_rel inv_kept (rpc_nav_declare W wid path)"
  unfolding rpc_nav_declare_def by (intro seat_rules grow_rules)

lemma inv_rpc_nav_poll [seat_rules]: "state_io_rel inv_kept (rpc_nav_poll W wid)"
  unfolding rpc_nav_poll_def by (intro seat_rules) (simp add: seat_inv_def)

lemma inv_rpc_set_title [seat_rules]: "state_io_rel inv_kept (rpc_set_title W wid title)"
  unfolding rpc_set_title_def by (intro seat_rules grow_rules)

lemma seat_inv_push:
  "seat_inv s \<Longrightarrow> wid \<in> ids_of (st_tabs s)
     \<Longrightarrow> seat_inv (s\<lparr>st_notify := snd (notifyPush (st_notify s) wid msg now)\<rparr>)"
  using toast_ids_push [of "st_notify s" wid msg now] wf_notifyPush [of "st_notify s" wid msg now]
  by (auto simp: seat_inv_def)

lemma inv_rpc_notify [seat_rules]: "state_io_rel inv_kept (rpc_notify W wid msg)"
  unfolding state_io_rel_def inv_kept_def
proof (intro allI impI)
  fix s assume inv: "seat_inv s"
  have "wid \<in> ids_of (st_tabs s)" if "\<not> index (st_tabs s) wid < 0"
    using that inv index_nonneg_iff [of "st_tabs s" wid] by (simp add: seat_inv_def ids_of_def)
  then show "seat_inv (snd (run_state (rpc_notify W wid msg) s))"
    using inv seat_inv_push [OF inv, of wid msg "st_seatTick s"]
    by (auto simp: rpc_notify_def split_def)
qed

lemma inv_applyRPC [seat_rules]: "state_io_rel inv_kept (applyRPC W req)"
  unfolding applyRPC_def by (intro seat_rules)

lemma inv_replyRPC [seat_rules]: "state_io_rel inv_kept (replyRPC W req applied)"
  unfolding replyRPC_def by (intro seat_rules)

lemma inv_serve: "state_io_rel inv_kept (serve W left served)"
  by (induction left arbitrary: served) (simp_all, (intro seat_rules | simp)+)

lemma inv_serviceRPC [seat_rules]: "state_io_rel inv_kept (serviceRPC W)"
  by (simp add: serviceRPC_def inv_serve)

lemma inv_close_report [seat_rules]: "state_io_rel inv_kept (close_report W b)"
  unfolding close_report_def by (intro seat_rules)

lemma inv_closeTabByID [seat_rules]: "state_io_rel inv_kept (closeTabByID W wid)"
  unfolding closeTabByID_def by (intro seat_rules)

lemma inv_closeHosted [seat_rules]: "state_io_rel inv_kept (closeHosted W)"
  unfolding closeHosted_def by (intro seat_rules)

end
