(* ===== verification/SeatInput.thy ===== *)
theory SeatInput
  imports SeatRpc
begin

text \<open>
  What the seat does with the user's input: the keyboard chords and the pointer
  (\<^verbatim>\<open>gotabwm/hid.go\<close>), the split and the sash (\<^verbatim>\<open>gotabwm/split.go\<close>), pinning (\<^verbatim>\<open>gotabwm/pin.go\<close>), the
  launcher (\<^verbatim>\<open>gotabwm/launcher.go\<close>) and the click on a toast (\<^verbatim>\<open>gotabwm/notify.go\<close>).
\<close>

subsection \<open>Split and sash\<close>

definition applySplit :: "world \<Rightarrow> split_kind \<Rightarrow> bool seat_m" where
  "applySplit W kind = do {
     ok \<leftarrow> (case kind of SplitNone \<Rightarrow> ret False | SplitHoriz \<Rightarrow> on_tabs SplitH | SplitVert \<Rightarrow> on_tabs SplitV);
     if \<not> ok then ret False
     else do {
       t \<leftarrow> gets st_tabs;
       case PaneRects t scanW scanH of
         None \<Rightarrow> ret False
       | Some (ra, rb) \<Rightarrow> do {
           let a = At t 0; let b = At t 1;
           oka \<leftarrow> applyRect W (tab_ID a) ra;
           okb \<leftarrow> (if oka then applyRect W (tab_ID b) rb else ret False);
           if \<not> okb then ret False
           else do {
             say W (''gotabwm: split '' @ split_String kind);
             dumpTab W a ra kind;
             dumpTab W b rb kind;
             _ \<leftarrow> writeLayoutFile W;
             ret True
           }
         }
     }
   }"

definition applyUnsplit :: "world \<Rightarrow> bool seat_m" where
  "applyUnsplit W = do {
     _ \<leftarrow> on_tabs Unsplit;
     t \<leftarrow> gets st_tabs;
     ok \<leftarrow> for_all (open_tabs t) (\<lambda>u. do {
       k \<leftarrow> applyRect W (tab_ID u) (FullRect scanW scanH);
       if \<not> k then ret False
       else do { dumpTab W u (FullRect scanW scanH) SplitNone; ret True }
     });
     if \<not> ok then ret False
     else do {
       say W ''gotabwm: unsplit'';
       _ \<leftarrow> writeLayoutFile W;
       ret True
     }
   }"

definition applySashDrag :: "world \<Rightarrow> int \<Rightarrow> bool seat_m" where
  "applySashDrag W pos = do {
     t \<leftarrow> gets st_tabs;
     if ts_count t \<noteq> 2 \<or> ts_split t = SplitNone then ret False
     else do {
       let kind = ts_split t;
       let from = sashCenter t scanW scanH;
       let to = clampSash kind pos scanW scanH;
       if to \<le> 0 \<or> to = from then ret False
       else case SplitRectsSash kind scanW scanH to of
         None \<Rightarrow> ret False
       | Some (ra, rb) \<Rightarrow> do {
           let a = At t 0; let b = At t 1;
           oka \<leftarrow> applyRect W (tab_ID a) ra;
           okb \<leftarrow> (if oka then applyRect W (tab_ID b) rb else ret False);
           if \<not> okb then ret False
           else do {
             on_tabs (\<lambda>t. ((), t\<lparr>ts_sash := to\<rparr>));
             say W (''gotabwm: sash '' @ split_String kind @ '' from='' @ itoa_i from @ '' to='' @ itoa_i to);
             dumpTab W a ra kind;
             dumpTab W b rb kind;
             _ \<leftarrow> writeLayoutFile W;
             ret True
           }
         }
     }
   }"

definition applySplitCycle :: "world \<Rightarrow> bool seat_m" where
  "applySplitCycle W = do {
     k \<leftarrow> gets (\<lambda>s. ts_split (st_tabs s));
     case k of
       SplitNone \<Rightarrow> applySplit W SplitVert
     | SplitHoriz \<Rightarrow> applyUnsplit W
     | SplitVert \<Rightarrow> applySplit W SplitHoriz
   }"

subsection \<open>Pin and order\<close>

definition applySwapUnpinned :: "world \<Rightarrow> bool seat_m" where
  "applySwapUnpinned W = do {
     n \<leftarrow> gets (\<lambda>s. ts_count (st_tabs s));
     if n \<noteq> 2 then ret False
     else do {
       ok \<leftarrow> on_tabs (\<lambda>t. Reorder t 0 1);
       if \<not> ok then ret False
       else do {
         say W ''gotabwm: reorder 0->1'';
         dumpOrder W;
         ret True
       }
     }
   }"

text \<open>The tab \<^verbatim>\<open>applyPinStay\<close> pins: the one titled Calc, else the right-hand one.\<close>

definition pin_target :: "strip \<Rightarrow> u32" where
  "pin_target t =
     (if tab_Title (At t 0) = ''Calc'' then tab_ID (At t 0)
      else if tab_Title (At t 1) = ''Calc'' then tab_ID (At t 1) else tab_ID (At t 1))"

definition applyPinStay :: "world \<Rightarrow> bool seat_m" where
  "applyPinStay W = do {
     t \<leftarrow> gets st_tabs;
     if ts_count t \<noteq> 2 then ret False
     else do {
       let pinID = pin_target t;
       if pinID = 0 \<or> index t pinID < 0 \<or> tab_Pinned (At t (index t pinID)) then ret False
       else do {
         ok \<leftarrow> on_tabs (\<lambda>t. Pin t pinID);
         if \<not> ok then ret False
         else do {
           say W (''gotabwm: pin id='' @ itoa_id pinID @ '' on'');
           dumpOrder W;
           t2 \<leftarrow> gets st_tabs;
           let fid = (case Focused t2 of None \<Rightarrow> 0 | Some f \<Rightarrow> f);
           let other = (if tab_ID (At t2 0) = fid then tab_ID (At t2 1) else tab_ID (At t2 0));
           if other = 0 \<or> other = fid then ret False
           else do {
             r \<leftarrow> kdo W (WmctlTaskbarClick other);
             if r \<noteq> 0 then ret False
             else do {
               okf \<leftarrow> on_tabs (\<lambda>t. FocusTab t other);
               if \<not> okf then ret False
               else do {
                 say W (''gotabwm: tab focus id='' @ itoa_id other);
                 say W (''gotabwm: host focus id='' @ itoa_id other);
                 modify (\<lambda>s. s\<lparr>st_hosted := other\<rparr>);
                 dumpOrder W;
                 t3 \<leftarrow> gets st_tabs;
                 let left = tab_ID (At t3 0);
                 if left = 0 then ret False
                 else do {
                   okl \<leftarrow> on_tabs (\<lambda>t. FocusTab t left);
                   if \<not> okl then ret False
                   else do {
                     k \<leftarrow> kdo W (WmctlTaskbarClick left);
                     (if k = 0 then modify (\<lambda>s. s\<lparr>st_hosted := left\<rparr>) else ret ());
                     ret True
                   }
                 }
               }
             }
           }
         }
       }
     }
   }"

definition closePinnedFirst :: "world \<Rightarrow> bool seat_m" where
  "closePinnedFirst W = do {
     ts \<leftarrow> gets (\<lambda>s. open_tabs (st_tabs s));
     case find tab_Pinned ts of
       None \<Rightarrow> closeHosted W
     | Some t \<Rightarrow> do {
         _ \<leftarrow> on_tabs (\<lambda>u. FocusTab u (tab_ID t));
         modify (\<lambda>s. s\<lparr>st_hosted := tab_ID t\<rparr>);
         r \<leftarrow> kdo W (WmctlTaskbarClick (tab_ID t));
         (if r = 0 then say W (''gotabwm: tab focus id='' @ itoa_id (tab_ID t)) else ret ());
         closeHosted W
       }
   }"

subsection \<open>Keyboard chords\<close>

definition applyNavStep :: "world \<Rightarrow> bool \<Rightarrow> bool seat_m" where
  "applyNavStep W goback = do {
     f \<leftarrow> gets (\<lambda>s. Focused (st_tabs s));
     case f of
       None \<Rightarrow> ret False
     | Some wid \<Rightarrow> do {
         moved \<leftarrow> (if goback then on_tabs (\<lambda>t. NavBack t wid) else on_tabs (\<lambda>t. NavForward t wid));
         case moved of
           None \<Rightarrow> ret False
         | Some path \<Rightarrow> do {
             setPendingNav wid path;
             say W ((if goback then ''gotabwm: nav back id='' else ''gotabwm: nav forward id='')
                    @ itoa_id wid @ '' path='' @ path);
             ret True
           }
       }
   }"

definition applyFreezeToggle :: "world \<Rightarrow> bool seat_m" where
  "applyFreezeToggle W = do {
     f \<leftarrow> gets (\<lambda>s. Focused (st_tabs s));
     case f of
       None \<Rightarrow> ret False
     | Some wid \<Rightarrow> do {
         froze \<leftarrow> on_tabs (\<lambda>t. Freeze t wid);
         if froze then do {
           say W (''gotabwm: freeze id='' @ itoa_id wid @ '' on'');
           dumpOrder W;
           _ \<leftarrow> noteSessionMutation W;
           ret True
         } else do {
           thawed \<leftarrow> on_tabs (\<lambda>t. Thaw t wid);
           if thawed then do {
             say W (''gotabwm: thaw id='' @ itoa_id wid);
             dumpOrder W;
             _ \<leftarrow> noteSessionMutation W;
             ret True
           } else ret False
         }
       }
   }"

text \<open>\<^verbatim>\<open>vi.Exec\<close> refuses an empty name before any call.\<close>

definition execApp :: "world \<Rightarrow> string \<Rightarrow> bool seat_m" where
  "execApp W name = (if name = [] then ret False else do { r \<leftarrow> kdo W (KExec name); ret (r \<ge> 0) })"

definition applyReopen :: "world \<Rightarrow> bool seat_m" where
  "applyReopen W = do {
     c \<leftarrow> on_tabs ReopenLastClosed;
     case c of
       None \<Rightarrow> ret False
     | Some c \<Rightarrow> do {
         ok \<leftarrow> execApp W (cl_Bin c);
         if \<not> ok then do { say W (''gotabwm: reopen missing '' @ cl_Bin c); ret False }
         else do { say W (''gotabwm: reopen '' @ cl_Bin c); ret True }
       }
   }"

definition applyDuplicate :: "world \<Rightarrow> bool seat_m" where
  "applyDuplicate W = do {
     d \<leftarrow> gets (\<lambda>s. DuplicateFocused (st_tabs s));
     case d of
       None \<Rightarrow> ret False
     | Some bin \<Rightarrow> do {
         ok \<leftarrow> execApp W bin;
         if \<not> ok then do { say W (''gotabwm: duplicate missing '' @ bin); ret False }
         else do { say W (''gotabwm: duplicate '' @ bin); ret True }
       }
   }"

definition ctrlIndex :: "u8 \<Rightarrow> int option" where
  "ctrlIndex usage = (if usage < 0x1e \<or> usage > 0x26 then None else Some (uint (usage - 0x1d)))"

definition altTabNext :: "int \<Rightarrow> int \<Rightarrow> bool \<Rightarrow> int option" where
  "altTabNext cnt focus shift =
     (if cnt < 2 then None
      else let cur = (if focus < 0 \<or> focus \<ge> cnt then 0 else focus) in
           if shift then Some (if cur = 0 then cnt - 1 else cur - 1)
           else Some ((cur + 1) mod cnt))"

definition applyHidPin :: "world \<Rightarrow> bool seat_m" where
  "applyHidPin W = do {
     f \<leftarrow> gets (\<lambda>s. Focused (st_tabs s));
     case f of
       None \<Rightarrow> ret False
     | Some wid \<Rightarrow> do {
         ok \<leftarrow> on_tabs (\<lambda>t. Pin t wid);
         if \<not> ok then ret False
         else do {
           say W (''gotabwm: pin id='' @ itoa_id wid @ '' on'');
           dumpOrder W;
           _ \<leftarrow> noteSessionMutation W;
           ret True
         }
       }
   }"

definition focusByIndex :: "world \<Rightarrow> int \<Rightarrow> bool seat_m" where
  "focusByIndex W i = do {
     t \<leftarrow> gets st_tabs;
     if i < 0 \<or> i \<ge> int (ts_count t) then ret False
     else do {
       let wid = tab_ID (At t i);
       ok \<leftarrow> focusHosted W wid;
       if \<not> ok then ret False
       else do {
         say W (''gotabwm: alt-tab id='' @ itoa_id wid);
         say W (''gotabwm: tab focus id='' @ itoa_id wid);
         say W (''gotabwm: host focus id='' @ itoa_id wid);
         dumpOrder W;
         ret True
       }
     }
   }"

definition applyAltTab :: "world \<Rightarrow> bool \<Rightarrow> bool seat_m" where
  "applyAltTab W shift = do {
     t \<leftarrow> gets st_tabs;
     case altTabNext (int (ts_count t)) (ts_focus t) shift of
       None \<Rightarrow> ret False
     | Some i \<Rightarrow> focusByIndex W i
   }"

definition applyCtrlIndex :: "world \<Rightarrow> int \<Rightarrow> bool seat_m" where
  "applyCtrlIndex W ix = do {
     n \<leftarrow> gets (\<lambda>s. int (ts_count (st_tabs s)));
     if ix \<ge> 1 \<and> ix \<le> n then focusByIndex W (ix - 1) else ret False
   }"

subsection \<open>Launcher\<close>

definition on_launch :: "(launcher \<Rightarrow> launcher) \<Rightarrow> unit seat_m" where
  "on_launch f = modify (\<lambda>s. s\<lparr>st_launch := f (st_launch s)\<rparr>)"

definition dismissLauncher :: "world \<Rightarrow> unit seat_m" where
  "dismissLauncher W = do {
     l \<leftarrow> gets st_launch;
     if \<not> l_open l then ret ()
     else do {
       on_launch (\<lambda>l. l\<lparr>l_open := False, l_filter := []\<rparr>);
       say W ''gotabwm: launcher dismiss''
     }
   }"

definition emitLaunchFilter :: "world \<Rightarrow> unit seat_m" where
  "emitLaunchFilter W = do {
     l \<leftarrow> gets st_launch;
     say W (''gotabwm: launcher filter q='' @ l_filter l @ '' n='' @ itoa_n (length (l_filtered l)))
   }"

definition openLauncher :: "world \<Rightarrow> unit seat_m" where
  "openLauncher W = do {
     l \<leftarrow> gets st_launch;
     if l_open l then dismissLauncher W
     else do {
       body \<leftarrow> ReadFileAll W ''/host/APPS.TXT'' 4096;
       on_launch (\<lambda>l. refresh (l\<lparr>l_catalog := (case body of None \<Rightarrow> [] | Some b \<Rightarrow> parseAppsTXT (string_of b)),
                          l_filter := [], l_sel := 0, l_open := True\<rparr>));
       l \<leftarrow> gets st_launch;
       say W (''gotabwm: launcher open n='' @ itoa_n (length (l_catalog l)));
       emitLaunchFilter W
     }
   }"

definition execSelected :: "world \<Rightarrow> unit seat_m" where
  "execSelected W = do {
     l \<leftarrow> gets st_launch;
     case selected l of
       None \<Rightarrow> ret ()
     | Some e \<Rightarrow>
         if app_Bin e = [] then ret ()
         else do {
           ok \<leftarrow> execApp W (app_Bin e);
           if \<not> ok then say W (''gotabwm: launcher missing '' @ app_Bin e)
           else do {
             say W (''gotabwm: launcher exec '' @ app_Bin e);
             dismissLauncher W
           }
         }
   }"

text \<open>The backspace and the typed character of \<^verbatim>\<open>handleLauncherKey\<close>.\<close>

definition launcher_erase :: "world \<Rightarrow> unit seat_m" where
  "launcher_erase W = do {
     l \<leftarrow> gets st_launch;
     if l_filter l \<noteq> [] then do {
       on_launch (\<lambda>l. refresh (l\<lparr>l_filter := butlast (l_filter l)\<rparr>));
       emitLaunchFilter W
     } else ret ()
   }"

definition launcher_type :: "world \<Rightarrow> char \<Rightarrow> unit seat_m" where
  "launcher_type W c = do {
     l \<leftarrow> gets st_launch;
     if length (l_filter l) < filterMax then do {
       on_launch (\<lambda>l. refresh (l\<lparr>l_filter := l_filter l @ [c]\<rparr>));
       emitLaunchFilter W
     } else ret ()
   }"

abbreviation (input) ModShift :: u16 where "ModShift \<equiv> 1"
abbreviation (input) ModCtrl :: u16 where "ModCtrl \<equiv> 2"
abbreviation (input) ModAlt :: u16 where "ModAlt \<equiv> 4"

definition handleLauncherKey :: "world \<Rightarrow> ui_event \<Rightarrow> bool seat_m" where
  "handleLauncherKey W e = do {
     l \<leftarrow> gets st_launch;
     let usage = (ucast (ev_arg0 e) :: u8);
     let ctrl = (ev_flags e AND ModCtrl \<noteq> 0);
     let shift = (ev_flags e AND ModShift \<noteq> 0);
     let alt = (ev_flags e AND ModAlt \<noteq> 0);
     if ctrl \<and> \<not> shift \<and> \<not> alt \<and> usage = 0x2C then do { openLauncher W; ret True }
     else if \<not> l_open l then ret False
     else if alt then ret True
     else if usage = 0x29 then do { dismissLauncher W; ret True }
     else if usage = 0x28 then do { execSelected W; ret True }
     else if usage = 0x2A then do { launcher_erase W; ret True }
     else case hidUsageChar usage of
            None \<Rightarrow> ret True
          | Some c \<Rightarrow>
              if usage = 0x2C \<and> ctrl then ret True
              else do { launcher_type W c; ret True }
   }"

definition handleWmKey :: "world \<Rightarrow> ui_event \<Rightarrow> unit seat_m" where
  "handleWmKey W e = do {
     taken \<leftarrow> handleLauncherKey W e;
     n \<leftarrow> gets (\<lambda>s. ts_count (st_tabs s));
     let usage = (ucast (ev_arg0 e) :: u8);
     let ctrl = (ev_flags e AND ModCtrl \<noteq> 0);
     let shift = (ev_flags e AND ModShift \<noteq> 0);
     let alt = (ev_flags e AND ModAlt \<noteq> 0);
     if taken then ret ()
     else if alt \<and> \<not> ctrl \<and> usage = 0x2B then do { _ \<leftarrow> applyAltTab W shift; ret () }
     else if ctrl \<and> \<not> alt \<and> usage = 0x2B then do { _ \<leftarrow> applyAltTab W shift; ret () }
     else case (if ctrl \<and> \<not> alt then ctrlIndex usage else None) of
            Some i \<Rightarrow> do { _ \<leftarrow> applyCtrlIndex W i; ret () }
          | None \<Rightarrow>
              if ctrl \<and> shift \<and> \<not> alt then
                if usage = 0x13 then do { _ \<leftarrow> applyHidPin W; ret () }
                else if usage = 0x17 then do { _ \<leftarrow> applyReopen W; ret () }
                else if usage = 0x07 then do { _ \<leftarrow> applyDuplicate W; ret () }
                else if usage = 0x09 then do { _ \<leftarrow> applyFreezeToggle W; ret () }
                else if usage = 0x19 then do { _ \<leftarrow> applySplitCycle W; ret () }
                else if usage = 0x2F then do { _ \<leftarrow> applyNavStep W True; ret () }
                else if usage = 0x30 then do { _ \<leftarrow> applyNavStep W False; ret () }
                else ret ()
              else if \<not> ctrl \<and> \<not> shift \<and> \<not> alt \<and> usage = 0x28 \<and> n = 0 then openLauncher W
              else ret ()
   }"

subsection \<open>Pointer\<close>

definition pointerDownEdge :: "u8 \<Rightarrow> u8 \<Rightarrow> bool" where
  "pointerDownEdge btn prev \<longleftrightarrow> btn AND 1 \<noteq> 0 \<and> prev AND 1 = 0"

definition pointerUpEdge :: "u8 \<Rightarrow> u8 \<Rightarrow> bool" where
  "pointerUpEdge btn prev \<longleftrightarrow> btn AND 1 = 0 \<and> prev AND 1 \<noteq> 0"

definition rail_at :: "seat \<Rightarrow> u32 \<Rightarrow> u32 \<Rightarrow> int option" where
  "rail_at s px py = railCellAt px py ScanoutWidth (int (ts_count (st_tabs s))) RailHeight"

definition updateRailHover :: "world \<Rightarrow> u32 \<Rightarrow> u32 \<Rightarrow> bool \<Rightarrow> unit seat_m" where
  "updateRailHover W px py motion = do {
     s \<leftarrow> gets id;
     case rail_at s px py of
       None \<Rightarrow> modify (\<lambda>s. s\<lparr>st_railHover := -1\<rparr>)
     | Some i \<Rightarrow> do {
         modify (\<lambda>s. s\<lparr>st_railHover := i\<rparr>);
         if motion \<and> i \<noteq> st_railHover s
         then say W (''gotabwm: rail-hover id='' @ itoa_id (tab_ID (At (st_tabs s) i)))
         else ret ()
       }
   }"

definition applyRailClose :: "world \<Rightarrow> int \<Rightarrow> bool seat_m" where
  "applyRailClose W i = do {
     t \<leftarrow> gets st_tabs;
     if i < 0 \<or> i \<ge> int (ts_count t) then ret False else closeTabByID W (tab_ID (At t i))
   }"

definition applyRailClick :: "world \<Rightarrow> u32 \<Rightarrow> u32 \<Rightarrow> bool seat_m" where
  "applyRailClick W px py = do {
     s \<leftarrow> gets id;
     case rail_at s px py of
       None \<Rightarrow> ret False
     | Some i \<Rightarrow> do {
         let wid = tab_ID (At (st_tabs s) i);
         if wid = 0 \<or> Focused (st_tabs s) = Some wid then ret False
         else do {
           ok \<leftarrow> focusHosted W wid;
           if \<not> ok then ret False
           else do {
             say W (''gotabwm: rail-click id='' @ itoa_id wid);
             say W (''gotabwm: tab focus id='' @ itoa_id wid);
             say W (''gotabwm: host focus id='' @ itoa_id wid);
             dumpOrder W;
             ret True
           }
         }
       }
   }"

definition beginRailDrag :: "u32 \<Rightarrow> u32 \<Rightarrow> unit seat_m" where
  "beginRailDrag px py = modify (\<lambda>s. s\<lparr>st_railDragFrom :=
     (case rail_at s px py of None \<Rightarrow> -1 | Some i \<Rightarrow> i)\<rparr>)"

definition applyRailReorder :: "world \<Rightarrow> int \<Rightarrow> int \<Rightarrow> bool seat_m" where
  "applyRailReorder W from to = do {
     ok \<leftarrow> on_tabs (\<lambda>t. Reorder t from to);
     if \<not> ok then ret False
     else do {
       say W (''gotabwm: reorder '' @ itoa_i from @ ''->'' @ itoa_i to);
       dumpOrder W;
       _ \<leftarrow> noteSessionMutation W;
       t \<leftarrow> gets st_tabs;
       if ts_split t = SplitNone \<or> ts_count t \<noteq> 2 then ret True
       else case PaneRects t scanW scanH of
         None \<Rightarrow> ret False
       | Some (ra, rb) \<Rightarrow> do {
           let a = At t 0; let b = At t 1;
           oka \<leftarrow> applyRect W (tab_ID a) ra;
           okb \<leftarrow> (if oka then applyRect W (tab_ID b) rb else ret False);
           if \<not> okb then ret False
           else do {
             dumpTab W a ra (ts_split t);
             dumpTab W b rb (ts_split t);
             _ \<leftarrow> writeLayoutFile W;
             ret True
           }
         }
     }
   }"

definition endRailDrag :: "world \<Rightarrow> u32 \<Rightarrow> u32 \<Rightarrow> bool seat_m" where
  "endRailDrag W px py = do {
     s \<leftarrow> gets id;
     modify (\<lambda>s. s\<lparr>st_railDragFrom := -1\<rparr>);
     if st_railDragFrom s < 0 then ret False
     else case rail_at s px py of
            None \<Rightarrow> ret False
          | Some to \<Rightarrow> applyRailReorder W (st_railDragFrom s) to
   }"

definition notifyClicked :: "world \<Rightarrow> u32 \<Rightarrow> u32 \<Rightarrow> nat seat_m" where
  "notifyClicked W px py = do {
     nq \<leftarrow> gets st_notify;
     case notifyHit nq px py ScanoutWidth ScanoutHeight of
       None \<Rightarrow> ret 0
     | Some i \<Rightarrow> do {
         d \<leftarrow> on_notify (\<lambda>n. notifyDismissByIndex n i);
         case d of
           None \<Rightarrow> ret 0
         | Some wid \<Rightarrow> do {
             say W (''gotabwm: notify dismiss id='' @ itoa_id wid);
             ok \<leftarrow> focusHosted W wid;
             if \<not> ok then ret 1
             else do {
               say W (''gotabwm: tab focus id='' @ itoa_id wid);
               say W (''gotabwm: host focus id='' @ itoa_id wid);
               ret 1
             }
           }
       }
   }"

definition sash_at :: "seat \<Rightarrow> u32 \<Rightarrow> u32 \<Rightarrow> bool" where
  "sash_at s px py = sashZoneAt px py (ts_split (st_tabs s)) (sashCenter (st_tabs s) scanW scanH)
     ScanoutWidth ScanoutHeight"

text \<open>The three edges of a pointer sample outside the launcher and the toasts.\<close>

definition pointer_down :: "world \<Rightarrow> u32 \<Rightarrow> u32 \<Rightarrow> u8 \<Rightarrow> unit seat_m" where
  "pointer_down W px py btn = do {
     s \<leftarrow> gets id;
     if ts_count (st_tabs s) = 0 \<and> startSurfaceHit px py then openLauncher W
     else do {
       updateRailHover W px py False;
       case railCloseZoneAt px py ScanoutWidth (int (ts_count (st_tabs s))) RailHeight of
         Some i \<Rightarrow> do {
           modify (\<lambda>s. s\<lparr>st_railDragFrom := -1\<rparr>);
           _ \<leftarrow> applyRailClose W i;
           ret ()
         }
       | None \<Rightarrow>
           if sash_at s px py
           then modify (\<lambda>s. s\<lparr>st_railDragFrom := -1, st_sashDragging := True\<rparr>)
           else do {
             beginRailDrag px py;
             let onRail = rail_at s px py;
             _ \<leftarrow> applyRailClick W px py;
             if onRail = None then do {
               modify (\<lambda>s. s\<lparr>st_contentDown := True\<rparr>);
               _ \<leftarrow> kdo W (WmctlContentPtr px py btn);
               ret ()
             } else ret ()
           }
     }
   }"

definition pointer_up :: "world \<Rightarrow> u32 \<Rightarrow> u32 \<Rightarrow> u8 \<Rightarrow> unit seat_m" where
  "pointer_up W px py btn = do {
     updateRailHover W px py False;
     s \<leftarrow> gets id;
     if st_sashDragging s then do {
       modify (\<lambda>s. s\<lparr>st_sashDragging := False\<rparr>);
       _ \<leftarrow> applySashDrag W (if ts_split (st_tabs s) = SplitHoriz then uint py else uint px);
       ret ()
     } else do {
       _ \<leftarrow> endRailDrag W px py;
       down \<leftarrow> gets st_contentDown;
       if down then do {
         _ \<leftarrow> kdo W (WmctlContentPtr px py btn);
         modify (\<lambda>s. s\<lparr>st_contentDown := False\<rparr>)
       } else ret ()
     }
   }"

definition pointer_motion :: "world \<Rightarrow> u32 \<Rightarrow> u32 \<Rightarrow> u8 \<Rightarrow> unit seat_m" where
  "pointer_motion W px py btn = do {
     updateRailHover W px py True;
     s \<leftarrow> gets id;
     if st_sashDragging s then ret ()
     else if notifyHit (st_notify s) px py ScanoutWidth ScanoutHeight \<noteq> None then ret ()
     else if rail_at s px py = None then do {
       _ \<leftarrow> kdo W (WmctlContentPtr px py btn);
       ret ()
     } else ret ()
   }"

definition handleWmPointer :: "world \<Rightarrow> ui_event \<Rightarrow> unit seat_m" where
  "handleWmPointer W e = do {
     let px = ev_arg0 e AND 0xffff;
     let py = drop_bit 16 (ev_arg0 e);
     let btn = (ucast (ev_flags e AND 0xff) :: u8);
     prev \<leftarrow> gets st_prevPtr;
     let down = pointerDownEdge btn prev;
     let up = pointerUpEdge btn prev;
     modify (\<lambda>s. s\<lparr>st_prevPtr := btn\<rparr>);
     s \<leftarrow> gets id;
     if down \<and> notifyHit (st_notify s) px py ScanoutWidth ScanoutHeight \<noteq> None then do {
       _ \<leftarrow> notifyClicked W px py;
       ret ()
     }
     else if l_open (st_launch s) then
       if down then
         case launchRowAt (st_theme s) (st_launch s) px py of
           None \<Rightarrow> dismissLauncher W
         | Some i \<Rightarrow> do {
             on_launch (\<lambda>l. l\<lparr>l_sel := i\<rparr>);
             execSelected W
           }
       else ret ()
     else if down then pointer_down W px py btn
     else if up then pointer_up W px py btn
     else pointer_motion W px py btn
   }"


subsection \<open>Every input keeps the invariant\<close>

lemma inv_applySplit [seat_rules]: "state_io_rel inv_kept (applySplit W kind)"
  unfolding applySplit_def by (intro seat_rules grow_rules)

lemma inv_applyUnsplit [seat_rules]: "state_io_rel inv_kept (applyUnsplit W)"
  unfolding applyUnsplit_def by (intro seat_rules grow_rules)

lemma inv_applySplitCycle [seat_rules]: "state_io_rel inv_kept (applySplitCycle W)"
  unfolding applySplitCycle_def by (intro seat_rules)

lemma inv_applySwapUnpinned [seat_rules]: "state_io_rel inv_kept (applySwapUnpinned W)"
  unfolding applySwapUnpinned_def by (intro seat_rules grow_rules)

lemma inv_applyPinStay [seat_rules]: "state_io_rel inv_kept (applyPinStay W)"
  unfolding applyPinStay_def by (intro seat_rules grow_rules) (simp_all add: seat_inv_def)

lemma inv_closePinnedFirst [seat_rules]: "state_io_rel inv_kept (closePinnedFirst W)"
  unfolding closePinnedFirst_def by (intro seat_rules grow_rules) (simp_all add: seat_inv_def)

lemma inv_applyFreezeToggle [seat_rules]: "state_io_rel inv_kept (applyFreezeToggle W)"
  unfolding applyFreezeToggle_def by (intro seat_rules grow_rules)

lemma inv_execApp [seat_rules]: "state_io_rel inv_kept (execApp W name)"
  unfolding execApp_def by (intro seat_rules)

lemma inv_applyReopen [seat_rules]: "state_io_rel inv_kept (applyReopen W)"
  unfolding applyReopen_def by (intro seat_rules grow_rules)

lemma inv_applyDuplicate [seat_rules]: "state_io_rel inv_kept (applyDuplicate W)"
  unfolding applyDuplicate_def by (intro seat_rules)

lemma inv_applyHidPin [seat_rules]: "state_io_rel inv_kept (applyHidPin W)"
  unfolding applyHidPin_def by (intro seat_rules grow_rules)

lemma inv_focusByIndex [seat_rules]: "state_io_rel inv_kept (focusByIndex W i)"
  unfolding focusByIndex_def by (intro seat_rules)

lemma inv_applyAltTab [seat_rules]: "state_io_rel inv_kept (applyAltTab W shift)"
  unfolding applyAltTab_def by (intro seat_rules)

lemma inv_applyCtrlIndex [seat_rules]: "state_io_rel inv_kept (applyCtrlIndex W i)"
  unfolding applyCtrlIndex_def by (intro seat_rules)

text \<open>The back and forward chords queue a target for a tab that is on the strip.\<close>

lemma grows_nav_step: "grows (\<lambda>t. if goback then NavBack t wid else NavForward t wid)"
  by (cases goback) (simp_all add: grow_rules)

lemma inv_applyNavStep [seat_rules]: "state_io_rel inv_kept (applyNavStep W goback)"
  unfolding state_io_rel_def inv_kept_def
proof (intro allI impI)
  fix s assume inv: "seat_inv s"
  show "seat_inv (snd (run_state (applyNavStep W goback) s))"
  proof (cases "Focused (st_tabs s)")
    case None
    then show ?thesis using inv by (simp add: applyNavStep_def)
  next
    case (Some wid)
    let ?f = "\<lambda>t. if goback then NavBack t wid else NavForward t wid"
    let ?s = "s\<lparr>st_tabs := snd (?f (st_tabs s))\<rparr>"
    have wf: "wf_strip (st_tabs s)" using inv by (simp add: seat_inv_def)
    have g: "wf_strip (snd (?f (st_tabs s)))" "ids_of (st_tabs s) \<subseteq> ids_of (snd (?f (st_tabs s)))"
      using grows_nav_step [of goback wid] wf unfolding grows_def by blast+
    have inv': "seat_inv ?s" using seat_inv_grow [OF inv g] .
    have "wid \<in> ids_of (st_tabs ?s)" using Focused_open [OF wf Some] g(2) by (auto simp: ids_of_def)
    then have "seat_inv (snd (run_state (setPendingNav wid path) ?s))" for path
      using inv_setPendingNav [OF inv'] by blast
    then show ?thesis using inv' Some
      by (cases goback) (auto simp: applyNavStep_def split_def split: option.split)
  qed
qed

text \<open>The sash is only stored while the strip is split.\<close>

lemma wf_sash: "wf_strip t \<Longrightarrow> ts_split t \<noteq> SplitNone \<Longrightarrow> 0 \<le> p \<Longrightarrow> wf_strip (t\<lparr>ts_sash := p\<rparr>)"
  by (simp add: wf_strip_def open_tabs_def)

lemma seat_inv_sash:
  "seat_inv s \<Longrightarrow> ts_split (st_tabs s) \<noteq> SplitNone \<Longrightarrow> 0 \<le> p \<Longrightarrow>
     seat_inv (s\<lparr>st_tabs := (st_tabs s)\<lparr>ts_sash := p\<rparr>\<rparr>)"
  by (rule seat_inv_grow) (auto simp: wf_sash seat_inv_def ids_of_def open_tabs_def)

definition sash_kept :: "seat \<Rightarrow> seat \<Rightarrow> bool" where
  "sash_kept s s' \<longleftrightarrow> (seat_inv s \<and> ts_split (st_tabs s) \<noteq> SplitNone \<longrightarrow>
     seat_inv s' \<and> ts_split (st_tabs s') \<noteq> SplitNone)"

interpretation sash: seat_relation sash_kept
  by unfold_locales (auto simp: sash_kept_def)

lemma sash_of_inv: "state_io_rel inv_kept m \<Longrightarrow> state_io_rel (same st_tabs) m \<Longrightarrow> state_io_rel sash_kept m"
  by (simp add: state_io_rel_def inv_kept_def same_def sash_kept_def)

lemma sash_prims [seat_rules]:
  "state_io_rel sash_kept (applyRect W wid r)" "state_io_rel sash_kept (dumpTab W t r k)"
  "state_io_rel sash_kept (writeLayoutFile W)" "state_io_rel sash_kept (say W line)"
  by (rule sash_of_inv, intro seat_rules, (intro seat_rules; simp))+

lemma sash_store [seat_rules]: "0 \<le> p \<Longrightarrow> state_io_rel sash_kept (on_tabs (\<lambda>t. ((), t\<lparr>ts_sash := p\<rparr>)))"
  by (simp add: state_io_rel_def sash_kept_def seat_inv_sash)

lemma inv_applySashDrag [seat_rules]: "state_io_rel inv_kept (applySashDrag W pos)"
  unfolding state_io_rel_def inv_kept_def
proof (intro allI impI)
  fix s assume inv: "seat_inv s"
  show "seat_inv (snd (run_state (applySashDrag W pos) s))"
  proof (cases "ts_split (st_tabs s) = SplitNone")
    case True
    then show ?thesis using inv by (simp add: applySashDrag_def)
  next
    case False
    have "state_io_rel sash_kept (applySashDrag W pos)"
      unfolding applySashDrag_def Let_def by (intro seat_rules) auto
    then have "sash_kept s (snd (run_state (applySashDrag W pos) s))" by (rule io_relD)
    then show ?thesis using inv False by (simp add: sash_kept_def)
  qed
qed

text \<open>Launcher.\<close>

lemma wf_refresh: "length (l_filter l) \<le> 24 \<Longrightarrow> wf_launcher (refresh l)"
  by (auto simp: wf_launcher_def refresh_def Let_def)

lemma inv_on_launch:
  "(\<And>l. wf_launcher l \<Longrightarrow> wf_launcher (f l)) \<Longrightarrow> state_io_rel inv_kept (on_launch f)"
  unfolding on_launch_def by (intro seat_rules) (simp add: seat_inv_def)

lemma inv_dismissLauncher [seat_rules]: "state_io_rel inv_kept (dismissLauncher W)"
  unfolding dismissLauncher_def by (intro seat_rules inv_on_launch) (simp add: wf_launcher_def)

lemma inv_emitLaunchFilter [seat_rules]: "state_io_rel inv_kept (emitLaunchFilter W)"
  unfolding emitLaunchFilter_def by (intro seat_rules)

lemma inv_openLauncher [seat_rules]: "state_io_rel inv_kept (openLauncher W)"
  unfolding openLauncher_def by (intro seat_rules inv_on_launch) (rule wf_refresh, simp)

lemma inv_execSelected [seat_rules]: "state_io_rel inv_kept (execSelected W)"
  unfolding execSelected_def by (intro seat_rules)

lemma inv_launcher_erase [seat_rules]: "state_io_rel inv_kept (launcher_erase W)"
  unfolding launcher_erase_def
  by (intro seat_rules inv_on_launch) (rule wf_refresh, auto simp: wf_launcher_def)

lemma inv_launcher_type [seat_rules]: "state_io_rel inv_kept (launcher_type W c)"
  unfolding state_io_rel_def inv_kept_def
proof (intro allI impI)
  fix s assume inv: "seat_inv s"
  show "seat_inv (snd (run_state (launcher_type W c) s))"
  proof (cases "length (l_filter (st_launch s)) < 24")
    case False
    then show ?thesis using inv by (simp add: launcher_type_def)
  next
    case True
    let ?l = "refresh ((st_launch s)\<lparr>l_filter := l_filter (st_launch s) @ [c]\<rparr>)"
    have "wf_launcher ?l" using True by (intro wf_refresh) simp
    then have "seat_inv (s\<lparr>st_launch := ?l\<rparr>)" using inv by (simp add: seat_inv_def)
    then show ?thesis
      using True invD [OF inv_emitLaunchFilter] by (simp add: launcher_type_def on_launch_def split_def)
  qed
qed

lemma inv_handleLauncherKey [seat_rules]: "state_io_rel inv_kept (handleLauncherKey W e)"
  unfolding handleLauncherKey_def Let_def by (intro seat_rules)

lemma inv_handleWmKey [seat_rules]: "state_io_rel inv_kept (handleWmKey W e)"
  unfolding handleWmKey_def Let_def by (intro seat_rules)

text \<open>Pointer.\<close>

lemma inv_updateRailHover [seat_rules]: "state_io_rel inv_kept (updateRailHover W px py motion)"
  unfolding updateRailHover_def by (intro seat_rules) (simp_all add: seat_inv_def)

lemma inv_applyRailClose [seat_rules]: "state_io_rel inv_kept (applyRailClose W i)"
  unfolding applyRailClose_def by (intro seat_rules)

lemma inv_applyRailClick [seat_rules]: "state_io_rel inv_kept (applyRailClick W px py)"
  unfolding applyRailClick_def by (intro seat_rules)

lemma inv_beginRailDrag [seat_rules]: "state_io_rel inv_kept (beginRailDrag px py)"
  unfolding beginRailDrag_def by (intro seat_rules) (simp add: seat_inv_def)

lemma inv_applyRailReorder [seat_rules]: "state_io_rel inv_kept (applyRailReorder W i j)"
  unfolding applyRailReorder_def by (intro seat_rules grow_rules)

lemma inv_endRailDrag [seat_rules]: "state_io_rel inv_kept (endRailDrag W px py)"
  unfolding endRailDrag_def by (intro seat_rules) (simp add: seat_inv_def)

lemma inv_notifyClicked [seat_rules]: "state_io_rel inv_kept (notifyClicked W px py)"
  unfolding notifyClicked_def by (intro seat_rules)

lemma inv_pointer_down [seat_rules]: "state_io_rel inv_kept (pointer_down W px py btn)"
  unfolding pointer_down_def by (intro seat_rules) (simp_all add: seat_inv_def)

lemma inv_pointer_up [seat_rules]: "state_io_rel inv_kept (pointer_up W px py btn)"
  unfolding pointer_up_def by (intro seat_rules) (simp_all add: seat_inv_def)

lemma inv_pointer_motion [seat_rules]: "state_io_rel inv_kept (pointer_motion W px py btn)"
  unfolding pointer_motion_def by (intro seat_rules)

lemma launchRowAt_range:
  "launchRowAt tok l px py = Some i \<Longrightarrow> 0 \<le> i \<and> i < int (length (l_filtered l))"
  by (auto simp: launchRowAt_def Let_def split: if_splits)

lemma seat_inv_sel:
  "seat_inv s \<Longrightarrow> launchRowAt tok (st_launch s) px py = Some i \<Longrightarrow>
     seat_inv (s\<lparr>st_launch := (st_launch s)\<lparr>l_sel := i\<rparr>\<rparr>)"
  using launchRowAt_range [of tok "st_launch s" px py i] by (auto simp: seat_inv_def wf_launcher_def)

lemma inv_handleWmPointer [seat_rules]: "state_io_rel inv_kept (handleWmPointer W e)"
  unfolding state_io_rel_def inv_kept_def
proof (intro allI impI)
  fix s assume inv: "seat_inv s"
  let ?px = "ev_arg0 e AND 0xffff" and ?py = "drop_bit 16 (ev_arg0 e)"
  let ?btn = "ucast (ev_flags e AND 0xff) :: u8"
  let ?s = "s\<lparr>st_prevPtr := ?btn\<rparr>"
  have inv': "seat_inv ?s" using inv by (simp add: seat_inv_def)
  have sel: "seat_inv (snd (run_state (execSelected W) (?s\<lparr>st_launch := (st_launch s)\<lparr>l_sel := i\<rparr>\<rparr>)))"
    if "launchRowAt (st_theme s) (st_launch s) ?px ?py = Some i" for i
    using seat_inv_sel [OF inv', of "st_theme s"] that invD [OF inv_execSelected] by simp
  note rules = invD [OF inv_notifyClicked inv'] invD [OF inv_dismissLauncher inv']
    invD [OF inv_pointer_down inv'] invD [OF inv_pointer_up inv'] invD [OF inv_pointer_motion inv']
  show "seat_inv (snd (run_state (handleWmPointer W e) s))"
    using inv' sel rules
    by (simp add: handleWmPointer_def Let_def on_launch_def split_def split: option.split)
qed

end
