(* ===== verification/Settings.thy ===== *)
theory Settings
  imports Launcher
begin

text \<open>
  The settings file (\<^verbatim>\<open>settings/settings.go\<close>), shared by the seat and the settings panel: the tables of
  known keys, the decoder and the serializer of the schema-v2 text, reading and updating a row, the
  value in force for a key, the rows the panel shows, and the verdict on a file. Reading and
  publishing the file itself are \<^verbatim>\<open>vi.ReadFileAll\<close> and \<^verbatim>\<open>vi.WriteFileSafe\<close>; the latter is modelled in
  theory \<open>SafeFile\<close>.
\<close>

subsection \<open>White space\<close>

text \<open>
  \<^verbatim>\<open>strings.TrimSpace\<close> strips the characters of \<^verbatim>\<open>unicode.IsSpace\<close>. On a byte string these are the
  UTF-8 sequences listed here: the six ASCII ones, U+0085 and U+00A0, U+1680, U+2000 to U+200A,
  U+2028, U+2029, U+202F, U+205F and U+3000.
\<close>

definition go_spaces :: "string list" where
  "go_spaces =
     [[CHR 0x09], [CHR 0x0A], [CHR 0x0B], [CHR 0x0C], [CHR 0x0D], [CHR 0x20],
      [CHR 0xC2, CHR 0x85], [CHR 0xC2, CHR 0xA0], [CHR 0xE1, CHR 0x9A, CHR 0x80],
      [CHR 0xE2, CHR 0x80, CHR 0x80], [CHR 0xE2, CHR 0x80, CHR 0x81], [CHR 0xE2, CHR 0x80, CHR 0x82],
      [CHR 0xE2, CHR 0x80, CHR 0x83], [CHR 0xE2, CHR 0x80, CHR 0x84], [CHR 0xE2, CHR 0x80, CHR 0x85],
      [CHR 0xE2, CHR 0x80, CHR 0x86], [CHR 0xE2, CHR 0x80, CHR 0x87], [CHR 0xE2, CHR 0x80, CHR 0x88],
      [CHR 0xE2, CHR 0x80, CHR 0x89], [CHR 0xE2, CHR 0x80, CHR 0x8A], [CHR 0xE2, CHR 0x80, CHR 0xA8],
      [CHR 0xE2, CHR 0x80, CHR 0xA9], [CHR 0xE2, CHR 0x80, CHR 0xAF], [CHR 0xE2, CHR 0x81, CHR 0x9F],
      [CHR 0xE3, CHR 0x80, CHR 0x80]]"

text \<open>Strip any of the given prefixes as long as one is there.\<close>

function strip_front :: "string list \<Rightarrow> string \<Rightarrow> string" where
  "strip_front ps s =
     (case find (\<lambda>p. p \<noteq> [] \<and> hasPrefix s p) ps of
        None \<Rightarrow> s
      | Some p \<Rightarrow> strip_front ps (drop (length p) s))"
  by pat_completeness auto
termination
proof (relation "measure (\<lambda>(_, s). length s)", simp)
  fix ps :: "string list" and s p
  assume "find (\<lambda>p. p \<noteq> [] \<and> hasPrefix s p) ps = Some p"
  then have "p \<noteq> []" "length p \<le> length s" by (auto simp: find_Some_iff hasPrefix_def)
  then show "((ps, drop (length p) s), ps, s) \<in> measure (\<lambda>(_, s). length s)"
    by (cases s) auto
qed

declare strip_front.simps [simp del]

definition TrimSpace :: "string \<Rightarrow> string" where
  "TrimSpace s = rev (strip_front (map rev go_spaces) (rev (strip_front go_spaces s)))"

subsection \<open>Keys\<close>

record key_row =
  key_Name :: string
  key_Default :: string
  key_Vocab :: "string list"

definition KnownKeys :: "key_row list" where
  "KnownKeys =
     [\<lparr>key_Name = ''hostname'', key_Default = ''virelai'', key_Vocab = []\<rparr>,
      \<lparr>key_Name = ''prompt'', key_Default = ''virelai> '', key_Vocab = []\<rparr>,
      \<lparr>key_Name = ''theme'', key_Default = ''dark'', key_Vocab = [''dark'', ''light'', ''amber'', ''custom'']\<rparr>,
      \<lparr>key_Name = ''scrollback'', key_Default = ''1000'', key_Vocab = []\<rparr>,
      \<lparr>key_Name = ''shadow'', key_Default = ''off'', key_Vocab = [''on'', ''off'']\<rparr>,
      \<lparr>key_Name = ''focus_follows_mouse'', key_Default = ''off'', key_Vocab = [''on'', ''off'']\<rparr>,
      \<lparr>key_Name = ''shell'', key_Default = ''monitor'', key_Vocab = [''monitor'', ''sh'']\<rparr>,
      \<lparr>key_Name = ''wm'', key_Default = ''gotabwm'', key_Vocab = [''gotabwm'', ''tabwm'', ''none'']\<rparr>]"

definition PaletteKeys :: "key_row list" where
  "PaletteKeys =
     [\<lparr>key_Name = ''palette_fg'', key_Default = ''00ff00'', key_Vocab = []\<rparr>,
      \<lparr>key_Name = ''palette_bg'', key_Default = ''101418'', key_Vocab = []\<rparr>,
      \<lparr>key_Name = ''palette_accent'', key_Default = ''3b82f6'', key_Vocab = []\<rparr>]"

definition FontKeys :: "key_row list" where
  "FontKeys = [\<lparr>key_Name = ''font_size'', key_Default = ''medium'', key_Vocab = [''small'', ''medium'', ''large'']\<rparr>]"

definition FontKey :: "string \<Rightarrow> key_row option" where
  "FontKey key = find (\<lambda>k. key_Name k = key) FontKeys"

definition IsFontKey :: "string \<Rightarrow> bool" where
  "IsFontKey key \<longleftrightarrow> FontKey key \<noteq> None"

definition PaletteKey :: "string \<Rightarrow> key_row option" where
  "PaletteKey key = find (\<lambda>k. key_Name k = key) PaletteKeys"

definition IsPaletteKey :: "string \<Rightarrow> bool" where
  "IsPaletteKey key \<longleftrightarrow> PaletteKey key \<noteq> None"

definition Known :: "string \<Rightarrow> key_row option" where
  "Known key = find (\<lambda>k. key_Name k = key) KnownKeys"

definition Editable :: "string \<Rightarrow> bool" where
  "Editable key \<longleftrightarrow> Known key \<noteq> None \<or> IsPaletteKey key \<or> IsFontKey key"

definition Default :: "string \<Rightarrow> string option" where
  "Default key = map_option key_Default (Known key)"

definition Vocab :: "string \<Rightarrow> string list option" where
  "Vocab key = (case Known key of Some k \<Rightarrow> Some (key_Vocab k) | None \<Rightarrow> map_option key_Vocab (FontKey key))"

definition vocab_Next :: "string list \<Rightarrow> string \<Rightarrow> string" where
  "vocab_Next vocab cur =
     (if vocab = [] then cur
      else case first_index (\<lambda>v. v = cur) vocab of
             Some i \<Rightarrow> vocab ! ((i + 1) mod length vocab)
           | None \<Rightarrow> vocab ! 0)"

subsection \<open>Colours\<close>

definition hex_val :: "char \<Rightarrow> u32 option" where
  "hex_val c =
     (let n = (of_char c :: nat) in
      if 48 \<le> n \<and> n \<le> 57 then Some (of_nat (n - 48))
      else if 97 \<le> n \<and> n \<le> 102 then Some (of_nat (n - 97) + 10)
      else if 65 \<le> n \<and> n \<le> 70 then Some (of_nat (n - 65) + 10)
      else None)"

fun colour_loop :: "string \<Rightarrow> u32 \<Rightarrow> u32 option" where
  "colour_loop [] v = Some v"
| "colour_loop (c # cs) v = (case hex_val c of None \<Rightarrow> None | Some d \<Rightarrow> colour_loop cs (push_bit 4 v OR d))"

definition Colour :: "string \<Rightarrow> u32 option" where
  "Colour val = (if length val \<noteq> 6 then None else colour_loop val 0)"

definition ValidColour :: "string \<Rightarrow> bool" where
  "ValidColour val \<longleftrightarrow> Colour val \<noteq> None"

subsection \<open>The file\<close>

record setting =
  set_Key :: string
  set_Val :: string

datatype file_state = StateMissing | StateOK | StateCorrupt

record settings_file =
  file_Rows :: "setting list"
  file_State :: file_state

abbreviation (input) MaxKeys :: nat where "MaxKeys \<equiv> 16"
abbreviation (input) MaxKey :: nat where "MaxKey \<equiv> 32"
abbreviation (input) MaxVal :: nat where "MaxVal \<equiv> 64"
abbreviation (input) MaxBody :: nat where "MaxBody \<equiv> 2048"

text \<open>The header gate of \<^verbatim>\<open>Parse\<close>: \<^verbatim>\<open>#v\<close> and one to three digits naming a version up to two.\<close>

definition header_ok :: "string \<Rightarrow> bool" where
  "header_ok first \<longleftrightarrow>
     hasPrefix first ''#v'' \<and> length first > 2 \<and>
     (let digits = drop 2 first in
      length digits \<le> 3 \<and> (\<forall>c \<in> set digits. 48 \<le> (of_char c :: nat) \<and> (of_char c :: nat) \<le> 57)
      \<and> undec digits \<le> 2)"

text \<open>One line: nothing for a blank, a comment, a line without \<^verbatim>\<open>=\<close> or one over the caps.\<close>

definition parse_row :: "string \<Rightarrow> setting option" where
  "parse_row raw =
     (let line = TrimSpace (trimCR raw) in
      if line = [] \<or> hasPrefix line ''#'' \<or> CHR ''='' \<notin> set line then None
      else
        let key = TrimSpace (takeWhile (\<lambda>c. c \<noteq> CHR ''='') line);
            val = TrimSpace (drop 1 (dropWhile (\<lambda>c. c \<noteq> CHR ''='') line))
        in if key = [] \<or> length key > MaxKey \<or> length val > MaxVal then None
           else Some \<lparr>set_Key = key, set_Val = val\<rparr>)"

function parse_rows :: "string \<Rightarrow> setting list \<Rightarrow> setting list" where
  "parse_rows rest out =
     (if rest = [] then out
      else let (line, rest') = cutLine rest in
           case parse_row line of
             None \<Rightarrow> parse_rows rest' out
           | Some r \<Rightarrow> if length out \<ge> MaxKeys then out else parse_rows rest' (out @ [r]))"
  by pat_completeness auto
termination
proof (relation "measure (\<lambda>(rest, _). length rest)", simp)
  fix rest x line rest' and out :: "setting list" and r
  assume "rest \<noteq> []" "x = cutLine rest" "(line, rest') = x"
  then have "length rest' < length rest" using cutLine_shorter [of rest] by (metis snd_conv)
  then show "((rest', out), rest, out) \<in> measure (\<lambda>(rest, _). length rest)"
    "((rest', out @ [r]), rest, out) \<in> measure (\<lambda>(rest, _). length rest)"
    by simp_all
qed

declare parse_rows.simps [simp del]

definition Parse :: "bytes \<Rightarrow> setting list option" where
  "Parse b =
     (let (first, rest) = cutLine (string_of b) in
      if header_ok (trimCR first) then Some (parse_rows rest []) else None)"

definition Render :: "setting list \<Rightarrow> bytes" where
  "Render ss = bytes_of (''#v2'' @ [CHR 0x0A]
     @ concat (map (\<lambda>s. set_Key s @ ''='' @ set_Val s @ [CHR 0x0A]) ss))"

definition Get :: "setting list \<Rightarrow> string \<Rightarrow> string option" where
  "Get ss key = foldl (\<lambda>acc s. if set_Key s = key then Some (set_Val s) else acc) None ss"

text \<open>The loop of \<^verbatim>\<open>Set\<close> runs from the last row down.\<close>

fun set_last :: "setting list \<Rightarrow> string \<Rightarrow> string \<Rightarrow> nat \<Rightarrow> setting list option" where
  "set_last ss key val 0 = None"
| "set_last ss key val (Suc i) =
     (if set_Key (ss ! i) = key then Some (ss[i := (ss ! i)\<lparr>set_Val := val\<rparr>])
      else set_last ss key val i)"

definition settings_Set :: "setting list \<Rightarrow> string \<Rightarrow> string \<Rightarrow> setting list" where
  "settings_Set ss key val =
     (case set_last ss key val (length ss) of
        Some ss' \<Rightarrow> ss'
      | None \<Rightarrow> ss @ [\<lparr>set_Key = key, set_Val = val\<rparr>])"

definition Effective :: "settings_file \<Rightarrow> string \<Rightarrow> string option" where
  "Effective f key = (case Get (file_Rows f) key of Some v \<Rightarrow> Some v | None \<Rightarrow> Default key)"

definition Display :: "settings_file \<Rightarrow> setting list" where
  "Display f = file_Rows f @
     map (\<lambda>k. \<lparr>set_Key = key_Name k, set_Val = key_Default k\<rparr>)
       (filter (\<lambda>k. Get (file_Rows f) (key_Name k) = None) KnownKeys)"

text \<open>\<^verbatim>\<open>Load\<close> on what \<^verbatim>\<open>ReadFileAll(Path, MaxBody+1)\<close> returned.\<close>

definition Load :: "bytes option \<Rightarrow> settings_file" where
  "Load body =
     (case body of
        None \<Rightarrow> \<lparr>file_Rows = [], file_State = StateMissing\<rparr>
      | Some b \<Rightarrow>
          if length b > MaxBody then \<lparr>file_Rows = [], file_State = StateCorrupt\<rparr>
          else case Parse b of
                 None \<Rightarrow> \<lparr>file_Rows = [], file_State = StateCorrupt\<rparr>
               | Some rows \<Rightarrow> \<lparr>file_Rows = rows, file_State = StateOK\<rparr>)"

text \<open>The bytes \<^verbatim>\<open>Save\<close> publishes, or nothing for a corrupt decode.\<close>

definition Save :: "settings_file \<Rightarrow> bytes option" where
  "Save f = (if file_State f = StateCorrupt then None else Some (Render (file_Rows f)))"


subsection \<open>Trimming\<close>

lemma hasPrefix_prefix: "hasPrefix s p \<longleftrightarrow> prefix p s"
  by (metis append_take_drop_id hasPrefix_def prefixE prefixI prefix_length_le take_is_prefix
      append_eq_conv_conj)

definition stripped :: "string list \<Rightarrow> string \<Rightarrow> bool" where
  "stripped ps s \<longleftrightarrow> (\<forall>p \<in> set ps. \<not> prefix p s)"

lemma strip_front_stripped: "[] \<notin> set ps \<Longrightarrow> stripped ps (strip_front ps s)"
proof (induction ps s rule: strip_front.induct)
  case (1 ps s)
  show ?case
  proof (cases "find (\<lambda>p. p \<noteq> [] \<and> hasPrefix s p) ps")
    case None
    then have "strip_front ps s = s" by (simp add: strip_front.simps)
    moreover have "stripped ps s"
      using None 1(2) unfolding stripped_def find_None_iff hasPrefix_prefix by blast
    ultimately show ?thesis by simp
  next
    case (Some p)
    then have "strip_front ps s = strip_front ps (drop (length p) s)"
      by (subst strip_front.simps) simp
    then show ?thesis using 1(1) [OF Some 1(2)] by simp
  qed
qed

lemma strip_front_id: "stripped ps s \<Longrightarrow> strip_front ps s = s"
proof -
  assume "stripped ps s"
  then have "find (\<lambda>p. p \<noteq> [] \<and> hasPrefix s p) ps = None"
    unfolding stripped_def find_None_iff hasPrefix_prefix by blast
  then show ?thesis by (simp add: strip_front.simps)
qed

lemma strip_front_suffix: "suffix (strip_front ps s) s"
proof (induction ps s rule: strip_front.induct)
  case (1 ps s)
  show ?case
  proof (cases "find (\<lambda>p. p \<noteq> [] \<and> hasPrefix s p) ps")
    case None
    then show ?thesis by (simp add: strip_front.simps)
  next
    case (Some p)
    then have "strip_front ps s = strip_front ps (drop (length p) s)"
      by (subst strip_front.simps) simp
    moreover have "suffix (drop (length p) s) s" by (rule suffix_drop)
    ultimately show ?thesis using 1(1) [OF Some] suffix_order.trans by metis
  qed
qed

definition trimmed :: "string \<Rightarrow> bool" where
  "trimmed s \<longleftrightarrow> stripped go_spaces s \<and> stripped (map rev go_spaces) (rev s)"

lemma no_empty_space: "[] \<notin> set go_spaces" "[] \<notin> set (map rev go_spaces)"
  by (simp_all add: go_spaces_def)

lemma stripped_prefix: "stripped ps s \<Longrightarrow> prefix t s \<Longrightarrow> stripped ps t"
  unfolding stripped_def by (meson prefix_order.trans)

lemma TrimSpace_prefix: "prefix (TrimSpace s) (strip_front go_spaces s)"
  using strip_front_suffix [of "map rev go_spaces" "rev (strip_front go_spaces s)"]
  by (simp add: TrimSpace_def suffix_to_prefix)

lemma trimmed_TrimSpace: "trimmed (TrimSpace s)"
  using stripped_prefix [OF strip_front_stripped [OF no_empty_space(1)] TrimSpace_prefix]
    strip_front_stripped [OF no_empty_space(2)]
  by (simp add: trimmed_def TrimSpace_def)

lemma TrimSpace_id: "trimmed s \<Longrightarrow> TrimSpace s = s"
  by (simp add: trimmed_def TrimSpace_def strip_front_id)

lemma set_TrimSpace: "set (TrimSpace s) \<subseteq> set s"
  using TrimSpace_prefix [of s] strip_front_suffix [of go_spaces s]
  by (meson set_mono_prefix set_mono_suffix subset_trans)

lemma spaces_no_eq: "p \<in> set go_spaces \<Longrightarrow> CHR ''='' \<notin> set p"
  by (auto simp: go_spaces_def)

lemma prefix_through: "prefix p (a @ x # b) \<Longrightarrow> x \<notin> set p \<Longrightarrow> prefix p a"
  by (auto simp: prefix_append prefix_Cons)

text \<open>A key and a value without outer spaces make a line without outer spaces.\<close>

lemma trimmed_line:
  assumes "trimmed k" "trimmed v"
  shows "trimmed (k @ CHR ''='' # v)"
  unfolding trimmed_def stripped_def
proof (intro conjI ballI notI)
  fix p assume p: "p \<in> set go_spaces" "prefix p (k @ CHR ''='' # v)"
  have "prefix p k" by (rule prefix_through [OF p(2) spaces_no_eq [OF p(1)]])
  then show False using assms(1) p(1) by (simp add: trimmed_def stripped_def)
next
  fix q assume q: "q \<in> set (map rev go_spaces)" "prefix q (rev (k @ CHR ''='' # v))"
  obtain p where p: "p \<in> set go_spaces" "q = rev p" using q(1) unfolding set_map by blast
  have "CHR ''='' \<notin> set q" unfolding p(2) set_rev by (rule spaces_no_eq [OF p(1)])
  moreover have "prefix q (rev v @ CHR ''='' # rev k)" using q(2) by simp
  ultimately have "prefix q (rev v)" by (rule prefix_through [rotated])
  then show False using assms(2) q(1) unfolding trimmed_def stripped_def by blast
qed

lemma trimCR_trimmed: "trimmed s \<Longrightarrow> trimCR s = s"
proof (cases "s = []")
  case False
  assume t: "trimmed s"
  have cr: "[CHR 0x0D] \<in> set (map rev go_spaces)" by (simp add: go_spaces_def)
  have "prefix [last s] (rev s)" using False by (cases s rule: rev_cases) auto
  moreover have "\<not> prefix [CHR 0x0D] (rev s)"
    using t cr unfolding trimmed_def stripped_def by blast
  ultimately have "last s \<noteq> CHR 0x0D" by metis
  then show ?thesis using False by (simp add: trimCR_def last_conv_nth)
qed (simp add: trimCR_def)

subsection \<open>Rows\<close>

definition row_clean :: "setting \<Rightarrow> bool" where
  "row_clean r \<longleftrightarrow>
     set_Key r \<noteq> [] \<and> trimmed (set_Key r) \<and> trimmed (set_Val r) \<and> hd (set_Key r) \<noteq> CHR ''#''
     \<and> CHR ''='' \<notin> set (set_Key r) \<and> CHR 0x0A \<notin> set (set_Key r) \<and> CHR 0x0A \<notin> set (set_Val r)
     \<and> length (set_Key r) \<le> MaxKey \<and> length (set_Val r) \<le> MaxVal"

definition row_text :: "setting \<Rightarrow> string" where
  "row_text r = set_Key r @ CHR ''='' # set_Val r"

lemma parse_row_text: "row_clean r \<Longrightarrow> parse_row (row_text r) = Some r"
proof -
  assume c: "row_clean r"
  have t: "trimmed (row_text r)" using c trimmed_line by (simp add: row_clean_def row_text_def)
  have h: "\<not> hasPrefix (row_text r) ''#''"
    using c by (cases "set_Key r") (auto simp: row_clean_def row_text_def hasPrefix_def)
  have k: "takeWhile (\<lambda>c. c \<noteq> CHR ''='') (row_text r) = set_Key r"
    "dropWhile (\<lambda>c. c \<noteq> CHR ''='') (row_text r) = CHR ''='' # set_Val r"
    using c by (auto simp: row_clean_def row_text_def takeWhile_tail dropWhile_append3)
  have "row_text r \<noteq> []" "CHR ''='' \<in> set (row_text r)" by (simp_all add: row_text_def)
  then show ?thesis
    using c t h k by (simp add: parse_row_def trimCR_trimmed TrimSpace_id row_clean_def)
qed

text \<open>The key of an accepted line is a prefix of the trimmed line, so it starts as the line does.\<close>

lemma TrimSpace_front: "stripped go_spaces s \<Longrightarrow> prefix (TrimSpace s) s"
  using TrimSpace_prefix [of s] strip_front_id by metis

lemma parse_row_clean:
  assumes "parse_row raw = Some r" "CHR 0x0A \<notin> set raw"
  shows "row_clean r"
proof -
  let ?line = "TrimSpace (trimCR raw)"
  let ?a = "takeWhile (\<lambda>c. c \<noteq> CHR ''='') ?line"
  let ?b = "drop 1 (dropWhile (\<lambda>c. c \<noteq> CHR ''='') ?line)"
  have r: "set_Key r = TrimSpace ?a" "set_Val r = TrimSpace ?b" "set_Key r \<noteq> []"
    "length (set_Key r) \<le> 32" "length (set_Val r) \<le> 64" and h: "\<not> hasPrefix ?line ''#''"
    using assms(1) by (auto simp: parse_row_def Let_def split: if_splits)
  have nl: "CHR 0x0A \<notin> set ?line"
    using assms(2) set_TrimSpace [of "trimCR raw"] set_take_subset [of "length raw - 1" raw]
    by (auto simp: trimCR_def split: if_splits)
  have "stripped go_spaces ?line" using trimmed_TrimSpace [of "trimCR raw"] by (simp add: trimmed_def)
  then have "stripped go_spaces ?a" using stripped_prefix takeWhile_is_prefix by blast
  then have pre: "prefix (set_Key r) ?line"
    using TrimSpace_front r(1) takeWhile_is_prefix prefix_order.trans by metis
  have "hd (set_Key r) \<noteq> CHR ''#''"
    using h r(3) pre by (cases "set_Key r") (auto simp: hasPrefix_prefix prefix_def)
  moreover have "CHR ''='' \<notin> set (set_Key r)"
    using set_TrimSpace [of ?a] r(1) by (auto dest: set_takeWhileD)
  moreover have "CHR 0x0A \<notin> set (set_Key r)" using nl set_TrimSpace [of ?a] r(1) by (auto dest: set_takeWhileD)
  moreover have "CHR 0x0A \<notin> set (set_Val r)"
    using nl set_TrimSpace [of ?b] r(2) by (auto dest!: in_set_dropD set_dropWhileD)
  ultimately show ?thesis using r trimmed_TrimSpace by (simp add: row_clean_def)
qed

subsection \<open>Decoding what was rendered\<close>

lemma cutLine_append: "CHR 0x0A \<notin> set a \<Longrightarrow> cutLine (a @ CHR 0x0A # b) = (a, b)"
  by (simp add: cutLine_def takeWhile_append dropWhile_append)

lemma cutLine_line: "CHR 0x0A \<notin> set (fst (cutLine s))"
  by (auto simp: cutLine_def dest: set_takeWhileD)

lemma parse_rows_text:
  "\<forall>r \<in> set rows. row_clean r \<Longrightarrow> length out \<le> 16 \<Longrightarrow>
     parse_rows (concat (map (\<lambda>r. row_text r @ [CHR 0x0A]) rows)) out = out @ take (16 - length out) rows"
proof (induction rows arbitrary: out)
  case Nil
  then show ?case by (simp add: parse_rows.simps)
next
  case (Cons r rows)
  let ?rest = "concat (map (\<lambda>r. row_text r @ [CHR 0x0A]) rows)"
  have "CHR 0x0A \<notin> set (row_text r)" using Cons.prems by (auto simp: row_clean_def row_text_def)
  then have c: "cutLine (row_text r @ CHR 0x0A # ?rest) = (row_text r, ?rest)" by (rule cutLine_append)
  have p: "parse_row (row_text r) = Some r" using Cons.prems by (simp add: parse_row_text)
  show ?case
  proof (cases "length out \<ge> 16")
    case True
    then show ?thesis using c p Cons.prems by (subst parse_rows.simps) simp
  next
    case False
    then have "parse_rows (row_text r @ CHR 0x0A # ?rest) out = parse_rows ?rest (out @ [r])"
      using c p by (subst parse_rows.simps) simp
    also have "\<dots> = (out @ [r]) @ take (16 - length (out @ [r])) rows"
      using Cons False by (intro Cons.IH) auto
    also have "\<dots> = out @ take (16 - length out) (r # rows)"
      using False Suc_diff_le [of "length out" 15] by simp
    finally show ?thesis by simp
  qed
qed

lemma Parse_Render: "\<forall>r \<in> set rows. row_clean r \<Longrightarrow> Parse (Render rows) = Some (take 16 rows)"
proof -
  assume c: "\<forall>r \<in> set rows. row_clean r"
  have h: "header_ok ''#v2''" by (simp add: header_ok_def hasPrefix_def undec_def digit_val_def)
  have "string_of (Render rows) = ''#v2'' @ CHR 0x0A # concat (map (\<lambda>r. row_text r @ [CHR 0x0A]) rows)"
    by (simp add: Render_def row_text_def)
  moreover have "cutLine (''#v2'' @ CHR 0x0A # concat (map (\<lambda>r. row_text r @ [CHR 0x0A]) rows))
      = (''#v2'', concat (map (\<lambda>r. row_text r @ [CHR 0x0A]) rows))"
    by (rule cutLine_append) simp
  moreover have "trimCR ''#v2'' = ''#v2''" by (simp add: trimCR_def)
  ultimately show ?thesis using h parse_rows_text [OF c, of "[]"] by (simp add: Parse_def)
qed

lemma parse_rows_clean:
  "\<forall>r \<in> set out. row_clean r \<Longrightarrow> length out \<le> 16 \<Longrightarrow>
     (\<forall>r \<in> set (parse_rows rest out). row_clean r) \<and> length (parse_rows rest out) \<le> 16"
proof (induction rest out rule: parse_rows.induct)
  case (1 rest out)
  obtain line rest' where c: "cutLine rest = (line, rest')" by fastforce
  have nl: "CHR 0x0A \<notin> set line" using cutLine_line [of rest] c by simp
  show ?case
  proof (cases "rest = []")
    case True
    then show ?thesis using 1(3,4) by (simp add: parse_rows.simps)
  next
    case False
    show ?thesis
    proof (cases "parse_row line")
      case None
      then have "parse_rows rest out = parse_rows rest' out"
        using False c by (subst parse_rows.simps) simp
      then show ?thesis using 1(1) [OF False refl c [symmetric] None] 1(3,4) by simp
    next
      case (Some r)
      have "row_clean r" using parse_row_clean [OF Some nl] .
      moreover have "parse_rows rest out = (if length out \<ge> 16 then out else parse_rows rest' (out @ [r]))"
        using False c Some by (subst parse_rows.simps) simp
      ultimately show ?thesis using 1(2) [OF False refl c [symmetric] Some] 1(3,4) by auto
    qed
  qed
qed

lemma Parse_clean: "Parse b = Some rows \<Longrightarrow> (\<forall>r \<in> set rows. row_clean r) \<and> length rows \<le> 16"
  using parse_rows_clean [of "[]"] by (auto simp: Parse_def Let_def split_def split: if_splits)

subsection \<open>Reading and updating a key\<close>

lemma Get_snoc [simp]: "Get (ss @ [s]) key = (if set_Key s = key then Some (set_Val s) else Get ss key)"
  by (simp add: Get_def)

lemma Get_Nil [simp]: "Get [] key = None"
  by (simp add: Get_def)

lemma set_last_spec:
  "n \<le> length ss \<Longrightarrow>
     (case set_last ss key val n of
        None \<Rightarrow> \<forall>i < n. set_Key (ss ! i) \<noteq> key
      | Some ss' \<Rightarrow> \<exists>i < n. set_Key (ss ! i) = key \<and> (\<forall>j. i < j \<and> j < n \<longrightarrow> set_Key (ss ! j) \<noteq> key)
                      \<and> ss' = ss[i := (ss ! i)\<lparr>set_Val := val\<rparr>])"
proof (induction n)
  case (Suc n)
  show ?case
  proof (cases "set_Key (ss ! n) = key")
    case True
    then show ?thesis by (auto intro!: exI [of _ n])
  next
    case False
    then show ?thesis using Suc by (auto simp: less_Suc_eq split: option.splits)
  qed
qed simp


lemma Get_last_match:
  assumes "i < length ss" "set_Key (ss ! i) = key" "\<forall>j. i < j \<and> j < length ss \<longrightarrow> set_Key (ss ! j) \<noteq> key"
  shows "Get ss key = Some (set_Val (ss ! i))"
  using assms
proof (induction ss rule: rev_induct)
  case (snoc s ss)
  show ?case
  proof (cases "i = length ss")
    case True
    then show ?thesis using snoc.prems by simp
  next
    case False
    then have i: "i < length ss" using snoc.prems(1) by simp
    have "set_Key s \<noteq> key" using snoc.prems(3) i by (auto dest: spec [of _ "length ss"])
    moreover have "Get ss key = Some (set_Val (ss ! i))"
    proof (rule snoc.IH)
      show "set_Key (ss ! i) = key" using snoc.prems(2) i by (simp add: nth_append)
      show "\<forall>j. i < j \<and> j < length ss \<longrightarrow> set_Key (ss ! j) \<noteq> key"
        using snoc.prems(3) by (metis less_SucI length_append_singleton nth_append)
    qed (use i in simp)
    ultimately show ?thesis using i by (simp add: nth_append)
  qed
qed simp

lemma Get_other: "\<forall>s \<in> set ss. set_Key s \<noteq> key \<Longrightarrow> Get ss key = None"
  by (induction ss rule: rev_induct) auto

lemma Get_filter:
  "Get ss k = (let xs = filter (\<lambda>s. set_Key s = k) ss in if xs = [] then None else Some (set_Val (last xs)))"
  by (induction ss rule: rev_induct) (auto simp: Let_def)

lemma Get_update_other:
  assumes "i < length ss" "set_Key (ss ! i) \<noteq> k"
  shows "Get (ss[i := (ss ! i)\<lparr>set_Val := val\<rparr>]) k = Get ss k"
proof -
  have "filter (\<lambda>s. set_Key s = k) (ss[i := (ss ! i)\<lparr>set_Val := val\<rparr>])
      = filter (\<lambda>s. set_Key s = k) (take i ss @ ss ! i # drop (Suc i) ss)"
    using assms by (simp add: upd_conv_take_nth_drop)
  also have "\<dots> = filter (\<lambda>s. set_Key s = k) ss" using assms(1) by (simp add: id_take_nth_drop [symmetric])
  finally show ?thesis by (simp add: Get_filter)
qed

subsection \<open>Properties\<close>

text \<open>
  C40. Save and reload are stable: whatever \<^verbatim>\<open>Parse\<close> accepted, rendering the rows and decoding the
  result gives the same rows again, so a panel that rewrites an accepted file changes nothing.
\<close>

theorem settings_reload:
  assumes "Parse b = Some rows"
  shows "Parse (Render rows) = Some rows"
  using Parse_Render [of rows] Parse_clean [OF assms] by simp

theorem settings_reload_witness:
  "Parse (Render [\<lparr>set_Key = ''wm'', set_Val = ''tabwm''\<rparr>]) = Some [\<lparr>set_Key = ''wm'', set_Val = ''tabwm''\<rparr>]"
proof -
  have "Parse (bytes_of (''#v1'' @ [CHR 0x0A] @ '' wm = tabwm'' @ [CHR 0x0A] @ ''# note'')) =
      Some [\<lparr>set_Key = ''wm'', set_Val = ''tabwm''\<rparr>]"
    by code_simp
  then show ?thesis by (rule settings_reload)
qed

text \<open>
  Setting a key and reading: the key reads back as the value set, every other key as before,
  whatever duplicates the file carries.
\<close>

theorem settings_get_set:
  "Get (settings_Set ss key val) k = (if k = key then Some val else Get ss k)"
proof (cases "set_last ss key val (length ss)")
  case None
  then show ?thesis by (simp add: settings_Set_def)
next
  case (Some ss')
  then obtain i where i: "i < length ss" "set_Key (ss ! i) = key"
      "\<forall>j. i < j \<and> j < length ss \<longrightarrow> set_Key (ss ! j) \<noteq> key" "ss' = ss[i := (ss ! i)\<lparr>set_Val := val\<rparr>]"
    using set_last_spec [of "length ss" ss key val] by auto
  show ?thesis
  proof (cases "k = key")
    case True
    have "Get ss' key = Some (set_Val (ss' ! i))"
      by (rule Get_last_match) (use i in \<open>auto simp: nth_list_update\<close>)
    then show ?thesis using True Some i by (simp add: settings_Set_def)
  next
    case False
    then have "Get ss' k = Get ss k" using i Get_update_other [of i ss k val] by simp
    then show ?thesis using False Some by (simp add: settings_Set_def)
  qed
qed

text \<open>
  A key added to a full file is lost on the next load: \<^verbatim>\<open>Set\<close> appends a seventeenth row and
  \<^verbatim>\<open>Save\<close> publishes it, but \<^verbatim>\<open>Parse\<close> stops at sixteen, so the reloaded file is the old one.
\<close>

theorem settings_full_loses_key:
  assumes "Parse b = Some rows" "length rows = 16" "Get rows key = None"
    and "row_clean \<lparr>set_Key = key, set_Val = val\<rparr>"
  shows "Parse (Render (settings_Set rows key val)) = Some rows"
proof -
  have "set_last rows key val (length rows) = None"
  proof (rule ccontr)
    assume "set_last rows key val (length rows) \<noteq> None"
    then obtain ss' where "set_last rows key val (length rows) = Some ss'" by blast
    then obtain i where "i < length rows" "set_Key (rows ! i) = key"
        "\<forall>j. i < j \<and> j < length rows \<longrightarrow> set_Key (rows ! j) \<noteq> key"
      using set_last_spec [of "length rows" rows key val] by auto
    then show False using Get_last_match assms(3) by fastforce
  qed
  then have "settings_Set rows key val = rows @ [\<lparr>set_Key = key, set_Val = val\<rparr>]"
    by (simp add: settings_Set_def)
  moreover have "\<forall>r \<in> set (rows @ [\<lparr>set_Key = key, set_Val = val\<rparr>]). row_clean r"
    using assms(4) Parse_clean [OF assms(1)] by simp
  ultimately show ?thesis using Parse_Render assms(2) by simp
qed


definition sixteen_rows :: "setting list" where
  "sixteen_rows = map (\<lambda>i. \<lparr>set_Key = [char_of (97 + i)], set_Val = ''1''\<rparr>) [0..<16]"

theorem settings_full_loses_key_witness:
  "Parse (Render (settings_Set sixteen_rows ''wm'' ''tabwm'')) = Some sixteen_rows"
proof (rule settings_full_loses_key)
  show "Parse (Render sixteen_rows) = Some sixteen_rows" by code_simp
  show "length sixteen_rows = 16" by (simp add: sixteen_rows_def)
  show "Get sixteen_rows ''wm'' = None" by code_simp
  show "row_clean \<lparr>set_Key = ''wm'', set_Val = ''tabwm''\<rparr>" by code_simp
qed

lemma hex_val_digit: "n < 16 \<Longrightarrow> hex_val (hex_digit n) = Some (of_nat n)"
proof -
  have "\<forall>n \<in> set [0..<16]. hex_val (hex_digit n) = Some (of_nat n)" by code_simp
  then show "n < 16 \<Longrightarrow> ?thesis" by simp
qed

lemma hex_val_nibble: "hex_val (hex_digit (unat (v AND 0xf))) = Some (v AND 0xf)" for v :: u32
proof -
  have "v AND 0xf \<le> 0xf" by (rule word_and_le1)
  then have "unat (v AND 0xf) \<le> unat (0xf :: u32)" by (simp only: word_le_nat_alt)
  then show ?thesis by (simp add: hex_val_digit)
qed

lemma push_or_nibble: "push_bit 4 (drop_bit 4 v AND mask n) OR (v AND mask 4) = v AND mask (n + 4)" for v :: u32
  by (rule bit_eqI) (auto simp: bit_simps simp del: take_bit_eq_mask)

lemma colour_hex_loop: "colour_loop (hex_loop k v acc) 0 = colour_loop acc (v AND mask (4 * k))"
proof (induction k arbitrary: v acc)
  case (Suc k)
  have "(0xf :: u32) = mask 4" by (simp add: mask_eq_exp_minus_1)
  then show ?case using push_or_nibble [of v "4 * k"] by (simp add: Suc hex_val_nibble add.commute)
qed simp

text \<open>
  The palette colours read back: the six digits \<^verbatim>\<open>theme.Hex6\<close> prints for a colour are accepted by
  \<^verbatim>\<open>settings.Colour\<close> and give its 24 bits.
\<close>

theorem colour_of_hex6: "Colour (drop 2 (Hex6 v)) = Some (v AND 0xffffff)"
proof -
  have "Colour (drop 2 (Hex6 v)) = colour_loop (hex_loop 6 v []) 0"
    by (simp add: Colour_def Hex6_def numeral_eq_Suc)
  moreover have "(mask (4 * 6) :: u32) = 0xffffff" by (simp add: mask_eq_exp_minus_1)
  ultimately show ?thesis by (simp add: colour_hex_loop)
qed

end
