(* ===== verification/SeatLoop.thy ===== *)
theory SeatLoop
  imports SeatInput Settings
begin

text \<open>
  The life of the seat process (\<^verbatim>\<open>gotabwm/seat.go\<close>): one composite tick with its painting, its
  presentation and, in demo mode, the choreography; the drain of the event queue; the sweep of the
  remaining tabs; start-up with the settings (\<^verbatim>\<open>gotabwm/settings.go\<close>), the seat's own window
  (\<^verbatim>\<open>gotabwm/windows.go\<close>) and the restored session (\<^verbatim>\<open>gotabwm/session.go\<close>); and \<^verbatim>\<open>main\<close>.

  \<^verbatim>\<open>main\<close>'s loop ends in demo mode when its budget is used up and runs until the process is killed in
  live mode; it is modelled with fuel and reports whether it ended.
\<close>

subsection \<open>The ticks of the panels\<close>

definition on_scan :: "(seat \<Rightarrow> pixels \<Rightarrow> nat \<times> pixels) \<Rightarrow> nat seat_m" where
  "on_scan f = State (\<lambda>s. let r = f s (st_scan s) in (fst r, s\<lparr>st_scan := snd r\<rparr>))"

lemma run_on_scan [simp]:
  "run_state (on_scan f) s = (fst (f s (st_scan s)), s\<lparr>st_scan := snd (f s (st_scan s))\<rparr>)"
  by (simp add: on_scan_def Let_def)

definition notifyTick :: "world \<Rightarrow> u64 \<Rightarrow> unit seat_m" where
  "notifyTick W ticks = do {
     gone \<leftarrow> on_notify (\<lambda>n. notifyExpire n ticks);
     for_each gone (\<lambda>wid. say W (''gotabwm: notify dismiss id='' @ itoa_id wid))
   }"

fun source_name :: "clock_source \<Rightarrow> string" where
  "source_name ClockKernel = ''kernel''"
| "source_name ClockHost = ''host''"
| "source_name ClockUptime = ''uptime''"

definition chromeTick :: "world \<Rightarrow> u64 \<Rightarrow> unit seat_m" where
  "chromeTick W ticks = do {
     now \<leftarrow> kdo W KTime;
     clockfile \<leftarrow> (if now \<le> 0 then ReadFileAll W ''/host/.clock'' 64 else ret None);
     let shown = clockNow now clockfile ticks;
     let face = (case fst shown of (h, m, s) \<Rightarrow> formatClock (sint h) (sint m) (sint s));
     _ \<leftarrow> on_scan (\<lambda>s p. paintChrome (st_theme s) (w_font W) p ScanoutWidth ScanoutHeight face);
     logged \<leftarrow> gets st_chromeLogged;
     if logged then ret ()
     else do {
       modify (\<lambda>s. s\<lparr>st_chromeLogged := True\<rparr>);
       say W (''gotabwm: clock-source '' @ source_name (snd shown));
       say W (''gotabwm: clock '' @ face)
     }
   }"

definition startSurfaceTick :: "world \<Rightarrow> unit seat_m" where
  "startSurfaceTick W = do {
     n \<leftarrow> on_scan (\<lambda>s p. paintStartSurface (st_theme s) (w_font W) p ScanoutWidth ScanoutHeight);
     logged \<leftarrow> gets st_startLogged;
     if n = 0 \<or> logged then ret ()
     else do {
       modify (\<lambda>s. s\<lparr>st_startLogged := True\<rparr>);
       say W ''gotabwm: start-surface''
     }
   }"

definition markRail :: "world \<Rightarrow> unit seat_m" where
  "markRail W = do {
     s \<leftarrow> gets id;
     let n = ts_count (st_tabs s);
     let f = (case Focused (st_tabs s) of None \<Rightarrow> 0 | Some wid \<Rightarrow> wid);
     if n = 0 \<or> st_railMarked s \<and> n = st_lastRailN s \<and> f = st_lastRailFocus s then ret ()
     else do {
       modify (\<lambda>s. s\<lparr>st_railMarked := True, st_lastRailN := n, st_lastRailFocus := f\<rparr>);
       say W (''gotabwm: rail n='' @ itoa_n n @ '' focus='' @ itoa_id f)
     }
   }"

subsection \<open>The composite tick\<close>

abbreviation (input) hidChordHold :: nat where "hidChordHold \<equiv> 64"
abbreviation (input) maxTicks :: nat where "maxTicks \<equiv> 120"
abbreviation (input) maxEvents :: nat where "maxEvents \<equiv> 500"

definition composite_paint :: "world \<Rightarrow> u64 \<Rightarrow> unit seat_m" where
  "composite_paint W ticks = do {
     modify (\<lambda>s. s\<lparr>st_seatTick := ticks\<rparr>);
     say W ''gotabwm: tick'';
     n \<leftarrow> gets (\<lambda>s. ts_count (st_tabs s));
     (if n = 0 then do {
        _ \<leftarrow> on_scan (\<lambda>s p. paintBlank p (tok_Bg (st_theme s)));
        startSurfaceTick W
      } else do {
        _ \<leftarrow> on_scan (\<lambda>s p. paintRail (st_theme s) (w_font W) p ScanoutWidth ScanoutHeight RailHeight
               (st_tabs s) (st_railHover s));
        markRail W
      });
     chromeTick W ticks;
     lopen \<leftarrow> gets (\<lambda>s. l_open (st_launch s));
     (if lopen then do {
        _ \<leftarrow> on_scan (\<lambda>s p. paintLauncher (st_theme s) (st_launch s) p ScanoutWidth ScanoutHeight);
        ret ()
      } else ret ());
     notifyTick W ticks;
     painted \<leftarrow> on_scan (\<lambda>s p. paintNotify (st_theme s) (w_font W) (st_notify s) p ScanoutWidth ScanoutHeight ticks);
     r \<leftarrow> kdo W WmctlRequestPresent;
     (if r = 0 then do {
        modify (\<lambda>s. s\<lparr>st_presents := st_presents s + 1\<rparr>);
        p \<leftarrow> gets st_presents;
        if p = 1 then say W ''gotabwm: present'' else ret ()
      } else ret ());
     line \<leftarrow> on_notify (\<lambda>n. notifyPaintMarker n (painted > 0 \<and> r = 0));
     case line of
       None \<Rightarrow> ret ()
     | Some wid \<Rightarrow> say W (''gotabwm: notify paint id='' @ itoa_id wid)
   }"

text \<open>The steps of the two-tab choreography, numbered as \<^verbatim>\<open>stripStep\<close>.\<close>

definition strip_step_at :: "world \<Rightarrow> nat \<Rightarrow> unit seat_m" where
  "strip_step_at W k =
     (if k = 1 then do { _ \<leftarrow> applySwapUnpinned W; ret () }
      else if k = 2 then do {
        ok \<leftarrow> applyPinStay W;
        if ok then do { _ \<leftarrow> writeSession W; ret () } else ret ()
      }
      else if k = 3 then do { _ \<leftarrow> applySplit W SplitVert; ret () }
      else if k = 4 then do { _ \<leftarrow> applyUnsplit W; ret () }
      else if k = 5 then do { _ \<leftarrow> applySplit W SplitHoriz; ret () }
      else if k = 6 then do { _ \<leftarrow> applyUnsplit W; ret () }
      else if k = 7 then do {
        _ \<leftarrow> closePinnedFirst W;
        modify (\<lambda>s. s\<lparr>st_stripClosedOne := True,
          st_stripDone := (if ts_count (st_tabs s) = 0 then True else st_stripDone s)\<rparr>)
      }
      else do {
        _ \<leftarrow> closeHosted W;
        modify (\<lambda>s. s\<lparr>st_stripDone := True\<rparr>)
      })"

definition choreography :: "world \<Rightarrow> unit seat_m" where
  "choreography W = do {
     s \<leftarrow> gets id;
     let n = ts_count (st_tabs s);
     if n \<ge> 2 \<or> st_stripSawTwo s then do {
       modify (\<lambda>s. if st_stripSawTwo s then s
         else s\<lparr>st_stripSawTwo := True, st_stripStep := 0, st_stripHoldLeft := hidChordHold\<rparr>);
       hold \<leftarrow> gets st_stripHoldLeft;
       if hold > 0 then modify (\<lambda>s. s\<lparr>st_stripHoldLeft := st_stripHoldLeft s - 1\<rparr>)
       else do {
         modify (\<lambda>s. s\<lparr>st_stripStep := st_stripStep s + 1\<rparr>);
         k \<leftarrow> gets st_stripStep;
         strip_step_at W k
       }
     }
     else if n = 1 then do {
       modify (\<lambda>s. s\<lparr>st_hostTicksLeft := st_hostTicksLeft s - 1\<rparr>);
       left \<leftarrow> gets st_hostTicksLeft;
       if left \<le> 0 then do {
         _ \<leftarrow> closeHosted W;
         modify (\<lambda>s. s\<lparr>st_stripDone := True\<rparr>)
       } else ret ()
     }
     else ret ()
   }"

definition compositeTick :: "world \<Rightarrow> u64 \<Rightarrow> unit seat_m" where
  "compositeTick W ticks = do {
     composite_paint W ticks;
     s \<leftarrow> gets id;
     if st_stripDone s \<or> \<not> st_demo s then ret () else choreography W
   }"

subsection \<open>Events\<close>

abbreviation (input) EvCompositeTick :: u16 where "EvCompositeTick \<equiv> 18"
abbreviation (input) EvWmPointer :: u16 where "EvWmPointer \<equiv> 19"
abbreviation (input) EvWmKey :: u16 where "EvWmKey \<equiv> 21"

definition consumeSeatEvent :: "world \<Rightarrow> ui_event \<Rightarrow> bool seat_m" where
  "consumeSeatEvent W e =
     (if ev_kind e = EvWmPointer then do {
        say W ''gotabwm: ptr'';
        handleWmPointer W e;
        ret False
      }
      else if ev_kind e = EvWmKey then do {
        say W ''gotabwm: key'';
        handleWmKey W e;
        lopen \<leftarrow> gets (\<lambda>s. l_open (st_launch s));
        (if lopen then ret () else do { _ \<leftarrow> kdo W (KSleep 1); ret () });
        ret False
      }
      else ret (ev_kind e = EvCompositeTick))"

definition hidMarker :: "u16 \<Rightarrow> string" where
  "hidMarker kind = (if kind = EvWmPointer then ''gotabwm: ptr'' else if kind = EvWmKey then ''gotabwm: key'' else [])"

text \<open>\<^verbatim>\<open>drainSeatEvents\<close>: \<open>step\<close> is its \<^verbatim>\<open>consumeEvent\<close> closure, the result the number consumed.\<close>

fun drain_queue :: "world \<Rightarrow> (ui_event \<Rightarrow> bool seat_m) \<Rightarrow> nat \<Rightarrow> nat \<Rightarrow> nat seat_m" where
  "drain_queue W step 0 events = ret events"
| "drain_queue W step (Suc left) events = do {
     e \<leftarrow> PollEvent W;
     case e of
       None \<Rightarrow> ret events
     | Some ev \<Rightarrow> do {
         go \<leftarrow> step ev;
         if go then drain_queue W step left (events + 1) else ret (events + 1)
       }
   }"

definition drainSeatEvents ::
  "world \<Rightarrow> ui_event \<Rightarrow> (ui_event \<Rightarrow> bool seat_m) \<Rightarrow> int \<Rightarrow> bool seat_m \<Rightarrow> nat seat_m" where
  "drainSeatEvents W first consume bound onTick =
     (let step = (\<lambda>e. do { tick \<leftarrow> consume e; if tick then onTick else ret True }) in
      if bound < 1 then ret 0
      else do {
        go \<leftarrow> step first;
        if go then drain_queue W step (nat bound - 1) 1 else ret 1
      })"

text \<open>The tick callback of \<^verbatim>\<open>main\<close>.\<close>

definition main_tick :: "world \<Rightarrow> nat \<Rightarrow> bool seat_m" where
  "main_tick W tickLimit = do {
     s \<leftarrow> gets id;
     if st_demo s \<and> st_ticks s \<ge> tickLimit then ret False
     else do {
       modify (\<lambda>s. s\<lparr>st_ticks := st_ticks s + 1\<rparr>);
       t \<leftarrow> gets st_ticks;
       compositeTick W (of_nat t);
       s \<leftarrow> gets id;
       (if \<not> st_demo s \<and> t = maxTicks + 1
        then say W (''gotabwm: live steady tabs='' @ itoa_n (ts_count (st_tabs s))) else ret ());
       ret (\<not> st_demo s \<or> t < tickLimit)
     }
   }"

subsection \<open>The sweep\<close>

text \<open>
  Each round of the first loop of \<^verbatim>\<open>sweepHosted\<close> removes a tab or passes one, each round of the second
  closes one, so as many rounds as there are tabs are enough; the results say whether the loops ended.
\<close>

fun sweep_restored :: "world \<Rightarrow> nat \<Rightarrow> nat \<Rightarrow> bool seat_m" where
  "sweep_restored W fuel i = do {
     t \<leftarrow> gets st_tabs;
     if i < ts_count t then
       case fuel of
         0 \<Rightarrow> ret False
       | Suc k \<Rightarrow>
           if tab_ID (At t (int i)) \<ge> sessionIDBase
           then do { _ \<leftarrow> CloseTab W (tab_ID (At t (int i))); sweep_restored W k i }
           else sweep_restored W k (i + 1)
     else ret True
   }"

declare sweep_restored.simps [simp del]

fun sweep_live :: "world \<Rightarrow> nat \<Rightarrow> bool seat_m" where
  "sweep_live W fuel = do {
     n \<leftarrow> gets (\<lambda>s. ts_count (st_tabs s));
     if n > 0 then
       case fuel of
         0 \<Rightarrow> ret False
       | Suc k \<Rightarrow> do {
           ok \<leftarrow> closeHosted W;
           if \<not> ok then ret True else sweep_live W k
         }
     else ret True
   }"

declare sweep_live.simps [simp del]

definition sweepHosted :: "world \<Rightarrow> bool seat_m" where
  "sweepHosted W = do {
     n \<leftarrow> gets (\<lambda>s. ts_count (st_tabs s));
     a \<leftarrow> sweep_restored W n 0;
     m \<leftarrow> gets (\<lambda>s. ts_count (st_tabs s));
     b \<leftarrow> sweep_live W m;
     ret (a \<and> b)
   }"

subsection \<open>Start-up\<close>

definition detectDemo :: "world \<Rightarrow> bool seat_m" where
  "detectDemo W = do { r \<leftarrow> kdo W (KProbe ''/host/GOTABWM.DEMO''); ret (r \<ge> 0) }"

definition loadSettings :: "world \<Rightarrow> string seat_m" where
  "loadSettings W = do {
     body \<leftarrow> ReadFileAll W ''/host/SETTINGS.TXT'' 2049;
     let f = Load body;
     if file_State f = StateCorrupt then do {
       say W ''gotabwm: settings bad'';
       ret ''gotabwm''
     } else do {
       let wm = (case Effective f ''wm'' of Some v \<Rightarrow> v | None \<Rightarrow> ''gotabwm'');
       (case Get (file_Rows f) ''theme'' of
          Some v \<Rightarrow> modify (\<lambda>s. s\<lparr>st_theme := snd (theme_Set (st_theme s) v)\<rparr>)
        | None \<Rightarrow> ret ());
       say W (''gotabwm: settings wm='' @ wm @ '' keys='' @ itoa_n (length (file_Rows f)));
       ret wm
     }
   }"

definition emitTokens :: "world \<Rightarrow> unit seat_m" where
  "emitTokens W = do {
     t \<leftarrow> gets st_theme;
     say W (''gotabwm: tokens theme='' @ theme_Name t @ '' bg='' @ Hex6 (tok_Bg t) @ '' surface='' @ Hex6 (tok_Surface t)
       @ '' border='' @ Hex6 (tok_Border t) @ '' accent='' @ Hex6 (tok_Accent t))
   }"

datatype session_state = SessionMissing | SessionRestored | SessionCorrupt

text \<open>\<^verbatim>\<open>restoreSessionBytes\<close> on what \<^verbatim>\<open>ReadFileAll\<close> returned: the sequence number, the verdict, the strip.\<close>

definition restoreSessionBytes :: "strip \<Rightarrow> bytes option \<Rightarrow> (u16 \<times> session_state) \<times> strip" where
  "restoreSessionBytes t body =
     (case body of
        None \<Rightarrow> ((0, SessionMissing), t)
      | Some b \<Rightarrow>
          (case applyTabsV2 t b of
             (None, t') \<Rightarrow> ((0, SessionCorrupt), t')
           | (Some seq, t') \<Rightarrow> ((seq, SessionRestored), t')))"

definition sessionTitlesLine :: "strip \<Rightarrow> string" where
  "sessionTitlesLine t =
     join_comma (map tab_Title (open_tabs t)) @ '' pin=''
     @ join_comma (map (\<lambda>u. if tab_Pinned u then ''1'' else ''0'') (open_tabs t))
     @ '' active='' @ dec (if ts_count t > 0 then word_of_int (ts_focus t) else 0)"

abbreviation (input) tabsV2MaxBytes :: nat where "tabsV2MaxBytes \<equiv> 6 + 16 * 69"

definition loadSession :: "world \<Rightarrow> session_state seat_m" where
  "loadSession W = do {
     body \<leftarrow> ReadFileAll W sessionPath tabsV2MaxBytes;
     (seq, state) \<leftarrow> on_tabs (\<lambda>t. restoreSessionBytes t body);
     if state = SessionMissing then ret state
     else if state = SessionCorrupt then do { say W ''gotabwm: session bad''; ret state }
     else do {
       modify (\<lambda>s. s\<lparr>st_sessionSeq := seq + 1\<rparr>);
       t \<leftarrow> gets st_tabs;
       if ts_count t = 0 then ret state
       else do {
         modify (\<lambda>s. s\<lparr>st_hosted := 0, st_stripDone := True\<rparr>);
         say W (''gotabwm: session load n='' @ itoa_n (ts_count t) @ '' mode=restore'');
         say W (''gotabwm: session titles='' @ sessionTitlesLine t);
         say W (''gotabwm: session freeze n='' @ itoa_n (FrozenCount t));
         dumpOrder W;
         _ \<leftarrow> writeLayoutFile W;
         ret state
       }
     }
   }"

definition firstBootWorkspace :: "session_state \<Rightarrow> string \<Rightarrow> bool" where
  "firstBootWorkspace state wm \<longleftrightarrow> state = SessionMissing \<and> wm = ''gotabwm''"

definition hasLiveGuestELF :: "proc_row list \<Rightarrow> bool" where
  "hasLiveGuestELF rows \<longleftrightarrow> (\<exists>row \<in> set rows.
     (row_state row = ProcCreated \<or> row_state row = ProcRunning)
     \<and> row_Name row \<noteq> ''GOTABWM.ELF'' \<and> length (row_Name row) > 4
     \<and> drop (length (row_Name row) - 4) (row_Name row) = ''.ELF'')"

definition anotherGuestProgram :: "world \<Rightarrow> bool seat_m" where
  "anotherGuestProgram W = State (\<lambda>s.
     let (rows, r) = w_procs W (st_log s)
     in (r \<ge> 0 \<and> hasLiveGuestELF (take 64 rows), s\<lparr>st_log := (KProcs, r) # st_log s\<rparr>))"

definition errno_Error :: "int \<Rightarrow> string" where
  "errno_Error e =
     (if 1 \<le> e \<and> e \<le> 12
      then [''EINVAL'', ''EBADF'', ''EFAULT'', ''ENOSYS'', ''ENOSPC'', ''ENOENT'', ''EACCES'', ''ENAMETOOLONG'',
            ''ENXIO'', ''ENOMEM'', ''EAGAIN'', ''ETIMEDOUT''] ! nat (e - 1)
      else ''EIO'')"

subsection \<open>The seat's own window\<close>

definition fillBorderChrome :: "tokens \<Rightarrow> bytes" where
  "fillBorderChrome tok =
     put_le32 1 @ put_le32 0 @ put_le32 (tok_Accent tok) @ put_le32 (tok_Border tok) @ put_le32 (tok_Bg tok)
     @ put_le32 (tok_Text tok) @ put_le32 (tok_Accent tok) @ put_le32 (tok_Danger tok) @ put_le32 (tok_Muted tok)
     @ put_le32 (tok_Muted tok)"

text \<open>\<^verbatim>\<open>waitKind\<close>: at most two hundred polls.\<close>

fun wait_kind :: "world \<Rightarrow> u16 \<Rightarrow> nat \<Rightarrow> bool seat_m" where
  "wait_kind W kind 0 = ret False"
| "wait_kind W kind (Suc left) = do {
     e \<leftarrow> PollEvent W;
     case e of
       Some ev \<Rightarrow> if ev_kind ev = kind then ret True else wait_kind W kind left
     | None \<Rightarrow> do { _ \<leftarrow> kdo W (KSleep 1); wait_kind W kind left }
   }"

definition waitKind :: "world \<Rightarrow> u16 \<Rightarrow> bool seat_m" where
  "waitKind W kind = wait_kind W kind 200"

definition WinQuery :: "world \<Rightarrow> u32 \<Rightarrow> (u32 list \<times> int) seat_m" where
  "WinQuery W wid = State (\<lambda>s.
     let r = w_ret W (st_log s) (KWinQuery wid)
     in ((w_query W (st_log s) wid, r), s\<lparr>st_log := (KWinQuery wid, r) # st_log s\<rparr>))"

text \<open>A step that must succeed: say the failure and stop, or go on.\<close>

definition need :: "world \<Rightarrow> bool \<Rightarrow> string \<Rightarrow> bool seat_m \<Rightarrow> bool seat_m" where
  "need W ok failure rest = (if ok then rest else do { say W failure; ret False })"

definition itoa_r :: "int \<Rightarrow> string" where
  "itoa_r r = Itoa64 (word_of_int r)"

definition runWindowPhase :: "world \<Rightarrow> bool seat_m" where
  "runWindowPhase W = do {
     m \<leftarrow> kdo W (KMap 4096);
     tok \<leftarrow> gets st_theme;
     need W (m \<ge> 0) (''gotabwm: win scratch failed '' @ errno_Error (- m)) (do {
     r \<leftarrow> kdo W (KWinOpen 24 16 256 192);
     need W (r \<ge> 0) (''gotabwm: win open failed '' @ itoa_r r) (do {
     let wid = (word_of_int r :: u32);
     say W (''gotabwm: win open id='' @ itoa_r r);
     c \<leftarrow> kdo W (KChrome wid (fillBorderChrome tok));
     need W (c = 0) (''gotabwm: win chrome failed '' @ itoa_r c) (do {
     say W ''gotabwm: win chrome'';
     c2 \<leftarrow> kdo W (WmctlSetWindowRect wid 4000 3000 256 192);
     need W (c2 = 0) (''gotabwm: win rect failed '' @ itoa_r c2) (do {
     (st, q) \<leftarrow> WinQuery W wid;
     need W (q \<ge> 0) (''gotabwm: win query failed '' @ itoa_r q) (do {
     say W (''gotabwm: win rect x='' @ itoa_id (st ! 0) @ '' y='' @ itoa_id (st ! 1)
       @ '' w='' @ itoa_id (st ! 2) @ '' h='' @ itoa_id (st ! 3));
     f \<leftarrow> waitKind W EvWinFocus;
     need W f ''gotabwm: win focus timeout'' (do {
     say W ''gotabwm: win focus'';
     b \<leftarrow> waitKind W EvWinBlur;
     need W b ''gotabwm: win blur timeout'' (do {
     say W ''gotabwm: win blur'';
     c3 \<leftarrow> kdo W (WmctlWinClose wid);
     need W (c3 = 0) (''gotabwm: win close failed '' @ itoa_r c3) (do {
     k \<leftarrow> waitKind W EvWinClose;
     need W k ''gotabwm: win close timeout'' (do {
     say W ''gotabwm: win close'';
     (_, g) \<leftarrow> WinQuery W wid;
     need W (g < 0) ''gotabwm: win gone FAILED'' (do {
     say W ''gotabwm: win gone'';
     l \<leftarrow> kdo W (KWinOpen 8 8 96 64);
     need W (l \<ge> 0) (''gotabwm: win leak open failed '' @ itoa_r l) (do {
     say W (''gotabwm: win leak id='' @ itoa_r l);
     ret True
     })})})})})})})})})})})}"

subsection \<open>Main\<close>

text \<open>
  The composite loop: one iteration, and the loop with fuel, which returns whether the loop condition
  became false.
\<close>

definition main_iter :: "world \<Rightarrow> nat \<Rightarrow> nat \<Rightarrow> nat seat_m" where
  "main_iter W tickLimit events = do {
     _ \<leftarrow> serviceRPC W;
     e \<leftarrow> PollEvent W;
     case e of
       None \<Rightarrow> do { _ \<leftarrow> kdo W (KSleep 1); ret events }
     | Some ev \<Rightarrow> do {
         demo \<leftarrow> gets st_demo;
         n \<leftarrow> drainSeatEvents W ev (consumeSeatEvent W)
               (if demo then int maxEvents - int events else int maxEvents) (main_tick W tickLimit);
         ret (events + n)
       }
   }"

fun main_loop :: "world \<Rightarrow> nat \<Rightarrow> nat \<Rightarrow> nat \<Rightarrow> bool seat_m" where
  "main_loop W tickLimit fuel events = do {
     s \<leftarrow> gets id;
     if \<not> st_demo s \<or> events < maxEvents \<and> st_ticks s < tickLimit then
       case fuel of
         0 \<Rightarrow> ret False
       | Suc k \<Rightarrow> do { n \<leftarrow> main_iter W tickLimit events; main_loop W tickLimit k n }
     else ret True
   }"

declare main_loop.simps [simp del]

text \<open>The end of \<^verbatim>\<open>main\<close>, after the loop: sweep, report, exit status.\<close>

definition main_exit :: "world \<Rightarrow> nat seat_m" where
  "main_exit W = do {
     _ \<leftarrow> sweepHosted W;
     say W ''gotabwm: host done'';
     s \<leftarrow> gets id;
     (if st_dogfood s then say W ''dogfood: ok'' else ret ());
     say W ''gotabwm: close'';
     if st_presents s = 0 then do { say W ''gotabwm: no present''; ret 5 }
     else if st_ticks s = 0 then do { say W ''gotabwm: no tick''; ret 6 }
     else do { say W ''gotabwm OK''; ret 0 }
   }"

text \<open>Start-up up to the loop: the exit status of a failed start, or the tick limit.\<close>

definition main_start :: "world \<Rightarrow> (nat + nat) seat_m" where
  "main_start W = do {
     r \<leftarrow> kdo W WmctlRegister;
     if r \<noteq> 0 then do { say W (''gotabwm: register failed '' @ itoa_r r); ret (Inl 2) }
     else do {
     say W ''gotabwm: registered'';
     r2 \<leftarrow> kdo W WmctlRegister;
     if r2 \<noteq> -7 then do { say W (''gotabwm: seat-taken FAILED '' @ itoa_r r2); ret (Inl 3) }
     else do {
     say W ''gotabwm: seat-taken'';
     say W ''dogfood: seat'';
     m \<leftarrow> kdo W (KMap 3686400);
     if m < 0 then do { say W (''gotabwm: scanout failed '' @ errno_Error (- m)); ret (Inl 4) }
     else do {
     say W ''gotabwm: scanout'';
     modify (\<lambda>s. s\<lparr>st_scan := w_scan W\<rparr>);
     _ \<leftarrow> on_scan (\<lambda>s p. paintBlank p (tok_Bg (st_theme s)));
     say W ''gotabwm: draw'';
     say W ''gotabwm: holding seat'';
     wm \<leftarrow> loadSettings W;
     emitTokens W;
     demo \<leftarrow> detectDemo W;
     modify (\<lambda>s. s\<lparr>st_demo := demo\<rparr>);
     say W (if demo then ''gotabwm: mode demo'' else ''gotabwm: mode live'');
     ok \<leftarrow> runWindowPhase W;
     if \<not> ok then ret (Inl 7)
     else do {
     state \<leftarrow> loadSession W;
     other \<leftarrow> (if firstBootWorkspace state wm then anotherGuestProgram W else ret True);
     started \<leftarrow> (if firstBootWorkspace state wm \<and> \<not> other then do {
         x \<leftarrow> kdo W (KExec ''GOSH.ELF'');
         if x \<ge> 0 then do { say W ''gotabwm: first-boot workspace''; ret True }
         else do { say W (''gotabwm: first-boot workspace failed '' @ errno_Error (- x)); ret False }
       } else ret False);
     ret (Inr (if started then maxTicks + 16 else maxTicks))
     }}}}
   }"

definition seat_main :: "world \<Rightarrow> nat \<Rightarrow> nat option seat_m" where
  "seat_main W fuel = do {
     st \<leftarrow> main_start W;
     case st of
       Inl status \<Rightarrow> ret (Some status)
     | Inr tickLimit \<Rightarrow> do {
         ended \<leftarrow> main_loop W tickLimit fuel 0;
         if ended then do { x \<leftarrow> main_exit W; ret (Some x) } else ret None
       }
   }"


subsection \<open>The loop keeps the invariant\<close>

lemma inv_on_scan [seat_rules]: "state_io_rel inv_kept (on_scan f)"
  by (simp add: state_io_rel_def inv_kept_def seat_inv_def)

lemma same_on_scan [seat_rules]: "(\<And>s p. g (s\<lparr>st_scan := p\<rparr>) = g s) \<Longrightarrow> state_io_rel (same g) (on_scan f)"
  by (simp add: state_io_rel_def same_def)

lemma calls_on_scan [seat_rules]: "state_io_rel (calls_in Q) (on_scan f)"
  by (simp add: state_io_rel_def calls_none)

lemma inv_notifyTick [seat_rules]: "state_io_rel inv_kept (notifyTick W t)"
  unfolding notifyTick_def by (intro seat_rules)

lemma inv_chromeTick [seat_rules]: "state_io_rel inv_kept (chromeTick W t)"
  unfolding chromeTick_def Let_def by (intro seat_rules) (simp_all add: seat_inv_def)

lemma inv_startSurfaceTick [seat_rules]: "state_io_rel inv_kept (startSurfaceTick W)"
  unfolding startSurfaceTick_def by (intro seat_rules) (simp_all add: seat_inv_def)

lemma inv_markRail [seat_rules]: "state_io_rel inv_kept (markRail W)"
  unfolding markRail_def by (intro seat_rules) (simp_all add: seat_inv_def)

lemma inv_composite_paint [seat_rules]: "state_io_rel inv_kept (composite_paint W t)"
  unfolding composite_paint_def by (intro seat_rules) (simp_all add: seat_inv_def)

lemma inv_strip_step_at [seat_rules]: "state_io_rel inv_kept (strip_step_at W k)"
  unfolding strip_step_at_def by (intro seat_rules) (simp_all add: seat_inv_def)

lemma inv_choreography [seat_rules]: "state_io_rel inv_kept (choreography W)"
  unfolding choreography_def by (intro seat_rules) (auto simp: seat_inv_def)

lemma inv_compositeTick [seat_rules]: "state_io_rel inv_kept (compositeTick W t)"
  unfolding compositeTick_def by (intro seat_rules)

lemma inv_consumeSeatEvent [seat_rules]: "state_io_rel inv_kept (consumeSeatEvent W e)"
  unfolding consumeSeatEvent_def by (intro seat_rules)

lemma inv_main_tick [seat_rules]: "state_io_rel inv_kept (main_tick W n)"
  unfolding main_tick_def by (intro seat_rules) (simp_all add: seat_inv_def)

lemma inv_drain_queue:
  "(\<And>e. state_io_rel inv_kept (step e)) \<Longrightarrow> state_io_rel inv_kept (drain_queue W step left events)"
  by (induction left arbitrary: events) (simp_all, (intro seat_rules | simp)+)

lemma inv_drainSeatEvents [seat_rules]:
  "(\<And>e. state_io_rel inv_kept (consume e)) \<Longrightarrow> state_io_rel inv_kept onTick
     \<Longrightarrow> state_io_rel inv_kept (drainSeatEvents W first consume bound onTick)"
  unfolding drainSeatEvents_def Let_def by (intro seat_rules inv_drain_queue) simp_all

lemma inv_sweep_restored [seat_rules]: "state_io_rel inv_kept (sweep_restored W fuel i)"
proof (induction fuel arbitrary: i)
  case 0
  show ?case by (subst sweep_restored.simps) (intro seat_rules, simp, rule seat_rules)
next
  case (Suc fuel)
  show ?case
    by (subst sweep_restored.simps, unfold nat.case) (intro seat_rules Suc)
qed

lemma inv_sweep_live [seat_rules]: "state_io_rel inv_kept (sweep_live W fuel)"
proof (induction fuel)
  case 0
  show ?case by (subst sweep_live.simps) (intro seat_rules, simp, rule seat_rules)
next
  case (Suc fuel)
  show ?case by (subst sweep_live.simps, unfold nat.case) (intro seat_rules Suc)
qed

lemma inv_sweepHosted [seat_rules]: "state_io_rel inv_kept (sweepHosted W)"
  unfolding sweepHosted_def by (intro seat_rules)

lemma inv_loadSettings [seat_rules]: "state_io_rel inv_kept (loadSettings W)"
  unfolding loadSettings_def by (intro seat_rules) (simp_all add: seat_inv_def)

lemma inv_emitTokens [seat_rules]: "state_io_rel inv_kept (emitTokens W)"
  unfolding emitTokens_def by (intro seat_rules)

lemma inv_detectDemo [seat_rules]: "state_io_rel inv_kept (detectDemo W)"
  unfolding detectDemo_def by (intro seat_rules)

lemma inv_another [seat_rules]: "state_io_rel inv_kept (anotherGuestProgram W)"
  by (simp add: state_io_rel_def inv_kept_def anotherGuestProgram_def split_def Let_def)

lemma inv_WinQuery [seat_rules]: "state_io_rel inv_kept (WinQuery W wid)"
  by (simp add: state_io_rel_def inv_kept_def WinQuery_def Let_def)

lemma inv_wait_kind: "state_io_rel inv_kept (wait_kind W kind left)"
  by (induction left) (simp_all, (intro seat_rules | simp)+)

lemma inv_waitKind [seat_rules]: "state_io_rel inv_kept (waitKind W kind)"
  by (simp add: waitKind_def inv_wait_kind)

lemma inv_need [seat_rules]: "state_io_rel inv_kept rest \<Longrightarrow> state_io_rel inv_kept (need W ok f rest)"
  unfolding need_def by (intro seat_rules)

lemma inv_runWindowPhase [seat_rules]: "state_io_rel inv_kept (runWindowPhase W)"
  unfolding runWindowPhase_def by (intro seat_rules)

lemma inv_main_iter [seat_rules]: "state_io_rel inv_kept (main_iter W lim ev)"
  unfolding main_iter_def by (intro seat_rules)

lemma inv_main_loop [seat_rules]: "state_io_rel inv_kept (main_loop W lim fuel ev)"
proof (induction fuel arbitrary: ev)
  case 0
  show ?case by (subst main_loop.simps) (intro seat_rules, simp, rule seat_rules)
next
  case (Suc fuel)
  show ?case by (subst main_loop.simps, unfold nat.case) (intro seat_rules Suc)
qed

lemma inv_main_exit [seat_rules]: "state_io_rel inv_kept (main_exit W)"
  unfolding main_exit_def by (intro seat_rules)


subsection \<open>Start-up establishes the invariant\<close>

text \<open>Until the loop runs no toast is queued and no navigation target is pending.\<close>

definition booting :: "seat \<Rightarrow> bool" where
  "booting s \<longleftrightarrow> seat_inv s \<and> toast_ids (st_notify s) = {} \<and> st_pendingNavPath s = []"

definition boot_kept :: "seat \<Rightarrow> seat \<Rightarrow> bool" where
  "boot_kept s s' \<longleftrightarrow> (booting s \<longrightarrow> booting s')"

interpretation boot: seat_relation boot_kept
  by unfold_locales (auto simp: boot_kept_def)

abbreviation quiet :: "seat \<Rightarrow> notify \<times> string" where
  "quiet s \<equiv> (st_notify s, st_pendingNavPath s)"

lemma boot_of_inv: "state_io_rel inv_kept m \<Longrightarrow> state_io_rel (same quiet) m \<Longrightarrow> state_io_rel boot_kept m"
  by (simp add: state_io_rel_def inv_kept_def same_def boot_kept_def booting_def)

lemma decodeTabsV2_bound: "decodeTabsV2 b = Some (seq, recs, active) \<Longrightarrow> length recs \<le> 16"
  by (auto simp: decodeTabsV2_def Let_def dec_recs_range split: if_splits)

lemma wf_applyTabsV2: "wf_strip t \<Longrightarrow> wf_strip (snd (applyTabsV2 t b))"
proof (cases "decodeTabsV2 b")
  case (Some d)
  obtain seq recs active where d: "d = (seq, recs, active)" by (cases d)
  obtain t' where t': "apply_recs empty_strip 0 recs = Some t'" "restored recs t'"
    using apply_recs_restored [OF restored_empty, of recs] decodeTabsV2_bound [of b seq recs active] Some d by auto
  then have "wf_strip t'" "a < ts_count t' \<Longrightarrow> wf_strip (t'\<lparr>ts_focus := int a\<rparr>)" for a
    by (auto simp: restored_def wf_strip_def open_tabs_def)
  then show ?thesis using Some d t'(1) by (simp add: applyTabsV2_def split: option.split)
qed (simp add: applyTabsV2_def)

lemma boot_restore [seat_rules]: "state_io_rel boot_kept (on_tabs (\<lambda>t. restoreSessionBytes t body))"
proof -
  have "snd (restoreSessionBytes t (Some b)) = snd (applyTabsV2 t b)" for t b
    by (cases "applyTabsV2 t b") (simp add: restoreSessionBytes_def split: option.split)
  then have "wf_strip (snd (restoreSessionBytes t body))" if "wf_strip t" for t
    using that wf_applyTabsV2 by (cases body) (simp_all add: restoreSessionBytes_def)
  then show ?thesis by (auto simp: state_io_rel_def boot_kept_def booting_def seat_inv_def)
qed

lemma boot_prims [seat_rules]:
  "state_io_rel boot_kept (kdo W c)" "state_io_rel boot_kept (say W l)"
  "state_io_rel boot_kept (ReadFileAll W p n)" "state_io_rel boot_kept (on_scan f)"
  "state_io_rel boot_kept (PollEvent W)"
  by (rule boot_of_inv, intro seat_rules, (intro seat_rules; simp))+

lemma boot_modify [seat_rules]: "(\<And>s. booting s \<Longrightarrow> booting (f s)) \<Longrightarrow> state_io_rel boot_kept (modify f)"
  by (simp add: state_io_rel_def boot_kept_def)

lemma boot_dumpOrder [seat_rules]: "state_io_rel boot_kept (dumpOrder W)"
  unfolding dumpOrder_def by (intro seat_rules)

lemma boot_writeLayoutFile [seat_rules]: "state_io_rel boot_kept (writeLayoutFile W)"
  unfolding writeLayoutFile_def mkdirHost_def writeHostFile_def by (intro seat_rules)

lemma boot_loadSession [seat_rules]: "state_io_rel boot_kept (loadSession W)"
  unfolding loadSession_def by (intro seat_rules) (simp_all add: booting_def seat_inv_def)

lemma boot_loadSettings [seat_rules]: "state_io_rel boot_kept (loadSettings W)"
  unfolding loadSettings_def by (intro seat_rules) (simp_all add: booting_def seat_inv_def)

lemma boot_emitTokens [seat_rules]: "state_io_rel boot_kept (emitTokens W)"
  unfolding emitTokens_def by (intro seat_rules)

lemma boot_detectDemo [seat_rules]: "state_io_rel boot_kept (detectDemo W)"
  unfolding detectDemo_def by (intro seat_rules)

lemma boot_queries [seat_rules]:
  "state_io_rel boot_kept (WinQuery W wid)" "state_io_rel boot_kept (anotherGuestProgram W)"
  by (simp_all add: state_io_rel_def boot_kept_def booting_def WinQuery_def anotherGuestProgram_def split_def Let_def)

lemma boot_wait_kind: "state_io_rel boot_kept (wait_kind W kind left)"
  by (induction left) (simp_all, (intro seat_rules | simp)+)

lemma boot_waitKind [seat_rules]: "state_io_rel boot_kept (waitKind W kind)"
  by (simp add: waitKind_def boot_wait_kind)

lemma boot_need [seat_rules]: "state_io_rel boot_kept rest \<Longrightarrow> state_io_rel boot_kept (need W ok f rest)"
  unfolding need_def by (intro seat_rules)

lemma boot_runWindowPhase [seat_rules]: "state_io_rel boot_kept (runWindowPhase W)"
  unfolding runWindowPhase_def by (intro seat_rules)

lemma boot_main_start [seat_rules]: "state_io_rel boot_kept (main_start W)"
  unfolding main_start_def by (intro seat_rules) (simp_all add: booting_def seat_inv_def)

lemma booting_init: "booting init_seat"
  by (simp add: booting_def seat_inv_init) (simp add: init_seat_def)

lemma inv_main_start: "seat_inv (snd (run_state (main_start W) init_seat))"
  using io_relD [OF boot_main_start, of init_seat W] booting_init by (simp add: boot_kept_def booting_def)

end
