(* ===== verification/SeatProps.thy ===== *)
theory SeatProps
  imports SeatLoop
begin

text \<open>
  What the seat guarantees, for every kernel: the state invariant at every point of its life, that
  live mode never touches the user's tabs, what a close does, that the cycling chord reaches every
  tab, that the final sweep ends, and the two ways a split or a sash drag can get stuck.
\<close>

subsection \<open>Reachable states\<close>

text \<open>
  The states the process can be in once it has started: mailbox drains, input events and composite
  ticks in any order, and the sweep.
\<close>

inductive seat_reach :: "world \<Rightarrow> seat \<Rightarrow> bool" for W where
  started: "seat_reach W (snd (run_state (main_start W) init_seat))"
| rpc: "seat_reach W s \<Longrightarrow> seat_reach W (snd (run_state (serviceRPC W) s))"
| event: "seat_reach W s \<Longrightarrow> seat_reach W (snd (run_state (consumeSeatEvent W e) s))"
| tick: "seat_reach W s \<Longrightarrow> seat_reach W (snd (run_state (main_tick W lim) s))"
| loop: "seat_reach W s \<Longrightarrow> seat_reach W (snd (run_state (main_loop W lim fuel ev) s))"
| sweep: "seat_reach W s \<Longrightarrow> seat_reach W (snd (run_state (sweepHosted W) s))"

lemma reach_inv: "seat_reach W s \<Longrightarrow> seat_inv s"
  by (induction rule: seat_reach.induct)
    (auto intro: inv_main_start invD inv_serviceRPC inv_consumeSeatEvent inv_main_tick inv_main_loop inv_sweepHosted)

text \<open>A kernel that answers every call with zero and delivers nothing.\<close>

definition idle_world :: world where
  "idle_world = \<lparr>w_ret = (\<lambda>_ _. 0), w_read = (\<lambda>_ _. None), w_recv = (\<lambda>_. None), w_poll = (\<lambda>_. None),
     w_procs = (\<lambda>_. ([], 0)), w_query = (\<lambda>_ _. []), w_scan = [], w_font = []\<rparr>"

text \<open>
  C1. In every state the seat can reach, whatever the kernel answers and in whatever order requests,
  input and ticks arrive: the strip is well formed (distinct non-zero ids, focus on a tab, a split
  only with two tabs or more), every toast belongs to an open tab and is within its bounds, a pending
  navigation target belongs to an open tab, and the launcher's rows are the filtered catalog.
\<close>

theorem seat_invariant:
  assumes "seat_reach W s"
  shows "seat_inv s"
  using assms by (rule reach_inv)

theorem seat_invariant_witness:
  "seat_inv (snd (run_state (main_tick idle_world 120) (snd (run_state (main_start idle_world) init_seat))))"
  by (rule seat_invariant [of idle_world]) (intro seat_reach.intros)

subsection \<open>Live mode\<close>

definition paint_call :: "kcall \<Rightarrow> bool" where
  "paint_call c \<longleftrightarrow> (\<exists>l. c = KConsole l) \<or> c = KTime \<or> c = KReadAll ''/host/.clock'' 64 \<or> c = WmctlRequestPresent"

lemma paint_callI [simp]:
  "paint_call (KConsole l)" "paint_call KTime" "paint_call (KReadAll ''/host/.clock'' 64)"
  "paint_call WmctlRequestPresent"
  by (simp_all add: paint_call_def)

definition user_state :: "seat \<Rightarrow> strip \<times> u32 \<times> u32 \<times> string \<times> launcher \<times> bool" where
  "user_state s = (st_tabs s, st_hosted s, st_pendingNavID s, st_pendingNavPath s, st_launch s, st_demo s)"

lemma user_paint: "state_io_rel (same user_state) (composite_paint W t)"
  unfolding composite_paint_def startSurfaceTick_def markRail_def chromeTick_def notifyTick_def Let_def
  by (intro seat_rules) (simp_all add: user_state_def)

lemma calls_paint: "state_io_rel (calls_in paint_call) (composite_paint W t)"
  unfolding composite_paint_def startSurfaceTick_def markRail_def chromeTick_def notifyTick_def Let_def
  by (intro seat_rules) simp_all

text \<open>
  In live mode a composite tick never touches the user's tabs: the strip, the hosted window, the
  pending navigation and the launcher are as before, and the only calls made are console lines, the
  clock reads and the present. The choreography is out of reach.
\<close>

theorem live_tick_hands_off:
  assumes "\<not> st_demo s"
  shows "(let s' = snd (run_state (compositeTick W t) s) in
    st_tabs s' = st_tabs s \<and> st_hosted s' = st_hosted s \<and> st_pendingNavPath s' = st_pendingNavPath s
    \<and> st_launch s' = st_launch s \<and> calls_in paint_call s s')"
proof -
  let ?p = "snd (run_state (composite_paint W t) s)"
  have u: "user_state ?p = user_state s" using sameD [OF user_paint] .
  have "snd (run_state (compositeTick W t) s) = ?p"
    using assms u by (simp add: compositeTick_def split_def user_state_def)
  then show ?thesis using u io_relD [OF calls_paint [of W t], of s] by (simp add: user_state_def)
qed

theorem live_tick_hands_off_witness:
  "st_tabs (snd (run_state (compositeTick idle_world 1) init_seat)) = empty_strip"
  using live_tick_hands_off [of init_seat idle_world 1] by (simp add: Let_def init_seat_def)

subsection \<open>The cycling chord\<close>

lemma altTabNext_forward: "2 \<le> n \<Longrightarrow> 0 \<le> f \<Longrightarrow> f < n \<Longrightarrow> altTabNext n f False = Some ((f + 1) mod n)"
  by (simp add: altTabNext_def)

lemma altTabNext_back:
  "2 \<le> n \<Longrightarrow> 0 \<le> f \<Longrightarrow> f < n \<Longrightarrow> altTabNext n f True = Some ((f - 1) mod n)"
proof -
  assume a: "2 \<le> n" "0 \<le> f" "f < n"
  show ?thesis
  proof (cases "f = 0")
    case True
    have "(-1) mod n = n - 1" using a by (simp add: zmod_minus1)
    then show ?thesis using a True by (simp add: altTabNext_def)
  next
    case False
    then show ?thesis using a by (simp add: altTabNext_def)
  qed
qed

lemma mod_walk: "((f + int k) mod n + 1) mod n = (f + int (Suc k)) mod (n :: int)"
  by (simp add: mod_simps algebra_simps)

definition alt_tab_walk :: "int \<Rightarrow> int \<Rightarrow> nat \<Rightarrow> int option" where
  "alt_tab_walk n f k = ((\<lambda>z. Option.bind z (\<lambda>i. altTabNext n i False)) ^^ k) (Some f)"

lemma alt_tab_walk_mod:
  "2 \<le> n \<Longrightarrow> 0 \<le> f \<Longrightarrow> f < n \<Longrightarrow> alt_tab_walk n f k = Some ((f + int k) mod n)"
proof (induction k)
  case (Suc k)
  have "altTabNext n ((f + int k) mod n) False = Some (((f + int k) mod n + 1) mod n)"
    using Suc.prems by (intro altTabNext_forward) auto
  then show ?case using Suc mod_walk [of f k n] by (simp add: alt_tab_walk_def)
qed (simp add: alt_tab_walk_def)




subsection \<open>Closing\<close>

definition core :: "seat \<Rightarrow> strip \<times> u32 \<times> notify \<times> u32 \<times> string" where
  "core s = (st_tabs s, st_hosted s, st_notify s, st_pendingNavID s, st_pendingNavPath s)"

lemma core_writers:
  "core (snd (run_state (noteSessionMutation W) s)) = core s"
  "core (snd (run_state (close_report W b) s)) = core s"
proof -
  have "state_io_rel (same core) (noteSessionMutation W)"
    unfolding noteSessionMutation_def writeSession_def writeHostFile_def
    by (intro seat_rules) (simp_all add: core_def)
  then show "core (snd (run_state (noteSessionMutation W) s)) = core s" by (rule sameD)
  have "state_io_rel (same core) (close_report W b)"
    unfolding close_report_def applyRect_def by (intro seat_rules) (simp_all add: core_def)
  then show "core (snd (run_state (close_report W b) s)) = core s" by (rule sameD)
qed

lemmas core_fields = core_writers [unfolded core_def prod.inject]

lemma close_refused:
  "w_ret W (st_log s) (WmctlWinClose wid) = r \<Longrightarrow> r \<noteq> 0 \<Longrightarrow> wid \<noteq> 0 \<Longrightarrow>
     run_state (closeTabByID W wid) s = (False, s\<lparr>st_log := (WmctlWinClose wid, r) # st_log s\<rparr>)"
  by (simp add: closeTabByID_def)

lemma close_accepted:
  assumes "w_ret W (st_log s) (WmctlWinClose wid) = 0" "wid \<noteq> 0"
  shows "fst (run_state (closeTabByID W wid) s)"
    and "st_tabs (snd (run_state (closeTabByID W wid) s)) = snd (close_strip (st_tabs s) wid)"
    and "st_hosted (snd (run_state (closeTabByID W wid) s)) =
      (case Focused (snd (close_strip (st_tabs s) wid)) of Some f \<Rightarrow> f | None \<Rightarrow> 0)"
    and "seat_inv s \<Longrightarrow> wid \<notin> ids_of (st_tabs (snd (run_state (closeTabByID W wid) s)))"
proof -
  show t: "st_tabs (snd (run_state (closeTabByID W wid) s)) = snd (close_strip (st_tabs s) wid)"
    using assms by (auto simp: closeTabByID_def split_def core_fields CloseTab_run syncHostedFromStrip_def)
  show "fst (run_state (closeTabByID W wid) s)"
    using assms by (simp add: closeTabByID_def split_def)
  show "st_hosted (snd (run_state (closeTabByID W wid) s)) =
      (case Focused (snd (close_strip (st_tabs s) wid)) of Some f \<Rightarrow> f | None \<Rightarrow> 0)"
    using assms by (auto simp: closeTabByID_def split_def core_fields CloseTab_run syncHostedFromStrip_def)
  show "wid \<notin> ids_of (st_tabs (snd (run_state (closeTabByID W wid) s)))" if "seat_inv s"
    unfolding t using that ids_close_strip [of "st_tabs s" wid] by (simp add: seat_inv_def)
qed

lemma open_after_close:
  assumes "seat_inv s" "wid \<noteq> 0" "w_ret W (st_log s) (WmctlWinClose wid) = 0"
  shows "open_tabs (st_tabs (snd (run_state (closeTabByID W wid) s))) = filter (\<lambda>t. tab_ID t \<noteq> wid) (open_tabs (st_tabs s))"
proof -
  have wf: "wf_strip (st_tabs s)" using assms(1) by (simp add: seat_inv_def)
  show ?thesis
  proof (rule index_cases [OF wf, of wid])
    assume "index (st_tabs s) wid = -1" "wid \<notin> tab_ID ` set (open_tabs (st_tabs s))"
    then show ?thesis
      unfolding close_accepted(2) [OF assms(3,2)]
      by (auto simp: close_strip_def image_iff intro!: filter_True [symmetric])
  next
    fix i assume i: "index (st_tabs s) wid = int i" "i < ts_count (st_tabs s)" "tab_ID (ts_tabs (st_tabs s) ! i) = wid"
    then show ?thesis
      unfolding close_accepted(2) [OF assms(3,2)] using open_remove_at_filter [OF wf_recordClosed [OF wf], of i]
      by (simp add: close_strip_def Let_def)
  qed
qed

text \<open>
  C19. The close seam is all or nothing. When the kernel refuses the close, nothing of the seat changes
  but the log of calls. When it accepts, exactly the tab asked for leaves the strip, the hosted window
  becomes the focused one, and no toast and no pending navigation of the closed tab survives.
\<close>

theorem close_all_or_nothing:
  assumes "seat_inv s" "wid \<noteq> 0"
  shows "(let r = w_ret W (st_log s) (WmctlWinClose wid); (ok, s') = run_state (closeTabByID W wid) s in
    if r \<noteq> 0 then \<not> ok \<and> s' = s\<lparr>st_log := (WmctlWinClose wid, r) # st_log s\<rparr>
    else ok \<and> open_tabs (st_tabs s') = filter (\<lambda>t. tab_ID t \<noteq> wid) (open_tabs (st_tabs s))
      \<and> st_hosted s' = (case Focused (st_tabs s') of Some f \<Rightarrow> f | None \<Rightarrow> 0)
      \<and> wid \<notin> toast_ids (st_notify s') \<and> (st_pendingNavPath s' \<noteq> [] \<longrightarrow> st_pendingNavID s' \<noteq> wid))"
proof (cases "w_ret W (st_log s) (WmctlWinClose wid) = 0")
  case False
  then show ?thesis using close_refused [OF refl False assms(2)] by simp
next
  case True
  note c = close_accepted [OF True assms(2)]
  let ?s = "snd (run_state (closeTabByID W wid) s)"
  note o = open_after_close [OF assms True]
  have inv: "seat_inv ?s" using invD [OF inv_closeTabByID assms(1)] .
  have gone: "wid \<notin> ids_of (st_tabs ?s)" using c(4) assms(1) by simp
  have "wid \<notin> toast_ids (st_notify ?s)" "st_pendingNavPath ?s \<noteq> [] \<longrightarrow> st_pendingNavID ?s \<noteq> wid"
    using inv gone unfolding seat_inv_def by (blast, metis)
  then show ?thesis using True c(1,2,3) o by (simp add: split_def Let_def)
qed

definition two_tabs :: seat where
  "two_tabs = init_seat\<lparr>st_tabs := foldl strip_apply empty_strip [OpOpen 3 ''Calc'', OpOpen 5 ''Edit'']\<rparr>"

lemma two_tabs_inv: "seat_inv two_tabs"
  using seat_inv_init wf_strip_run [of empty_strip "[OpOpen 3 ''Calc'', OpOpen 5 ''Edit'']"]
  by (simp add: two_tabs_def seat_inv_def) (simp add: init_seat_def)

theorem close_all_or_nothing_witness:
  "(let (ok, s') = run_state (closeTabByID idle_world 3) two_tabs in ok \<and> map tab_ID (open_tabs (st_tabs s')) = [5])"
proof -
  have "map tab_ID (filter (\<lambda>t. tab_ID t \<noteq> 3) (open_tabs (st_tabs two_tabs))) = [5]" by code_simp
  then show ?thesis
    using close_all_or_nothing [OF two_tabs_inv, of 3 idle_world] by (simp add: Let_def split_def idle_world_def)
qed

subsection \<open>The sweep\<close>

lemma count_close_strip:
  assumes "wf_strip t" "wid \<in> ids_of t"
  shows "ts_count (snd (close_strip t wid)) = ts_count t - 1" "0 < ts_count t"
proof -
  obtain i where i: "index t wid = int i" "i < ts_count t"
    using index_cases [OF assms(1), of wid] assms(2) unfolding ids_of_def by metis
  then show "ts_count (snd (close_strip t wid)) = ts_count t - 1"
    by (simp add: close_strip_def Let_def remove_at_def)
  show "0 < ts_count t" using i by simp
qed

lemma closeHosted_focused:
  "Focused (st_tabs s) = Some wid \<Longrightarrow> run_state (closeHosted W) s = run_state (closeTabByID W wid) s"
  by (simp add: closeHosted_def)

text \<open>What the second loop of the sweep leaves: an empty strip, or a close the kernel just refused.\<close>

definition swept :: "world \<Rightarrow> seat \<Rightarrow> bool" where
  "swept W s \<longleftrightarrow> ts_count (st_tabs s) = 0 \<or>
     (\<exists>wid r rest. Focused (st_tabs s) = Some wid \<and> r \<noteq> 0 \<and> st_log s = (WmctlWinClose wid, r) # rest)"

lemma sweep_live_ends:
  "seat_inv s \<Longrightarrow> ts_count (st_tabs s) \<le> fuel \<Longrightarrow>
     fst (run_state (sweep_live W fuel) s) \<and> swept W (snd (run_state (sweep_live W fuel) s))
     \<and> set (open_tabs (st_tabs (snd (run_state (sweep_live W fuel) s)))) \<subseteq> set (open_tabs (st_tabs s))"
proof (induction fuel arbitrary: s)
  case 0
  then show ?case by (subst sweep_live.simps, subst (2) sweep_live.simps, subst (3) sweep_live.simps) (simp add: swept_def)
next
  case (Suc fuel)
  have wf: "wf_strip (st_tabs s)" using Suc.prems by (simp add: seat_inv_def)
  show ?case
  proof (cases "Focused (st_tabs s)")
    case None
    then have "ts_count (st_tabs s) = 0" using Focused_None [OF wf] by simp
    then have "run_state (sweep_live W (Suc fuel)) s = (True, s)" by (subst sweep_live.simps) simp
    then show ?thesis using \<open>ts_count (st_tabs s) = 0\<close> by (simp add: swept_def)
  next
    case (Some wid)
    have pos: "0 < ts_count (st_tabs s)" using Some Focused_None [OF wf] by (metis gr0I option.distinct(1))
    have wid: "wid \<in> ids_of (st_tabs s)" using Focused_open [OF wf Some] by (simp add: ids_of_def)
    then have nz: "wid \<noteq> 0" using wf by (auto simp: ids_of_def wf_strip_def)
    let ?r = "run_state (closeTabByID W wid) s"
    have step: "run_state (sweep_live W (Suc fuel)) s =
        (if fst ?r then run_state (sweep_live W fuel) (snd ?r) else (True, snd ?r))"
      by (subst sweep_live.simps) (use pos in \<open>simp add: closeHosted_focused [OF Some] split_def\<close>)
    show ?thesis
    proof (cases "w_ret W (st_log s) (WmctlWinClose wid) = 0")
      case False
      then show ?thesis using close_refused [OF refl False nz] step Some by (auto simp: swept_def)
    next
      case True
      note c = close_accepted [OF True nz]
      have "set (open_tabs (st_tabs (snd ?r))) \<subseteq> set (open_tabs (st_tabs s))"
        using open_after_close [OF Suc.prems(1) nz True] by auto
      moreover have "ts_count (st_tabs (snd ?r)) \<le> fuel"
        unfolding c(2) using count_close_strip [OF wf wid] Suc.prems(2) by simp
      ultimately show ?thesis
        using Suc.IH [OF invD [OF inv_closeTabByID Suc.prems(1)], of W wid] step c(1) by auto
    qed
  qed
qed


lemma CloseTab_at:
  assumes "wf_strip (st_tabs s)" "i < ts_count (st_tabs s)"
  defines "wid \<equiv> tab_ID (ts_tabs (st_tabs s) ! i)"
  shows "open_tabs (st_tabs (snd (run_state (CloseTab W wid) s))) =
      take i (open_tabs (st_tabs s)) @ drop (Suc i) (open_tabs (st_tabs s))"
    and "ts_count (st_tabs (snd (run_state (CloseTab W wid) s))) = ts_count (st_tabs s) - 1"
proof -
  have ix: "index (st_tabs s) wid = int i" using index_eq [OF assms(1,2)] by (simp add: wid_def)
  let ?t = "recordClosed (st_tabs s) (ts_tabs (st_tabs s) ! i)"
  have st: "st_tabs (snd (run_state (CloseTab W wid) s)) = remove_at ?t i"
    using ix by (simp add: CloseTab_run close_strip_def)
  show "open_tabs (st_tabs (snd (run_state (CloseTab W wid) s))) =
      take i (open_tabs (st_tabs s)) @ drop (Suc i) (open_tabs (st_tabs s))"
    unfolding st using open_remove_at [OF wf_recordClosed [OF assms(1)], of i] assms(2) by simp
  show "ts_count (st_tabs (snd (run_state (CloseTab W wid) s))) = ts_count (st_tabs s) - 1"
    unfolding st by (simp add: remove_at_def Let_def)
qed

lemma sweep_restored_ends:
  "seat_inv s \<Longrightarrow> ts_count (st_tabs s) - i \<le> fuel \<Longrightarrow> i \<le> ts_count (st_tabs s) \<Longrightarrow>
   \<forall>t \<in> set (take i (open_tabs (st_tabs s))). tab_ID t < sessionIDBase \<Longrightarrow>
     fst (run_state (sweep_restored W fuel i) s)
     \<and> (\<forall>t \<in> set (open_tabs (st_tabs (snd (run_state (sweep_restored W fuel i) s)))). tab_ID t < sessionIDBase)
     \<and> set (open_tabs (st_tabs (snd (run_state (sweep_restored W fuel i) s)))) \<subseteq> set (open_tabs (st_tabs s))"
proof (induction fuel arbitrary: i s)
  case 0
  have "length (open_tabs (st_tabs s)) = ts_count (st_tabs s)"
    using length_open_tabs 0(1) by (simp add: seat_inv_def)
  moreover have "i = ts_count (st_tabs s)" using 0(2,3) by simp
  moreover from this have "run_state (sweep_restored W 0 i) s = (True, s)" by (subst sweep_restored.simps) simp
  ultimately show ?case using 0(4) by simp
next
  case (Suc fuel)
  have wf: "wf_strip (st_tabs s)" using Suc.prems by (simp add: seat_inv_def)
  note len = length_open_tabs [OF wf]
  show ?case
  proof (cases "i < ts_count (st_tabs s)")
    case False
    then have "run_state (sweep_restored W (Suc fuel) i) s = (True, s)" by (subst sweep_restored.simps) simp
    then show ?thesis using Suc.prems False len by simp
  next
    case True
    let ?u = "ts_tabs (st_tabs s) ! i"
    have at: "At (st_tabs s) (int i) = ?u" using True by (simp add: At_def)
    have o: "open_tabs (st_tabs s) ! i = ?u" using True by (rule nth_open_tabs)
    show ?thesis
    proof (cases "tab_ID ?u \<ge> sessionIDBase")
      case restored: True
      let ?s = "snd (run_state (CloseTab W (tab_ID ?u)) s)"
      note c = CloseTab_at [OF wf True, of W]
      have run: "run_state (sweep_restored W (Suc fuel) i) s = run_state (sweep_restored W fuel i) ?s"
        by (subst sweep_restored.simps) (use True restored in \<open>simp add: at split_def\<close>)
      have tk: "take i (open_tabs (st_tabs ?s)) = take i (open_tabs (st_tabs s))" unfolding c(1) using True len by simp
      have sub: "set (open_tabs (st_tabs ?s)) \<subseteq> set (open_tabs (st_tabs s))"
        unfolding c(1) by (auto dest: in_set_takeD in_set_dropD)
      have "ts_count (st_tabs ?s) - i \<le> fuel" "i \<le> ts_count (st_tabs ?s)"
        unfolding c(2) using Suc.prems(2) True by auto
      moreover have "\<forall>t \<in> set (take i (open_tabs (st_tabs ?s))). tab_ID t < sessionIDBase"
        unfolding tk by (rule Suc.prems(4))
      ultimately show ?thesis
        unfolding run using Suc.IH [OF invD [OF inv_CloseTab Suc.prems(1)], of W "tab_ID ?u" i] sub by blast
    next
      case live: False
      have run: "run_state (sweep_restored W (Suc fuel) i) s = run_state (sweep_restored W fuel (i + 1)) s"
        by (subst sweep_restored.simps) (use True live in \<open>simp add: at\<close>)
      have "\<forall>t \<in> set (take (i + 1) (open_tabs (st_tabs s))). tab_ID t < sessionIDBase"
        using Suc.prems(4) live o True len by (auto simp: take_Suc_conv_app_nth)
      then show ?thesis using Suc.IH [of s "i + 1"] Suc.prems True run by auto
    qed
  qed
qed

text \<open>
  C22. The exit sweep always ends, for every kernel: afterwards no restored placeholder is on the strip,
  and either every tab is closed or the last call made was a close of the focused tab that the kernel
  refused.
\<close>

theorem sweep_ends:
  assumes "seat_inv s"
  shows "(let (done, s') = run_state (sweepHosted W) s in
    done \<and> swept W s' \<and> (\<forall>t \<in> set (open_tabs (st_tabs s')). tab_ID t < sessionIDBase))"
proof -
  let ?a = "run_state (sweep_restored W (ts_count (st_tabs s)) 0) s"
  let ?b = "run_state (sweep_live W (ts_count (st_tabs (snd ?a)))) (snd ?a)"
  have a: "fst ?a" "\<forall>t \<in> set (open_tabs (st_tabs (snd ?a))). tab_ID t < sessionIDBase"
    using sweep_restored_ends [OF assms, of 0 "ts_count (st_tabs s)" W] by auto
  have "seat_inv (snd ?a)" using invD [OF inv_sweep_restored assms] .
  then have b: "fst ?b" "swept W (snd ?b)" "set (open_tabs (st_tabs (snd ?b))) \<subseteq> set (open_tabs (st_tabs (snd ?a)))"
    using sweep_live_ends [of "snd ?a" "ts_count (st_tabs (snd ?a))" W] by auto
  have "run_state (sweepHosted W) s = (True, snd ?b)"
    using a(1) b(1) by (simp add: sweepHosted_def split_def)
  then show ?thesis using a(2) b(2,3) by auto
qed

theorem sweep_ends_witness: "fst (run_state (sweepHosted idle_world) two_tabs)"
  using sweep_ends [OF two_tabs_inv, of idle_world] by (simp add: split_def Let_def)

subsection \<open>Two ways to get stuck\<close>

text \<open>
  A split outlives a third tab. With a vertical split and any number of tabs other than two, the
  split chord and a sash drag change nothing at all: the user can leave the split only by closing
  tabs, while the divider keeps consuming clicks.
\<close>

theorem split_stuck_with_third_tab:
  assumes "ts_split (st_tabs s) = SplitVert" "ts_count (st_tabs s) \<noteq> 2"
  shows "run_state (applySplitCycle W) s = (False, s) \<and> run_state (applySashDrag W p) s = (False, s)"
proof -
  have h: "SplitH (st_tabs s) = (False, st_tabs s)" using assms by (simp add: SplitH_def setSplit_def)
  have "s\<lparr>st_tabs := st_tabs s\<rparr> = s" by simp
  then have "run_state (applySplit W SplitHoriz) s = (False, s)" by (simp add: applySplit_def h)
  then show ?thesis using assms by (simp add: applySplitCycle_def applySashDrag_def)
qed

definition stuck_seat :: seat where
  "stuck_seat = init_seat\<lparr>st_tabs := foldl strip_apply empty_strip
     [OpOpen 3 ''Calc'', OpOpen 5 ''Edit'', OpSplit SplitVert, OpOpen 7 ''Term'']\<rparr>"

theorem split_stuck_with_third_tab_witness:
  "run_state (applySplitCycle idle_world) stuck_seat = (False, stuck_seat) \<and> sash_at stuck_seat 640 300"
proof -
  have "ts_split (st_tabs stuck_seat) = SplitVert" "ts_count (st_tabs stuck_seat) \<noteq> 2" "sash_at stuck_seat 640 300"
    by code_simp+
  then show ?thesis using split_stuck_with_third_tab by blast
qed

text \<open>
  While the launcher is open, every pointer sample that is not a press is dropped, releases
  included: an armed sash drag, an armed rail drag and a forwarded content press all survive it, so
  the release of a later, unrelated press commits them.
\<close>

theorem launcher_swallows_release:
  assumes "l_open (st_launch s)" "\<not> pointerDownEdge (ucast (ev_flags e AND 0xff)) (st_prevPtr s)"
  shows "run_state (handleWmPointer W e) s = ((), s\<lparr>st_prevPtr := ucast (ev_flags e AND 0xff)\<rparr>)"
  using assms by (simp add: handleWmPointer_def Let_def)

definition pointer_event :: "u32 \<Rightarrow> u32 \<Rightarrow> u16 \<Rightarrow> ui_event" where
  "pointer_event x y b = \<lparr>ev_kind = 19, ev_flags = b, ev_seq = 0, ev_arg0 = x OR push_bit 16 y, ev_arg1 = 0\<rparr>"

theorem launcher_swallows_release_witness:
  "let s = init_seat\<lparr>st_launch := zero_launcher\<lparr>l_open := True\<rparr>, st_sashDragging := True, st_prevPtr := 1\<rparr>
   in st_sashDragging (snd (run_state (handleWmPointer idle_world (pointer_event 640 300 0)) s))"
proof -
  let ?s = "init_seat\<lparr>st_launch := zero_launcher\<lparr>l_open := True\<rparr>, st_sashDragging := True, st_prevPtr := 1\<rparr>"
  have "run_state (handleWmPointer idle_world (pointer_event 640 300 0)) ?s
      = ((), ?s\<lparr>st_prevPtr := ucast (ev_flags (pointer_event 640 300 0) AND 0xff)\<rparr>)"
    by (rule launcher_swallows_release) (simp_all add: pointer_event_def pointerDownEdge_def)
  then show ?thesis by simp
qed

end
