(* ===== verification/SeatSession.thy ===== *)
theory SeatSession
  imports SeatProtocol
begin

text \<open>
  What outlives a request: the session file says what is on the strip, a queued navigation target is
  delivered to its own window once, and a client cannot reach a restored row.
\<close>

subsection \<open>The rows of the session\<close>

definition live_tabs :: "strip \<Rightarrow> tab list" where
  "live_tabs s = filter (\<lambda>t. tab_ID t < sessionIDBase) (open_tabs s)"

definition session_tab :: "tab \<Rightarrow> tab" where
  "session_tab t = (fresh_tab (tab_ID t) (tab_Title t))\<lparr>tab_Bin := tab_Bin t, tab_Pinned := tab_Pinned t,
     tab_Frozen := tab_Frozen t\<rparr>"

lemma session_tab_id [simp]: "tab_ID (session_tab t) = tab_ID t"
  by (simp add: session_tab_def fresh_tab_def)

lemma session_step:
  assumes wf: "wf_strip out" and n: "tab_ID t \<noteq> 0" "tab_ID t \<notin> tab_ID ` set (open_tabs out)" "ts_count out < 16"
    and live: "tab_ID t < sessionIDBase"
  shows "\<exists>m. session_loop out (t # ts) = session_loop m ts \<and> wf_strip m
    \<and> open_tabs m = open_tabs out @ [session_tab t] \<and> ts_count m = ts_count out + 1"
proof -
  note op = OpenTab_fresh [OF wf n, of "tab_Title t"]
  let ?o = "snd (OpenTab out (tab_ID t) (tab_Title t))" and ?i = "ts_count out"
    and ?f = "\<lambda>u. u\<lparr>tab_Bin := tab_Bin t, tab_Pinned := tab_Pinned t, tab_Frozen := tab_Frozen t\<rparr>"
  let ?m = "upd_tab ?o (int ?i) ?f"
  have nth: "ts_tabs ?o ! ?i = fresh_tab (tab_ID t) (tab_Title t)"
    using nth_open_tabs [of ?i ?o] op length_open_tabs [OF wf] by (simp add: nth_append)
  have "wf_strip ?m"
    using wf_tab_nav [OF op(5), of ?i] op(3) by (intro wf_upd_tab) (auto simp: op(5))
  moreover have "session_loop out (t # ts) = session_loop ?m ts"
    using op(1,3) live leD [of 256 "tab_ID t"] by (auto simp: Let_def)
  moreover have "open_tabs ?m = open_tabs out @ [session_tab t]"
    using op(2) nth length_open_tabs [OF wf]
    by (simp add: open_tabs_upd_tab list_update_append session_tab_def)
  moreover have "ts_count ?m = ts_count out + 1" using op(3) by (simp add: frame_simps)
  ultimately show ?thesis by (intro exI [of _ ?m] conjI)
qed

lemma session_loop_rows:
  assumes "wf_strip out" "distinct (map tab_ID (open_tabs out @ ts))" "\<forall>t \<in> set ts. tab_ID t \<noteq> 0"
    "ts_count out + length ts \<le> 16"
  shows "\<exists>r. session_loop out ts = Some r \<and> wf_strip r
    \<and> open_tabs r = open_tabs out @ map session_tab (filter (\<lambda>t. tab_ID t < sessionIDBase) ts)"
  using assms
proof (induction ts arbitrary: out)
  case (Cons t ts)
  show ?case
  proof (cases "tab_ID t < sessionIDBase")
    case True
    have st: "tab_ID t \<noteq> 0" "tab_ID t \<notin> tab_ID ` set (open_tabs out)" "ts_count out < 16"
      using Cons.prems by auto
    obtain m where m: "session_loop out (t # ts) = session_loop m ts" "wf_strip m"
        "open_tabs m = open_tabs out @ [session_tab t]" "ts_count m = ts_count out + 1"
      using session_step [OF Cons.prems(1) st True] by metis
    have "distinct (map tab_ID (open_tabs m @ ts))" using Cons.prems(2) m(3) by auto
    then show ?thesis unfolding m(1) using Cons.IH [OF m(2)] Cons.prems(3,4) m(3,4) True by simp
  next
    case False
    then show ?thesis using Cons.prems Cons.IH [of out] by auto
  qed
qed simp

definition focused_row :: "strip \<Rightarrow> nat option" where
  "focused_row s = (case Focused s of None \<Rightarrow> None | Some w \<Rightarrow> first_index (\<lambda>t. tab_ID t = w) (live_tabs s))"

lemma first_index_map: "first_index P (map f xs) = first_index (\<lambda>x. P (f x)) xs"
  by (induction xs) auto

lemma sessionRows_live:
  assumes "wf_strip s"
  shows "open_tabs (sessionRows s) = map session_tab (live_tabs s)" (is ?rows)
    and "encodable (sessionRows s)" (is ?enc)
    and "(if ts_count (sessionRows s) = 0 \<or> ts_focus (sessionRows s) < 0 then None
          else Some (nat (ts_focus (sessionRows s)))) = focused_row s" (is ?focus)
proof -
  obtain r where r: "session_loop empty_strip (open_tabs s) = Some r" "wf_strip r"
      "open_tabs r = map session_tab (live_tabs s)"
    using session_loop_rows [of empty_strip "open_tabs s"] assms length_open_tabs [OF assms]
    by (auto simp: wf_strip_def live_tabs_def open_tabs_def empty_strip_def)
  define f where "f = (case Focused s of None \<Rightarrow> -1 | Some w \<Rightarrow> index r w)"
  have ix: "index (r\<lparr>ts_focus := -1\<rparr>) w = index r w" for w by (simp add: index_def open_tabs_def)
  have neg: "\<not> 0 \<le> index r w \<Longrightarrow> index r w = -1" for w by (auto simp: index_def split: option.splits)
  have rows: "sessionRows s = r\<lparr>ts_focus := f\<rparr>"
    using r(1) by (auto simp: sessionRows_def f_def ix neg Let_def split: option.split)
  have less: "f < int (ts_count r)" using index_less [OF r(2)] by (auto simp: f_def split: option.split)
  show ?rows using r(3) rows by (simp add: open_tabs_def)
  show ?enc using encodable_wf [OF r(2)] less by (simp add: rows encodable_def open_tabs_def)
  have "index r w = (case first_index (\<lambda>t. tab_ID t = w) (live_tabs s) of None \<Rightarrow> -1 | Some i \<Rightarrow> int i)" for w
    by (simp add: index_def r(3) first_index_map)
  then show ?focus using less by (auto simp: rows f_def focused_row_def split: option.splits)
qed

lemma view_session_tab [simp]: "tab_view (session_tab t) = tab_view t"
  by (simp add: tab_view_def session_tab_def fresh_tab_def)

lemma clean_session_tab [simp]: "tab_clean (session_tab t) = tab_clean t"
  by (simp add: tab_clean_def session_tab_def fresh_tab_def)

lemma session_bytes:
  assumes "wf_strip s" "\<forall>t \<in> set (live_tabs s). tab_clean t"
  shows "\<exists>b. encodeTabsV2 (sessionRows s) seq = Some b
    \<and> decodeTabsV2 b = Some (seq, map tab_view (live_tabs s), focused_row s) \<and> length b \<le> 1110"
  using decode_encodeTabsV2 [OF sessionRows_live(2) [OF assms(1)], of seq] assms(2)
    encode_same [OF sessionRows_live(2) [OF assms(1)], of seq]
  unfolding sessionRows_live(1,3) [OF assms(1)] by (auto simp: o_def)

definition file_writes :: "klog \<Rightarrow> klog" where
  "file_writes l = filter (\<lambda>c. case fst c of KWriteSafe _ _ \<Rightarrow> True | _ \<Rightarrow> False) l"

text \<open>
  C7. The session file is written through. A change of the strip makes exactly one file write when a
  live tab is open and none otherwise. Its bytes decode to the current sequence number, the live
  tabs of the strip in order (with their titles, executables, pin and frozen marks) and the position of
  the focused tab among them; restored rows are left out. Success is reported exactly when the kernel
  took the write: then the session is clean and the next write carries the next number, otherwise it
  stays dirty under the same number.
\<close>

theorem session_write_through:
  assumes "seat_inv s" "\<forall>t \<in> set (live_tabs (st_tabs s)). tab_clean t"
  shows "\<exists>b. decodeTabsV2 b = Some (st_sessionSeq s, map tab_view (live_tabs (st_tabs s)), focused_row (st_tabs s))
    \<and> (let (ok, s') = run_state (noteSessionMutation W) s; r = w_ret W (st_log s) (KWriteSafe sessionPath b) in
        (ok \<longleftrightarrow> live_tabs (st_tabs s) \<noteq> [] \<and> r = 0)
        \<and> file_writes (st_log s') =
            (if live_tabs (st_tabs s) = [] then [] else [(KWriteSafe sessionPath b, r)]) @ file_writes (st_log s)
        \<and> st_sessionDirty s' = (\<not> ok) \<and> st_sessionSeq s' = (if ok then st_sessionSeq s + 1 else st_sessionSeq s)
        \<and> st_tabs s' = st_tabs s)"
proof -
  have wf: "wf_strip (st_tabs s)" using assms(1) by (simp add: seat_inv_def)
  obtain b where b: "encodeTabsV2 (sessionRows (st_tabs s)) (st_sessionSeq s) = Some b"
      "decodeTabsV2 b = Some (st_sessionSeq s, map tab_view (live_tabs (st_tabs s)), focused_row (st_tabs s))"
    using session_bytes [OF wf assms(2)] by blast
  have n: "ts_count (sessionRows (st_tabs s)) = 0 \<longleftrightarrow> live_tabs (st_tabs s) = []"
    using sessionRows_live(1,2) [OF wf] by (metis encodable_def length_0_conv length_map)
  show ?thesis
    by (rule exI [of _ b]) (auto simp: b noteSessionMutation_def writeSession_def writeHostFile_def n
        file_writes_def Let_def split_def)
qed

theorem session_write_through_witness:
  "\<exists>b. decodeTabsV2 b = Some (1, map tab_view (live_tabs (st_tabs two_tabs)), focused_row (st_tabs two_tabs))
    \<and> fst (run_state (noteSessionMutation idle_world) two_tabs)"
proof -
  have "list_all tab_clean (live_tabs (st_tabs two_tabs))" "live_tabs (st_tabs two_tabs) \<noteq> []" by code_simp+
  moreover have "st_sessionSeq two_tabs = 1" "w_ret idle_world l c = 0" for l c
    by (simp_all add: two_tabs_def init_seat_def idle_world_def)
  ultimately show ?thesis
    using session_write_through [OF two_tabs_inv, of idle_world] by (auto simp: list_all_iff split_def Let_def)
qed

lemma session_written:
  assumes "seat_inv s" "\<forall>t \<in> set (live_tabs (st_tabs s)). tab_clean t"
    and "fst (run_state (noteSessionMutation W) s)"
  shows "\<exists>b. length b \<le> 1110
    \<and> decodeTabsV2 b = Some (st_sessionSeq s, map tab_view (live_tabs (st_tabs s)), focused_row (st_tabs s))
    \<and> hd (file_writes (st_log (snd (run_state (noteSessionMutation W) s)))) = (KWriteSafe sessionPath b, 0)"
proof -
  obtain b where b: "encodeTabsV2 (sessionRows (st_tabs s)) (st_sessionSeq s) = Some b" "length b \<le> 1110"
      "decodeTabsV2 b = Some (st_sessionSeq s, map tab_view (live_tabs (st_tabs s)), focused_row (st_tabs s))"
    using session_bytes [OF _ assms(2)] assms(1) by (auto simp: seat_inv_def)
  then show ?thesis using assms(3)
    by (intro exI [of _ b]) (auto simp: noteSessionMutation_def writeSession_def writeHostFile_def
        file_writes_def Let_def split_def split: if_splits)
qed

lemma session_frame:
  "state_io_rel (same (\<lambda>s. (st_tabs s, st_sessionSeq s))) (dumpOrder W)"
  "state_io_rel (same (\<lambda>s. (st_tabs s, st_sessionSeq s))) (writeLayoutFile W)"
  unfolding dumpOrder_def writeLayoutFile_def mkdirHost_def writeHostFile_def by (intro seat_rules; simp)+

lemmas session_frames = session_frame [THEN sameD, simplified prod.inject]

lemma loadSession_decoded:
  assumes "length b \<le> 1110" "decodeTabsV2 b = Some (seq, recs, act)" "w_read W (st_log t) sessionPath = Some b"
  defines "t' \<equiv> snd (run_state (loadSession W) t)"
  shows "map rec_of_tab (open_tabs (st_tabs t')) = recs"
    "map tab_ID (open_tabs (st_tabs t')) = map placeholder [0..<length recs]"
    "ts_focus (st_tabs t') = (case act of None \<Rightarrow> 0 | Some a \<Rightarrow> int a)" "st_sessionSeq t' = seq + 1"
proof -
  obtain r where r: "applyTabsV2 (st_tabs t) b = (Some seq, r)" "wf_strip r" "map rec_of_tab (open_tabs r) = recs"
      "map tab_ID (open_tabs r) = map placeholder [0..<length recs]"
      "ts_focus r = (case act of None \<Rightarrow> 0 | Some a \<Rightarrow> int a)"
    using apply_decoded [OF assms(2)] by blast
  have "st_tabs t' = r" "st_sessionSeq t' = seq + 1"
    using assms(1,3) r(1)
    by (simp_all add: t'_def loadSession_def restoreSessionBytes_def ReadFileAll_def split_def Let_def session_frames)
  then show "map rec_of_tab (open_tabs (st_tabs t')) = recs"
    "map tab_ID (open_tabs (st_tabs t')) = map placeholder [0..<length recs]"
    "ts_focus (st_tabs t') = (case act of None \<Rightarrow> 0 | Some a \<Rightarrow> int a)" "st_sessionSeq t' = seq + 1"
    using r by simp_all
qed

subsection \<open>Navigation targets\<close>

lemma reply_fields:
  "rpc_seq (buildReply req a p) = rpc_seq req" "rpc_applied (buildReply req a p) = (if a then 1 else 0)"
  by (simp_all add: buildReply_def zero_rpc_def Let_def)

lemma wf_buildReply: "wf_rpc (buildReply req a p)" "DecodeWmRpc (Encode (buildReply req a p)) = Some (buildReply req a p)"
proof -
  show "wf_rpc (buildReply req a p)"
    by (auto simp: buildReply_def zero_rpc_def wf_rpc_def Let_def)
  then show "DecodeWmRpc (Encode (buildReply req a p)) = Some (buildReply req a p)"
    using decode_encode_append [of _ "[]"] by simp
qed

lemma copy_is_pad: "length b \<le> n \<Longrightarrow> go_copy (replicate n 0) b = pad_field n b"
  by (simp add: go_copy_def pad_field_def)

lemma reply_title: "CHR 0x00 \<notin> set p \<Longrightarrow> TitleString (buildReply req a p) = (if a then take 24 p else [])"
proof -
  assume "CHR 0x00 \<notin> set p"
  then have "0 \<notin> set (bytes_of p)" by (auto simp: bytes_of_def dest: sym)
  then have "0 \<notin> set (take 24 (bytes_of p))" using in_set_takeD by metis
  moreover have "string_of (trim_field (replicate 24 0)) = []"
    using trim_pad_field [of "[]" 24] by (simp add: pad_field_def string_of_def)
  ultimately show ?thesis
    by (auto simp: TitleString_def buildReply_def Let_def zero_rpc_def copy_is_pad trim_pad_field string_of_take)
qed

text \<open>
  C31. A back or forward target is delivered once, to its own window. A poll from the window a target is
  queued for is acked as applied with a frame that decodes to the target (cut at the 24 bytes of the
  wire), and empties the slot, so that the next poll of any window is refused; a poll from any other
  window is refused and leaves the target queued.
\<close>

theorem nav_delivered_once:
  assumes "rpc_kind req = WmRpcKindNavPoll" "rpc_reply_to req \<noteq> 0" "CHR 0x00 \<notin> set path" "path \<noteq> []"
    "st_pendingNavID s \<noteq> 0" "st_pendingNavPath s = path" "st_replyPayload s = []"
  shows "let (applied, s1) = run_state (applyRPC W req) s; s2 = snd (run_state (replyRPC W req applied) s1) in
     (applied \<longleftrightarrow> ucast (rpc_id req) = st_pendingNavID s)
     \<and> (\<exists>rep. sends (st_log s2) = sends (st_log s) @ [(ucast (rpc_reply_to req), Encode rep)]
          \<and> DecodeWmRpc (Encode rep) = Some rep \<and> rpc_seq rep = rpc_seq req
          \<and> rpc_applied rep = (if applied then 1 else 0)
          \<and> TitleString rep = (if applied then take 24 path else []))
     \<and> (applied \<longrightarrow> (\<forall>w. fst (run_state (navPoll w) s2) = None))
     \<and> (\<not> applied \<longrightarrow> fst (run_state (navPoll (st_pendingNavID s)) s2) = Some path)
     \<and> st_replyPayload s2 = []"
proof -
  have k: "rpc_kind req AND 0x7f = WmRpcKindNavPoll" using assms(1) by simp
  have t: "TitleString (buildReply req a (if a then path else [])) = (if a then take 24 path else [])" for a
    using reply_title [OF assms(3)] reply_title [of "[]"] by simp
  show ?thesis
    unfolding Let_def split_def using assms k t
    by (intro conjI exI [of _ "buildReply req (ucast (rpc_id req) = st_pendingNavID s)
        (if ucast (rpc_id req) = st_pendingNavID s then path else [])"])
      (auto simp: applyRPC_def rpc_nav_poll_def navPoll_def Let_def split_def sends_def replyRPC_def
        takeReplyPayload_def reply_fields wf_buildReply)
qed

definition nav_poll :: "u8 \<Rightarrow> wm_rpc" where
  "nav_poll i = zero_rpc\<lparr>rpc_kind := WmRpcKindNavPoll, rpc_id := i, rpc_seq := 3, rpc_reply_to := 9\<rparr>"

theorem nav_delivered_once_witness:
  "fst (run_state (applyRPC idle_world (nav_poll 7)) (two_tabs\<lparr>st_pendingNavID := 7, st_pendingNavPath := ''/a''\<rparr>))"
  using nav_delivered_once [of "nav_poll 7" "''/a''" "two_tabs\<lparr>st_pendingNavID := 7, st_pendingNavPath := ''/a''\<rparr>" idle_world]
  by (simp add: nav_poll_def zero_rpc_def two_tabs_def init_seat_def Let_def split_def)

subsection \<open>Restored rows\<close>

text \<open>
  Placeholders of restored rows lie at 0x100 and above; a request names its window with one byte.
\<close>

definition restored_rows :: "strip \<Rightarrow> tab list" where
  "restored_rows s = filter (\<lambda>t. sessionIDBase \<le> tab_ID t) (open_tabs s)"

definition rows_kept :: "seat \<Rightarrow> seat \<Rightarrow> bool" where
  "rows_kept s t \<longleftrightarrow> (wf_strip (st_tabs s) \<longrightarrow> wf_strip (st_tabs t) \<and> restored_rows (st_tabs t) = restored_rows (st_tabs s))"

interpretation rows: seat_relation rows_kept
  by unfold_locales (auto simp: rows_kept_def)

lemmas [seat_rules] = rows.io_ret rows.io_gets rows.io_bind rows.io_if rows.io_option rows.io_prod rows.io_let
  rows.io_split_kind rows.io_for_each rows.io_for_all

lemma restored_upd:
  assumes "wf_strip t" "index t wid = int i" "\<And>u. tab_ID (f u) = tab_ID u" "wid < sessionIDBase"
  shows "restored_rows (upd_tab t (int i) f) = restored_rows t"
proof -
  obtain i: "i < ts_count t" "tab_ID (ts_tabs t ! i) = wid"
    using index_cases [OF assms(1), of wid] assms(2) by (auto; metis nat_int)
  let ?x = "ts_tabs t ! i"
  have l: "i < length (open_tabs t)" "open_tabs t ! i = ?x"
    using i(1) length_open_tabs [OF assms(1)] by (simp_all add: nth_open_tabs)
  have ot: "open_tabs t = take i (open_tabs t) @ ?x # drop (Suc i) (open_tabs t)"
    using l by (metis id_take_nth_drop)
  have "open_tabs (upd_tab t (int i) f) = take i (open_tabs t) @ f ?x # drop (Suc i) (open_tabs t)"
    using l by (simp add: open_tabs_upd_tab upd_conv_take_nth_drop)
  moreover have "\<not> sessionIDBase \<le> tab_ID ?x" "\<not> sessionIDBase \<le> tab_ID (f ?x)"
    using i(2) assms(3,4) by (simp_all add: not_le)
  ultimately show ?thesis unfolding restored_rows_def using arg_cong [OF ot, of "filter (\<lambda>t. sessionIDBase \<le> tab_ID t)"] by simp
qed

lemma rows_kdo [seat_rules]: "state_io_rel rows_kept (kdo W c)"
  by (simp add: state_io_rel_def rows_kept_def)

lemma rows_say [seat_rules]: "state_io_rel rows_kept (say W l)"
  by (simp add: state_io_rel_def rows_kept_def)

lemma rows_modify [seat_rules]: "(\<And>s. st_tabs (f s) = st_tabs s) \<Longrightarrow> state_io_rel rows_kept (modify f)"
  by (simp add: state_io_rel_def rows_kept_def)

lemma rows_on_notify [seat_rules]: "state_io_rel rows_kept (on_notify f)"
  by (simp add: state_io_rel_def rows_kept_def)

lemma rows_on_tabs:
  "(\<And>t. wf_strip t \<Longrightarrow> wf_strip (snd (f t)) \<and> restored_rows (snd (f t)) = restored_rows t) \<Longrightarrow> state_io_rel rows_kept (on_tabs f)"
  by (simp add: state_io_rel_def rows_kept_def)

lemma rows_OpenTab [seat_rules]:
  assumes "wid < sessionIDBase"
  shows "state_io_rel rows_kept (on_tabs (\<lambda>t. OpenTab t wid title))"
proof (rule rows_on_tabs)
  fix t assume wf: "wf_strip t"
  have "restored_rows (snd (OpenTab t wid title)) = restored_rows t"
  proof (rule index_cases [OF wf, of wid])
    assume m: "index t wid = -1" "wid \<notin> tab_ID ` set (open_tabs t)"
    show ?thesis
    proof (cases "wid \<noteq> 0 \<and> ts_count t < 16")
      case True
      then show ?thesis using OpenTab_fresh(2) [OF wf _ m(2), of title] assms
        by (simp add: restored_rows_def fresh_tab_def not_le)
    qed (use m in \<open>auto simp: OpenTab_def\<close>)
  next
    fix i assume "index t wid = int i"
    then show ?thesis using restored_upd [OF wf _ _ assms]
      by (auto simp: OpenTab_def Let_def)
  qed
  then show "wf_strip (snd (OpenTab t wid title)) \<and> restored_rows (snd (OpenTab t wid title)) = restored_rows t"
    using wf_OpenTab [OF wf] by simp
qed

lemma rows_upd_op:
  assumes "wid < sessionIDBase" "\<And>u. tab_ID (f u) = tab_ID u" "wf_strip t" "0 \<le> index t wid"
  shows "restored_rows (upd_tab t (index t wid) f) = restored_rows t"
  using restored_upd [OF assms(3), of wid "nat (index t wid)" f] assms by simp

lemma rows_SetTitle [seat_rules]: "wid < sessionIDBase \<Longrightarrow> state_io_rel rows_kept (on_tabs (\<lambda>t. SetTitle t wid title))"
  by (rule rows_on_tabs, rule conjI, rule wf_intros, assumption) (auto simp: SetTitle_def Let_def rows_upd_op)

lemma rows_FocusTab [seat_rules]: "state_io_rel rows_kept (on_tabs (\<lambda>t. FocusTab t wid))"
  by (rule rows_on_tabs, rule conjI, rule wf_intros, assumption)
    (auto simp: FocusTab_def Let_def restored_rows_def open_tabs_def)

lemma rows_NavDeclare [seat_rules]:
  "wid < sessionIDBase \<Longrightarrow>
   state_io_rel rows_kept (on_tabs (\<lambda>t. let (known, changed, t') = NavDeclare t wid path in ((known, changed), t')))"
proof (rule rows_on_tabs)
  fix t assume "wid < sessionIDBase" "wf_strip t"
  then show "wf_strip (snd (let (known, changed, t') = NavDeclare t wid path in ((known, changed), t')))
      \<and> restored_rows (snd (let (known, changed, t') = NavDeclare t wid path in ((known, changed), t'))) = restored_rows t"
    using wf_NavDeclare [of t wid path] by (auto simp: NavDeclare_def split_def Let_def rows_upd_op)
qed

lemma restored_close:
  assumes "wf_strip t" "wid < sessionIDBase"
  shows "restored_rows (snd (close_strip t wid)) = restored_rows t"
proof (rule index_cases [OF assms(1), of wid])
  fix i assume i: "index t wid = int i" "i < ts_count t" "tab_ID (ts_tabs t ! i) = wid"
  then have "open_tabs (snd (close_strip t wid)) = filter (\<lambda>u. tab_ID u \<noteq> wid) (open_tabs t)"
    using open_remove_at_filter [OF wf_recordClosed [OF assms(1)], of i] by (simp add: close_strip_def Let_def)
  then show ?thesis using assms(2) by (auto simp: restored_rows_def intro!: filter_cong)
qed (auto simp: close_strip_def)

lemma rows_CloseTab [seat_rules]: "wid < sessionIDBase \<Longrightarrow> state_io_rel rows_kept (CloseTab W wid)"
  using restored_close wf_close_strip by (simp add: state_io_rel_def rows_kept_def CloseTab_run)

lemma rows_tabs_same: "state_io_rel (same st_tabs) m \<Longrightarrow> state_io_rel rows_kept m"
  by (simp add: state_io_rel_def rows_kept_def same_def)

lemmas rows_session [seat_rules] = rows_tabs_same [OF tabs_noteSessionMutation]

lemma rows_requests:
  assumes "wid < sessionIDBase"
  shows "state_io_rel rows_kept (rpc_declare W wid p)" "state_io_rel rows_kept (rpc_raise W wid)"
    "state_io_rel rows_kept (rpc_attach W wid p)" "state_io_rel rows_kept (rpc_detach W wid)"
    "state_io_rel rows_kept (rpc_nav_declare W wid p)" "state_io_rel rows_kept (rpc_nav_poll W wid)"
    "state_io_rel rows_kept (rpc_set_title W wid p)" "state_io_rel rows_kept (rpc_notify W wid p)"
    "state_io_rel rows_kept (rpc_cycle W)"
  unfolding rpc_declare_def rpc_raise_def rpc_attach_def rpc_detach_def rpc_cycle_def rpc_nav_declare_def
    rpc_nav_poll_def rpc_set_title_def rpc_notify_def noteStripOpen_def syncHostedFromStrip_def navPoll_def
  by (intro seat_rules assms; simp)+

lemma rows_applyRPC: "state_io_rel rows_kept (applyRPC W req)"
proof -
  have w: "(ucast (rpc_id req) :: u32) < sessionIDBase"
    using unsigned_less [of "rpc_id req", where 'a = nat] by (simp add: word_less_nat_alt unsigned_ucast_eq)
  show ?thesis
    unfolding applyRPC_def by (simp add: Let_def rows_requests [OF w] rows.io_bind rows.io_ret rows_say)
qed

text \<open>
  C32. A client cannot touch a restored row: whatever frame arrives, applying it leaves the rows restored
  from the last session exactly as they are and in the same order, because the one-byte window id of
  the wire never reaches the placeholders at 0x100 and above.
\<close>

theorem restored_rows_safe:
  assumes "seat_inv s"
  shows "restored_rows (st_tabs (snd (run_state (applyRPC W req) s))) = restored_rows (st_tabs s)"
  using io_relD [OF rows_applyRPC [of W req], of s] assms by (simp add: rows_kept_def seat_inv_def)

definition restored_seat :: seat where
  "restored_seat = init_seat\<lparr>st_tabs := foldl strip_apply empty_strip [OpOpen 0x107 ''Calc'', OpOpen 7 ''Edit'']\<rparr>"

theorem restored_rows_safe_witness:
  "map tab_ID (restored_rows (st_tabs (snd (run_state
     (applyRPC idle_world (zero_rpc\<lparr>rpc_kind := WmRpcKindDetachTab, rpc_id := 7\<rparr>)) restored_seat)))) = [0x107]"
proof -
  have "seat_inv restored_seat"
    using seat_inv_init wf_strip_run [of empty_strip "[OpOpen 0x107 ''Calc'', OpOpen 7 ''Edit'']"]
    by (simp add: restored_seat_def seat_inv_def) (simp add: init_seat_def)
  moreover have "map tab_ID (restored_rows (st_tabs restored_seat)) = [0x107]" by code_simp
  ultimately show ?thesis using restored_rows_safe by metis
qed

end
