(* ===== verification/SafeFile.thy ===== *)
theory SafeFile
  imports Prelude "HOL-Library.Sublist"
begin

text \<open>
  The file wrappers of \<^verbatim>\<open>vi/vi.go\<close> that every program saves and loads through: the chunked write, the
  bounded read, and the crash-safe replacement of a file. The kernel's file service is a parameter, a
  record of operations on a state the library never looks into; what the wrappers rely on is the
  interface \<open>file_service\<close>. A run keeps the trace of kernel states, newest first, so that a property can
  speak of a crash after any call.
\<close>

subsection \<open>The service\<close>

record 's fsops =
  k_open :: "string \<Rightarrow> u32 \<Rightarrow> 's \<Rightarrow> int \<times> 's"
  k_read :: "u32 \<Rightarrow> nat \<Rightarrow> 's \<Rightarrow> (int \<times> bytes) \<times> 's"
  k_write :: "u32 \<Rightarrow> bytes \<Rightarrow> 's \<Rightarrow> int \<times> 's"
  k_close :: "u32 \<Rightarrow> 's \<Rightarrow> 's"
  k_sync :: "u32 \<Rightarrow> 's \<Rightarrow> int \<times> 's"
  k_delete :: "string \<Rightarrow> 's \<Rightarrow> int \<times> 's"
  k_rename :: "string \<Rightarrow> string \<Rightarrow> 's \<Rightarrow> int \<times> 's"

definition call :: "('s \<Rightarrow> 'a \<times> 's) \<Rightarrow> 's list \<Rightarrow> 'a \<times> 's list" where
  "call f tr = (let (r, s) = f (hd tr) in (r, s # tr))"

abbreviation (input) ErrEINVAL :: int where "ErrEINVAL \<equiv> 1"
abbreviation (input) ErrFileNotFound :: int where "ErrFileNotFound \<equiv> -6"
abbreviation (input) ModeRead :: u32 where "ModeRead \<equiv> 1"
abbreviation (input) ModeWriteCreate :: u32 where "ModeWriteCreate \<equiv> 6"
abbreviation (input) ModeWriteCreateAppend :: u32 where "ModeWriteCreateAppend \<equiv> 14"

subsection \<open>One call each\<close>

definition FileOpen :: "'s fsops \<Rightarrow> string \<Rightarrow> u32 \<Rightarrow> 's list \<Rightarrow> int \<times> 's list" where
  "FileOpen K path flags tr = (if path = [] then (- ErrEINVAL, tr) else call (k_open K path flags) tr)"

definition FileRead :: "'s fsops \<Rightarrow> u32 \<Rightarrow> nat \<Rightarrow> 's list \<Rightarrow> (int \<times> bytes) \<times> 's list" where
  "FileRead K h n tr =
     (if n = 0 then ((0, []), tr)
      else let ((r, d), tr) = call (k_read K h n) tr in ((r, if r < 0 then [] else d), tr))"

definition FileWrite :: "'s fsops \<Rightarrow> u32 \<Rightarrow> bytes \<Rightarrow> 's list \<Rightarrow> int \<times> 's list" where
  "FileWrite K h b tr = (if b = [] then (0, tr) else call (k_write K h b) tr)"

definition FileClose :: "'s fsops \<Rightarrow> u32 \<Rightarrow> 's list \<Rightarrow> 's list" where
  "FileClose K h tr = snd (call (\<lambda>s. ((), k_close K h s)) tr)"

definition FileSync :: "'s fsops \<Rightarrow> u32 \<Rightarrow> 's list \<Rightarrow> int \<times> 's list" where
  "FileSync K h tr = call (k_sync K h) tr"

definition FileDelete :: "'s fsops \<Rightarrow> string \<Rightarrow> 's list \<Rightarrow> int \<times> 's list" where
  "FileDelete K path tr = (if path = [] then (- ErrEINVAL, tr) else call (k_delete K path) tr)"

definition FileRename :: "'s fsops \<Rightarrow> string \<Rightarrow> string \<Rightarrow> 's list \<Rightarrow> int \<times> 's list" where
  "FileRename K old new tr =
     (if old = [] \<or> new = [] then (- ErrEINVAL, tr) else call (k_rename K old new) tr)"

subsection \<open>The chunked write\<close>

abbreviation (input) fileWriteChunk :: nat where "fileWriteChunk \<equiv> 2048"

text \<open>
  The loop of \<^verbatim>\<open>FileWriteAll\<close>: the bytes accepted so far and the result. Only a confirmed count advances
  it, and a count of zero ends it.
\<close>

function write_loop :: "'s fsops \<Rightarrow> u32 \<Rightarrow> bytes \<Rightarrow> nat \<Rightarrow> 's list \<Rightarrow> (nat \<times> int) \<times> 's list" where
  "write_loop K h b written tr =
     (if written < length b then
        let (r, tr) = FileWrite K h (take fileWriteChunk (drop written b)) tr in
        if r < 0 then ((written, r), tr)
        else if r = 0 then ((written, - ErrEINVAL), tr)
        else write_loop K h b (written + nat r) tr
      else ((written, 0), tr))"
  by pat_completeness auto
termination
  by (relation "measure (\<lambda>(_, _, b, written, _). length b - written)") auto

declare write_loop.simps [simp del]

definition FileWriteAll :: "'s fsops \<Rightarrow> u32 \<Rightarrow> bytes \<Rightarrow> 's list \<Rightarrow> (nat \<times> int) \<times> 's list" where
  "FileWriteAll K h b tr = write_loop K h b 0 tr"

definition FileAppend :: "'s fsops \<Rightarrow> string \<Rightarrow> bytes \<Rightarrow> 's list \<Rightarrow> bool \<times> 's list" where
  "FileAppend K path b tr =
     (let (r, tr) = FileOpen K path ModeWriteCreateAppend tr in
      if r < 0 then (False, tr)
      else let ((n, wr), tr) = FileWriteAll K (word_of_int r) b tr
           in (wr \<ge> 0 \<and> n = length b, FileClose K (word_of_int r) tr))"

subsection \<open>The bounded read\<close>

abbreviation (input) MaxFileBytes :: int where "MaxFileBytes \<equiv> 262144"
abbreviation (input) readChunk :: nat where "readChunk \<equiv> 4096"

lemma read_progress: "length out < mx \<Longrightarrow> d \<noteq> [] \<Longrightarrow> mx - length (out @ d) < mx - length out"
  by (cases d) auto

text \<open>The loop of \<^verbatim>\<open>ReadFileAll\<close>; the result is the slice and the code, a partial slice on an error.\<close>

function read_loop :: "'s fsops \<Rightarrow> u32 \<Rightarrow> nat \<Rightarrow> bytes \<Rightarrow> 's list \<Rightarrow> (bytes \<times> int) \<times> 's list" where
  "read_loop K h mx out tr =
     (if length out < mx then
        let ((r, d), tr) = FileRead K h readChunk tr in
        if r < 0 then ((out, r), tr)
        else if d = [] then ((out, int (length out)), tr)
        else if length out + length d > mx
        then ((out @ take (mx - length out) d, int mx), tr)
        else read_loop K h mx (out @ d) tr
      else ((out, int (length out)), tr))"
  by pat_completeness auto
termination
  by (relation "measure (\<lambda>(_, _, mx, out, _). mx - length out)", rule wf_measure, unfold in_measure prod.case)
    (rule read_progress; assumption)

declare read_loop.simps [simp del]

definition ReadFileAll_fs :: "'s fsops \<Rightarrow> string \<Rightarrow> int \<Rightarrow> 's list \<Rightarrow> (bytes option \<times> int) \<times> 's list" where
  "ReadFileAll_fs K path mx tr =
     (let mx = (if mx \<le> 0 \<or> mx > MaxFileBytes then nat MaxFileBytes else nat mx);
          (r, tr) = FileOpen K path ModeRead tr in
      if r < 0 then ((None, r), tr)
      else let ((d, rr), tr) = read_loop K (word_of_int r) mx [] tr
           in ((Some d, rr), FileClose K (word_of_int r) tr))"

definition FileExists :: "'s fsops \<Rightarrow> string \<Rightarrow> 's list \<Rightarrow> bool \<times> 's list" where
  "FileExists K path tr =
     (let (r, tr) = FileOpen K path ModeRead tr in
      if r < 0 then (False, tr) else (True, FileClose K (word_of_int r) tr))"

subsection \<open>The crash-safe replacement\<close>

definition WriteFileSafe :: "'s fsops \<Rightarrow> string \<Rightarrow> bytes \<Rightarrow> 's list \<Rightarrow> int \<times> 's list" where
  "WriteFileSafe K path b tr =
     (if path = [] then (- ErrEINVAL, tr)
      else
        let tmp = path @ ''~''; (r, tr) = FileOpen K tmp ModeWriteCreate tr in
        if r < 0 then (r, tr)
        else
          let h = word_of_int r; ((_, wr), tr) = FileWriteAll K h b tr in
          if wr < 0 then (wr, snd (FileDelete K tmp (FileClose K h tr)))
          else
            let (rc, tr) = FileSync K h tr in
            if rc < 0 then (rc, snd (FileDelete K tmp (FileClose K h tr)))
            else
              let (rc, tr) = FileDelete K path (FileClose K h tr) in
              if rc < 0 \<and> rc \<noteq> ErrFileNotFound then (rc, snd (FileDelete K tmp tr))
              else
                let (rc, tr) = FileRename K tmp path tr in
                if rc < 0 then (rc, snd (FileDelete K tmp tr)) else (0, tr))"

subsection \<open>What the wrappers rely on\<close>

text \<open>
  The documented behaviour of the service, for the files and for the cursors of open handles. A call
  that fails may leave the file it writes in any state, but touches no other; a rename refuses a live
  target; the not-found code of a delete is true.
\<close>

lemma call_trace: "call f tr = (r, tr') \<Longrightarrow> \<exists>s. f (hd tr) = (r, s) \<and> tr' = s # tr"
  by (cases "f (hd tr)") (simp add: call_def)

text \<open>
  A state in which a crash loses nothing: every other file is as it was, and the target holds its old
  bytes or the new ones, or it is absent with the new bytes complete in the temporary file.
\<close>

definition crash_point :: "(string \<Rightarrow> bytes option) \<Rightarrow> string \<Rightarrow> bytes \<Rightarrow> (string \<Rightarrow> bytes option) \<Rightarrow> bool" where
  "crash_point old path b f \<longleftrightarrow> (\<forall>q. q \<noteq> path \<and> q \<noteq> path @ ''~'' \<longrightarrow> f q = old q)
     \<and> (f path = old path \<or> f path = Some b \<or> f path = None \<and> f (path @ ''~'') = Some b)"

locale file_service =
  fixes K :: "'s fsops" and files :: "'s \<Rightarrow> string \<Rightarrow> bytes option"
    and cursor :: "'s \<Rightarrow> u32 \<Rightarrow> (string \<times> nat) option"
  assumes open_law: "k_open K p ModeWriteCreate s = (r, s') \<Longrightarrow>
      (\<forall>q. q \<noteq> p \<longrightarrow> files s' q = files s q)
      \<and> (r \<ge> 0 \<longrightarrow> files s' p = Some [] \<and> cursor s' (word_of_int r) = Some (p, 0))"
    and open_read_law: "k_open K p ModeRead s = (r, s') \<Longrightarrow>
      files s' = files s \<and> (r \<ge> 0 \<longrightarrow> files s p \<noteq> None \<and> cursor s' (word_of_int r) = Some (p, 0))"
    and wr_law: "k_write K h b s = (r, s') \<Longrightarrow> cursor s h = Some (p, length c) \<Longrightarrow> files s p = Some c \<Longrightarrow>
      (\<forall>q. q \<noteq> p \<longrightarrow> files s' q = files s q) \<and> r \<le> int (length b)
      \<and> (r \<ge> 0 \<longrightarrow> files s' p = Some (c @ take (nat r) b) \<and> cursor s' h = Some (p, length c + nat r))"
    and rd_law: "k_read K h n s = ((r, d), s') \<Longrightarrow> cursor s h = Some (p, i) \<Longrightarrow> files s p = Some c \<Longrightarrow>
      files s' = files s \<and> (r \<ge> 0 \<longrightarrow> d = take (nat r) (drop i c) \<and> nat r = length d \<and> length d \<le> n
        \<and> cursor s' h = Some (p, i + length d) \<and> (r = 0 \<longrightarrow> n = 0 \<or> length c \<le> i))"
    and close_law: "files (k_close K h s) = files s"
    and sync_law: "k_sync K h s = (r, s') \<Longrightarrow> files s' = files s"
    and delete_law: "k_delete K p s = (r, s') \<Longrightarrow>
      files s' = (if r < 0 then files s else (files s)(p := None)) \<and> (r = ErrFileNotFound \<longrightarrow> files s p = None)"
    and rename_law: "k_rename K p q s = (r, s') \<Longrightarrow>
      (if r < 0 then files s' = files s
       else files s q = None \<and> files s' = (files s)(q := files s p, p := None))"
begin

text \<open>The chunked write: success means the whole buffer was appended, and no other file moved.\<close>

lemma write_loop_appends:
  assumes "cursor (hd tr) h = Some (p, length c)" "files (hd tr) p = Some c" "tr \<noteq> []"
    and "write_loop K h b n tr = ((k, wr), tr')" "n \<le> length b"
  shows "\<exists>new. tr' = new @ tr \<and> (\<forall>s \<in> set new. \<forall>q. q \<noteq> p \<longrightarrow> files s q = files (hd tr) q)
    \<and> n \<le> k \<and> k \<le> length b \<and> wr \<le> 0
    \<and> (wr = 0 \<longrightarrow> k = length b \<and> files (hd tr') p = Some (c @ drop n b))"
  using assms
proof (induction "length b - n" arbitrary: n c tr rule: less_induct)
  case less
  note cur = less.prems(1,2) and run = less.prems(4)
  show ?case
  proof (cases "n < length b")
    case False
    then have "k = n \<and> wr = 0 \<and> tr' = tr" using run by (simp add: write_loop.simps [of K h b n])
    then show ?thesis using False less.prems(2,5) by simp
  next
    case True
    let ?chunk = "take 2048 (drop n b)"
    have ne: "?chunk \<noteq> []" using True by simp
    obtain r s where w: "k_write K h ?chunk (hd tr) = (r, s)" by fastforce
    note law = wr_law [OF w cur]
    have fw: "FileWrite K h ?chunk tr = (r, s # tr)" using ne w by (simp add: FileWrite_def call_def)
    show ?thesis
    proof (cases "r > 0")
      case False
      then have "((k, wr), tr') = (if r < 0 then ((n, r), s # tr) else ((n, - 1), s # tr))"
        using run True fw False by (auto simp: write_loop.simps [of K h b n] split: if_splits)
      then show ?thesis using False law less.prems(5) by (intro exI [of _ "[s]"]) (auto split: if_splits)
    next
      case pos: True
      have len: "nat r \<le> length ?chunk" using law pos by linarith
      have lt: "length b - (n + nat r) < length b - n" "n + nat r \<le> length b" using True pos len by auto
      have run': "write_loop K h b (n + nat r) (s # tr) = ((k, wr), tr')"
        using run True fw pos by (simp add: write_loop.simps [of K h b n])
      have app: "files s p = Some (c @ take (nat r) (drop n b))" "cursor s h = Some (p, length (c @ take (nat r) (drop n b)))"
        using law pos len by (auto simp: min_absorb1 min_absorb2)
      obtain new where new: "tr' = new @ s # tr" "\<forall>t \<in> set new. \<forall>q. q \<noteq> p \<longrightarrow> files t q = files s q"
          "n + nat r \<le> k" "k \<le> length b" "wr \<le> 0"
          "wr = 0 \<longrightarrow> k = length b \<and> files (hd tr') p = Some ((c @ take (nat r) (drop n b)) @ drop (n + nat r) b)"
        using less.hyps [of "n + nat r" "s # tr" "c @ take (nat r) (drop n b)"] app run' lt by auto
      have "take (nat r) (drop n b) @ drop (n + nat r) b = drop n b"
        by (metis add.commute append_take_drop_id drop_drop)
      then show ?thesis using new law by (intro exI [of _ "new @ [s]"]) auto
    qed
  qed
qed

text \<open>
  The temporary file up to its sync: the new bytes are in it on success, and whatever happened nothing
  else was touched.
\<close>

lemma temp_written:
  assumes "tmp \<noteq> []" "tr \<noteq> []" "FileOpen K tmp 6 tr = (r, tr1)" "r \<ge> 0"
    and "FileWriteAll K (word_of_int r) b tr1 = ((k, wr), tr2)"
  shows "\<exists>new. tr2 = new @ tr \<and> new \<noteq> [] \<and> (\<forall>s \<in> set new. \<forall>q. q \<noteq> tmp \<longrightarrow> files s q = files (hd tr) q)
    \<and> wr \<le> 0 \<and> (wr = 0 \<longrightarrow> files (hd tr2) tmp = Some b)"
proof -
  obtain s where o: "k_open K tmp 6 (hd tr) = (r, s)" "tr1 = s # tr"
    using assms(1,3) call_trace [of "k_open K tmp 6" tr] by (auto simp: FileOpen_def)
  note law = open_law [OF o(1)]
  obtain new where "tr2 = new @ tr1" "\<forall>t \<in> set new. \<forall>q. q \<noteq> tmp \<longrightarrow> files t q = files s q"
      "wr \<le> 0" "wr = 0 \<longrightarrow> files (hd tr2) tmp = Some b"
    using write_loop_appends [of tr1 "word_of_int r" tmp "[]" b 0 k wr tr2] law assms(4,5) o(2)
    by (auto simp: FileWriteAll_def)
  then show ?thesis using law o(2) by (intro exI [of _ "new @ [s]"]) auto
qed

lemma FileClose_trace: "\<exists>s. FileClose K h tr = s # tr \<and> files s = files (hd tr)"
  using close_law by (simp add: FileClose_def call_def)

lemma FileDelete_trace:
  assumes "p \<noteq> []" "FileDelete K p tr = (r, tr')"
  shows "\<exists>s. tr' = s # tr \<and> files s = (if r < 0 then files (hd tr) else (files (hd tr))(p := None))
    \<and> (r = -6 \<longrightarrow> files (hd tr) p = None)"
proof -
  obtain s where s: "k_delete K p (hd tr) = (r, s)" "tr' = s # tr"
    using assms call_trace [of "k_delete K p" tr] by (auto simp: FileDelete_def)
  then show ?thesis using delete_law [OF s(1)] by simp
qed

lemma FileSync_trace: "FileSync K h tr = (r, tr') \<Longrightarrow> \<exists>s. tr' = s # tr \<and> files s = files (hd tr)"
  using call_trace [of "k_sync K h" tr] sync_law by (fastforce simp: FileSync_def)

lemma FileRename_trace:
  assumes "p \<noteq> []" "q \<noteq> []" "FileRename K p q tr = (r, tr')"
  shows "\<exists>s. tr' = s # tr \<and> (if r < 0 then files s = files (hd tr)
     else files s = (files (hd tr))(q := files (hd tr) p, p := None))"
proof -
  obtain s where s: "k_rename K p q (hd tr) = (r, s)" "tr' = s # tr"
    using assms call_trace [of "k_rename K p q" tr] by (auto simp: FileRename_def)
  then show ?thesis using rename_law [OF s(1)] by (auto split: if_splits)
qed

text \<open>From the sync on: the old file goes and the temporary file takes its place.\<close>

lemma publish_crash_safe:
  assumes "path \<noteq> []" and full: "files (hd tr) (path @ ''~'') = Some b"
    and same: "\<And>q. q \<noteq> path @ ''~'' \<Longrightarrow> files (hd tr) q = old q"
    and run: "(let (rc, tr) = FileSync K h tr in
       if rc < 0 then (rc, snd (FileDelete K (path @ ''~'') (FileClose K h tr)))
       else let (rc, tr) = FileDelete K path (FileClose K h tr) in
         if rc < 0 \<and> rc \<noteq> ErrFileNotFound then (rc, snd (FileDelete K (path @ ''~'') tr))
         else let (rc, tr) = FileRename K (path @ ''~'') path tr in
           if rc < 0 then (rc, snd (FileDelete K (path @ ''~'') tr)) else (0, tr)) = (r, tr')"
  shows "\<exists>new. tr' = new @ tr \<and> new \<noteq> [] \<and> r \<le> 0 \<and> (\<forall>s \<in> set (tl new). crash_point old path b (files s))
    \<and> (\<forall>q. q \<noteq> path \<and> q \<noteq> path @ ''~'' \<longrightarrow> files (hd new) q = old q)
    \<and> (if r = 0 then files (hd new) path = Some b \<and> files (hd new) (path @ ''~'') = None
       else files (hd new) path \<in> {old path, None})"
proof -
  let ?tmp = "path @ ''~''" and ?F = "files (hd tr)"
  obtain r1 s1 where y: "FileSync K h tr = (r1, s1 # tr)" "files s1 = ?F"
    using FileSync_trace by (metis prod.exhaust)
  obtain s2 where c: "FileClose K h (s1 # tr) = s2 # s1 # tr" "files s2 = ?F"
    using FileClose_trace [of h "s1 # tr"] y(2) by auto
  have drop_tmp: "\<exists>s. snd (FileDelete K ?tmp tr0) = s # tr0 \<and> (\<forall>q. q \<noteq> ?tmp \<longrightarrow> files s q = files (hd tr0) q)" for tr0
    using FileDelete_trace [of ?tmp tr0] by (cases "FileDelete K ?tmp tr0") fastforce
  show ?thesis
  proof (cases "r1 < 0")
    case True
    obtain s3 where "snd (FileDelete K ?tmp (s2 # s1 # tr)) = s3 # s2 # s1 # tr" "\<forall>q. q \<noteq> ?tmp \<longrightarrow> files s3 q = ?F q"
      using drop_tmp [of "s2 # s1 # tr"] c(2) by auto
    then show ?thesis using run y c True same
      by (intro exI [of _ "[s3, s2, s1]"]) (auto simp: crash_point_def)
  next
    case synced: False
    obtain r2 tr2 where d0: "FileDelete K path (s2 # s1 # tr) = (r2, tr2)" by fastforce
    obtain s3 where d: "tr2 = s3 # s2 # s1 # tr" "files s3 = (if r2 < 0 then ?F else ?F(path := None))"
        "r2 = -6 \<longrightarrow> ?F path = None"
      using FileDelete_trace [OF assms(1) d0] c(2) by auto
    show ?thesis
    proof (cases "r2 < 0 \<and> r2 \<noteq> -6")
      case True
      obtain s4 where "snd (FileDelete K ?tmp tr2) = s4 # tr2" "\<forall>q. q \<noteq> ?tmp \<longrightarrow> files s4 q = ?F q"
        using drop_tmp [of tr2] d True by auto
      then show ?thesis using run y c synced d0 d True same
        by (intro exI [of _ "[s4, s3, s2, s1]"]) (auto simp: crash_point_def)
    next
      case gone: False
      have F3: "files s3 = ?F(path := None)" using gone d by (auto simp: fun_eq_iff)
      obtain r3 tr3 where n0: "FileRename K ?tmp path tr2 = (r3, tr3)" by fastforce
      obtain s4 where n: "tr3 = s4 # tr2" "if r3 < 0 then files s4 = files s3
          else files s4 = (files s3)(path := files s3 ?tmp, ?tmp := None)"
        using FileRename_trace [OF _ assms(1) n0] d(1) by auto
      show ?thesis
      proof (cases "r3 < 0")
        case True
        obtain s5 where "snd (FileDelete K ?tmp tr3) = s5 # tr3" "\<forall>q. q \<noteq> ?tmp \<longrightarrow> files s5 q = files s3 q"
          using drop_tmp [of tr3] n True by auto
        then show ?thesis using run y c synced d0 gone n0 n d(1) True same full F3
          by (intro exI [of _ "[s5, s4, s3, s2, s1]"]) (auto simp: crash_point_def)
      next
        case False
        then show ?thesis using run y c synced d0 gone n0 n d(1) same full F3
          by (intro exI [of _ "[s4, s3, s2, s1]"]) (auto simp: crash_point_def)
      qed
    qed
  qed
qed

text \<open>
  The replacement, seen at every kernel state of the run: the head of \<open>new\<close> is the state at return, the
  others are the points where a crash may stop it.
\<close>

lemma replace_crash_safe:
  assumes "path \<noteq> []" "tr \<noteq> []" "WriteFileSafe K path b tr = (r, tr')"
  shows "\<exists>new. tr' = new @ tr \<and> new \<noteq> [] \<and> r \<le> 0 \<and> (\<forall>s \<in> set (tl new). crash_point (files (hd tr)) path b (files s))
    \<and> (\<forall>q. q \<noteq> path \<and> q \<noteq> path @ ''~'' \<longrightarrow> files (hd new) q = files (hd tr) q)
    \<and> (if r = 0 then files (hd new) path = Some b \<and> files (hd new) (path @ ''~'') = None
       else files (hd new) path \<in> {files (hd tr) path, None})"
proof -
  define tmp where "tmp = path @ ''~''"
  let ?old = "files (hd tr)"
  have t: "tmp \<noteq> []" "tmp \<noteq> path" by (simp_all add: tmp_def)
  obtain r1 tr1 where o: "FileOpen K tmp 6 tr = (r1, tr1)" by fastforce
  show ?thesis
  proof (cases "r1 < 0")
    case True
    obtain s where s: "k_open K tmp 6 (hd tr) = (r1, s)" "tr1 = s # tr"
      using o t(1) call_trace [of "k_open K tmp 6" tr] by (auto simp: FileOpen_def)
    have "r = r1" "tr' = s # tr" using assms(1,3) o True s by (auto simp: WriteFileSafe_def tmp_def)
    then show ?thesis using True open_law [OF s(1)] t by (intro exI [of _ "[s]"]) (auto simp: tmp_def)
  next
    case opened: False
    let ?h = "word_of_int r1 :: u32"
    obtain k wr tr2 where w: "FileWriteAll K ?h b tr1 = ((k, wr), tr2)" by (metis prod.exhaust)
    obtain nw where nw: "tr2 = nw @ tr" "nw \<noteq> []" "\<forall>s \<in> set nw. \<forall>q. q \<noteq> tmp \<longrightarrow> files s q = ?old q"
        "wr \<le> 0" "wr = 0 \<longrightarrow> files (hd tr2) tmp = Some b"
      using temp_written [OF t(1) assms(2) o _ w] opened by auto
    have cp: "\<forall>s \<in> set nw. crash_point ?old path b (files s)"
      using nw(3) t(2) by (auto simp: crash_point_def tmp_def)
    have hd2: "q \<noteq> tmp \<Longrightarrow> files (hd nw) q = ?old q" for q using nw(2,3) by (simp add: list.set_sel(1))
    have hdtr: "hd tr2 = hd nw" using nw(1,2) by simp
    show ?thesis
    proof (cases "wr < 0")
      case True
      obtain s1 where c: "FileClose K ?h tr2 = s1 # tr2" "files s1 = files (hd tr2)" using FileClose_trace by blast
      obtain d tr3 where d: "FileDelete K tmp (s1 # tr2) = (d, tr3)" by fastforce
      obtain s2 where s2: "tr3 = s2 # s1 # tr2"
          "files s2 = (if d < 0 then files (hd tr2) else (files (hd tr2))(tmp := None))"
        using FileDelete_trace [OF t(1) d] c(2) by auto
      have "r = wr" "tr' = s2 # s1 # nw @ tr"
        using assms(1,3) o opened w True c d s2(1) nw(1) by (auto simp: WriteFileSafe_def tmp_def)
      then show ?thesis
        using True cp hd2 c(2) s2(2) hdtr t nw(2)
        by (intro exI [of _ "s2 # s1 # nw"]) (auto simp: tmp_def crash_point_def)
    next
      case False
      then have wr: "wr = 0" "files (hd nw) tmp = Some b" using nw(4,5) hdtr by auto
      have run: "(let (rc, tr) = FileSync K ?h tr2 in
         if rc < 0 then (rc, snd (FileDelete K (path @ ''~'') (FileClose K ?h tr)))
         else let (rc, tr) = FileDelete K path (FileClose K ?h tr) in
           if rc < 0 \<and> rc \<noteq> ErrFileNotFound then (rc, snd (FileDelete K (path @ ''~'') tr))
           else let (rc, tr) = FileRename K (path @ ''~'') path tr in
             if rc < 0 then (rc, snd (FileDelete K (path @ ''~'') tr)) else (0, tr)) = (r, tr')"
        using assms(1,3) o opened w wr(1) by (simp add: WriteFileSafe_def tmp_def Let_def)
      have same: "\<And>q. q \<noteq> path @ ''~'' \<Longrightarrow> files (hd tr2) q = ?old q" using hd2 hdtr by (simp add: tmp_def)
      have full: "files (hd tr2) (path @ ''~'') = Some b" using wr(2) hdtr by (simp add: tmp_def)
      obtain pub where pub: "tr' = pub @ tr2" "pub \<noteq> []" "r \<le> 0" "\<forall>s \<in> set (tl pub). crash_point ?old path b (files s)"
          "\<forall>q. q \<noteq> path \<and> q \<noteq> path @ ''~'' \<longrightarrow> files (hd pub) q = ?old q"
          "if r = 0 then files (hd pub) path = Some b \<and> files (hd pub) (path @ ''~'') = None
           else files (hd pub) path \<in> {?old path, None}"
        using publish_crash_safe [OF assms(1) full same run] by blast
      then show ?thesis using cp nw(1) by (intro exI [of _ "pub @ nw"] conjI) (simp_all only: pub append_assoc tl_append2 hd_append2 set_append ball_Un, simp_all add: pub)
    qed
  qed
qed

text \<open>The bounded read returns a prefix of the file, the whole bounded prefix when no call failed.\<close>

lemma read_loop_prefix:
  assumes "cursor (hd tr) h = Some (p, length out)" "files (hd tr) p = Some c" "out = take (length out) c"
    "length out \<le> mx" "read_loop K h mx out tr = ((d, rr), tr')"
  shows "files (hd tr') = files (hd tr) \<and> (if rr < 0 then prefix d c else d = take mx c \<and> rr = int (length d))"
  using assms
proof (induction "mx - length out" arbitrary: out tr rule: less_induct)
  case less
  note run = less.prems(5)
  show ?case
  proof (cases "length out < mx")
    case False
    then have "d = out" "rr = int (length out)" "tr' = tr" using run by (auto simp: read_loop.simps [of K h mx out])
    then show ?thesis using False less.prems(3,4) by (simp add: le_less)
  next
    case True
    obtain r e s where k: "k_read K h 4096 (hd tr) = ((r, e), s)" by (metis prod.exhaust)
    have rd: "FileRead K h 4096 tr = ((r, if r < 0 then [] else e), s # tr)"
      using k by (simp add: FileRead_def call_def)
    note law = rd_law [OF k less.prems(1,2)]
    have keep: "files s = files (hd tr)" using law by blast
    have got: "nat r = length e" "e = take (length e) (drop (length out) c)"
        "cursor s h = Some (p, length out + length e)" "r = 0 \<Longrightarrow> length c \<le> length out" if "\<not> r < 0"
      using law that by (metis not_less zero_neq_numeral)+
    show ?thesis
    proof (cases "r < 0 \<or> e = []")
      case stop: True
      then have "d = out" "tr' = s # tr" "rr = (if r < 0 then r else int (length out))"
        using run True rd by (auto simp: read_loop.simps [of K h mx out] split: if_splits)
      moreover have "take mx c = out" if "\<not> r < 0"
      proof -
        have "r = 0" "length c \<le> length out" using that stop got(1,4) [OF that] by auto
        then show ?thesis using less.prems(3) True by (metis less_imp_le_nat order_trans take_all)
      qed
      moreover have "prefix out c" using less.prems(3) by (metis take_is_prefix)
      ultimately show ?thesis using keep by auto
    next
      case more: False
      have nr: "\<not> r < 0" using more by simp
      note e = got(2) [OF nr]
      have app: "out @ take k e = take (length out + min k (length e)) c" for k
        using less.prems(3) e by (metis min.commute take_add take_take)
      show ?thesis
      proof (cases "length out + length e > mx")
        case True
        then have "d = out @ take (mx - length out) e" "rr = int mx" "tr' = s # tr"
          using run \<open>length out < mx\<close> rd more by (auto simp: read_loop.simps [of K h mx out])
        moreover have "length e \<le> length c - length out" using e by (metis length_drop length_take min.cobounded1)
        ultimately show ?thesis using True app [of "mx - length out"] keep \<open>length out < mx\<close> by (simp add: min_absorb1)
      next
        case False
        have run': "read_loop K h mx (out @ e) (s # tr) = ((d, rr), tr')"
          using run True rd more False by (simp add: read_loop.simps [of K h mx out])
        have "mx - length (out @ e) < mx - length out" using more True by (intro read_progress) auto
        moreover have "cursor (hd (s # tr)) h = Some (p, length (out @ e))" using got(3) [OF nr] by simp
        moreover have "files (hd (s # tr)) p = Some c" using keep less.prems(2) by simp
        moreover have "out @ e = take (length (out @ e)) c" by (metis app length_append min.idem order_refl take_all)
        moreover have "length (out @ e) \<le> mx" using False by simp
        ultimately have "files (hd tr') = files (hd (s # tr))
            \<and> (if rr < 0 then prefix d c else d = take mx c \<and> rr = int (length d))"
          using less.hyps run' by blast
        then show ?thesis using keep unfolding list.sel by metis
      qed
    qed
  qed
qed

end

subsection \<open>A service with faults\<close>

text \<open>
  The service as the kernel documents it, with a plan of faults: a negative entry of \<open>fs_plan\<close> fails the
  call with that code, any other caps the bytes a write accepts or a read returns.
\<close>

record fsref =
  fs_files :: "string \<Rightarrow> bytes option"
  fs_curs :: "u32 \<Rightarrow> (string \<times> nat) option"
  fs_calls :: nat
  fs_plan :: "nat \<Rightarrow> int"

definition planned :: "(int \<Rightarrow> fsref \<Rightarrow> int \<times> fsref) \<Rightarrow> fsref \<Rightarrow> int \<times> fsref" where
  "planned f s = (let p = fs_plan s (fs_calls s); s = s\<lparr>fs_calls := fs_calls s + 1\<rparr> in
     if p < 0 \<and> p \<noteq> -6 then (p, s) else f p s)"

definition ref_open :: "string \<Rightarrow> u32 \<Rightarrow> fsref \<Rightarrow> int \<times> fsref" where
  "ref_open p flags = planned (\<lambda>_ s.
     let h = int (fs_calls s) in
     if flags = 6 then (h, s\<lparr>fs_files := (fs_files s)(p := Some []), fs_curs := (fs_curs s)(word_of_int h := Some (p, 0))\<rparr>)
     else case fs_files s p of
       None \<Rightarrow> (-6, s)
     | Some c \<Rightarrow> (h, s\<lparr>fs_curs := (fs_curs s)(word_of_int h := Some (p, if flags = 1 then 0 else length c))\<rparr>))"

definition ref_write :: "u32 \<Rightarrow> bytes \<Rightarrow> fsref \<Rightarrow> int \<times> fsref" where
  "ref_write h b = planned (\<lambda>cap s.
     case fs_curs s h of
       None \<Rightarrow> (-2, s)
     | Some (p, n) \<Rightarrow>
         (case fs_files s p of
            None \<Rightarrow> (-2, s)
          | Some c \<Rightarrow>
              let k = min (length b) (Suc (nat cap)) in
              (int k, s\<lparr>fs_files := (fs_files s)(p := Some (take n c @ take k b @ drop (n + k) c)),
                       fs_curs := (fs_curs s)(h := Some (p, n + k))\<rparr>)))"

definition ref_read :: "u32 \<Rightarrow> nat \<Rightarrow> fsref \<Rightarrow> (int \<times> bytes) \<times> fsref" where
  "ref_read h m s =
     (let (r, s') = planned (\<lambda>cap s.
        case fs_curs s h of
          None \<Rightarrow> (-2, s)
        | Some (p, n) \<Rightarrow>
            (case fs_files s p of
               None \<Rightarrow> (-2, s)
             | Some c \<Rightarrow> let k = min (length c - n) (min m (Suc (nat cap)))
                         in (int k, s\<lparr>fs_curs := (fs_curs s)(h := Some (p, n + k))\<rparr>))) s
      in ((r, case fs_curs s h of
                Some (p, n) \<Rightarrow> (case fs_files s p of Some c \<Rightarrow> take (nat r) (drop n c) | None \<Rightarrow> [])
              | None \<Rightarrow> []), s'))"

definition ref_delete :: "string \<Rightarrow> fsref \<Rightarrow> int \<times> fsref" where
  "ref_delete p = planned (\<lambda>_ s. if fs_files s p = None then (-6, s) else (0, s\<lparr>fs_files := (fs_files s)(p := None)\<rparr>))"

definition ref_rename :: "string \<Rightarrow> string \<Rightarrow> fsref \<Rightarrow> int \<times> fsref" where
  "ref_rename p q = planned (\<lambda>_ s.
     if fs_files s q \<noteq> None then (-9, s)
     else if fs_files s p = None then (-6, s)
     else (0, s\<lparr>fs_files := (fs_files s)(q := fs_files s p, p := None)\<rparr>))"

definition ref_ops :: "fsref fsops" where
  "ref_ops = \<lparr>k_open = ref_open, k_read = ref_read, k_write = ref_write,
     k_close = (\<lambda>h s. s\<lparr>fs_curs := (fs_curs s)(h := None)\<rparr>),
     k_sync = (\<lambda>h. planned (\<lambda>_ s. (0, s))), k_delete = ref_delete, k_rename = ref_rename\<rparr>"

lemma ref_service: "file_service ref_ops fs_files fs_curs"
proof unfold_locales
  fix p r s s' assume "k_open ref_ops p 6 s = (r, s')"
  then show "(\<forall>q. q \<noteq> p \<longrightarrow> fs_files s' q = fs_files s q)
      \<and> (r \<ge> 0 \<longrightarrow> fs_files s' p = Some [] \<and> fs_curs s' (word_of_int r) = Some (p, 0))"
    by (auto simp: ref_ops_def ref_open_def planned_def Let_def split: if_splits)
next
  fix p r s s' assume "k_open ref_ops p 1 s = (r, s')"
  then show "fs_files s' = fs_files s \<and> (r \<ge> 0 \<longrightarrow> fs_files s p \<noteq> None \<and> fs_curs s' (word_of_int r) = Some (p, 0))"
    by (auto simp: ref_ops_def ref_open_def planned_def Let_def split: if_splits option.splits)
next
  fix h b s r s' p and c :: bytes
  assume "k_write ref_ops h b s = (r, s')" "fs_curs s h = Some (p, length c)" "fs_files s p = Some c"
  then show "(\<forall>q. q \<noteq> p \<longrightarrow> fs_files s' q = fs_files s q) \<and> r \<le> int (length b)
      \<and> (r \<ge> 0 \<longrightarrow> fs_files s' p = Some (c @ take (nat r) b) \<and> fs_curs s' h = Some (p, length c + nat r))"
    by (auto simp: ref_ops_def ref_write_def planned_def Let_def split: if_splits)
next
  fix h n s r d s' p i and c :: bytes
  assume "k_read ref_ops h n s = ((r, d), s')" "fs_curs s h = Some (p, i)" "fs_files s p = Some c"
  then show "fs_files s' = fs_files s \<and> (r \<ge> 0 \<longrightarrow> d = take (nat r) (drop i c) \<and> nat r = length d \<and> length d \<le> n
        \<and> fs_curs s' h = Some (p, i + length d) \<and> (r = 0 \<longrightarrow> n = 0 \<or> length c \<le> i))"
    by (auto simp: ref_ops_def ref_read_def planned_def Let_def split: if_splits)
next
  show "fs_files (k_close ref_ops h s) = fs_files s" for h s by (simp add: ref_ops_def)
next
  fix h s r s' assume "k_sync ref_ops h s = (r, s')"
  then show "fs_files s' = fs_files s" by (auto simp: ref_ops_def planned_def Let_def split: if_splits)
next
  fix p s r s' assume "k_delete ref_ops p s = (r, s')"
  then show "fs_files s' = (if r < 0 then fs_files s else (fs_files s)(p := None)) \<and> (r = -6 \<longrightarrow> fs_files s p = None)"
    by (auto simp: ref_ops_def ref_delete_def planned_def Let_def split: if_splits)
next
  fix p q s r s' assume "k_rename ref_ops p q s = (r, s')"
  then show "if r < 0 then fs_files s' = fs_files s
       else fs_files s q = None \<and> fs_files s' = (fs_files s)(q := fs_files s p, p := None)"
    by (auto simp: ref_ops_def ref_rename_def planned_def Let_def split: if_splits)
qed

interpretation ref: file_service ref_ops fs_files fs_curs
  by (rule ref_service)

subsection \<open>Properties\<close>

text \<open>
  C5. Replacing a file is crash safe on every service that keeps its documented contract, whatever calls
  fail. The call returns 0 or a negative code. At every kernel state before it returns, every other file
  is untouched and the target holds its old bytes or all the new ones, or is absent while the temporary
  file holds all the new ones. On success the target holds the new bytes and the temporary file is
  gone; on failure the target holds its old bytes or is absent, never a part of the new ones.
\<close>

theorem write_safe_crash_consistent:
  assumes "file_service K files cursor" "path \<noteq> []" "WriteFileSafe K path b [s] = (r, tr)"
  shows "\<exists>new. tr = new @ [s] \<and> new \<noteq> [] \<and> r \<le> 0 \<and> (\<forall>t \<in> set (tl new). crash_point (files s) path b (files t))
    \<and> (\<forall>q. q \<noteq> path \<and> q \<noteq> path @ ''~'' \<longrightarrow> files (hd new) q = files s q)
    \<and> (if r = 0 then files (hd new) path = Some b \<and> files (hd new) (path @ ''~'') = None
       else files (hd new) path \<in> {files s path, None})"
  using file_service.replace_crash_safe [OF assms(1,2) list.distinct(2) assms(3), unfolded list.sel] .

definition one_file :: fsref where
  "one_file = \<lparr>fs_files = [''a'' \<mapsto> [1, 2]], fs_curs = Map.empty, fs_calls = 0, fs_plan = (\<lambda>n. if n = 4 then -5 else 0)\<rparr>"

text \<open>The rename is refused after the delete: the old file is gone, and so is the temporary one.\<close>

theorem write_safe_crash_consistent_witness:
  "fst (WriteFileSafe ref_ops ''a'' [7, 8] [one_file]) = -5
     \<and> fs_files (hd (snd (WriteFileSafe ref_ops ''a'' [7, 8] [one_file]))) ''a'' \<in> {Some [1, 2], None}"
proof -
  obtain r tr where w: "WriteFileSafe ref_ops ''a'' [7, 8] [one_file] = (r, tr)" by fastforce
  have "fst (WriteFileSafe ref_ops ''a'' [7, 8] [one_file]) = -5" by code_simp
  moreover obtain new where "tr = new @ [one_file]" "new \<noteq> []"
      "if r = 0 then fs_files (hd new) ''a'' = Some [7, 8] \<and> fs_files (hd new) (''a'' @ ''~'') = None
       else fs_files (hd new) ''a'' \<in> {fs_files one_file ''a'', None}"
    using write_safe_crash_consistent [OF ref_service _ w] by blast
  moreover have "fs_files one_file ''a'' = Some [1, 2]" by (simp add: one_file_def)
  ultimately show ?thesis using w by auto
qed

text \<open>
  C29. What a safe write published is what a read returns: after a replacement that returned 0, a read
  bounded by \<open>mx\<close> whose calls succeed returns the first \<open>mx\<close> bytes (at most 256 KiB) and their number, and
  a read that fails on the way returns a prefix of them with the error code.
\<close>

theorem read_back_published:
  assumes "file_service K files cursor" "WriteFileSafe K path b [s] = (0, tr)"
    and "ReadFileAll_fs K path mx tr = ((Some d, rr), tr')"
  shows "if rr < 0 then prefix d b
    else d = take (if mx \<le> 0 \<or> mx > 262144 then 262144 else nat mx) b \<and> rr = int (length d)"
proof -
  have p: "path \<noteq> []" using assms(2) by (auto simp: WriteFileSafe_def)
  obtain new where "tr = new @ [s]" "new \<noteq> []" "files (hd new) path = Some b"
    using file_service.replace_crash_safe [OF assms(1) p list.distinct(2) assms(2)] by auto
  then have b: "files (hd tr) path = Some b" by simp
  obtain r s1 where o: "k_open K path 1 (hd tr) = (r, s1)" by fastforce
  note law = file_service.open_read_law [OF assms(1) o]
  have f: "FileOpen K path 1 tr = (r, s1 # tr)" using o p by (simp add: FileOpen_def call_def)
  have r: "\<not> r < 0" using assms(3) f by (auto simp: ReadFileAll_fs_def Let_def)
  let ?m = "if mx \<le> 0 \<or> mx > 262144 then 262144 else nat mx"
  obtain tr2 where "read_loop K (word_of_int r) ?m [] (s1 # tr) = ((d, rr), tr2)"
    using assms(3) f r by (auto simp: ReadFileAll_fs_def Let_def split_def prod_eq_iff)
  then have "files (hd tr2) = files (hd (s1 # tr)) \<and> (if rr < 0 then prefix d b else d = take ?m b \<and> rr = int (length d))"
    using law r b by (intro file_service.read_loop_prefix [OF assms(1), of _ "word_of_int r" path "[]"]) auto
  then show ?thesis by (rule conjunct2)
qed

theorem read_back_published_witness:
  "fst (ReadFileAll_fs ref_ops ''a'' 1 (snd (WriteFileSafe ref_ops ''a'' [7, 8] [one_file\<lparr>fs_plan := (\<lambda>_. 9)\<rparr>]))) = (Some [7], 1)"
proof -
  let ?w = "WriteFileSafe ref_ops ''a'' [7, 8] [one_file\<lparr>fs_plan := (\<lambda>_. 9)\<rparr>]"
  have z: "fst ?w = 0" by code_simp
  obtain tr where w: "?w = (0, tr)" using z by (cases ?w) simp
  obtain d rr tr' where r: "ReadFileAll_fs ref_ops ''a'' 1 tr = ((Some d, rr), tr')" and rr: "rr = 1"
  proof -
    have "fst (fst (ReadFileAll_fs ref_ops ''a'' 1 (snd ?w))) \<noteq> None" "snd (fst (ReadFileAll_fs ref_ops ''a'' 1 (snd ?w))) = 1"
      by code_simp+
    then show thesis using that w by (cases "ReadFileAll_fs ref_ops ''a'' 1 tr") auto
  qed
  have "d = take (if (1::int) \<le> 0 \<or> 262144 < (1::int) then 262144 else nat 1) [7, 8]"
    using read_back_published [OF ref_service w r] rr by simp
  then show ?thesis using w r rr by simp
qed

end
