(* ===== verification/Calc.thy ===== *)
theory Calc
  imports Format "HOL-Library.Signed_Division"
begin

text \<open>
  The calculator (\<^verbatim>\<open>calc/engine.go\<close> and the key handling of \<^verbatim>\<open>calc/main.go\<close>): checked 64-bit arithmetic, the
  pending-operation engine, and the line the program writes for a result. Values are 64-bit words read
  as signed numbers; an operation that reports failure is \<open>None\<close>.
\<close>

type_synonym i64 = "64 word"

abbreviation (input) minI64 :: i64 where "minI64 \<equiv> 0x8000000000000000"

subsection \<open>Checked arithmetic\<close>

text \<open>Go's division of \<^verbatim>\<open>int64\<close>: truncated, and the one quotient that does not fit wraps.\<close>

definition go_div :: "i64 \<Rightarrow> i64 \<Rightarrow> i64" where
  "go_div a b = word_of_int (sint a sdiv sint b)"

definition add64 :: "i64 \<Rightarrow> i64 \<Rightarrow> i64 option" where
  "add64 a b = (let c = a + b in
     if (0 <s b \<and> c <s a) \<or> (b <s 0 \<and> a <s c) then None else Some c)"

definition sub64 :: "i64 \<Rightarrow> i64 \<Rightarrow> i64 option" where
  "sub64 a b = (let c = a - b in
     if (0 <s b \<and> a <s c) \<or> (b <s 0 \<and> c <s a) then None else Some c)"

definition mul64 :: "i64 \<Rightarrow> i64 \<Rightarrow> i64 option" where
  "mul64 a b =
     (if a = 0 \<or> b = 0 then Some 0
      else let c = a * b in if go_div c a \<noteq> b then None else Some c)"

subsection \<open>The engine\<close>

text \<open>The zero character stands for no operation, as the zero byte does in the code.\<close>

abbreviation (input) no_op :: char where "no_op \<equiv> CHR 0x00"

record engine =
  e_accum :: i64
  e_cur :: i64
  e_pending :: char
  e_lastOp :: char
  e_lastArg :: i64
  e_entering :: bool
  e_hasErr :: bool

definition zero_engine :: engine where
  "zero_engine = \<lparr>e_accum = 0, e_cur = 0, e_pending = no_op, e_lastOp = no_op, e_lastArg = 0,
     e_entering = False, e_hasErr = False\<rparr>"

definition fail :: "engine \<Rightarrow> engine" where
  "fail e = zero_engine\<lparr>e_hasErr := True\<rparr>"

definition InputDigit :: "engine \<Rightarrow> u8 \<Rightarrow> engine" where
  "InputDigit e d =
     (if d > 9 then e
      else let e = e\<lparr>e_hasErr := False\<rparr> in
        if \<not> e_entering e then e\<lparr>e_cur := ucast d, e_entering := True\<rparr>
        else case mul64 (e_cur e) 10 of
          None \<Rightarrow> e
        | Some grown \<Rightarrow>
            (case (if 0 \<le>s e_cur e then add64 grown (ucast d) else sub64 grown (ucast d)) of
               None \<Rightarrow> e
             | Some n \<Rightarrow> e\<lparr>e_cur := n\<rparr>))"

definition eng_Backspace :: "engine \<Rightarrow> engine" where
  "eng_Backspace e =
     (if \<not> e_entering e then e
      else let c = go_div (e_cur e) 10
           in e\<lparr>e_cur := c, e_entering := (c \<noteq> 0)\<rparr>)"

definition is_op :: "char \<Rightarrow> bool" where
  "is_op op \<longleftrightarrow> op \<in> {CHR ''+'', CHR ''-'', CHR ''*'', CHR ''/''}"

definition binary :: "char \<Rightarrow> i64 \<Rightarrow> i64 \<Rightarrow> i64 option" where
  "binary op a b =
     (if op = CHR ''+'' then add64 a b
      else if op = CHR ''-'' then sub64 a b
      else if op = CHR ''*'' then mul64 a b
      else if op = CHR ''/'' then
        (if b = 0 \<or> (a = minI64 \<and> b = -1) then None else Some (go_div a b))
      else Some b)"

definition evalBinary :: "engine \<Rightarrow> char \<Rightarrow> i64 \<Rightarrow> i64 \<Rightarrow> engine" where
  "evalBinary e op a b =
     (case binary op a b of
        None \<Rightarrow> fail e
      | Some res \<Rightarrow>
          let e = e\<lparr>e_cur := res, e_accum := res\<rparr>;
              e = (if e_pending e \<noteq> no_op then e\<lparr>e_lastOp := op, e_lastArg := b\<rparr> else e)
          in e\<lparr>e_pending := no_op, e_entering := False\<rparr>)"

definition Evaluate :: "engine \<Rightarrow> engine" where
  "Evaluate e =
     (if e_hasErr e then e
      else if e_pending e \<noteq> no_op then evalBinary e (e_pending e) (e_accum e) (e_cur e)
      else if e_lastOp e \<noteq> no_op then evalBinary e (e_lastOp e) (e_cur e) (e_lastArg e)
      else e)"

definition SetOp :: "engine \<Rightarrow> char \<Rightarrow> engine" where
  "SetOp e op =
     (if e_hasErr e then e
      else if \<not> is_op op then e
      else let e = (if e_entering e then Evaluate e else e) in
           if e_hasErr e then e
           else e\<lparr>e_accum := e_cur e, e_pending := op, e_entering := False\<rparr>)"

definition Clear :: "engine \<Rightarrow> engine" where
  "Clear e = zero_engine"

text \<open>\<^verbatim>\<open>formatI64\<close>: the magnitude of a negative value is formed as \<^verbatim>\<open>uint64(^v) + 1\<close>.\<close>

definition formatI64 :: "i64 \<Rightarrow> string" where
  "formatI64 v =
     (if v = 0 then ''0''
      else let neg = sint v < 0;
               u = (if neg then NOT v + 1 else v);
               digits = dec_loop (unat u) []
           in if neg then CHR ''-'' # digits else digits)"

definition eng_Display :: "engine \<Rightarrow> string" where
  "eng_Display e = (if e_hasErr e then ''ERROR'' else formatI64 (e_cur e))"

subsection \<open>The program around it\<close>

text \<open>\<open>ca_writes\<close> is the list of lines handed to \<^verbatim>\<open>vi.WriteFileSafe\<close>, newest first.\<close>

record calc_app =
  ca_eng :: engine
  ca_expr :: string
  ca_lastLine :: string
  ca_justEvaled :: bool
  ca_writes :: "string list"

definition zero_app :: calc_app where
  "zero_app = \<lparr>ca_eng = zero_engine, ca_expr = [], ca_lastLine = [], ca_justEvaled = False, ca_writes = []\<rparr>"

definition doDigit :: "calc_app \<Rightarrow> u8 \<Rightarrow> calc_app" where
  "doDigit a d =
     (let a = (if ca_justEvaled a then a\<lparr>ca_expr := [], ca_justEvaled := False\<rparr> else a)
      in a\<lparr>ca_eng := InputDigit (ca_eng a) d, ca_expr := ca_expr a @ [char_of (48 + unat d)]\<rparr>)"

definition doOp :: "calc_app \<Rightarrow> char \<Rightarrow> calc_app" where
  "doOp a op =
     (let a = a\<lparr>ca_justEvaled := False, ca_eng := SetOp (ca_eng a) op\<rparr>
      in if e_hasErr (ca_eng a) then a\<lparr>ca_expr := []\<rparr> else a\<lparr>ca_expr := ca_expr a @ [op]\<rparr>)"

definition doEval :: "calc_app \<Rightarrow> calc_app" where
  "doEval a =
     (let e = Evaluate (ca_eng a);
          line = ca_expr a @ ''='' @ eng_Display e
      in a\<lparr>ca_eng := e, ca_lastLine := line, ca_justEvaled := True, ca_writes := line # ca_writes a\<rparr>)"

definition doClear :: "calc_app \<Rightarrow> calc_app" where
  "doClear a = a\<lparr>ca_eng := Clear (ca_eng a), ca_expr := [], ca_lastLine := [], ca_justEvaled := False\<rparr>"

definition is_digit :: "char \<Rightarrow> bool" where
  "is_digit c \<longleftrightarrow> 48 \<le> (of_char c :: nat) \<and> (of_char c :: nat) \<le> 57"

definition doBackspace :: "calc_app \<Rightarrow> calc_app" where
  "doBackspace a =
     (if \<not> e_entering (ca_eng a) then a
      else let a = a\<lparr>ca_eng := eng_Backspace (ca_eng a)\<rparr>
           in if ca_expr a \<noteq> [] \<and> is_digit (last (ca_expr a)) then a\<lparr>ca_expr := butlast (ca_expr a)\<rparr> else a)"

text \<open>A pad button or a typed character; the result says whether anything is to be redrawn.\<close>

definition press :: "calc_app \<Rightarrow> char \<Rightarrow> bool \<times> calc_app" where
  "press a ch =
     (if is_digit ch then (True, doDigit a (of_nat (of_char ch - 48)))
      else if is_op ch then (True, doOp a ch)
      else if ch = CHR ''='' then (True, doEval a)
      else if ch = CHR ''C'' then (True, doClear a)
      else (False, a))"

definition calc_key :: "calc_app \<Rightarrow> bool \<Rightarrow> u32 \<Rightarrow> u32 \<Rightarrow> bool \<times> calc_app" where
  "calc_key a ctrl usage ch =
     (if ctrl then (False, a)
      else if usage = 0x28 then (True, doEval a)
      else if usage = 0x29 then (True, doClear a)
      else if usage = 0x2a then (e_entering (ca_eng a), doBackspace a)
      else if 48 \<le> ch \<and> ch \<le> 57 then (True, doDigit a (ucast (ch - 48)))
      else if ch \<in> {43, 45, 42, 47} then (True, doOp a (char_of (unat ch)))
      else if ch \<in> {61, 13, 10} then (True, doEval a)
      else if ch \<in> {99, 67} then (True, doClear a)
      else if ch = 8 then (e_entering (ca_eng a), doBackspace a)
      else (False, a))"

subsection \<open>The checks are exact\<close>

text \<open>What a 64-bit result wraps to.\<close>

definition fits64 :: "int \<Rightarrow> bool" where
  "fits64 x \<longleftrightarrow> - (2 ^ 63) \<le> x \<and> x < 2 ^ 63"

lemma fits_sint: "fits64 (sint (a :: i64))"
  using sint_greater_eq [of a] sint_less [of a] by (simp add: fits64_def)

lemma sint_mod: "sint (word_of_int x :: i64) = (x + 2 ^ 63) mod 2 ^ 64 - 2 ^ 63"
  by (simp add: int_word_sint)

lemma sint_of_fits: "fits64 x \<Longrightarrow> sint (word_of_int x :: i64) = x"
  by (simp add: fits64_def sint_mod)

lemma sint_wraps: "\<exists>k. sint (word_of_int x :: i64) = x + k * 2 ^ 64"
proof -
  have "sint (word_of_int x :: i64) = x + (- ((x + 2 ^ 63) div 2 ^ 64)) * 2 ^ 64"
    unfolding sint_mod using div_mult_mod_eq [of "x + 2 ^ 63" "2 ^ 64"] by (simp add: algebra_simps)
  then show ?thesis by blast
qed

lemma word_of_sint: "word_of_int (sint a) = (a :: i64)"
  by (metis scast_eq scast_id)

lemma word_arith_int:
  "(a :: i64) + b = word_of_int (sint a + sint b)" "a - b = word_of_int (sint a - sint b)"
  "a * b = word_of_int (sint a * sint b)"
  by (simp_all add: word_of_sint)

lemma wrapped:
  fixes x :: int
  obtains k where "sint (word_of_int x :: i64) = x + k * 2 ^ 64" "fits64 (x + k * 2 ^ 64)" "fits64 x \<Longrightarrow> k = 0"
proof -
  obtain k where k: "sint (word_of_int x :: i64) = x + k * 2 ^ 64" using sint_wraps by blast
  have "k = 0" if "fits64 x" using sint_of_fits [OF that] k by simp
  then show thesis using that k fits_sint [of "word_of_int x"] by simp
qed

lemma add64_exact: "add64 a b = (if fits64 (sint a + sint b) then Some (word_of_int (sint a + sint b)) else None)"
proof -
  obtain k where k: "sint (word_of_int (sint a + sint b) :: i64) = sint a + sint b + k * 2 ^ 64"
      "fits64 (sint a + sint b + k * 2 ^ 64)" "fits64 (sint a + sint b) \<Longrightarrow> k = 0"
    using wrapped [of "sint a + sint b"] by metis
  have r: "fits64 (sint a)" "fits64 (sint b)" by (rule fits_sint)+
  have s: "add64 a b = (if (0 < sint b \<and> sint b + k * 2 ^ 64 < 0) \<or> (sint b < 0 \<and> 0 < sint b + k * 2 ^ 64)
      then None else Some (word_of_int (sint a + sint b)))"
    using k(1) by (auto simp: add64_def Let_def word_sless_alt word_arith_int(1) simp del: of_int_add)
  show ?thesis
  proof (cases "fits64 (sint a + sint b)")
    case True
    then show ?thesis using s k(3) by simp
  next
    case False
    then have "k \<noteq> 0" using k(2) by auto
    then have "(k \<le> -1 \<and> sint b > 0) \<or> (k \<ge> 1 \<and> sint b < 0)"
      using k(2) r False by (auto simp: fits64_def)
    moreover have "k \<le> -1 \<Longrightarrow> sint b + k * 2 ^ 64 < 0" "k \<ge> 1 \<Longrightarrow> 0 < sint b + k * 2 ^ 64"
      using r(2) by (simp_all add: fits64_def)
    ultimately show ?thesis using False s by auto
  qed
qed

lemma sub64_exact: "sub64 a b = (if fits64 (sint a - sint b) then Some (word_of_int (sint a - sint b)) else None)"
proof -
  obtain k where k: "sint (word_of_int (sint a - sint b) :: i64) = sint a - sint b + k * 2 ^ 64"
      "fits64 (sint a - sint b + k * 2 ^ 64)" "fits64 (sint a - sint b) \<Longrightarrow> k = 0"
    using wrapped [of "sint a - sint b"] by metis
  have r: "fits64 (sint a)" "fits64 (sint b)" by (rule fits_sint)+
  have s: "sub64 a b = (if (0 < sint b \<and> 0 < k * 2 ^ 64 - sint b) \<or> (sint b < 0 \<and> k * 2 ^ 64 - sint b < 0)
      then None else Some (word_of_int (sint a - sint b)))"
    using k(1) by (auto simp: sub64_def Let_def word_sless_alt word_arith_int(2) simp del: of_int_diff)
  show ?thesis
  proof (cases "fits64 (sint a - sint b)")
    case True
    then show ?thesis using s k(3) by simp
  next
    case False
    then have "k \<noteq> 0" using k(2) by auto
    then have "(k \<ge> 1 \<and> sint b > 0) \<or> (k \<le> -1 \<and> sint b < 0)"
      using k(2) r False by (auto simp: fits64_def)
    moreover have "k \<ge> 1 \<Longrightarrow> 0 < k * 2 ^ 64 - sint b" "k \<le> -1 \<Longrightarrow> k * 2 ^ 64 - sint b < 0"
      using r(2) by (simp_all add: fits64_def)
    ultimately show ?thesis using False s by auto
  qed
qed

lemma sdiv_bound: "b \<noteq> 0 \<Longrightarrow> \<bar>a - b * (a sdiv b)\<bar> < \<bar>b\<bar>" for a b :: int
  using smod_int_range [of b a] by (simp add: minus_mult_sdiv_eq_smod [symmetric] abs_less_iff)

lemma mult_sdiv_cancel: "a \<noteq> 0 \<Longrightarrow> a * b sdiv a = b" for a b :: int
proof -
  assume a: "a \<noteq> 0"
  have "\<bar>a * (b - (a * b sdiv a))\<bar> < \<bar>a\<bar>" using sdiv_bound [OF a, of "a * b"] by (simp add: algebra_simps)
  then have "\<bar>a\<bar> * \<bar>b - (a * b sdiv a)\<bar> < \<bar>a\<bar> * 1" by (simp add: abs_mult)
  then show ?thesis using a by (simp only: mult_less_cancel_left) auto
qed

text \<open>
  The product check divides the wrapped product back. It is exact but for one pair: minus one times the
  least number wraps to the least number, and dividing that by minus one wraps again.
\<close>

lemma mul64_exact:
  "mul64 a b = (if fits64 (sint a * sint b) \<or> (a = -1 \<and> b = minI64) then Some (word_of_int (sint a * sint b)) else None)"
proof (cases "a = 0 \<or> b = 0")
  case True
  then show ?thesis by (auto simp: mul64_def fits64_def)
next
  case False
  let ?P = "sint a * sint b"
  have s0: "sint a \<noteq> 0" "sint b \<noteq> 0" using False word_of_sint by (metis of_int_0)+
  have r: "fits64 (sint a)" "fits64 (sint b)" by (rule fits_sint)+
  obtain k where k: "sint (word_of_int ?P :: i64) = ?P + k * 2 ^ 64" "fits64 (?P + k * 2 ^ 64)" "fits64 ?P \<Longrightarrow> k = 0"
    using wrapped [of ?P] by metis
  let ?C = "?P + k * 2 ^ 64"
  have m: "mul64 a b = (if word_of_int (?C sdiv sint a) \<noteq> b then None else Some (word_of_int ?P))"
    using False k(1) by (simp add: mul64_def Let_def go_div_def word_arith_int(3) del: of_int_mult)
  have q: "?C sdiv sint a = sint b" if "fits64 ?P"
    using that k(3) s0 mult_sdiv_cancel by simp
  show ?thesis
  proof (cases "fits64 ?P")
    case True
    then show ?thesis using m q by (simp add: word_of_sint)
  next
    case nofit: False
    let ?Q = "?C sdiv sint a"
    have bnd: "\<bar>?C - sint a * ?Q\<bar> < \<bar>sint a\<bar>" by (rule sdiv_bound [OF s0(1)])
    have rng: "\<bar>?Q\<bar> \<le> \<bar>?C\<bar>" using sdiv_int_range [of ?C "sint a"] by auto
    have "a = -1 \<and> b = minI64" if eq: "word_of_int ?Q = b"
    proof (cases "fits64 ?Q")
      case True
      then have "?Q = sint b" using sint_of_fits eq by metis
      then have "\<bar>k * 2 ^ 64\<bar> < \<bar>sint a\<bar>" using bnd by simp
      then have "k = 0" using r(1) by (auto simp: fits64_def)
      then show ?thesis using nofit k(2) by simp
    next
      case False
      then have Q: "?Q = 2 ^ 63" using rng k(2) by (auto simp: fits64_def)
      then have "\<bar>sint a\<bar> * 2 ^ 63 < 2 ^ 63 + \<bar>sint a\<bar>"
        using bnd k(2) by (cases "sint a \<ge> 0") (auto simp: fits64_def)
      then have "\<bar>sint a\<bar> < 2" by simp
      then have "\<bar>sint a\<bar> = 1" using s0(1) by linarith
      moreover have "sint a \<noteq> 1" using Q k(2) by (auto simp: fits64_def)
      ultimately have A: "sint a = -1" by linarith
      then have "a = -1" using word_of_sint [of a] by simp
      moreover have "b = minI64" using eq Q by simp
      ultimately show ?thesis by simp
    qed
    moreover have "word_of_int ?Q = b" if "a = -1 \<and> b = minI64"
    proof -
      have "sint a = -1" "sint b = - (2 ^ 63)" using that by simp_all
      moreover from this have "k = -1" using k(1) by simp
      ultimately show ?thesis using that by simp
    qed
    ultimately have "word_of_int ?Q = b \<longleftrightarrow> a = -1 \<and> b = minI64" by (rule iffI)
    then show ?thesis using m nofit by auto
  qed
qed

lemma fits_quotient: "\<not> (a = minI64 \<and> b = -1) \<Longrightarrow> b \<noteq> 0 \<Longrightarrow> fits64 (sint a sdiv sint b)" for a b :: i64
proof (rule ccontr)
  assume ab: "\<not> (a = minI64 \<and> b = -1)" "b \<noteq> 0" and no: "\<not> fits64 (sint a sdiv sint b)"
  let ?q = "sint a sdiv sint b"
  have b0: "sint b \<noteq> 0" using ab(2) signed_eq_0_iff by metis
  have a: "fits64 (sint a)" by (rule fits_sint)
  have rng: "\<bar>?q\<bar> \<le> \<bar>sint a\<bar>" using sdiv_int_range [of "sint a" "sint b"] by auto
  then have q: "?q = 2 ^ 63" "sint a = - (2 ^ 63)" using no a by (auto simp: fits64_def)
  have "\<bar>- (2 ^ 63) - sint b * 2 ^ 63\<bar> < \<bar>sint b\<bar>" using sdiv_bound [OF b0, of "sint a"] q by metis
  then have "\<bar>sint b\<bar> < 2" by (cases "sint b \<ge> 0") auto
  moreover have "sint b \<noteq> 1" using q by auto
  ultimately have "sint b = -1" using b0 by linarith
  then have "b = -1" "a = minI64" using q(2) word_of_sint [of b] word_of_sint [of a] by simp_all
  then show False using ab(1) by simp
qed

text \<open>The exact result of an operation on the signed values; a division by zero has none.\<close>

definition exact :: "char \<Rightarrow> int \<Rightarrow> int \<Rightarrow> int option" where
  "exact op x y =
     (if op = CHR ''+'' then Some (x + y)
      else if op = CHR ''-'' then Some (x - y)
      else if op = CHR ''*'' then Some (x * y)
      else if y = 0 then None else Some (x sdiv y))"

lemma binary_exact:
  assumes "is_op op" "\<not> (op = CHR ''*'' \<and> a = -1 \<and> b = minI64)"
  shows "binary op a b = (case exact op (sint a) (sint b) of
     None \<Rightarrow> None | Some x \<Rightarrow> if fits64 x then Some (word_of_int x) else None)"
proof (cases "op = CHR ''/''")
  case True
  have z: "sint b = 0 \<longleftrightarrow> b = 0" by (rule signed_eq_0_iff)
  have "\<not> fits64 (sint a sdiv sint b)" if "a = minI64 \<and> b = -1" using that by (simp add: fits64_def)
  then show ?thesis using True z fits_quotient [of a b] by (auto simp: binary_def exact_def go_div_def)
next
  case False
  then show ?thesis using assms
    by (auto simp: is_op_def binary_def exact_def add64_exact sub64_exact mul64_exact simp del: of_int_add of_int_diff of_int_mult)
qed

subsection \<open>What the engine can hold\<close>

text \<open>
  The operand being entered is never negative; without an entry the operand of a pending operation is the
  accumulator itself, or a zero left by deleting the entry; and a remembered factor is not the least
  number. So the one pair the product check gets wrong never reaches it.
\<close>

definition eng_inv :: "engine \<Rightarrow> bool" where
  "eng_inv e \<longleftrightarrow> (e_entering e \<longrightarrow> 0 \<le> sint (e_cur e))
     \<and> (e_pending e \<noteq> no_op \<and> \<not> e_entering e \<longrightarrow> e_cur e = e_accum e \<or> e_cur e = 0)
     \<and> (e_lastOp e = CHR ''*'' \<longrightarrow> e_lastArg e \<noteq> minI64)
     \<and> (e_pending e = no_op \<or> is_op (e_pending e)) \<and> (e_lastOp e = no_op \<or> is_op (e_lastOp e))"

datatype calc_input = InDigit u8 | InOp char | InEq | InBack | InClear

fun eng_step :: "engine \<Rightarrow> calc_input \<Rightarrow> engine" where
  "eng_step e (InDigit d) = InputDigit e d"
| "eng_step e (InOp op) = SetOp e op"
| "eng_step e InEq = Evaluate e"
| "eng_step e InBack = eng_Backspace e"
| "eng_step e InClear = Clear e"

lemma eng_inv_zero: "eng_inv zero_engine" "eng_inv (fail e)"
  by (simp_all add: eng_inv_def zero_engine_def fail_def)

lemma operand_ok: "eng_inv e \<Longrightarrow> e_pending e \<noteq> no_op \<Longrightarrow> \<not> (e_accum e = -1 \<and> e_cur e = minI64)"
  by (cases "e_entering e") (auto simp: eng_inv_def)

lemma eng_inv_evalBinary:
  assumes "eng_inv e" "e_pending e \<noteq> no_op \<longrightarrow> op = e_pending e \<and> b = e_cur e \<and> a = e_accum e"
  shows "eng_inv (evalBinary e op a b)"
proof (cases "binary op a b")
  case None
  then show ?thesis by (simp add: evalBinary_def eng_inv_zero)
next
  case (Some res)
  have "b \<noteq> minI64" if "op = CHR ''*''" "e_pending e \<noteq> no_op"
  proof
    assume b: "b = minI64"
    have "a = b \<or> 0 \<le> sint b \<or> b = 0" using assms that by (cases "e_entering e") (auto simp: eng_inv_def)
    then have "a = minI64" using b by auto
    then show False using Some that(1) b by (simp add: binary_def mul64_exact fits64_def)
  qed
  then show ?thesis using assms Some by (auto simp: evalBinary_def eng_inv_def Let_def)
qed

lemma eng_inv_Evaluate: "eng_inv e \<Longrightarrow> eng_inv (Evaluate e)"
  by (auto simp: Evaluate_def intro: eng_inv_evalBinary)

lemma sint_digit: "sint (ucast (d :: u8) :: i64) = uint d"
proof -
  have u: "(ucast d :: i64) = word_of_int (uint d)" by (rule ucast_eq)
  have b: "uint d < 256" "- 9223372036854775808 \<le> uint d"
    using uint_lt2p [of d] order_trans [OF _ uint_ge_0 [of d], of "- 9223372036854775808"] by simp_all
  have "fits64 (uint d)" unfolding fits64_def using b by simp
  then show ?thesis unfolding u by (rule sint_of_fits)
qed

text \<open>One more digit of an entry: the value grows unless it would not fit, and then it stays.\<close>

lemma InputDigit_entering:
  assumes "e_entering e" "0 \<le> sint (e_cur e)" "d \<le> 9"
  shows "InputDigit e d = (let x = sint (e_cur e) * 10 + uint d in
     e\<lparr>e_hasErr := False, e_cur := (if fits64 x then word_of_int x else e_cur e)\<rparr>)"
proof -
  let ?c = "sint (e_cur e)"
  have d: "0 \<le> uint d" by (rule uint_ge_0)
  have ten: "sint (10 :: i64) = 10" by simp
  have "e_cur e \<noteq> -1" using assms(2) by auto
  then have m: "mul64 (e_cur e) 10 = (if fits64 (?c * 10) then Some (word_of_int (?c * 10)) else None)"
    unfolding mul64_exact ten by simp
  have f: "fits64 (?c * 10)" if "fits64 (?c * 10 + uint d)"
    using that d assms(2) unfolding fits64_def by linarith
  have n: "\<not> d > 9" using assms(3) by (simp add: not_less)
  show ?thesis
  proof (cases "fits64 (?c * 10)")
    case True
    have "add64 (word_of_int (?c * 10)) (ucast d) =
        (if fits64 (?c * 10 + uint d) then Some (word_of_int (?c * 10 + uint d)) else None)"
      by (simp only: add64_exact sint_of_fits [OF True] sint_digit)
    then show ?thesis using assms m n True
      by (simp add: InputDigit_def Let_def word_sle_eq del: of_int_add of_int_mult)
  next
    case False
    then show ?thesis using assms m n f by (auto simp: InputDigit_def Let_def simp del: of_int_add of_int_mult)
  qed
qed

lemma eng_inv_step: "eng_inv e \<Longrightarrow> eng_inv (eng_step e i)"
proof (cases i)
  case (InDigit d)
  assume inv: "eng_inv e"
  show ?thesis
  proof (cases "d \<le> 9 \<and> e_entering e")
    case True
    define x where "x = sint (e_cur e) * 10 + uint d"
    define c where "c = (if fits64 x then word_of_int x else e_cur e)"
    have cur: "0 \<le> sint (e_cur e)" using inv True by (simp add: eng_inv_def)
    have "0 \<le> x" unfolding x_def using cur uint_ge_0 [of d] by linarith
    then have "0 \<le> sint c" unfolding c_def using cur sint_of_fits [of x] by (cases "fits64 x") simp_all
    moreover have "InputDigit e d = e\<lparr>e_hasErr := False, e_cur := c\<rparr>"
      using InputDigit_entering [of e d] True cur by (simp only: Let_def x_def c_def)
    ultimately show ?thesis using InDigit inv True by (simp add: eng_inv_def)
  next
    case False
    then show ?thesis using InDigit inv sint_digit [of d]
      by (auto simp: InputDigit_def Let_def eng_inv_def not_le)
  qed
next
  case (InOp op)
  assume e: "eng_inv e"
  define x where "x = (if e_entering e then Evaluate e else e)"
  have "eng_inv x" using e eng_inv_Evaluate by (simp add: x_def)
  then have "eng_inv (x\<lparr>e_accum := e_cur x, e_pending := op, e_entering := False\<rparr>)" if "is_op op"
    using that by (simp add: eng_inv_def)
  then show ?thesis using InOp e \<open>eng_inv x\<close> by (simp add: SetOp_def Let_def x_def [symmetric])
next
  case InBack
  assume inv: "eng_inv e"
  have "0 \<le> sint (go_div c 10)" if "0 \<le> sint c" for c :: i64
  proof -
    have "sint (10 :: i64) = 10" by simp
    moreover have "fits64 (sint c sdiv 10)" "0 \<le> sint c sdiv 10"
      using that fits_quotient [of c 10] by (simp_all add: signed_divide_int_def zero_le_mult_iff pos_imp_zdiv_nonneg_iff sgn_if)
    ultimately show ?thesis unfolding go_div_def by (simp add: sint_of_fits)
  qed
  then show ?thesis using InBack inv by (auto simp: eng_Backspace_def eng_inv_def Let_def)
qed (simp_all add: eng_inv_Evaluate Clear_def eng_inv_zero)

lemma eng_inv_run: "eng_inv e \<Longrightarrow> eng_inv (foldl eng_step e is)"
  by (induction "is" arbitrary: e) (auto intro: eng_inv_step)

subsection \<open>The engine never shows a wrapped result\<close>

text \<open>What \<^verbatim>\<open>=\<close> applies: the pending operation on the accumulator and the entry, or the remembered one.\<close>

definition equals_applies :: "engine \<Rightarrow> (char \<times> i64 \<times> i64) option" where
  "equals_applies e =
     (if e_hasErr e then None
      else if e_pending e \<noteq> no_op then Some (e_pending e, e_accum e, e_cur e)
      else if e_lastOp e \<noteq> no_op then Some (e_lastOp e, e_cur e, e_lastArg e)
      else None)"

lemma Evaluate_applies:
  "Evaluate e = (case equals_applies e of None \<Rightarrow> e | Some (op, a, b) \<Rightarrow> evalBinary e op a b)"
  by (simp add: Evaluate_def equals_applies_def)

lemma equals_applies_ok:
  assumes "eng_inv e" "equals_applies e = Some (op, a, b)"
  shows "is_op op" "\<not> (op = CHR ''*'' \<and> a = -1 \<and> b = minI64)"
proof -
  show "is_op op" using assms by (auto simp: equals_applies_def eng_inv_def split: if_splits)
  show "\<not> (op = CHR ''*'' \<and> a = -1 \<and> b = minI64)"
  proof (cases "e_pending e = no_op")
    case True
    then show ?thesis using assms by (auto simp: equals_applies_def eng_inv_def split: if_splits)
  next
    case False
    then show ?thesis using assms operand_ok [OF assms(1)] by (auto simp: equals_applies_def split: if_splits)
  qed
qed

lemma evalBinary_exact:
  assumes "eng_inv e" "equals_applies e = Some (op, a, b)" "e' = evalBinary e op a b"
  shows "e_hasErr e' = (\<forall>x. exact op (sint a) (sint b) = Some x \<longrightarrow> \<not> fits64 x)"
    and "exact op (sint a) (sint b) = Some x \<Longrightarrow> fits64 x \<Longrightarrow> sint (e_cur e') = x"
proof -
  have err: "\<not> e_hasErr e" using assms(2) by (auto simp: equals_applies_def)
  note b = binary_exact [OF equals_applies_ok [OF assms(1,2)]]
  show "e_hasErr e' = (\<forall>x. exact op (sint a) (sint b) = Some x \<longrightarrow> \<not> fits64 x)"
    using b err by (auto simp: assms(3) evalBinary_def fail_def zero_engine_def Let_def split: option.splits)
  show "exact op (sint a) (sint b) = Some x \<Longrightarrow> fits64 x \<Longrightarrow> sint (e_cur e') = x"
    using b by (simp add: assms(3) evalBinary_def Let_def sint_of_fits)
qed



text \<open>
  C30. A new calculation after a result: arming an operation on the new entry first repeats the remembered
  operation on it, because nothing is pending. So the left operand is \<open>x\<close> combined with the old
  right operand, and not the number that was typed.
\<close>

theorem calc_repeats_after_result:
  assumes "\<not> e_hasErr e" "e_pending e = no_op" "e_lastOp e \<noteq> no_op" "e_entering e" "is_op op"
    and "binary (e_lastOp e) (e_cur e) (e_lastArg e) = Some r"
  shows "e_accum (SetOp e op) = r \<and> e_cur (SetOp e op) = r \<and> e_pending (SetOp e op) = op"
  using assms by (simp add: SetOp_def Evaluate_def evalBinary_def Let_def)

theorem calc_repeats_after_result_witness:
  "e_accum (foldl eng_step zero_engine [InDigit 5, InOp CHR ''+'', InDigit 3, InEq, InDigit 2, InOp CHR ''+'']) = 5"
proof -
  let ?e = "\<lparr>e_accum = 8, e_cur = 2, e_pending = no_op, e_lastOp = CHR ''+'', e_lastArg = 3, e_entering = True, e_hasErr = False\<rparr>"
  have "foldl eng_step zero_engine [InDigit 5, InOp CHR ''+'', InDigit 3, InEq, InDigit 2] = ?e"
    by (simp add: zero_engine_def InputDigit_def SetOp_def is_op_def Evaluate_def evalBinary_def binary_def add64_def word_sless_alt)
  moreover have "e_accum (SetOp ?e CHR ''+'') = 5"
    using calc_repeats_after_result [of ?e "CHR ''+''" 5]
    by (simp add: is_op_def binary_def add64_def word_sless_alt)
  ultimately show ?thesis by simp
qed

subsection \<open>The line a calculation writes\<close>

text \<open>\<^verbatim>\<open>formatI64\<close> agrees with the \<^verbatim>\<open>Itoa64\<close> of the console library, which forms the magnitude differently.\<close>

lemma formatI64_Itoa64: "formatI64 v = Itoa64 v"
proof -
  have "NOT v + 1 = - (v + 1) + 1" by (simp add: not_eq_complement)
  then show ?thesis by (simp only: formatI64_def Itoa64_def)
qed

abbreviation (input) push :: "calc_app \<Rightarrow> char \<Rightarrow> calc_app" where "push a c \<equiv> snd (press a c)"

lemma digit_byte:
  assumes "is_digit c"
  shows "of_nat (of_char c - 48) \<le> (9 :: u8)" "uint (of_nat (of_char c - 48) :: u8) = int (digit_val c)"
    "char_of (48 + unat (of_nat (of_char c - 48) :: u8)) = c"
proof -
  have d: "(of_char c :: nat) - 48 \<le> 9" "48 \<le> (of_char c :: nat)" using assms by (auto simp: is_digit_def)
  have u: "unat (of_nat (of_char c - 48) :: u8) = of_char c - 48" using d(1) by (simp add: unat_of_nat)
  show "of_nat (of_char c - 48) \<le> (9 :: u8)" using d(1) u by (simp add: word_le_nat_alt)
  show "uint (of_nat (of_char c - 48) :: u8) = int (digit_val c)" using u d(2) by (simp add: uint_nat digit_val_def)
  have "48 + unat (of_nat (of_char c - 48) :: u8) = of_char c" unfolding u using d(2) by simp
  then show "char_of (48 + unat (of_nat (of_char c - 48) :: u8)) = c" by (metis char_of_char)
qed

text \<open>Typing a number that fits: the engine holds its value, the line its characters.\<close>

lemma type_number:
  assumes "list_all is_digit s" "s \<noteq> []" "fits64 (int (undec s))" "\<not> ca_justEvaled a" "\<not> e_entering (ca_eng a)"
  shows "foldl push a s = a\<lparr>ca_eng := (ca_eng a)\<lparr>e_cur := word_of_int (int (undec s)), e_entering := True, e_hasErr := False\<rparr>,
      ca_expr := ca_expr a @ s\<rparr>"
  using assms(1-3)
proof (induction s rule: rev_induct)
  case (snoc c s)
  note d = digit_byte [of c]
  have c: "is_digit c" "list_all is_digit s" using snoc.prems by simp_all
  show ?case
  proof (cases "s = []")
    case True
    have "(ucast (of_nat (of_char c - 48) :: u8) :: i64) = word_of_int (int (digit_val c))"
      using d(2) [OF c(1)] by (metis ucast_eq)
    then show ?thesis using True assms(4,5) c(1) d(1,3) [OF c(1)]
      by (simp add: press_def doDigit_def InputDigit_def Let_def undec_def not_less del: of_nat_diff)
  next
    case False
    let ?n = "int (undec s)"
    let ?e = "(ca_eng a)\<lparr>e_cur := word_of_int ?n, e_entering := True, e_hasErr := False\<rparr>"
    have n: "int (undec (s @ [c])) = ?n * 10 + int (digit_val c)" by (simp add: undec_snoc)
    have f: "fits64 ?n" using snoc.prems(3) unfolding n fits64_def by linarith
    have "foldl push a s = a\<lparr>ca_eng := ?e, ca_expr := ca_expr a @ s\<rparr>" using snoc.IH c(2) False f by simp
    moreover have "InputDigit ?e (of_nat (of_char c - 48)) = ?e\<lparr>e_cur := word_of_int (int (undec (s @ [c])))\<rparr>"
      using InputDigit_entering [of ?e "of_nat (of_char c - 48)"] d [OF c(1)] snoc.prems(3) n
      by (simp add: sint_of_fits [OF f] Let_def del: of_nat_diff of_int_add of_int_mult of_int_of_nat_eq of_nat_add of_nat_mult)
    ultimately show ?thesis using assms(4) c(1) d(3) [OF c(1)]
      by (simp add: press_def doDigit_def Let_def del: of_nat_diff)
  qed
qed simp

text \<open>
  The line a calculation writes. After clear, typing a number, an operator, a number and equals writes
  one line to the result file: the keys as typed, and the decimal form of the exact result, or ERROR
  where the result is undefined or does not fit 64 bits.
\<close>

theorem calc_line:
  assumes "list_all is_digit s" "s \<noteq> []" "fits64 (int (undec s))"
    and "list_all is_digit t" "t \<noteq> []" "fits64 (int (undec t))" "is_op op"
  shows "ca_writes (foldl push (doClear a) (s @ op # t @ ''='')) =
    (s @ op # t @ ''='' @ (case exact op (int (undec s)) (int (undec t)) of
        None \<Rightarrow> ''ERROR'' | Some x \<Rightarrow> if fits64 x then Itoa64 (word_of_int x) else ''ERROR'')) # ca_writes a"
proof -
  let ?w = "\<lambda>n. word_of_int (int n) :: i64"
  define a1 where "a1 = (doClear a)\<lparr>ca_eng := zero_engine\<lparr>e_cur := ?w (undec s), e_entering := True\<rparr>, ca_expr := s\<rparr>"
  define a2 where "a2 = a1\<lparr>ca_eng := (ca_eng a1)\<lparr>e_accum := ?w (undec s), e_pending := op, e_entering := False\<rparr>, ca_expr := s @ [op]\<rparr>"
  define a3 where "a3 = a2\<lparr>ca_eng := (ca_eng a2)\<lparr>e_cur := ?w (undec t), e_entering := True\<rparr>, ca_expr := s @ [op] @ t\<rparr>"
  have op: "op \<noteq> no_op" "\<not> is_digit op" using assms(7) by (auto simp: is_op_def is_digit_def)
  have 1: "foldl push (doClear a) s = a1"
    using type_number [OF assms(1-3), of "doClear a"] by (simp add: a1_def doClear_def Clear_def zero_engine_def)
  have 2: "push a1 op = a2" using assms(7) op
    by (simp add: a1_def a2_def press_def doOp_def SetOp_def Evaluate_def zero_engine_def doClear_def Let_def)
  have 3: "foldl push a2 t = a3"
    using type_number [OF assms(4-6), of a2] by (simp add: a1_def a2_def a3_def doClear_def zero_engine_def)
  let ?e = "ca_eng a3"
  have ap: "equals_applies ?e = Some (op, ?w (undec s), ?w (undec t))" "e_pending ?e = op"
    using op by (simp_all add: equals_applies_def a3_def a2_def a1_def zero_engine_def)
  have si: "sint (?w (undec s)) = int (undec s)" "sint (?w (undec t)) = int (undec t)"
    by (rule sint_of_fits [OF assms(3)], rule sint_of_fits [OF assms(6)])
  have "binary op (?w (undec s)) (?w (undec t)) = (case exact op (int (undec s)) (int (undec t)) of
      None \<Rightarrow> None | Some x \<Rightarrow> if fits64 x then Some (word_of_int x) else None)"
  proof (subst binary_exact)
    show "\<not> (op = CHR ''*'' \<and> ?w (undec s) = -1 \<and> ?w (undec t) = minI64)" using si(1) by auto
  qed (simp_all only: si assms(7))
  then have "eng_Display (Evaluate ?e) = (case exact op (int (undec s)) (int (undec t)) of
        None \<Rightarrow> ''ERROR'' | Some x \<Rightarrow> if fits64 x then Itoa64 (word_of_int x) else ''ERROR'')"
    using ap op by (auto simp: Evaluate_applies evalBinary_def eng_Display_def fail_def Let_def formatI64_Itoa64
        a3_def a2_def a1_def zero_engine_def split: option.splits)
  moreover have "ca_writes a3 = ca_writes a" "ca_expr a3 = s @ op # t"
    by (simp_all add: a3_def a2_def a1_def doClear_def)
  ultimately show ?thesis using 1 2 3
    by (simp add: press_def doEval_def is_digit_def is_op_def Let_def)
qed

theorem calc_line_witness:
  "ca_writes (foldl push (doClear zero_app) ''12-30='') = [''12-30=-18'']"
proof -
  have u: "undec ''12'' = 12" "undec ''30'' = 30" by (simp_all add: undec_def digit_val_def)
  have "Itoa64 (word_of_int (-18)) = ''-18''" by (simp add: Itoa64_eq dec_nat.simps char_of_def bit_iff_odd)
  then show ?thesis using calc_line [of "''12''" "''30''" "CHR ''-''" zero_app]
    by (simp add: u is_digit_def is_op_def fits64_def exact_def zero_app_def)
qed

end
