(* ===== verification/ShellGlob.thy ===== *)
theory ShellGlob
  imports Prelude
begin

text \<open>
  The pattern matcher of the shell's \<^verbatim>\<open>case\<close> (\<^verbatim>\<open>shlib/control.go\<close>): blank trimming, \<^verbatim>\<open>globClass\<close>, the
  iterative \<^verbatim>\<open>globMatch\<close> with its single backtrack point, and \<^verbatim>\<open>caseMatch\<close>. Strings are byte strings; an
  index into a string is modelled by the rest of the string from it. The matcher is proved equivalent
  to a declarative reading of the pattern as a list of elements.
\<close>

subsection \<open>Blanks\<close>

definition isSpaceByte :: "char \<Rightarrow> bool" where
  "isSpaceByte c \<longleftrightarrow> c = CHR '' '' \<or> c = CHR 0x09"

definition trimStart :: "string \<Rightarrow> string" where
  "trimStart s = dropWhile isSpaceByte s"

definition trimEnd :: "string \<Rightarrow> string" where
  "trimEnd s = rev (dropWhile isSpaceByte (rev s))"

definition trimSpace :: "string \<Rightarrow> string" where
  "trimSpace s = trimStart (trimEnd s)"

subsection \<open>The matcher\<close>

definition byte_le :: "char \<Rightarrow> char \<Rightarrow> bool" where
  "byte_le a b \<longleftrightarrow> (of_char a :: nat) \<le> of_char b"

text \<open>
  \<open>range_end\<close> is the test \<^verbatim>\<open>i+2 < len(pattern) && pattern[i+1] == '-' && pattern[i+2] != ']'\<close> on the pattern
  after index \<^verbatim>\<open>i\<close>. The result of the loop of \<^verbatim>\<open>globClass\<close> is the pattern past the class.
\<close>

definition range_end :: "string \<Rightarrow> (char \<times> string) option" where
  "range_end xs =
     (case xs of
        y # z # rest \<Rightarrow> if y = CHR ''-'' \<and> z \<noteq> CHR '']'' then Some (z, rest) else None
      | _ \<Rightarrow> None)"

lemma range_end_shorter: "range_end xs = Some (z, rest) \<Longrightarrow> length rest < length xs"
  by (auto simp: range_end_def split: list.splits if_splits)

function (sequential) class_loop :: "bool \<Rightarrow> bool \<Rightarrow> bool \<Rightarrow> char \<Rightarrow> string \<Rightarrow> string option" where
  "class_loop negate matched first c [] = None"
| "class_loop negate matched first c (x # xs) =
     (if x = CHR '']'' \<and> \<not> first then (if matched \<noteq> negate then Some xs else None)
      else case range_end xs of
        Some (z, rest) \<Rightarrow> class_loop negate (matched \<or> byte_le x c \<and> byte_le c z) False c rest
      | None \<Rightarrow> class_loop negate (matched \<or> x = c) False c xs)"
  by pat_completeness auto
termination
  by (relation "measure (\<lambda>(g, m, f, c, p). length p)") (auto dest: range_end_shorter)

text \<open>\<^verbatim>\<open>globClass(pattern, at, c)\<close>, given the pattern after the bracket at \<^verbatim>\<open>at\<close>.\<close>

definition globClass :: "string \<Rightarrow> char \<Rightarrow> string option" where
  "globClass p c =
     (case p of
        [] \<Rightarrow> None
      | x # xs \<Rightarrow> if x = CHR ''!'' \<or> x = CHR ''^'' then class_loop True False True c xs
                  else class_loop False False True c p)"

text \<open>
  One iteration of the loop of \<^verbatim>\<open>globMatch\<close>: \<open>star\<close> is the backtrack point, the pattern after the
  last star and the subject where it was met; \<open>None\<close> is the early \<^verbatim>\<open>return false\<close>.
\<close>

type_synonym glob_state = "(string \<times> string) option \<times> string \<times> string"

definition backtrack :: "(string \<times> string) option \<Rightarrow> glob_state option" where
  "backtrack star = (case star of None \<Rightarrow> None | Some (ps, ns) \<Rightarrow> Some (Some (ps, drop 1 ns), ps, drop 1 ns))"

definition glob_iter :: "(string \<times> string) option \<Rightarrow> string \<Rightarrow> char \<Rightarrow> string \<Rightarrow> glob_state option" where
  "glob_iter star p c n =
     (case p of
        [] \<Rightarrow> backtrack star
      | x # p' \<Rightarrow>
          if x = CHR ''*'' then Some (Some (p', c # n), p', c # n)
          else if x = CHR ''?'' then Some (star, p', n)
          else if x = CHR ''['' then
            (case globClass p' c of Some q \<Rightarrow> Some (star, q, n) | None \<Rightarrow> backtrack star)
          else if x = c then Some (star, p', n)
          else backtrack star)"

lemma class_loop_shorter: "class_loop g m f c p = Some q \<Longrightarrow> length q < length p"
proof (induction g m f c p rule: class_loop.induct)
  case (2 g m f c x xs)
  show ?case
  proof (cases "range_end xs")
    case None
    then show ?thesis using 2 by (fastforce split: if_splits)
  next
    case (Some r)
    then obtain z rest where "range_end xs = Some (z, rest)" by (cases r) simp
    then show ?thesis using 2 range_end_shorter [of xs z rest] by (fastforce split: if_splits)
  qed
qed simp

declare class_loop.simps [simp del]

lemma globClass_shorter: "globClass p c = Some q \<Longrightarrow> length q < length p"
  by (auto simp: globClass_def dest!: class_loop_shorter split: list.splits if_splits)

fun glob_rank :: "glob_state \<Rightarrow> nat" where
  "glob_rank (star, p, n) = max (length n) (case star of None \<Rightarrow> 0 | Some (ps, ns) \<Rightarrow> length ns)"

lemma glob_iter_decreases:
  "glob_iter star p c n = Some (star', p', n') \<Longrightarrow>
   glob_rank (star', p', n') < glob_rank (star, p, c # n)
   \<or> glob_rank (star', p', n') \<le> glob_rank (star, p, c # n) \<and> length p' < length p"
  by (auto simp: glob_iter_def backtrack_def dest!: globClass_shorter split: list.splits if_splits option.splits prod.splits)

function glob_loop :: "(string \<times> string) option \<Rightarrow> string \<Rightarrow> string \<Rightarrow> bool" where
  "glob_loop star p n =
     (case n of
        [] \<Rightarrow> dropWhile (\<lambda>x. x = CHR ''*'') p = []
      | c # n' \<Rightarrow>
          (case glob_iter star p c n' of
             None \<Rightarrow> False
           | Some (star', p', n'') \<Rightarrow> glob_loop star' p' n''))"
  by pat_completeness auto
termination
proof (relation "measures [\<lambda>(star, p, n). glob_rank (star, p, n), \<lambda>(star, p, n). length p]", goal_cases)
  case (2 star p n c n' r star' q p' n'')
  then show ?case using glob_iter_decreases [of star p c n' star' p' n''] by auto
qed simp

declare glob_loop.simps [simp del]

definition globMatch :: "string \<Rightarrow> string \<Rightarrow> bool" where
  "globMatch pattern subject = glob_loop None pattern subject"

text \<open>\<^verbatim>\<open>caseMatch\<close>: the alternatives between the bars, each trimmed, an empty one never matching.\<close>

function caseMatch :: "string \<Rightarrow> string \<Rightarrow> bool" where
  "caseMatch pattern subject =
     (let alt = trimSpace (takeWhile (\<lambda>c. c \<noteq> CHR ''|'') pattern);
          more = dropWhile (\<lambda>c. c \<noteq> CHR ''|'') pattern
      in if alt \<noteq> [] \<and> globMatch alt subject then True
         else case more of [] \<Rightarrow> False | _ # pattern' \<Rightarrow> caseMatch pattern' subject)"
  by pat_completeness auto
termination
proof (relation "measure (\<lambda>(p, s). length p)", goal_cases)
  case (2 p s alt more b p')
  have "length (dropWhile (\<lambda>c. c \<noteq> CHR ''|'') p) \<le> length p" by (simp add: length_dropWhile_le)
  moreover have "dropWhile (\<lambda>c. c \<noteq> CHR ''|'') p = b # p'" using 2 by simp
  ultimately show ?case by simp
qed simp

declare caseMatch.simps [simp del]

subsection \<open>What a pattern means\<close>

text \<open>
  A pattern is a list of elements: a star takes any run, every other element one byte. A class is its
  ranges and whether it is negated; a bracket without an end matches nothing.
\<close>

datatype elem = Run | One | Lit char | Cls bool "(char \<times> char) list" | Never

function (sequential) class_items :: "bool \<Rightarrow> string \<Rightarrow> ((char \<times> char) list \<times> string) option" where
  "class_items first [] = None"
| "class_items first (x # xs) =
     (if x = CHR '']'' \<and> \<not> first then Some ([], xs)
      else case range_end xs of
        Some (z, rest) \<Rightarrow> map_option (\<lambda>(is, r). ((x, z) # is, r)) (class_items False rest)
      | None \<Rightarrow> map_option (\<lambda>(is, r). ((x, x) # is, r)) (class_items False xs))"
  by pat_completeness auto
termination
  by (relation "measure (\<lambda>(f, p). length p)") (auto dest: range_end_shorter)

definition class_of :: "string \<Rightarrow> (bool \<times> (char \<times> char) list \<times> string) option" where
  "class_of p =
     (case p of
        [] \<Rightarrow> None
      | x # xs \<Rightarrow> if x = CHR ''!'' \<or> x = CHR ''^'' then map_option (Pair True) (class_items True xs)
                  else map_option (Pair False) (class_items True p))"

definition in_ranges :: "(char \<times> char) list \<Rightarrow> char \<Rightarrow> bool" where
  "in_ranges is c \<longleftrightarrow> list_ex (\<lambda>(lo, hi). byte_le lo c \<and> byte_le c hi) is"

lemma byte_le_antisym: "byte_le x c \<and> byte_le c x \<longleftrightarrow> x = c"
  by (auto simp: byte_le_def dest: order_antisym)

lemma class_loop_items:
  "class_loop g m f c p = (case class_items f p of None \<Rightarrow> None
     | Some (is, r) \<Rightarrow> if (m \<or> in_ranges is c) \<noteq> g then Some r else None)"
proof (induction g m f c p rule: class_loop.induct)
  case (2 g m f c x xs)
  show ?case
  proof (cases "range_end xs")
    case None
    then show ?thesis using 2 byte_le_antisym [of x c]
      by (auto simp: class_loop.simps in_ranges_def split: option.splits)
  next
    case (Some r)
    then obtain z rest where "range_end xs = Some (z, rest)" by (cases r) simp
    then show ?thesis using 2 by (auto simp: class_loop.simps in_ranges_def split: option.splits)
  qed
qed (simp add: class_loop.simps)

lemma globClass_of:
  "globClass p c = (case class_of p of None \<Rightarrow> None
     | Some (g, is, r) \<Rightarrow> if in_ranges is c \<noteq> g then Some r else None)"
  by (auto simp: globClass_def class_of_def class_loop_items split: list.splits option.splits)

lemma class_items_shorter: "class_items f p = Some (is, r) \<Longrightarrow> length r < length p"
proof (induction f p arbitrary: "is" rule: class_items.induct)
  case (2 f x xs)
  show ?case
  proof (cases "range_end xs")
    case None
    then show ?thesis using 2 by (fastforce split: if_splits)
  next
    case (Some q)
    then obtain z rest where "range_end xs = Some (z, rest)" by (cases q) simp
    then show ?thesis using 2 range_end_shorter [of xs z rest] by (fastforce split: if_splits)
  qed
qed simp

declare class_items.simps [simp del]

lemma class_of_shorter: "class_of p = Some (g, is, r) \<Longrightarrow> length r < length p"
  by (auto simp: class_of_def dest!: class_items_shorter split: list.splits if_splits)

function (sequential) elems :: "string \<Rightarrow> elem list" where
  "elems [] = []"
| "elems (x # p) =
     (if x = CHR ''*'' then Run # elems p
      else if x = CHR ''?'' then One # elems p
      else if x = CHR ''['' then
        (case class_of p of None \<Rightarrow> [Never] | Some (g, is, r) \<Rightarrow> Cls g is # elems r)
      else Lit x # elems p)"
  by pat_completeness auto
termination
  by (relation "measure length") (auto dest: class_of_shorter)

fun piece_ok :: "elem \<Rightarrow> string \<Rightarrow> bool" where
  "piece_ok Run w = True"
| "piece_ok One w = (length w = 1)"
| "piece_ok (Lit c) w = (w = [c])"
| "piece_ok (Cls g is) w = (case w of [c] \<Rightarrow> in_ranges is c \<noteq> g | _ \<Rightarrow> False)"
| "piece_ok Never w = False"

fun matches :: "elem list \<Rightarrow> string \<Rightarrow> bool" where
  "matches [] n = (n = [])"
| "matches (e # es) n =
     (if e = Run then \<exists>k \<le> length n. matches es (drop k n)
      else n \<noteq> [] \<and> piece_ok e [hd n] \<and> matches es (tl n))"

text \<open>Matching is cutting the subject into one piece per element.\<close>

lemma piece_single: "e \<noteq> Run \<Longrightarrow> piece_ok e w \<Longrightarrow> \<exists>c. w = [c]"
  by (cases e) (auto simp: length_Suc_conv split: list.splits)

lemma matches_pieces: "matches es n \<longleftrightarrow> (\<exists>ws. n = concat ws \<and> list_all2 piece_ok es ws)"
proof (induction es arbitrary: n)
  case (Cons e es)
  show ?case
  proof (cases "e = Run")
    case True
    have "(\<exists>k \<le> length n. matches es (drop k n)) \<longleftrightarrow> (\<exists>u v. n = u @ v \<and> matches es v)"
      by (metis append_take_drop_id append_eq_conv_conj length_append le_add1)
    also have "\<dots> \<longleftrightarrow> (\<exists>ws. n = concat ws \<and> list_all2 piece_ok (e # es) ws)"
      using True by (auto simp: Cons.IH list_all2_Cons1; metis concat.simps(2))
    finally show ?thesis using True by simp
  next
    case False
    then have "matches (e # es) n \<longleftrightarrow> (\<exists>c v. n = c # v \<and> piece_ok e [c] \<and> matches es v)"
      by (cases n) auto
    also have "\<dots> \<longleftrightarrow> (\<exists>ws. n = concat ws \<and> list_all2 piece_ok (e # es) ws)"
    proof
      assume "\<exists>c v. n = c # v \<and> piece_ok e [c] \<and> matches es v"
      then obtain c ws where "n = c # concat ws" "piece_ok e [c]" "list_all2 piece_ok es ws"
        using Cons.IH by blast
      then show "\<exists>ws. n = concat ws \<and> list_all2 piece_ok (e # es) ws" by (intro exI [of _ "[c] # ws"]) simp
    next
      assume "\<exists>ws. n = concat ws \<and> list_all2 piece_ok (e # es) ws"
      then obtain w ws where w: "n = w @ concat ws" "piece_ok e w" "list_all2 piece_ok es ws"
        by (auto simp: list_all2_Cons1)
      moreover obtain c where "w = [c]" using piece_single [OF False w(2)] by blast
      ultimately show "\<exists>c v. n = c # v \<and> piece_ok e [c] \<and> matches es v" using Cons.IH by auto
    qed
    finally show ?thesis .
  qed
qed simp

subsection \<open>The single backtrack point is enough\<close>

abbreviation (input) pmatch :: "string \<Rightarrow> string \<Rightarrow> bool" where "pmatch p n \<equiv> matches (elems p) n"

text \<open>
  Since the last star the loop has consumed \<open>j\<close> bytes, one per element; whatever the rest of that
  star's pattern matches starts with \<open>j\<close> such bytes.
\<close>

definition glob_ok :: "(string \<times> string) option \<Rightarrow> string \<Rightarrow> string \<Rightarrow> bool" where
  "glob_ok star p n = (case star of None \<Rightarrow> True
     | Some (ps, ns) \<Rightarrow> \<exists>j. n = drop j ns \<and> (\<forall>m. pmatch ps m \<longrightarrow> j \<le> length m \<and> pmatch p (drop j m)))"

definition retry :: "(string \<times> string) option \<Rightarrow> bool" where
  "retry star = (case star of None \<Rightarrow> False
     | Some (ps, ns) \<Rightarrow> \<exists>k \<le> length ns. k \<ge> 1 \<and> pmatch ps (drop k ns))"

lemma glob_ok_consume:
  assumes "glob_ok star p (c # n)" "\<And>m. pmatch p m \<Longrightarrow> m \<noteq> [] \<and> pmatch q (tl m)"
  shows "glob_ok star q n"
proof (cases star)
  case (Some a)
  obtain ps ns where a: "a = (ps, ns)" by (cases a)
  obtain j where j: "c # n = drop j ns" "\<And>m. pmatch ps m \<Longrightarrow> j \<le> length m \<and> pmatch p (drop j m)"
    using assms(1) Some a by (auto simp: glob_ok_def)
  have "n = drop (Suc j) ns" using j(1) by (metis drop_Suc list.sel(3) tl_drop)
  moreover have "Suc j \<le> length m \<and> pmatch q (drop (Suc j) m)" if "pmatch ps m" for m
    using j(2) [OF that] assms(2) [of "drop j m"] by (auto simp: drop_Suc tl_drop Suc_le_eq)
  ultimately show ?thesis using Some a by (auto simp: glob_ok_def)
qed (simp add: glob_ok_def)

lemma glob_ok_star:
  assumes "glob_ok star (CHR ''*'' # p) (c # n)"
  shows "pmatch (CHR ''*'' # p) (c # n) \<or> retry star \<longleftrightarrow> pmatch p (c # n) \<or> retry (Some (p, c # n))"
proof -
  have split: "pmatch (CHR ''*'' # p) (c # n) \<longleftrightarrow> pmatch p (c # n) \<or> retry (Some (p, c # n))"
    unfolding retry_def by simp (metis One_nat_def drop0 le0 not_less_eq_eq le_zero_eq)
  have "pmatch (CHR ''*'' # p) (c # n)" if r: "retry star"
  proof -
    obtain ps ns k where k: "star = Some (ps, ns)" "k \<le> length ns" "pmatch ps (drop k ns)"
      using r by (auto simp: retry_def split: option.splits)
    obtain j where j: "c # n = drop j ns" "j \<le> length (drop k ns)" "pmatch (CHR ''*'' # p) (drop j (drop k ns))"
      using assms k unfolding glob_ok_def by (auto simp del: elems.simps drop_drop)
    have "drop j (drop k ns) = drop k (c # n)" using j(1) by (simp add: drop_drop add.commute)
    then obtain i where i: "pmatch p (drop (i + k) (c # n))" using j(3) by auto
    have "pmatch p (drop (min (i + k) (length (c # n))) (c # n))" using i by (cases "i + k \<le> length (c # n)") (simp_all add: min_def)
    then show ?thesis by (auto intro!: exI [of _ "min (i + k) (length (c # n))"])
  qed
  then show ?thesis using split by blast
qed

lemma glob_ok_end: "glob_ok star p [] \<Longrightarrow> \<not> retry star"
proof
  assume ok: "glob_ok star p []" and "retry star"
  then obtain ps ns k where k: "star = Some (ps, ns)" "k \<le> length ns" "k \<ge> 1" "pmatch ps (drop k ns)"
    by (auto simp: retry_def split: option.splits)
  then obtain j where "[] = drop j ns" "j \<le> length ns - k" using ok by (auto simp: glob_ok_def)
  then show False using k(2,3) by simp
qed

lemma all_stars: "dropWhile (\<lambda>x. x = CHR ''*'') p = [] \<longleftrightarrow> pmatch p []"
  by (induction p) (auto split: option.splits)

lemma retry_step:
  assumes "glob_ok (Some (ps, ns)) p (c # n)"
  shows "retry (Some (ps, ns)) \<longleftrightarrow> pmatch ps (drop 1 ns) \<or> retry (Some (ps, drop 1 ns))"
proof -
  have "ns \<noteq> []" using assms by (auto simp: glob_ok_def)
  then obtain x xs where ns: "ns = x # xs" by (cases ns) auto
  have "retry (Some (ps, ns)) \<longleftrightarrow> (\<exists>k \<le> length xs. pmatch ps (drop k xs))"
    unfolding ns retry_def by simp (metis Suc_le_mono drop_Suc_Cons Suc_le_D le_numeral_extra(4) One_nat_def le0)
  also have "\<dots> \<longleftrightarrow> pmatch ps xs \<or> retry (Some (ps, xs))"
    unfolding retry_def by simp (metis One_nat_def drop0 le0 not_less_eq_eq le_zero_eq)
  finally show ?thesis using ns by simp
qed

lemma glob_ok_restart: "glob_ok (Some (p, n)) p n"
  by (auto simp: glob_ok_def intro!: exI [of _ 0])

text \<open>One iteration keeps what is still to be decided.\<close>

definition pending :: "glob_state \<Rightarrow> bool" where
  "pending st = (case st of (star, p, n) \<Rightarrow> pmatch p n \<or> retry star)"

lemma backtrack_sound:
  assumes "glob_ok star p (c # n)" "\<not> pmatch p (c # n)"
  shows "pending (star, p, c # n) = (case backtrack star of None \<Rightarrow> False | Some st \<Rightarrow> pending st)"
    and "backtrack star = Some (s', p', n') \<Longrightarrow> glob_ok s' p' n'"
  using assms retry_step [of _ _ p c n]
  by (auto simp: pending_def backtrack_def retry_def glob_ok_restart split: option.splits prod.splits)

lemma glob_iter_sound:
  assumes "glob_ok star p (c # n)"
  shows "pending (star, p, c # n) = (case glob_iter star p c n of None \<Rightarrow> False | Some st \<Rightarrow> pending st)
    \<and> (case glob_iter star p c n of None \<Rightarrow> True | Some (s', p', n') \<Rightarrow> glob_ok s' p' n')"
proof -
  let ?G = "pending (star, p, c # n) = (case glob_iter star p c n of None \<Rightarrow> False | Some st \<Rightarrow> pending st)
    \<and> (case glob_iter star p c n of None \<Rightarrow> True | Some (s', p', n') \<Rightarrow> glob_ok s' p' n')"
  have again: "?G" if "glob_iter star p c n = backtrack star" "\<not> pmatch p (c # n)"
    using backtrack_sound [OF assms that(2)] by (auto simp: that(1) split: option.splits prod.splits)
  have eat: "?G" if "glob_iter star p c n = Some (star, q, n)" "pmatch p (c # n) = pmatch q n"
      "\<And>m. pmatch p m \<Longrightarrow> m \<noteq> [] \<and> pmatch q (tl m)" for q
    using glob_ok_consume [OF assms that(3)] that(1,2) by (simp add: pending_def)
  show ?thesis
  proof (cases p)
    case Nil
    then show ?thesis by (intro again) (simp_all add: glob_iter_def)
  next
    case (Cons x p')
    consider (star) "x = CHR ''*''" | (one) "x = CHR ''?''" | (cls) "x = CHR ''[''"
      | (hit) "x \<notin> {CHR ''*'', CHR ''?'', CHR ''[''}" "x = c" | (miss) "x \<notin> {CHR ''*'', CHR ''?'', CHR ''[''}" "x \<noteq> c"
      by blast
    then show ?thesis
    proof cases
      case star
      then show ?thesis using glob_ok_star [of star p' c n] assms Cons glob_ok_restart
        by (simp add: glob_iter_def pending_def)
    next
      case one
      then show ?thesis using Cons by (intro eat [of p']) (simp_all add: glob_iter_def)
    next
      case cls
      show ?thesis
      proof (cases "globClass p' c")
        case None
        then show ?thesis using cls Cons globClass_of [of p' c]
          by (intro again) (auto simp: glob_iter_def split: option.splits if_splits prod.splits)
      next
        case (Some q)
        then obtain g r where "class_of p' = Some (g, r, q)" "in_ranges r c \<noteq> g"
          using globClass_of [of p' c] by (auto split: option.splits if_splits prod.splits)
        then show ?thesis using Some cls Cons by (intro eat [of q]) (simp_all add: glob_iter_def)
      qed
    next
      case hit
      then show ?thesis using Cons by (intro eat [of p']) (simp_all add: glob_iter_def)
    next
      case miss
      then show ?thesis using Cons by (intro again) (simp_all add: glob_iter_def)
    qed
  qed
qed

lemma glob_loop_sound: "glob_ok star p n \<Longrightarrow> glob_loop star p n = pending (star, p, n)"
proof (induction star p n rule: glob_loop.induct)
  case (1 star p n)
  show ?case
  proof (cases n)
    case Nil
    then show ?thesis using 1(2) glob_ok_end all_stars by (simp add: glob_loop.simps pending_def)
  next
    case (Cons c n')
    note s = glob_iter_sound [of star p c n'] 1(2)
    show ?thesis
    proof (cases "glob_iter star p c n'")
      case None
      then show ?thesis using s Cons by (simp add: glob_loop.simps [of star p "c # n'"])
    next
      case (Some st)
      obtain s' p' n'' where st: "st = (s', p', n'')" by (cases st)
      have "glob_loop s' p' n'' = pending (s', p', n'')" using 1(1) [OF Cons Some st [symmetric] refl] s Cons Some st by simp
      then show ?thesis using s Cons Some st by (simp add: glob_loop.simps [of star p "c # n'"])
    qed
  qed
qed

lemma globMatch_iff: "globMatch p n \<longleftrightarrow> matches (elems p) n"
  using glob_loop_sound [of None p n] by (simp add: globMatch_def glob_ok_def pending_def retry_def)

text \<open>
  C9. The matcher with one backtrack point decides the pattern language: it terminates on every pattern and
  subject, and accepts exactly when the subject can be cut into pieces, one for each element of the
  pattern, that the elements accept.
\<close>

theorem globMatch_correct:
  "globMatch pattern subject \<longleftrightarrow> (\<exists>ws. subject = concat ws \<and> list_all2 piece_ok (elems pattern) ws)"
  by (simp add: globMatch_iff matches_pieces)

fun split_bars :: "string \<Rightarrow> string list" where
  "split_bars [] = [[]]"
| "split_bars (c # s) = (if c = CHR ''|'' then [] # split_bars s
     else (c # hd (split_bars s)) # tl (split_bars s))"

lemma split_bars_unfold:
  "split_bars p = takeWhile (\<lambda>c. c \<noteq> CHR ''|'') p # (case dropWhile (\<lambda>c. c \<noteq> CHR ''|'') p of [] \<Rightarrow> [] | _ # q \<Rightarrow> split_bars q)"
  by (induction p) (auto split: list.splits)

text \<open>A case arm is taken when one of its alternatives, trimmed and not empty, matches.\<close>

theorem caseMatch_correct:
  "caseMatch pattern subject \<longleftrightarrow>
   list_ex (\<lambda>alt. trimSpace alt \<noteq> [] \<and> matches (elems (trimSpace alt)) subject) (split_bars pattern)"
proof (induction pattern subject rule: caseMatch.induct)
  case (1 p s)
  let ?d = "dropWhile (\<lambda>c. c \<noteq> CHR ''|'') p"
  let ?alt = "trimSpace (takeWhile (\<lambda>c. c \<noteq> CHR ''|'') p)"
  let ?ok = "\<lambda>alt. trimSpace alt \<noteq> [] \<and> matches (elems (trimSpace alt)) s"
  have unf: "caseMatch p s = (if ?alt \<noteq> [] \<and> globMatch ?alt s then True
      else case ?d of [] \<Rightarrow> False | _ # q \<Rightarrow> caseMatch q s)"
    by (subst caseMatch.simps) (simp only: Let_def)
  show ?case
  proof (cases ?d)
    case Nil
    then have "split_bars p = [takeWhile (\<lambda>c. c \<noteq> CHR ''|'') p]" by (subst split_bars_unfold) (simp only: list.case)
    then show ?thesis unfolding unf Nil by (simp add: globMatch_iff)
  next
    case (Cons b q)
    then have sp: "split_bars p = takeWhile (\<lambda>c. c \<noteq> CHR ''|'') p # split_bars q"
      by (subst split_bars_unfold) (simp only: list.case)
    have "caseMatch q s = list_ex ?ok (split_bars q)" if "\<not> (?alt \<noteq> [] \<and> globMatch ?alt s)"
      using that by (rule 1 [OF refl refl _ Cons])
    then show ?thesis unfolding unf Cons sp by (simp add: globMatch_iff)
  qed
qed

end
