(* ===== verification/ShellArith.thy ===== *)
theory ShellArith
  imports ShellGlob Format "HOL-Library.Signed_Division"
begin

text \<open>
  The shell's \<^verbatim>\<open>$(( ))\<close> arithmetic (\<^verbatim>\<open>shlib/control.go\<close>): the lexer, the recursive descent over \<^verbatim>\<open>+ - * / %\<close>
  and parentheses with its nesting guard, and the splice into the line. Values are Go's \<^verbatim>\<open>int64\<close>: 64-bit
  words whose operations wrap. A lexer state holds the rest of the source from \<^verbatim>\<open>pos\<close>.
\<close>

subsection \<open>The lexer\<close>

datatype arithTok = arNum | arPlus | arMinus | arStar | arSlash | arPercent | arLParen | arRParen | arEOF

record arithLexer =
  l_rest :: string
  l_tok :: arithTok
  l_val :: u64
  l_nest :: nat

definition arithNestMax :: nat where "arithNestMax = 32"

definition is_dec :: "char \<Rightarrow> bool" where
  "is_dec c \<longleftrightarrow> 48 \<le> (of_char c :: nat) \<and> (of_char c :: nat) \<le> 57"

fun num_loop :: "u64 \<Rightarrow> string \<Rightarrow> u64 \<times> string" where
  "num_loop v [] = (v, [])"
| "num_loop v (c # s) = (if is_dec c then num_loop (v * 10 + of_nat (of_char c - 48)) s else (v, c # s))"

definition classify :: "arithLexer \<Rightarrow> string \<Rightarrow> arithLexer" where
  "classify l src =
     (case src of
        [] \<Rightarrow> l\<lparr>l_rest := [], l_tok := arEOF\<rparr>
      | c # s \<Rightarrow>
          if c = CHR ''+'' then l\<lparr>l_tok := arPlus, l_rest := s\<rparr>
          else if c = CHR ''-'' then l\<lparr>l_tok := arMinus, l_rest := s\<rparr>
          else if c = CHR ''*'' then l\<lparr>l_tok := arStar, l_rest := s\<rparr>
          else if c = CHR ''/'' then l\<lparr>l_tok := arSlash, l_rest := s\<rparr>
          else if c = CHR ''%'' then l\<lparr>l_tok := arPercent, l_rest := s\<rparr>
          else if c = CHR ''('' then l\<lparr>l_tok := arLParen, l_rest := s\<rparr>
          else if c = CHR '')'' then l\<lparr>l_tok := arRParen, l_rest := s\<rparr>
          else if is_dec c then
            (let (v, s') = num_loop 0 (c # s) in l\<lparr>l_tok := arNum, l_val := v, l_rest := s'\<rparr>)
          else l\<lparr>l_tok := arEOF, l_rest := c # s\<rparr>)"

text \<open>\<^verbatim>\<open>advance\<close>: skip blanks, then look at the byte there.\<close>

definition advance :: "arithLexer \<Rightarrow> arithLexer" where
  "advance l = classify l (dropWhile isSpaceByte (l_rest l))"

subsection \<open>The descent\<close>

text \<open>Go's truncated quotient and remainder; the quotient of the least number by minus one wraps.\<close>

definition div_i64 :: "u64 \<Rightarrow> u64 \<Rightarrow> u64" where
  "div_i64 a b = (if b \<noteq> 0 then word_of_int (sint a sdiv sint b) else 0)"

definition rem_i64 :: "u64 \<Rightarrow> u64 \<Rightarrow> u64" where
  "rem_i64 a b = (if b \<noteq> 0 then word_of_int (sint a smod sint b) else 0)"

text \<open>
  \<open>expr_loop\<close> and \<open>term_loop\<close> are the \<^verbatim>\<open>for\<close> loops of \<^verbatim>\<open>arithExpr\<close> and \<^verbatim>\<open>arithTerm\<close>. The call that consumes
  the closing parenthesis consumes whatever token is there.
\<close>

function (sequential) arithExpr :: "arithLexer \<Rightarrow> u64 \<times> arithLexer"
  and expr_loop :: "u64 \<Rightarrow> arithLexer \<Rightarrow> u64 \<times> arithLexer"
  and arithTerm :: "arithLexer \<Rightarrow> u64 \<times> arithLexer"
  and term_loop :: "u64 \<Rightarrow> arithLexer \<Rightarrow> u64 \<times> arithLexer"
  and arithFactor :: "arithLexer \<Rightarrow> u64 \<times> arithLexer"
where
  "arithExpr l = (case arithTerm l of (left, l) \<Rightarrow> expr_loop left l)"
| "expr_loop left l =
     (case l_tok l of
        arPlus \<Rightarrow> (case arithTerm (advance l) of (r, l) \<Rightarrow> expr_loop (left + r) l)
      | arMinus \<Rightarrow> (case arithTerm (advance l) of (r, l) \<Rightarrow> expr_loop (left - r) l)
      | _ \<Rightarrow> (left, l))"
| "arithTerm l = (case arithFactor l of (left, l) \<Rightarrow> term_loop left l)"
| "term_loop left l =
     (case l_tok l of
        arStar \<Rightarrow> (case arithFactor (advance l) of (r, l) \<Rightarrow> term_loop (left * r) l)
      | arSlash \<Rightarrow> (case arithFactor (advance l) of (r, l) \<Rightarrow> term_loop (div_i64 left r) l)
      | arPercent \<Rightarrow> (case arithFactor (advance l) of (r, l) \<Rightarrow> term_loop (rem_i64 left r) l)
      | _ \<Rightarrow> (left, l))"
| "arithFactor l =
     (case l_tok l of
        arMinus \<Rightarrow> (case arithFactor (advance l) of (v, l) \<Rightarrow> (- v, l))
      | arPlus \<Rightarrow> arithFactor (advance l)
      | arNum \<Rightarrow> (l_val l, advance l)
      | arLParen \<Rightarrow>
          if l_nest l \<ge> arithNestMax then (0, l)
          else (case arithExpr (advance (l\<lparr>l_nest := l_nest l + 1\<rparr>)) of
                  (v, l) \<Rightarrow> let l = advance l in (v, l\<lparr>l_nest := l_nest l - 1\<rparr>))
      | _ \<Rightarrow> (0, l))"
  by pat_completeness auto

definition lsize :: "arithLexer \<Rightarrow> nat" where
  "lsize l = 2 * length (l_rest l) + (if l_tok l = arEOF then 0 else 1)"

lemma num_loop_le: "length (snd (num_loop v s)) \<le> length s"
  by (induction v s rule: num_loop.induct) auto

lemma advance_lt: "l_tok l \<noteq> arEOF \<Longrightarrow> lsize (advance l) < lsize l"
  and advance_le: "lsize (advance l) \<le> lsize l"
proof -
  have w: "length (dropWhile isSpaceByte (l_rest l)) \<le> length (l_rest l)" by (rule length_dropWhile_le)
  have n: "length (snd (num_loop 0 (c # s))) \<le> length s" if "is_dec c" for c s
    using that num_loop_le [of "0 * 10 + of_nat (of_char c - 48)" s] by simp
  have "lsize (classify l src) \<le> 2 * length src" for src
    using n [of "hd src" "tl src"] by (cases src) (auto simp: lsize_def classify_def Let_def split_beta simp del: num_loop.simps)
  then have *: "lsize (advance l) \<le> 2 * length (l_rest l)"
    unfolding advance_def using w by (meson le_trans mult_le_mono2)
  show "l_tok l \<noteq> arEOF \<Longrightarrow> lsize (advance l) < lsize l" using * by (simp add: lsize_def)
  show "lsize (advance l) \<le> lsize l" using * by (simp add: lsize_def)
qed

lemma lsize_nest [simp]: "lsize (l\<lparr>l_nest := k\<rparr>) = lsize l"
  by (simp add: lsize_def)

lemma advance_nest [simp]: "advance (l\<lparr>l_nest := k\<rparr>) = (advance l)\<lparr>l_nest := k\<rparr>"
proof -
  have "classify (l\<lparr>l_nest := k\<rparr>) src = (classify l src)\<lparr>l_nest := k\<rparr>" for src
    by (cases src) (simp_all add: classify_def Let_def split_beta)
  then show ?thesis by (simp add: advance_def)
qed

text \<open>No call of the descent gives input back.\<close>

abbreviation (input) "descent_dom \<equiv> arithExpr_expr_loop_arithTerm_term_loop_arithFactor_dom"

lemma descent_le:
  "descent_dom (Inl (Inl l)) \<Longrightarrow> lsize (snd (arithExpr l)) \<le> lsize l"
  "descent_dom (Inl (Inr (v, l))) \<Longrightarrow> lsize (snd (expr_loop v l)) \<le> lsize l"
  "descent_dom (Inr (Inl l)) \<Longrightarrow> lsize (snd (arithTerm l)) \<le> lsize l"
  "descent_dom (Inr (Inr (Inl (v, l)))) \<Longrightarrow> lsize (snd (term_loop v l)) \<le> lsize l"
  "descent_dom (Inr (Inr (Inr l))) \<Longrightarrow> lsize (snd (arithFactor l)) \<le> lsize l"
proof (induction l and v l and l and v l and l rule: arithExpr_expr_loop_arithTerm_term_loop_arithFactor.pinduct)
  case (1 l)
  then show ?case by (cases "arithTerm l") (fastforce simp: arithExpr.psimps)
next
  case (2 left l)
  note ps = expr_loop.psimps [OF 2(1)] and a = advance_le [of l]
  obtain r l' where r: "arithTerm (advance l) = (r, l')" by (cases "arithTerm (advance l)")
  show ?case using 2(2-) a by (cases "l_tok l") (fastforce simp: ps r)+
next
  case (3 l)
  then show ?case by (cases "arithFactor l") (fastforce simp: arithTerm.psimps)
next
  case (4 left l)
  note ps = term_loop.psimps [OF 4(1)] and a = advance_le [of l]
  obtain r l' where r: "arithFactor (advance l) = (r, l')" by (cases "arithFactor (advance l)")
  show ?case using 4(2-) a by (cases "l_tok l") (fastforce simp: ps r)+
next
  case (5 l)
  let ?l = "(advance l)\<lparr>l_nest := Suc (l_nest l)\<rparr>"
  note ps = arithFactor.psimps [OF 5(1)] and a = advance_le [of l]
  obtain v l' where v: "arithFactor (advance l) = (v, l')" by (cases "arithFactor (advance l)")
  obtain w k where w: "arithExpr ?l = (w, k)" by (cases "arithExpr ?l")
  show ?case
  proof (cases "l_tok l = arLParen \<and> \<not> arithNestMax \<le> l_nest l")
    case True
    then have "lsize k \<le> lsize (advance l)" using 5(4) w by simp
    then show ?thesis using a True advance_le [of k] by (simp add: ps w Let_def)
  next
    case False
    then show ?thesis using 5(2,3) a v by (cases "l_tok l") (simp_all add: ps)
  qed
qed

lemma descent_result:
  "(x, y) = arithTerm l \<Longrightarrow> descent_dom (Inr (Inl l)) \<Longrightarrow> lsize y \<le> lsize l"
  "(x, y) = arithFactor l \<Longrightarrow> descent_dom (Inr (Inr (Inr l))) \<Longrightarrow> lsize y \<le> lsize l"
  using descent_le(3,5) by (metis snd_conv)+

lemma token_lt: "l_tok l = t \<Longrightarrow> t \<noteq> arEOF \<Longrightarrow> lsize (advance l) < lsize l"
  using advance_lt by blast

termination arithExpr
  by (relation "measure (case_sum (case_sum (\<lambda>l. 3 * lsize l + 2) (\<lambda>(v, l). 3 * lsize l))
      (case_sum (\<lambda>l. 3 * lsize l + 1) (case_sum (\<lambda>(v, l). 3 * lsize l) (\<lambda>l. 3 * lsize l))))")
    (auto simp: eq_commute [of "(_, _)" "arithTerm _"] eq_commute [of "(_, _)" "arithFactor _"]
       dest!: token_lt descent_result [OF sym])

declare arithExpr.simps [simp del] expr_loop.simps [simp del] arithTerm.simps [simp del]
  term_loop.simps [simp del] arithFactor.simps [simp del]

definition evalArith :: "string \<Rightarrow> u64" where
  "evalArith expr = fst (arithExpr (advance \<lparr>l_rest = expr, l_tok = arNum, l_val = 0, l_nest = 0\<rparr>))"

subsection \<open>The splice\<close>

text \<open>\<open>cut_at w s\<close> is \<^verbatim>\<open>strings.Index\<close> as the text before the first \<open>w\<close> and the text after it.\<close>

fun cut_at :: "string \<Rightarrow> string \<Rightarrow> (string \<times> string) option" where
  "cut_at w [] = (if w = [] then Some ([], []) else None)"
| "cut_at w (c # s) =
     (if take (length w) (c # s) = w then Some ([], drop (length w) (c # s))
      else map_option (\<lambda>(a, b). (c # a, b)) (cut_at w s))"

text \<open>The scan for the closing parentheses; both bytes at \<^verbatim>\<open>i\<close> and \<^verbatim>\<open>i+1\<close> must be there.\<close>

fun close_loop :: "nat \<Rightarrow> string \<Rightarrow> (string \<times> string) option" where
  "close_loop depth (x # y # s) =
     (if x = CHR ''('' then map_option (\<lambda>(a, b). (x # a, b)) (close_loop (depth + 1) (y # s))
      else if x = CHR '')'' then
        (if depth = 0 \<and> y = CHR '')'' then Some ([], s)
         else map_option (\<lambda>(a, b). (x # a, b)) (close_loop (depth - 1) (y # s)))
      else map_option (\<lambda>(a, b). (x # a, b)) (close_loop depth (y # s)))"
| "close_loop depth _ = None"

definition arithExpand :: "string \<Rightarrow> string" where
  "arithExpand line =
     (case cut_at ''$(('' line of
        None \<Rightarrow> line
      | Some (before, rest) \<Rightarrow>
          (case close_loop 0 rest of
             None \<Rightarrow> line
           | Some (expr, after) \<Rightarrow>
               if expr = [] then line else before @ Itoa64 (evalArith expr) @ after))"

subsection \<open>Expressions and their value\<close>

datatype binop = Add | Sub | Mul | Div | Rem

datatype aexp = N nat | Neg aexp | Pos aexp | Bin binop aexp aexp

fun apply_op :: "binop \<Rightarrow> u64 \<Rightarrow> u64 \<Rightarrow> u64" where
  "apply_op Add a b = a + b"
| "apply_op Sub a b = a - b"
| "apply_op Mul a b = a * b"
| "apply_op Div a b = div_i64 a b"
| "apply_op Rem a b = rem_i64 a b"

fun aval :: "aexp \<Rightarrow> u64" where
  "aval (N n) = of_nat n"
| "aval (Neg a) = - aval a"
| "aval (Pos a) = aval a"
| "aval (Bin op a b) = apply_op op (aval a) (aval b)"

fun op_char :: "binop \<Rightarrow> char" where
  "op_char Add = CHR ''+''"
| "op_char Sub = CHR ''-''"
| "op_char Mul = CHR ''*''"
| "op_char Div = CHR ''/''"
| "op_char Rem = CHR ''%''"

fun prec :: "binop \<Rightarrow> nat" where
  "prec Add = 0" | "prec Sub = 0" | "prec Mul = 1" | "prec Div = 1" | "prec Rem = 1"

text \<open>An expression with the parentheses it needs where an operand of level \<open>p\<close> is expected.\<close>

fun show_at :: "nat \<Rightarrow> aexp \<Rightarrow> string" where
  "show_at p (N n) = dec_nat n"
| "show_at p (Neg a) = CHR ''-'' # show_at 2 a"
| "show_at p (Pos a) = CHR ''+'' # show_at 2 a"
| "show_at p (Bin op a b) =
     (let s = show_at (prec op) a @ op_char op # show_at (Suc (prec op)) b
      in if p \<le> prec op then s else ''('' @ s @ '')'')"

fun parens :: "nat \<Rightarrow> aexp \<Rightarrow> nat" where
  "parens p (N n) = 0"
| "parens p (Neg a) = parens 2 a"
| "parens p (Pos a) = parens 2 a"
| "parens p (Bin op a b) = (if p \<le> prec op then 0 else 1) + max (parens (prec op) a) (parens (Suc (prec op)) b)"

subsection \<open>Reading an expression back\<close>

text \<open>The lexer standing in front of a text.\<close>

definition lex_at :: "string \<Rightarrow> u64 \<Rightarrow> nat \<Rightarrow> arithLexer" where
  "lex_at s v k = advance \<lparr>l_rest = s, l_tok = arEOF, l_val = v, l_nest = k\<rparr>"

lemma advance_at: "advance l = lex_at (l_rest l) (l_val l) (l_nest l)"
proof -
  have "classify l src = classify (l\<lparr>l_tok := arEOF\<rparr>) src" for src
    by (cases src) (auto simp: classify_def Let_def split_beta)
  then show ?thesis by (cases l) (simp add: lex_at_def advance_def)
qed

lemma lex_op:
  assumes "c \<in> {CHR ''+'', CHR ''-'', CHR ''*'', CHR ''/'', CHR ''%'', CHR ''('', CHR '')''}"
  shows "lex_at (c # s) v k = \<lparr>l_rest = s, l_tok = (if c = CHR ''+'' then arPlus else if c = CHR ''-'' then arMinus
      else if c = CHR ''*'' then arStar else if c = CHR ''/'' then arSlash else if c = CHR ''%'' then arPercent
      else if c = CHR ''('' then arLParen else arRParen), l_val = v, l_nest = k\<rparr>"
  using assms by (auto simp: lex_at_def advance_def classify_def isSpaceByte_def)

lemma lex_end: "lex_at [] v k = \<lparr>l_rest = [], l_tok = arEOF, l_val = v, l_nest = k\<rparr>"
  by (simp add: lex_at_def advance_def classify_def)

definition stops :: "string \<Rightarrow> bool" where
  "stops s \<longleftrightarrow> s = [] \<or> \<not> is_dec (hd s)"

lemma num_loop_digits:
  "list_all is_dec ds \<Longrightarrow> stops s \<Longrightarrow>
   num_loop v (ds @ s) = (foldl (\<lambda>n c. n * 10 + of_nat (digit_val c)) v ds, s)"
proof (induction ds arbitrary: v)
  case Nil
  then show ?case by (cases s) (auto simp: stops_def)
qed (simp add: digit_val_def)

lemma undec_word: "of_nat (undec ds) = foldl (\<lambda>n c. n * 10 + of_nat (digit_val c)) (0 :: u64) ds"
proof -
  have "of_nat (foldl (\<lambda>n c. n * 10 + digit_val c) m ds)
      = foldl (\<lambda>n c. n * 10 + of_nat (digit_val c)) (of_nat m :: u64) ds" for m
    by (induction ds arbitrary: m) simp_all
  from this [of 0] show ?thesis by (simp add: undec_def)
qed

lemma dec_nat_digits: "list_all is_dec (dec_nat n)"
proof (induction n rule: dec_nat.induct)
  case (1 n)
  have d: "is_dec (char_of (48 + m))" if "m < 10" for m :: nat
    using that by (simp add: is_dec_def of_char_of take_bit_eq_mod)
  show ?case using 1 d [of n] d [of "n mod 10"] by (cases "n < 10") (simp_all add: dec_nat.simps [of n])
qed

lemma is_dec_not_op: "is_dec c \<Longrightarrow> c \<notin> {CHR ''+'', CHR ''-'', CHR ''*'', CHR ''/'', CHR ''%'', CHR ''('', CHR '')''}"
  "is_dec c \<Longrightarrow> \<not> isSpaceByte c"
  by (auto simp: is_dec_def isSpaceByte_def)

lemma lex_num:
  assumes "stops s"
  shows "lex_at (dec_nat n @ s) v k = \<lparr>l_rest = s, l_tok = arNum, l_val = of_nat n, l_nest = k\<rparr>"
proof -
  obtain c ds where n: "dec_nat n = c # ds" using dec_nat_not_Nil [of n] by (cases "dec_nat n") auto
  have c: "is_dec c" using dec_nat_digits [of n] n by simp
  have "num_loop 0 (dec_nat n @ s) = (of_nat n, s)"
    unfolding num_loop_digits [OF dec_nat_digits assms] undec_word [symmetric] undec_dec_nat ..
  then have "num_loop 0 (c # ds @ s) = (of_nat n, s)" unfolding n by simp
  then show ?thesis using is_dec_not_op [OF c] c
    by (simp add: lex_at_def advance_def n classify_def Let_def del: num_loop.simps)
qed

lemma stops_op [simp]: "stops []" "c \<in> {CHR ''+'', CHR ''-'', CHR ''*'', CHR ''/'', CHR ''%'', CHR ''('', CHR '')''} \<Longrightarrow> stops (c # s)"
  by (auto simp: stops_def is_dec_def)

text \<open>What may follow a whole expression: its end, a closing parenthesis or an additive operator.\<close>

definition ends_expr :: "string \<Rightarrow> bool" where
  "ends_expr s \<longleftrightarrow> s = [] \<or> hd s \<in> {CHR ''+'', CHR ''-'', CHR '')''}"

lemma ends_stops: "ends_expr s \<Longrightarrow> stops s"
  by (auto simp: ends_expr_def stops_def is_dec_def)

lemma ends_term: "ends_expr s \<Longrightarrow> term_loop x (lex_at s v k) = (x, lex_at s v k)"
  by (cases s) (auto simp: ends_expr_def lex_op lex_end term_loop.simps)

definition reads_factor :: "aexp \<Rightarrow> bool" where
  "reads_factor e \<longleftrightarrow> (\<forall>s v k. stops s \<longrightarrow> k + parens 2 e \<le> arithNestMax \<longrightarrow>
     (\<exists>v'. arithFactor (lex_at (show_at 2 e @ s) v k) = (aval e, lex_at s v' k)))"

definition reads_term :: "aexp \<Rightarrow> bool" where
  "reads_term e \<longleftrightarrow> (\<forall>s v k. stops s \<longrightarrow> k + parens 1 e \<le> arithNestMax \<longrightarrow>
     (\<exists>v'. arithTerm (lex_at (show_at 1 e @ s) v k) = term_loop (aval e) (lex_at s v' k)))"

definition reads_expr :: "aexp \<Rightarrow> bool" where
  "reads_expr e \<longleftrightarrow> (\<forall>s v k. ends_expr s \<longrightarrow> k + parens 0 e \<le> arithNestMax \<longrightarrow>
     (\<exists>v'. arithExpr (lex_at (show_at 0 e @ s) v k) = expr_loop (aval e) (lex_at s v' k)))"

lemma factor_term: "reads_factor e \<Longrightarrow> show_at 1 e = show_at 2 e \<Longrightarrow> parens 1 e = parens 2 e \<Longrightarrow> reads_term e"
  unfolding reads_factor_def reads_term_def arithTerm.simps by (metis case_prod_conv)

lemma term_expr: "reads_term e \<Longrightarrow> show_at 0 e = show_at 1 e \<Longrightarrow> parens 0 e = parens 1 e \<Longrightarrow> reads_expr e"
  unfolding reads_term_def reads_expr_def
  by (auto simp: arithExpr.simps ends_stops) (metis ends_stops ends_term case_prod_conv)

lemma lex_at_nest: "l_nest (lex_at s v k) = k" "(lex_at s v k)\<lparr>l_nest := k'\<rparr> = lex_at s v k'"
proof -
  have *: "lex_at s v j = (lex_at s v i)\<lparr>l_nest := j\<rparr>" for i j
    using advance_nest [of j "\<lparr>l_rest = s, l_tok = arEOF, l_val = v, l_nest = i\<rparr>"] by (simp add: lex_at_def)
  show "l_nest (lex_at s v k) = k" by (subst * [of k k]) simp
  show "(lex_at s v k)\<lparr>l_nest := k'\<rparr> = lex_at s v k'" using * [of k' k] by simp
qed

text \<open>A parenthesised expression is a factor one level down.\<close>

lemma expr_factor:
  assumes "reads_expr e" "show_at 2 e = ''('' @ show_at 0 e @ '')''" "parens 2 e = Suc (parens 0 e)"
  shows "reads_factor e"
  unfolding reads_factor_def
proof (intro allI impI)
  fix s v k
  assume "stops s" and d: "k + parens 2 e \<le> arithNestMax"
  have "ends_expr ('')'' @ s)" by (simp add: ends_expr_def)
  then obtain v' where "arithExpr (lex_at (show_at 0 e @ '')'' @ s) v (Suc k)) = expr_loop (aval e) (lex_at ('')'' @ s) v' (Suc k))"
    using assms(1,3) d unfolding reads_expr_def by fastforce
  then have "arithExpr (lex_at (show_at 0 e @ CHR '')'' # s) v (Suc k)) = (aval e, lex_at (CHR '')'' # s) v' (Suc k))"
    by (simp add: lex_op expr_loop.simps)
  then have "arithFactor (lex_at (show_at 2 e @ s) v k) = (aval e, lex_at s v' k)"
    using d assms(3) by (simp add: assms(2) arithFactor.simps lex_op advance_at Let_def lex_at_nest)
  then show "\<exists>v'. arithFactor (lex_at (show_at 2 e @ s) v k) = (aval e, lex_at s v' k)" by blast
qed

text \<open>Each operator: the left operand is read, then the loop takes the operator and the right one.\<close>

lemma reads_additive:
  assumes "prec op = 0" "reads_expr a" "reads_term b"
  shows "reads_expr (Bin op a b)"
  unfolding reads_expr_def
proof (intro allI impI)
  fix s v k
  assume s: "ends_expr s" and d: "k + parens 0 (Bin op a b) \<le> arithNestMax"
  let ?s = "op_char op # show_at 1 b @ s"
  have "ends_expr ?s" using assms(1) by (cases op) (simp_all add: ends_expr_def)
  then obtain v1 where 1: "arithExpr (lex_at (show_at 0 a @ ?s) v k) = expr_loop (aval a) (lex_at ?s v1 k)"
    using assms(1,2) d unfolding reads_expr_def by fastforce
  obtain v2 where 2: "arithTerm (lex_at (show_at 1 b @ s) v1 k) = term_loop (aval b) (lex_at s v2 k)"
    using assms(1,3) d ends_stops [OF s] unfolding reads_term_def by fastforce
  have "expr_loop (aval a) (lex_at ?s v1 k) = expr_loop (aval (Bin op a b)) (lex_at s v2 k)"
    using assms(1) 2 ends_term [OF s] by (cases op) (simp_all add: expr_loop.simps [of "aval a"] lex_op advance_at)
  then show "\<exists>v'. arithExpr (lex_at (show_at 0 (Bin op a b) @ s) v k) = expr_loop (aval (Bin op a b)) (lex_at s v' k)"
    using 1 assms(1) by (auto simp: Let_def)
qed

lemma reads_multiplicative:
  assumes "prec op = 1" "reads_term a" "reads_factor b"
  shows "reads_term (Bin op a b)"
  unfolding reads_term_def
proof (intro allI impI)
  fix s v k
  assume s: "stops s" and d: "k + parens 1 (Bin op a b) \<le> arithNestMax"
  let ?s = "op_char op # show_at 2 b @ s"
  have "stops ?s" by (cases op) simp_all
  then obtain v1 where 1: "arithTerm (lex_at (show_at 1 a @ ?s) v k) = term_loop (aval a) (lex_at ?s v1 k)"
    using assms(1,2) d unfolding reads_term_def by fastforce
  obtain v2 where 2: "arithFactor (lex_at (show_at 2 b @ s) v1 k) = (aval b, lex_at s v2 k)"
    using assms(1,3) d s unfolding reads_factor_def by (fastforce simp: numeral_2_eq_2)
  have "term_loop (aval a) (lex_at ?s v1 k) = term_loop (aval (Bin op a b)) (lex_at s v2 k)"
    using assms(1) 2 by (cases op) (simp_all add: term_loop.simps [of "aval a"] lex_op advance_at)
  then show "\<exists>v'. arithTerm (lex_at (show_at 1 (Bin op a b) @ s) v k) = term_loop (aval (Bin op a b)) (lex_at s v' k)"
    using 1 assms(1) by (auto simp: Let_def numeral_2_eq_2)
qed

lemma reads_all: "reads_factor e \<and> reads_term e \<and> reads_expr e"
proof (induction e)
  case (N n)
  have "reads_factor (N n)"
    unfolding reads_factor_def by (auto simp: lex_num arithFactor.simps advance_at)
  then show ?case using factor_term [of "N n"] term_expr [of "N n"] by simp
next
  case (Neg a)
  then have "reads_factor (Neg a)"
    unfolding reads_factor_def by (auto simp: lex_op arithFactor.simps [of "\<lparr>l_rest = _, l_tok = arMinus, l_val = _, l_nest = _\<rparr>"] advance_at) (metis case_prod_conv)
  then show ?case using factor_term [of "Neg a"] term_expr [of "Neg a"] by simp
next
  case (Pos a)
  then have "reads_factor (Pos a)"
    unfolding reads_factor_def by (auto simp: lex_op arithFactor.simps [of "\<lparr>l_rest = _, l_tok = arPlus, l_val = _, l_nest = _\<rparr>"] advance_at)
  then show ?case using factor_term [of "Pos a"] term_expr [of "Pos a"] by simp
next
  case (Bin op a b)
  let ?e = "Bin op a b"
  show ?case
  proof (cases "prec op = 0")
    case True
    have e: "reads_expr ?e" using reads_additive [OF True] Bin by simp
    moreover have "reads_factor ?e" by (rule expr_factor [OF e]) (simp_all add: True Let_def)
    moreover from this have "reads_term ?e" by (rule factor_term) (simp_all add: True)
    ultimately show ?thesis by simp
  next
    case False
    then have p: "prec op = 1" by (cases op) simp_all
    have t: "reads_term ?e" using reads_multiplicative [OF p] Bin by simp
    moreover have e: "reads_expr ?e" by (rule term_expr [OF t]) (simp_all add: p)
    moreover have "reads_factor ?e" by (rule expr_factor [OF e]) (simp_all add: p Let_def)
    ultimately show ?thesis by simp
  qed
qed

lemma evalArith_show: "parens 0 e \<le> arithNestMax \<Longrightarrow> evalArith (show_at 0 e) = aval e"
proof -
  assume "parens 0 e \<le> arithNestMax"
  then obtain v where "arithExpr (lex_at (show_at 0 e @ []) 0 0) = expr_loop (aval e) (lex_at [] v 0)"
    using reads_all [of e] unfolding reads_expr_def by (fastforce simp: ends_expr_def)
  then show ?thesis by (simp add: evalArith_def advance_at lex_end expr_loop.simps)
qed

subsection \<open>The splice reads the expression and keeps the rest of the line\<close>

definition before_cut :: "string \<Rightarrow> (string \<times> string) option \<Rightarrow> (string \<times> string) option" where
  "before_cut u r = map_option (\<lambda>(a, b). (u @ a, b)) r"

lemma before_cut_append: "before_cut u (before_cut w r) = before_cut (u @ w) r"
  by (cases r) (auto simp: before_cut_def)

lemma close_char:
  assumes "r \<noteq> []"
  shows "c \<notin> {CHR ''('', CHR '')''} \<Longrightarrow> close_loop d (c # r) = before_cut [c] (close_loop d r)"
    and "close_loop d (CHR ''('' # r) = before_cut ''('' (close_loop (Suc d) r)"
    and "close_loop (Suc d) (CHR '')'' # r) = before_cut '')'' (close_loop d r)"
  using assms by (cases r; auto simp: before_cut_def)+

lemma close_digits: "list_all is_dec ds \<Longrightarrow> r \<noteq> [] \<Longrightarrow> close_loop d (ds @ r) = before_cut ds (close_loop d r)"
proof (induction ds)
  case Nil
  then show ?case by (cases "close_loop d r") (auto simp: before_cut_def)
next
  case (Cons c ds)
  have "c \<notin> {CHR ''('', CHR '')''}" using Cons.prems(1) by (auto simp: is_dec_def)
  then show ?case using Cons close_char(1) [of "ds @ r" c d] by (simp add: before_cut_append)
qed

lemma close_show: "r \<noteq> [] \<Longrightarrow> close_loop d (show_at p e @ r) = before_cut (show_at p e) (close_loop d r)"
proof (induction e arbitrary: p d r)
  case (N n)
  then show ?case by (simp add: close_digits dec_nat_digits)
next
  case (Neg a)
  then show ?case using close_char(1) [of "show_at 2 a @ r" "CHR ''-''" d] by (simp add: before_cut_append)
next
  case (Pos a)
  then show ?case using close_char(1) [of "show_at 2 a @ r" "CHR ''+''" d] by (simp add: before_cut_append)
next
  case (Bin op a b)
  let ?s = "show_at (prec op) a @ op_char op # show_at (Suc (prec op)) b"
  have o: "op_char op \<notin> {CHR ''('', CHR '')''}" by (cases op) simp_all
  have s: "close_loop d (?s @ r) = before_cut ?s (close_loop d r)" if "r \<noteq> []" for d r
    using that Bin.IH close_char(1) [OF _ o, of "show_at (Suc (prec op)) b @ r" d] by (simp add: before_cut_append)
  show ?case
  proof (cases "p \<le> prec op")
    case True
    then show ?thesis using s [OF Bin.prems, of d] by (simp add: Let_def)
  next
    case False
    have "close_loop d (CHR ''('' # ?s @ CHR '')'' # r) = before_cut (''('' @ ?s @ '')'') (close_loop d r)"
      using close_char(2) [of "?s @ CHR '')'' # r" d] close_char(3) [OF Bin.prems, of d] s [of "CHR '')'' # r" "Suc d"]
      by (simp add: before_cut_append)
    then show ?thesis using False by (simp add: Let_def)
  qed
qed

lemma show_not_Nil: "show_at p e \<noteq> []"
  by (cases e) (simp_all add: Let_def)

lemma cut_at_first: "CHR ''$'' \<notin> set a \<Longrightarrow> cut_at ''$(('' (a @ ''$(('' @ b) = Some (a, b)"
  by (induction a) auto

text \<open>
  C20. Arithmetic expansion is right: in a line whose first dollar opens an arithmetic expansion of an
  expression, written with the parentheses it needs and at most 32 of them nested, the expansion is
  replaced by the decimal form of the expression's 64-bit value (operators of one level group to the
  left, multiplication binds tighter, a division or remainder by zero is zero, overflow wraps) and the
  rest of the line stays.
\<close>

theorem arithExpand_correct:
  assumes "CHR ''$'' \<notin> set before" "parens 0 e \<le> arithNestMax"
  shows "arithExpand (before @ ''$(('' @ show_at 0 e @ ''))'' @ after) = before @ Itoa64 (aval e) @ after"
proof -
  have "close_loop 0 (show_at 0 e @ ''))'' @ after) = Some (show_at 0 e, after)"
    using close_show [of "''))'' @ after" 0 0 e] by (simp add: before_cut_def)
  then show ?thesis
    using cut_at_first [OF assms(1), of "show_at 0 e @ ''))'' @ after"] show_not_Nil [of 0 e] evalArith_show [OF assms(2)]
    by (simp add: arithExpand_def)
qed

theorem arithExpand_correct_witness:
  "arithExpand ''x=$((2*(3-5)))!'' = ''x=-4!''"
proof -
  let ?e = "Bin Mul (N 2) (Bin Sub (N 3) (N 5))"
  have d: "dec_nat n = [char_of (48 + n)]" if "n < 10" for n using that by (simp add: dec_nat.simps)
  have c: "char_of (50 :: nat) = CHR ''2''" "char_of (51 :: nat) = CHR ''3''" "char_of (52 :: nat) = CHR ''4''" "char_of (53 :: nat) = CHR ''5''"
    by (simp_all add: char_of_def bit_iff_odd)
  have "Itoa64 (aval ?e) = ''-4''" by (simp add: Itoa64_eq d c)
  then show ?thesis using arithExpand_correct [of "''x=''" ?e "''!''"] by (simp add: arithNestMax_def d c)
qed

end
