(* ===== verification/ShellParse.thy ===== *)
theory ShellParse
  imports ShellArith
begin

text \<open>
  The shell's line front-end (\<^verbatim>\<open>shlib/parse.go\<close>) and its variable table (\<^verbatim>\<open>Env\<close> of \<^verbatim>\<open>shlib/shell.go\<close>): the
  tokenizer with its three ways of quoting, the expander, and the plan of one line. A line is a byte
  string and an index into it the rest of the string; an error is the message the code returns.
\<close>

type_synonym 'a parsed = "string + 'a"

definition escMark :: char where "escMark = CHR 0x01"

subsection \<open>The variable table\<close>

record envVar =
  ev_name :: string
  ev_val :: string
  ev_exported :: bool

type_synonym env = "envVar list"

definition NewEnv :: env where
  "NewEnv = [\<lparr>ev_name = ''PWD'', ev_val = ''/'', ev_exported = True\<rparr>]"

fun env_Get :: "env \<Rightarrow> string \<Rightarrow> string option" where
  "env_Get [] name = None"
| "env_Get (v # vs) name = (if ev_name v = name then Some (ev_val v) else env_Get vs name)"

fun env_put :: "env \<Rightarrow> string \<Rightarrow> string \<Rightarrow> env" where
  "env_put [] name val = [\<lparr>ev_name = name, ev_val = val, ev_exported = False\<rparr>]"
| "env_put (v # vs) name val = (if ev_name v = name then v\<lparr>ev_val := val\<rparr> # vs else v # env_put vs name val)"

definition env_Set :: "env \<Rightarrow> string \<Rightarrow> string \<Rightarrow> env" where
  "env_Set e name val = (if name = [] then e else env_put e name val)"

fun env_Unset :: "env \<Rightarrow> string \<Rightarrow> bool \<times> env" where
  "env_Unset [] name = (False, [])"
| "env_Unset (v # vs) name =
     (if ev_name v = name then (True, vs) else (let (ok, vs') = env_Unset vs name in (ok, v # vs')))"

fun env_Export :: "env \<Rightarrow> string \<Rightarrow> bool \<times> env" where
  "env_Export [] name = (False, [])"
| "env_Export (v # vs) name =
     (if ev_name v = name then (True, v\<lparr>ev_exported := True\<rparr> # vs)
      else (let (ok, vs') = env_Export vs name in (ok, v # vs')))"

subsection \<open>The tokenizer\<close>

datatype token = tokWord string | tokPipe | tokOut | tokAppend | tokIn | tokAmp

definition err_single :: string where "err_single = ''gosh: unterminated '' @ [CHR 0x27] @ '' quote''"
definition err_double :: string where "err_double = ''gosh: unterminated '' @ [CHR 0x22] @ '' quote''"
definition err_backslash :: string where "err_backslash = ''gosh: trailing backslash''"

text \<open>Literal text, each byte marked for the expander.\<close>

definition marked :: "string \<Rightarrow> string" where
  "marked q = concat (map (\<lambda>c. [escMark, c]) q)"

fun scanDouble :: "string \<Rightarrow> string \<Rightarrow> (string \<times> string) parsed" where
  "scanDouble b [] = Inl err_double"
| "scanDouble b (c # s) =
     (if c = CHR 0x22 then Inr (b, s)
      else if c = CHR 0x5C then
        (case s of
           x # s' \<Rightarrow> if x \<in> {CHR 0x22, CHR 0x5C, CHR ''$''} then scanDouble (b @ [escMark, x]) s'
                     else scanDouble (b @ [c]) s
         | [] \<Rightarrow> scanDouble (b @ [c]) s)
      else scanDouble (b @ [c]) s)"

definition boundary :: "char \<Rightarrow> bool" where
  "boundary c \<longleftrightarrow> c \<in> {CHR '' '', CHR 0x09, CHR ''|'', CHR ''<'', CHR ''>'', CHR ''&''}"

lemma scanDouble_shorter: "scanDouble b s = Inr (b', s') \<Longrightarrow> length s' < length s"
proof (induction b s rule: scanDouble.induct)
  case (2 b c s)
  then show ?case by (auto split: if_splits list.splits)
qed simp

lemma after_quote_le: "dropWhile P s = x # s' \<Longrightarrow> length s' < length s"
  by (metis Suc_le_lessD length_Cons length_dropWhile_le)

function (sequential) scanWord :: "string \<Rightarrow> string \<Rightarrow> (string \<times> string) parsed" where
  "scanWord b [] = Inr (b, [])"
| "scanWord b (c # s) =
     (if boundary c then Inr (b, c # s)
      else if c = CHR 0x27 then
        (case dropWhile (\<lambda>x. x \<noteq> CHR 0x27) s of
           [] \<Rightarrow> Inl err_single
         | _ # s' \<Rightarrow> scanWord (b @ marked (takeWhile (\<lambda>x. x \<noteq> CHR 0x27) s)) s')
      else if c = CHR 0x22 then
        (case scanDouble b s of Inl e \<Rightarrow> Inl e | Inr (b', s') \<Rightarrow> scanWord b' s')
      else if c = CHR 0x5C then
        (case s of [] \<Rightarrow> Inl err_backslash | x # s' \<Rightarrow> scanWord (b @ [escMark, x]) s')
      else scanWord (b @ [c]) s)"
  by pat_completeness auto
termination
  by (relation "measure (\<lambda>(b, s). length s)")
    (auto dest: scanDouble_shorter after_quote_le simp: less_Suc_eq)

declare scanWord.simps [simp del]

lemma scanWord_le: "scanWord b s = Inr (w, r) \<Longrightarrow> length r \<le> length s"
proof (induction b s rule: scanWord.induct)
  case (2 b c s)
  consider "boundary c" | (single) "\<not> boundary c" "c = CHR 0x27" | (double) "\<not> boundary c" "c = CHR 0x22"
    | (back_slash) "\<not> boundary c" "c = CHR 0x5C" | (plain) "\<not> boundary c" "c \<notin> {CHR 0x27, CHR 0x22, CHR 0x5C}" by blast
  then show ?case
  proof cases
    case single
    then show ?thesis using 2(1,5) after_quote_le
      by (cases "dropWhile (\<lambda>x. x \<noteq> CHR 0x27) s") (fastforce simp: scanWord.simps(2))+
  next
    case double
    show ?thesis
    proof (cases "scanDouble b s")
      case (Inr x)
      then show ?thesis using double 2(2) [OF double(1) _ double(2) Inr] 2(5) scanDouble_shorter [of b s]
        by (cases x) (fastforce simp: scanWord.simps(2))
    qed (use double 2(5) in \<open>simp add: scanWord.simps(2)\<close>)
  next
    case back_slash
    then show ?thesis using 2(3,5) by (cases s) (fastforce simp: scanWord.simps(2))+
  next
    case plain
    then show ?thesis using 2(4,5) by (simp add: scanWord.simps(2))
  qed (use 2(5) in \<open>auto simp: scanWord.simps(2)\<close>)
qed (simp add: scanWord.simps)

lemma scanWord_shorter: "\<not> boundary c \<Longrightarrow> scanWord b (c # s) = Inr (w, r) \<Longrightarrow> length r \<le> length s"
  by (auto simp: scanWord.simps(2) dest!: scanWord_le scanDouble_shorter after_quote_le split: if_splits list.splits sum.splits)

function (sequential) tokenize_loop :: "token list \<Rightarrow> string \<Rightarrow> token list parsed" where
  "tokenize_loop toks [] = Inr toks"
| "tokenize_loop toks (c # s) =
     (if c = CHR '' '' \<or> c = CHR 0x09 then tokenize_loop toks s
      else if c = CHR ''#'' then Inr toks
      else if c = CHR ''|'' then tokenize_loop (toks @ [tokPipe]) s
      else if c = CHR ''>'' then
        (case s of
           x # s' \<Rightarrow> if x = CHR ''>'' then tokenize_loop (toks @ [tokAppend]) s'
                     else tokenize_loop (toks @ [tokOut]) s
         | [] \<Rightarrow> tokenize_loop (toks @ [tokOut]) s)
      else if c = CHR ''<'' then tokenize_loop (toks @ [tokIn]) s
      else if c = CHR ''&'' then tokenize_loop (toks @ [tokAmp]) s
      else case scanWord [] (c # s) of
             Inl e \<Rightarrow> Inl e
           | Inr (w, r) \<Rightarrow> tokenize_loop (toks @ [tokWord w]) r)"
  by pat_completeness auto
termination
  by (relation "measure (\<lambda>(toks, s). length s)")
    (auto dest!: scanWord_shorter [rotated] simp: boundary_def less_Suc_eq_le)

declare tokenize_loop.simps [simp del]

definition tokenize :: "string \<Rightarrow> token list parsed" where
  "tokenize line = tokenize_loop [] line"

subsection \<open>The expander\<close>

definition isNameByte :: "char \<Rightarrow> bool" where
  "isNameByte c \<longleftrightarrow> c = CHR ''_'' \<or> (byte_le CHR ''a'' c \<and> byte_le c CHR ''z'')
     \<or> (byte_le CHR ''A'' c \<and> byte_le c CHR ''Z'') \<or> (byte_le CHR ''0'' c \<and> byte_le c CHR ''9'')"

definition value_of :: "env \<Rightarrow> string \<Rightarrow> string" where
  "value_of e name = (case env_Get e name of Some v \<Rightarrow> v | None \<Rightarrow> [])"

text \<open>
  The loop of \<^verbatim>\<open>expand\<close> on the text of a word token; \<open>status\<close> is the 64-bit value of \<^verbatim>\<open>$?\<close>. A dollar with
  an unclosed brace, and one with no name after it, is itself.
\<close>

function (sequential) expand_text :: "env \<Rightarrow> u64 \<Rightarrow> string \<Rightarrow> string" where
  "expand_text e status [] = []"
| "expand_text e status (c # s) =
     (if c = escMark then (case s of [] \<Rightarrow> [] | x # s' \<Rightarrow> x # expand_text e status s')
      else if c = CHR ''$'' then
        (case s of
           [] \<Rightarrow> [c]
         | x # s' \<Rightarrow>
             if x = CHR ''?'' then Itoa64 status @ expand_text e status s'
             else if x = CHR ''{'' then
               (case dropWhile (\<lambda>y. y \<noteq> CHR ''}'') s' of
                  [] \<Rightarrow> c # expand_text e status s
                | _ # r \<Rightarrow> value_of e (takeWhile (\<lambda>y. y \<noteq> CHR ''}'') s') @ expand_text e status r)
             else if \<not> isNameByte x then c # expand_text e status s
             else value_of e (takeWhile isNameByte s) @ expand_text e status (dropWhile isNameByte s))
      else c # expand_text e status s)"
  by pat_completeness auto
termination
  by (relation "measure (\<lambda>(e, st, s). length s)")
    (auto dest: after_quote_le simp: less_Suc_eq_le length_dropWhile_le intro: le_SucI)

declare expand_text.simps [simp del]

subsection \<open>The plan of a line\<close>

record redirection =
  rd_append :: bool
  rd_path :: string

record plan =
  pl_left :: "string list"
  pl_right :: "string list"
  pl_out :: "redirection option"
  pl_in :: "redirection option"
  pl_background :: bool

definition zero_plan :: plan where
  "zero_plan = \<lparr>pl_left = [], pl_right = [], pl_out = None, pl_in = None, pl_background = False\<rparr>"

definition err_empty :: string where "err_empty = ''gosh: empty command''"
definition err_chained :: string where "err_chained = ''gosh: pipes: only one pipe per line (no chaining)''"
definition err_order :: string where "err_order = ''gosh: redirects must come after the pipe''"
definition err_out :: string where "err_out = ''gosh: one output redirect per line''"
definition err_out_path :: string where "err_out_path = ''gosh: > needs a file path''"
definition err_in :: string where "err_in = ''gosh: one input redirect per line''"
definition err_in_path :: string where "err_in_path = ''gosh: < needs a file path''"
definition err_amp :: string where "err_amp = ''gosh: & must end the line''"
definition err_amp_only :: string where "err_amp_only = ''gosh: & runs one external app, with no pipe or redirect''"

text \<open>
  The loop of \<^verbatim>\<open>parsePlan\<close>: the words collected so far are in the plan, \<open>onRight\<close> says that \<^verbatim>\<open>cur\<close>
  points to the words right of the pipe.
\<close>

definition cur_words :: "bool \<Rightarrow> plan \<Rightarrow> string list" where
  "cur_words onRight p = (if onRight then pl_right p else pl_left p)"

fun plan_loop :: "env \<Rightarrow> u64 \<Rightarrow> bool \<Rightarrow> plan \<Rightarrow> token list \<Rightarrow> plan parsed" where
  "plan_loop e st onRight p [] = (if cur_words onRight p = [] then Inl err_empty else Inr p)"
| "plan_loop e st onRight p (tokWord w # ts) =
     plan_loop e st onRight
       (if onRight then p\<lparr>pl_right := pl_right p @ [expand_text e st w]\<rparr>
        else p\<lparr>pl_left := pl_left p @ [expand_text e st w]\<rparr>) ts"
| "plan_loop e st onRight p (tokPipe # ts) =
     (if cur_words onRight p = [] then Inl err_empty
      else if pl_right p \<noteq> [] then Inl err_chained
      else if pl_out p \<noteq> None \<or> pl_in p \<noteq> None then Inl err_order
      else plan_loop e st True (p\<lparr>pl_right := []\<rparr>) ts)"
| "plan_loop e st onRight p (tokIn # ts) =
     (if cur_words onRight p = [] then Inl err_empty
      else if pl_in p \<noteq> None then Inl err_in
      else case ts of
             tokWord w # ts' \<Rightarrow>
               plan_loop e st onRight (p\<lparr>pl_in := Some \<lparr>rd_append = False, rd_path = expand_text e st w\<rparr>\<rparr>) ts'
           | _ \<Rightarrow> Inl err_in_path)"
| "plan_loop e st onRight p (tokAmp # ts) =
     (if ts \<noteq> [] then Inl err_amp
      else if pl_right p \<noteq> [] \<or> pl_out p \<noteq> None \<or> pl_in p \<noteq> None then Inl err_amp_only
      else plan_loop e st onRight (p\<lparr>pl_background := True\<rparr>) ts)"
| "plan_loop e st onRight p (t # ts) =
     (if cur_words onRight p = [] then Inl err_empty
      else if pl_out p \<noteq> None then Inl err_out
      else case ts of
             tokWord w # ts' \<Rightarrow>
               plan_loop e st onRight (p\<lparr>pl_out := Some \<lparr>rd_append = (t = tokAppend), rd_path = expand_text e st w\<rparr>\<rparr>) ts'
           | _ \<Rightarrow> Inl err_out_path)"

definition parsePlan :: "token list \<Rightarrow> env \<Rightarrow> u64 \<Rightarrow> plan parsed" where
  "parsePlan toks e st = plan_loop e st False zero_plan toks"

subsection \<open>The variable table is a map\<close>

definition env_wf :: "env \<Rightarrow> bool" where
  "env_wf e \<longleftrightarrow> distinct (map ev_name e) \<and> [] \<notin> ev_name ` set e"

lemma env_put_names: "ev_name ` set (env_put e name val) = insert name (ev_name ` set e)"
  by (induction e) auto

lemma env_put_distinct: "distinct (map ev_name e) \<Longrightarrow> distinct (map ev_name (env_put e name val))"
  by (induction e) (auto simp: env_put_names)

lemma env_put_get: "env_Get (env_put e name val) n = (if n = name then Some val else env_Get e n)"
  by (induction e) auto

lemma env_unset_get: "distinct (map ev_name e) \<Longrightarrow> env_Get (snd (env_Unset e name)) n = (if n = name then None else env_Get e n)"
proof (induction e)
  case (Cons v vs)
  have "env_Get vs (ev_name v) = None" using Cons.prems by (induction vs) auto
  then show ?case using Cons by (auto simp: Let_def split_beta)
qed simp

lemma env_unset_names: "set (map ev_name (snd (env_Unset e name))) \<subseteq> set (map ev_name e)"
  by (induction e) (auto simp: Let_def split_beta)

lemma env_unset_distinct: "distinct (map ev_name e) \<Longrightarrow> distinct (map ev_name (snd (env_Unset e name)))"
proof (induction e)
  case (Cons v vs)
  then show ?case using env_unset_names [of vs name] by (auto simp: Let_def split_beta)
qed simp

text \<open>What the shell relies on: a table of named values, kept well formed by its two writers.\<close>

locale variables =
  fixes lookup :: "'t \<Rightarrow> string \<Rightarrow> string option" and assign :: "'t \<Rightarrow> string \<Rightarrow> string \<Rightarrow> 't"
    and remove :: "'t \<Rightarrow> string \<Rightarrow> 't" and wf :: "'t \<Rightarrow> bool"
  assumes lookup_assign: "name \<noteq> [] \<Longrightarrow> lookup (assign t name v) n = (if n = name then Some v else lookup t n)"
    and lookup_remove: "wf t \<Longrightarrow> lookup (remove t name) n = (if n = name then None else lookup t n)"
    and assign_wf: "wf t \<Longrightarrow> wf (assign t name v)"
    and remove_wf: "wf t \<Longrightarrow> wf (remove t name)"
begin

lemma foldl_assign_wf: "wf t \<Longrightarrow> wf (foldl (\<lambda>t (n, v). assign t n v) t bs)"
  by (induction bs arbitrary: t) (auto intro: assign_wf)

text \<open>Assigning a list of bindings: the last one of a name holds, the others are untouched.\<close>

lemma lookup_foldl:
  "list_all (\<lambda>(n, v). n \<noteq> []) bs \<Longrightarrow>
   lookup (foldl (\<lambda>t (n, v). assign t n v) t bs) n = (case map_of (rev bs) n of Some v \<Rightarrow> Some v | None \<Rightarrow> lookup t n)"
proof (induction bs rule: rev_induct)
  case (snoc b bs)
  then show ?case by (cases b) (auto simp: lookup_assign)
qed simp

lemma scoped: "wf t \<Longrightarrow> name \<noteq> [] \<Longrightarrow> lookup (remove (assign t name v) name) n = (if n = name then None else lookup t n)"
  by (simp add: lookup_remove assign_wf lookup_assign)

end

interpretation vars: variables env_Get env_Set "\<lambda>e n. snd (env_Unset e n)" env_wf
proof unfold_locales
  show "name \<noteq> [] \<Longrightarrow> env_Get (env_Set t name v) n = (if n = name then Some v else env_Get t n)" for t name v n
    by (simp add: env_Set_def env_put_get)
  show "env_wf t \<Longrightarrow> env_Get (snd (env_Unset t name)) n = (if n = name then None else env_Get t n)" for t name n
    by (simp add: env_wf_def env_unset_get)
  show "env_wf t \<Longrightarrow> env_wf (env_Set t name v)" for t name v
    by (auto simp: env_wf_def env_Set_def env_put_names env_put_distinct)
  show "env_wf t \<Longrightarrow> env_wf (snd (env_Unset t name))" for t name
    using env_unset_names [of t name] by (auto simp: env_wf_def env_unset_distinct)
qed

subsection \<open>Quoting\<close>

datatype quoting = Single | Double | Backslash

definition special :: "char \<Rightarrow> bool" where
  "special c \<longleftrightarrow> c \<in> {CHR 0x22, CHR 0x5C, CHR ''$''}"

definition escaped :: "char \<Rightarrow> (char \<Rightarrow> bool) \<Rightarrow> string \<Rightarrow> string" where
  "escaped m P w = concat (map (\<lambda>c. if P c then [m, c] else [c]) w)"

text \<open>A word quoted in each of the three ways the tokenizer knows, where that way can carry it.\<close>

fun quote :: "quoting \<times> string \<Rightarrow> string" where
  "quote (Single, w) = [CHR 0x27] @ w @ [CHR 0x27]"
| "quote (Double, w) = [CHR 0x22] @ escaped CHR 0x5C special w @ [CHR 0x22]"
| "quote (Backslash, w) = escaped CHR 0x5C (\<lambda>c. True) w"

fun quotable :: "quoting \<times> string \<Rightarrow> bool" where
  "quotable (Single, w) = (CHR 0x27 \<notin> set w)"
| "quotable (Double, w) = (escMark \<notin> set w)"
| "quotable (Backslash, w) = (w \<noteq> [])"

fun scanned :: "quoting \<times> string \<Rightarrow> string" where
  "scanned (Double, w) = escaped escMark special w"
| "scanned (_, w) = marked w"

definition word_end :: "string \<Rightarrow> bool" where
  "word_end r \<longleftrightarrow> r = [] \<or> boundary (hd r)"

lemma scanWord_end: "word_end r \<Longrightarrow> scanWord b r = Inr (b, r)"
  by (cases r) (auto simp: word_end_def scanWord.simps)

lemma escaped_Cons: "escaped m P (c # w) = (if P c then [m, c] else [c]) @ escaped m P w" "escaped m P [] = []"
  by (simp_all add: escaped_def)

lemma marked_escaped: "marked w = escaped escMark (\<lambda>c. True) w"
  by (simp add: marked_def escaped_def)

lemma scanDouble_escaped:
  "scanDouble b (escaped CHR 0x5C special w @ CHR 0x22 # r) = Inr (b @ escaped escMark special w, r)"
  by (induction w arbitrary: b) (auto simp: escaped_Cons special_def)

lemma scan_backslashes:
  "word_end r \<Longrightarrow> scanWord b (escaped CHR 0x5C (\<lambda>c. True) w @ r) = Inr (b @ marked w, r)"
proof (induction w arbitrary: b)
  case (Cons c w)
  have "\<not> boundary CHR 0x5C" by (simp add: boundary_def)
  then show ?case using Cons by (simp add: escaped_Cons scanWord.simps(2) marked_escaped)
qed (simp add: escaped_Cons marked_def scanWord_end)

lemma scanWord_quote: "quotable q \<Longrightarrow> word_end r \<Longrightarrow> scanWord [] (quote q @ r) = Inr (scanned q, r)"
proof (cases q rule: quote.cases)
  case (1 w)
  assume "quotable q" "word_end r"
  moreover from this have "takeWhile (\<lambda>x. x \<noteq> CHR 0x27) (w @ CHR 0x27 # r) = w"
    "dropWhile (\<lambda>x. x \<noteq> CHR 0x27) (w @ CHR 0x27 # r) = CHR 0x27 # r"
    using 1 by (auto simp: takeWhile_append dropWhile_append)
  moreover have "\<not> boundary CHR 0x27" by (simp add: boundary_def)
  ultimately show ?thesis using 1 by (simp add: scanWord.simps(2) scanWord_end)
next
  case (2 w)
  assume "word_end r"
  moreover have "\<not> boundary CHR 0x22" by (simp add: boundary_def)
  ultimately show ?thesis using 2 scanDouble_escaped [of "[]" w r] by (simp add: scanWord.simps(2) scanWord_end)
next
  case (3 w)
  assume "word_end r"
  then show ?thesis using 3 scan_backslashes [of r "[]" w] by simp
qed

lemma expand_marked: "expand_text e st (marked w) = w"
  by (induction w) (simp_all add: marked_def expand_text.simps)

lemma expand_scanned: "quotable q \<Longrightarrow> expand_text e st (scanned q) = snd q"
proof (cases q rule: quote.cases)
  case (2 w)
  assume "quotable q"
  then have "escMark \<notin> set w" using 2 by simp
  then have "expand_text e st (escaped escMark special w) = w"
    by (induction w) (auto simp: escaped_Cons expand_text.simps special_def)
  then show ?thesis using 2 by simp
qed (simp_all add: expand_marked)

lemma quote_start: "quotable q \<Longrightarrow> \<exists>c s. quote q = c # s \<and> c \<in> {CHR 0x27, CHR 0x22, CHR 0x5C}"
  by (cases q rule: quote.cases) (auto simp: escaped_def neq_Nil_conv)

lemma tokenize_quote:
  assumes "quotable q" "word_end r"
  shows "tokenize_loop toks (quote q @ r) = tokenize_loop (toks @ [tokWord (scanned q)]) r"
proof -
  obtain c s where c: "quote q = c # s" "c \<in> {CHR 0x27, CHR 0x22, CHR 0x5C}" using quote_start [OF assms(1)] by blast
  then show ?thesis using scanWord_quote [OF assms] by (auto simp: tokenize_loop.simps(2) [of toks c])
qed

text \<open>A command line of quoted words, one blank between them.\<close>

fun command_line :: "(quoting \<times> string) list \<Rightarrow> string" where
  "command_line [] = []"
| "command_line [q] = quote q"
| "command_line (q # qs) = quote q @ '' '' @ command_line qs"

lemma tokenize_command:
  "list_all quotable qs \<Longrightarrow> tokenize_loop toks (command_line qs) = Inr (toks @ map (tokWord \<circ> scanned) qs)"
proof (induction qs arbitrary: toks rule: command_line.induct)
  case (2 q)
  then show ?case using tokenize_quote [of q "[]" toks] by (simp add: word_end_def tokenize_loop.simps(1))
next
  case (3 q q' qs)
  have "word_end ('' '' @ command_line (q' # qs))" by (simp add: word_end_def boundary_def)
  then show ?case using 3 tokenize_quote [of q _ toks] by (simp add: tokenize_loop.simps(2) [of _ "CHR '' ''"])
qed (simp add: tokenize_loop.simps)

lemma plan_words:
  "pl_left p \<noteq> [] \<or> qs \<noteq> [] \<Longrightarrow> list_all quotable qs \<Longrightarrow>
   plan_loop e st False p (map (tokWord \<circ> scanned) qs) = Inr (p\<lparr>pl_left := pl_left p @ map snd qs\<rparr>)"
  by (induction qs arbitrary: p) (auto simp: cur_words_def expand_scanned)

text \<open>
  C8. Quoting works: a line of words, each quoted with apostrophes, double quotes or backslashes, is one
  command with exactly those words as its command and arguments, whatever operator characters, blanks,
  dollars or comment signs they hold, in every environment; no pipe, redirect or background mark is read
  out of them.
\<close>

theorem quoting_roundtrip:
  assumes "list_all quotable qs" "qs \<noteq> []"
  shows "(case tokenize (command_line qs) of Inl m \<Rightarrow> Inl m | Inr toks \<Rightarrow> parsePlan toks e st)
    = Inr (zero_plan\<lparr>pl_left := map snd qs\<rparr>)"
  using assms by (simp add: tokenize_def tokenize_command parsePlan_def plan_words zero_plan_def)

theorem quoting_roundtrip_witness:
  "(case tokenize (command_line [(Single, ''echo''), (Double, ''a|$b''), (Backslash, ''#'')]) of
      Inl m \<Rightarrow> Inl m | Inr toks \<Rightarrow> parsePlan toks NewEnv 0)
    = Inr (zero_plan\<lparr>pl_left := [''echo'', ''a|$b'', ''#'']\<rparr>)"
  using quoting_roundtrip [of "[(Single, ''echo''), (Double, ''a|$b''), (Backslash, ''#'')]" NewEnv 0]
  by (simp add: escMark_def)

definition plan_wf :: "plan \<Rightarrow> bool" where
  "plan_wf p \<longleftrightarrow> pl_left p \<noteq> [] \<and> (pl_background p \<longrightarrow> pl_right p = [] \<and> pl_out p = None \<and> pl_in p = None)"

lemma plan_loop_wf:
  "plan_loop e st onRight p ts = Inr p' \<Longrightarrow> (onRight \<longrightarrow> pl_left p \<noteq> []) \<Longrightarrow> \<not> onRight \<longrightarrow> pl_right p = [] \<Longrightarrow>
   (pl_background p \<longrightarrow> ts = [] \<and> pl_right p = [] \<and> pl_out p = None \<and> pl_in p = None) \<Longrightarrow> plan_wf p'"
proof (induction e st onRight p ts rule: plan_loop.induct)
  case (1 e st onRight p)
  then show ?case by (auto simp: plan_wf_def cur_words_def split: if_splits)
qed (auto simp: cur_words_def split: if_splits list.splits token.splits)



end
