(* ===== verification/ShellControl.thy ===== *)
theory ShellControl
  imports ShellParse
begin

text \<open>
  The scripting front-end (\<^verbatim>\<open>shlib/control.go\<close>): chains, command substitution, keyword search, the parsers of
  \<^verbatim>\<open>if\<close>, \<^verbatim>\<open>for\<close>, \<^verbatim>\<open>while\<close>, \<^verbatim>\<open>case\<close> and \<^verbatim>\<open>fn\<close>, and the function table. The bounds are refusals, not
  truncations, and are modelled as such.
\<close>

definition chainMax :: nat where "chainMax = 4"
definition funcMax :: nat where "funcMax = 8"
definition funcCmdsMax :: nat where "funcCmdsMax = 8"
definition funcArgMax :: nat where "funcArgMax = 4"
definition funcNameMax :: nat where "funcNameMax = 32"
definition funcArgNameMax :: nat where "funcArgNameMax = 16"
definition caseArmMax :: nat where "caseArmMax = 8"
definition bodyCmdsMax :: nat where "bodyCmdsMax = 16"
definition forWordMax :: nat where "forWordMax = 16"

subsection \<open>Trimming\<close>

lemma trimSpace_le: "length (trimSpace s) \<le> length s"
proof -
  have "length (trimEnd s) \<le> length s" unfolding trimEnd_def using length_dropWhile_le [of isSpaceByte "rev s"] by simp
  then show ?thesis unfolding trimSpace_def trimStart_def using length_dropWhile_le le_trans by blast
qed

function semi_loop :: "string \<Rightarrow> string" where
  "semi_loop v = (if v \<noteq> [] \<and> last v = CHR '';'' then semi_loop (trimSpace (butlast v)) else v)"
  by pat_completeness auto
termination
proof (relation "measure length", goal_cases)
  case (2 v)
  then have "length (butlast v) < length v" by simp
  then show ?case using trimSpace_le [of "butlast v"] by simp
qed simp

declare semi_loop.simps [simp del]

definition trimSemi :: "string \<Rightarrow> string" where
  "trimSemi s = semi_loop (trimSpace s)"

subsection \<open>Chains\<close>

datatype chainOp = opSeq | opAnd | opOr

text \<open>
  The loop of \<^verbatim>\<open>chainSplit\<close>: \<open>d\<close>, \<open>q\<close>, \<open>x\<close> are \<^verbatim>\<open>inDouble\<close>, \<^verbatim>\<open>inSingle\<close>, \<^verbatim>\<open>esc\<close>; \<open>seg\<close> is the text since
  \<^verbatim>\<open>start\<close>; \<open>None\<close> is \<^verbatim>\<open>tooMany\<close>.
\<close>

definition chain_op :: "char \<Rightarrow> string \<Rightarrow> (chainOp \<times> string) option" where
  "chain_op c s =
     (if c = CHR ''&'' \<and> s \<noteq> [] \<and> hd s = CHR ''&'' then Some (opAnd, tl s)
      else if c = CHR ''|'' \<and> s \<noteq> [] \<and> hd s = CHR ''|'' then Some (opOr, tl s)
      else if c = CHR '';'' then Some (opSeq, s)
      else None)"

lemma chain_op_le: "chain_op c s = Some (p, s') \<Longrightarrow> length s' \<le> length s"
  by (auto simp: chain_op_def split: if_splits)

function (sequential) chain_loop :: "bool \<Rightarrow> bool \<Rightarrow> bool \<Rightarrow> string \<Rightarrow> string list \<Rightarrow> chainOp list \<Rightarrow> string
    \<Rightarrow> (string list \<times> chainOp list) option" where
  "chain_loop d q x seg segs ops [] = Some (segs @ [trimSpace seg], ops)"
| "chain_loop d q x seg segs ops (c # s) =
     (if x then chain_loop d q False (seg @ [c]) segs ops s
      else if c = CHR 0x5C \<and> \<not> q then chain_loop d q True (seg @ [c]) segs ops s
      else if c = CHR 0x27 \<and> \<not> d then chain_loop d (\<not> q) x (seg @ [c]) segs ops s
      else if c = CHR 0x22 \<and> \<not> q then chain_loop (\<not> d) q x (seg @ [c]) segs ops s
      else if q \<or> d then chain_loop d q x (seg @ [c]) segs ops s
      else case chain_op c s of
             None \<Rightarrow> chain_loop d q x (seg @ [c]) segs ops s
           | Some (p, s') \<Rightarrow>
               if length segs \<ge> chainMax - 1 then None
               else chain_loop d q x [] (segs @ [trimSpace seg]) (ops @ [p]) s')"
  by pat_completeness auto
termination
  by (relation "measure (\<lambda>(d, q, x, seg, segs, ops, s). length s)") (auto dest: chain_op_le)

declare chain_loop.simps [simp del]

definition chainSplit :: "string \<Rightarrow> (string list \<times> chainOp list) option" where
  "chainSplit line = chain_loop False False False [] [] [] line"

subsection \<open>Command substitution\<close>

record cmdSubst =
  cs_prefix :: string
  cs_inner :: string
  cs_suffix :: string

fun subst_close :: "nat \<Rightarrow> string \<Rightarrow> (string \<times> string) option" where
  "subst_close depth [] = None"
| "subst_close depth (c # s) =
     (if c = CHR ''$'' \<and> s \<noteq> [] \<and> hd s = CHR ''('' then None
      else if c = CHR ''('' then map_option (\<lambda>(a, b). (c # a, b)) (subst_close (depth + 1) s)
      else if c = CHR '')'' then
        (if depth = 1 then Some ([], s) else map_option (\<lambda>(a, b). (c # a, b)) (subst_close (depth - 1) s))
      else map_option (\<lambda>(a, b). (c # a, b)) (subst_close depth s))"

lemma cut_at_shorter: "w \<noteq> [] \<Longrightarrow> cut_at w s = Some (a, b) \<Longrightarrow> length b < length s"
  by (induction w s arbitrary: a rule: cut_at.induct) (fastforce split: if_splits)+

text \<open>The search loop: \<open>done\<close> is the text before \<^verbatim>\<open>search\<close>.\<close>

function locate_loop :: "string \<Rightarrow> string \<Rightarrow> (string \<times> string) option" where
  "locate_loop front s =
     (case cut_at ''$('' s of
        None \<Rightarrow> None
      | Some (a, b) \<Rightarrow>
          if b \<noteq> [] \<and> hd b = CHR ''('' then locate_loop (front @ a @ ''$(('') (tl b)
          else Some (front @ a, b))"
  by pat_completeness auto
termination
proof (relation "measure (\<lambda>(d, s). length s)", goal_cases)
  case (2 front s x a b)
  then show ?case using cut_at_shorter [of "''$(''" s a b] by simp
qed simp

declare locate_loop.simps [simp del]

definition locateCommandSubst :: "string \<Rightarrow> cmdSubst option" where
  "locateCommandSubst line =
     (case locate_loop [] line of
        None \<Rightarrow> None
      | Some (front, rest) \<Rightarrow>
          (case subst_close 1 rest of
             None \<Rightarrow> None
           | Some (inner, suffix) \<Rightarrow>
               let inner = trimSpace inner in
               if inner = [] then None
               else Some \<lparr>cs_prefix = front, cs_inner = inner, cs_suffix = suffix\<rparr>))"

subsection \<open>Keywords\<close>

definition sepByte :: "char \<Rightarrow> bool" where
  "sepByte c \<longleftrightarrow> isSpaceByte c \<or> c = CHR '';''"

definition keyword_at :: "string \<Rightarrow> string \<Rightarrow> nat \<Rightarrow> bool" where
  "keyword_at txt kw i \<longleftrightarrow> i + length kw \<le> length txt \<and> take (length kw) (drop i txt) = kw
     \<and> (i > 0 \<longrightarrow> sepByte (txt ! (i - 1)))
     \<and> (i + length kw < length txt \<longrightarrow> sepByte (txt ! (i + length kw)))"

definition findKeyword :: "string \<Rightarrow> string \<Rightarrow> nat option" where
  "findKeyword txt kw = find (keyword_at txt kw) [0..<length txt + 1 - length kw]"

text \<open>\<^verbatim>\<open>splitCommands\<close>: \<open>None\<close> is \<^verbatim>\<open>tooMany\<close>, which every caller turns into a refusal.\<close>

fun split_loop :: "string list \<Rightarrow> string \<Rightarrow> string \<Rightarrow> string list option" where
  "split_loop cmds cur [] =
     (let cmd = trimSpace cur in
      if cmd \<noteq> [] then (if length cmds \<ge> bodyCmdsMax then None else Some (cmds @ [cmd])) else Some cmds)"
| "split_loop cmds cur (c # s) =
     (if c = CHR '';'' then
        (let cmd = trimSpace cur in
         if cmd \<noteq> [] then (if length cmds \<ge> bodyCmdsMax then None else split_loop (cmds @ [cmd]) [] s)
         else split_loop cmds [] s)
      else split_loop cmds (cur @ [c]) s)"

definition splitCommands :: "string \<Rightarrow> string list option" where
  "splitCommands body = split_loop [] [] body"

definition hasPrefix :: "string \<Rightarrow> string \<Rightarrow> bool" where
  "hasPrefix s p \<longleftrightarrow> take (length p) s = p"

definition stripPrefix :: "string \<Rightarrow> string \<Rightarrow> string" where
  "stripPrefix line kw =
     (if length line \<le> length kw then []
      else if \<not> hasPrefix line kw then line
      else if isSpaceByte (line ! length kw) then drop (length kw + 1) line
      else drop (length kw) line)"

text \<open>The string from the index \<^verbatim>\<open>skipWordAndSpace\<close> returns; a tab does not end the word.\<close>

definition skipWordAndSpace :: "string \<Rightarrow> string" where
  "skipWordAndSpace s = dropWhile sepByte (dropWhile (\<lambda>c. c \<noteq> CHR '' '' \<and> c \<noteq> CHR '';'') s)"

definition skip_count :: "string \<Rightarrow> nat" where
  "skip_count s = length s - length (skipWordAndSpace s)"

subsection \<open>Constructs\<close>

text \<open>
  What a construct parser does: the line is not that construct, its list is too long, it is, or the
  code slices out of range.
\<close>

datatype 'a construct = Other | TooMany | Is 'a | Panic

record ifStmt =
  if_cond :: string
  if_then :: string
  if_else :: string
  if_hasElse :: bool

definition parseIf :: "string \<Rightarrow> ifStmt construct" where
  "parseIf line =
     (if \<not> hasPrefix line ''if'' then Other
      else let rest = stripPrefix line ''if'' in
      case findKeyword rest ''then'' of
        None \<Rightarrow> Other
      | Some thenPos \<Rightarrow>
          let cond = trimSemi (rev (dropWhile sepByte (rev (take thenPos rest)))) in
          if cond = [] then Other
          else let thenRest = skipWordAndSpace (drop (thenPos + 4) rest) in
          case findKeyword thenRest ''fi'' of
            None \<Rightarrow> Other
          | Some fiPos \<Rightarrow>
              (case findKeyword thenRest ''else'' of
                 None \<Rightarrow> Is \<lparr>if_cond = cond, if_then = trimSemi (take fiPos thenRest), if_else = [], if_hasElse = False\<rparr>
               | Some elsePos \<Rightarrow>
                   if elsePos > fiPos then Other
                   else let elseStart = elsePos + 4 + skip_count (drop (elsePos + 4) thenRest) in
                        if elseStart > fiPos then Panic
                        else Is \<lparr>if_cond = cond, if_then = trimSemi (take elsePos thenRest),
                               if_else = trimSemi (drop elseStart (take fiPos thenRest)), if_hasElse = True\<rparr>))"

record forStmt =
  for_var :: string
  for_words :: "string list"
  for_body :: string

function words_loop :: "string list \<Rightarrow> string \<Rightarrow> string list option" where
  "words_loop ws s =
     (case dropWhile sepByte s of
        [] \<Rightarrow> Some ws
      | c # r \<Rightarrow>
          if length ws \<ge> forWordMax then None
          else words_loop (ws @ [takeWhile (\<lambda>x. \<not> sepByte x) (c # r)]) (dropWhile (\<lambda>x. \<not> sepByte x) (c # r)))"
  by pat_completeness auto
termination
proof (relation "measure (\<lambda>(ws, s). length s)", goal_cases)
  case (2 ws s c r)
  then have "\<not> sepByte c" using hd_dropWhile [of sepByte s] by simp
  then have "length (dropWhile (\<lambda>x. \<not> sepByte x) (c # r)) \<le> length r" by (simp add: length_dropWhile_le)
  moreover have "length (c # r) \<le> length s" using 2(1) length_dropWhile_le [of sepByte s] by simp
  ultimately show ?case by simp
qed simp

declare words_loop.simps [simp del]

definition parseFor :: "string \<Rightarrow> forStmt construct" where
  "parseFor line =
     (if \<not> hasPrefix line ''for'' then Other
      else let rest = stripPrefix line ''for'' in
      case findKeyword rest ''in'' of
        None \<Rightarrow> Other
      | Some inPos \<Rightarrow>
          let varName = trimSpace (take inPos rest) in
          if varName = [] then Other
          else let afterIn = drop (inPos + 2) rest in
          case findKeyword afterIn ''do'' of
            None \<Rightarrow> Other
          | Some doPos \<Rightarrow>
              let bodyAndDone = skipWordAndSpace (drop (doPos + 2) afterIn) in
              (case findKeyword bodyAndDone ''done'' of
                 None \<Rightarrow> Other
               | Some donePos \<Rightarrow>
                   (case words_loop [] (take doPos afterIn) of
                      None \<Rightarrow> TooMany
                    | Some ws \<Rightarrow> Is \<lparr>for_var = varName, for_words = ws, for_body = trimSemi (take donePos bodyAndDone)\<rparr>)))"

record whileStmt =
  wh_cond :: string
  wh_body :: string

definition parseWhile :: "string \<Rightarrow> whileStmt construct" where
  "parseWhile line =
     (if \<not> hasPrefix line ''while'' then Other
      else let rest = stripPrefix line ''while'' in
      case findKeyword rest ''do'' of
        None \<Rightarrow> Other
      | Some doPos \<Rightarrow>
          let cond = trimSemi (take doPos rest) in
          if cond = [] then Other
          else let bodyAndDone = skipWordAndSpace (drop (doPos + 2) rest) in
          case findKeyword bodyAndDone ''done'' of
            None \<Rightarrow> Other
          | Some donePos \<Rightarrow> Is \<lparr>wh_cond = cond, wh_body = trimSemi (take donePos bodyAndDone)\<rparr>)"

record caseArm =
  arm_pattern :: string
  arm_body :: string

record caseStmt =
  case_subject :: string
  case_arms :: "caseArm list"

text \<open>The loop over the arms, on the rest of \<^verbatim>\<open>armsText\<close>; \<open>None\<close> is \<^verbatim>\<open>tooMany\<close>.\<close>

function arms_loop :: "caseArm list \<Rightarrow> string \<Rightarrow> caseArm list option" where
  "arms_loop arms s =
     (case dropWhile sepByte s of
        [] \<Rightarrow> Some arms
      | c # r \<Rightarrow>
          (case cut_at '')'' (c # r) of
             None \<Rightarrow> Some arms
           | Some (pat, b) \<Rightarrow>
               if length arms \<ge> caseArmMax then None
               else (case cut_at '';;'' b of
                       None \<Rightarrow> Some (arms @ [\<lparr>arm_pattern = trimSpace pat, arm_body = trimSemi b\<rparr>])
                     | Some (body, s') \<Rightarrow>
                         arms_loop (arms @ [\<lparr>arm_pattern = trimSpace pat, arm_body = trimSemi body\<rparr>]) s')))"
  by pat_completeness auto
termination
proof (relation "measure (\<lambda>(arms, s). length s)", goal_cases)
  case (2 arms s c r x pat b y body s')
  have "length (c # r) \<le> length s" using 2(1) length_dropWhile_le [of sepByte s] by simp
  moreover have "length b < length (c # r)" using 2 cut_at_shorter [of "'')''" "c # r" pat b] by simp
  moreover have "length s' < length b" using 2 cut_at_shorter [of "'';;''" b body s'] by simp
  ultimately show ?case by simp
qed simp

declare arms_loop.simps [simp del]

definition parseCase :: "string \<Rightarrow> caseStmt construct" where
  "parseCase line =
     (if \<not> hasPrefix line ''case'' then Other
      else let rest = stripPrefix line ''case'' in
      case findKeyword rest ''in'' of
        None \<Rightarrow> Other
      | Some inPos \<Rightarrow>
          let subject = trimSpace (take inPos rest) in
          if subject = [] then Other
          else let afterIn = drop (inPos + 2) rest in
          case findKeyword afterIn ''esac'' of
            None \<Rightarrow> Other
          | Some esacPos \<Rightarrow>
              (case arms_loop [] (trimSemi (take esacPos afterIn)) of
                 None \<Rightarrow> TooMany
               | Some arms \<Rightarrow> if arms = [] then Other else Is \<lparr>case_subject = subject, case_arms = arms\<rparr>))"

subsection \<open>Functions\<close>

record funcDef =
  fd_name :: string
  fd_argNames :: "string list"
  fd_body :: string

function args_loop :: "string list \<Rightarrow> string \<Rightarrow> string list \<times> string" where
  "args_loop names s =
     (if s = [] \<or> hd s = CHR '')'' \<or> length names \<ge> funcArgMax then (names, s)
      else let s1 = dropWhile (\<lambda>c. c = CHR '' '' \<or> c = CHR '','') s;
               stop = (\<lambda>c. c = CHR '' '' \<or> c = CHR '','' \<or> c = CHR '')'');
               aname = takeWhile (\<lambda>c. \<not> stop c) s1
           in args_loop (if aname \<noteq> [] then names @ [take funcArgNameMax aname] else names)
                (dropWhile (\<lambda>c. \<not> stop c) s1))"
  by pat_completeness auto
termination
proof (relation "measure (\<lambda>(names, s). length s)", goal_cases)
  case (2 names s s1 stop aname)
  obtain c r where s: "s = c # r" using 2 by (cases s) auto
  have "length (dropWhile (\<lambda>c. \<not> stop c) s1) < length s"
  proof (cases "c = CHR '' '' \<or> c = CHR '',''")
    case True
    then have "s1 = dropWhile (\<lambda>c. c = CHR '' '' \<or> c = CHR '','') r" using 2 s by auto
    then have "length s1 \<le> length r" by (simp only: length_dropWhile_le)
    then show ?thesis using s length_dropWhile_le [of "\<lambda>c. \<not> stop c" s1] by simp
  next
    case False
    then have "s1 = c # r" using 2 s by simp
    moreover have "\<not> stop c" using False 2 s by simp
    ultimately show ?thesis using s length_dropWhile_le [of "\<lambda>c. \<not> stop c" r] by simp
  qed
  then show ?case by simp
qed simp

declare args_loop.simps [simp del]

definition parseFuncDef :: "string \<Rightarrow> funcDef option" where
  "parseFuncDef txt =
     (let ends = (\<lambda>c. c = CHR '' '' \<or> c = CHR ''('' \<or> c = CHR ''{'');
          name = takeWhile (\<lambda>c. \<not> ends c) txt;
          r = dropWhile (\<lambda>c. \<not> ends c) txt
      in if name = [] \<or> length name > funcNameMax then None
         else let (args, r) = (if r \<noteq> [] \<and> hd r = CHR ''('' then
                 (let (names, r') = args_loop [] (tl r) in
                  (names, if r' \<noteq> [] \<and> hd r' = CHR '')'' then tl r' else r')) else ([], r))
         in case dropWhile (\<lambda>c. c \<noteq> CHR ''{'') r of
              [] \<Rightarrow> None
            | _ # b \<Rightarrow>
                let b = dropWhile isSpaceByte b;
                    body = trimSpace (case dropWhile (\<lambda>c. c \<noteq> CHR ''}'') (rev b) of [] \<Rightarrow> b | _ # u \<Rightarrow> rev u)
                in if body = [] then None
                   else Some \<lparr>fd_name = name, fd_argNames = args, fd_body = body\<rparr>)"

definition isFuncDefLine :: "string \<Rightarrow> bool" where
  "isFuncDefLine line \<longleftrightarrow> hasPrefix line ''fn'' \<and>
     (length line = 2 \<or> line ! 2 \<in> {CHR '' '', CHR 0x09, CHR ''(''})"

record progFunc =
  fn_name :: string
  fn_argNames :: "string list"
  fn_body :: "string list"

type_synonym funcTable = "progFunc list"

fun func_find :: "funcTable \<Rightarrow> string \<Rightarrow> progFunc option" where
  "func_find [] name = None"
| "func_find (f # fs) name = (if fn_name f = name then Some f else func_find fs name)"

fun func_replace :: "funcTable \<Rightarrow> progFunc \<Rightarrow> funcTable" where
  "func_replace [] g = []"
| "func_replace (f # fs) g = (if fn_name f = fn_name g then g # fs else f # func_replace fs g)"

definition func_define :: "funcTable \<Rightarrow> funcDef \<Rightarrow> funcTable option" where
  "func_define t d =
     (case splitCommands (fd_body d) of
        None \<Rightarrow> None
      | Some body \<Rightarrow>
          if body = [] \<or> length body > funcCmdsMax then None
          else let g = \<lparr>fn_name = fd_name d, fn_argNames = fd_argNames d, fn_body = body\<rparr> in
          case func_find t (fd_name d) of
            Some _ \<Rightarrow> Some (func_replace t g)
          | None \<Rightarrow> if length t \<ge> funcMax then None else Some (t @ [g]))"

subsection \<open>Chains of quoted commands\<close>

lemma trimSpace_padded:
  assumes "list_all isSpaceByte a" "list_all isSpaceByte b" "s \<noteq> []" "\<not> isSpaceByte (hd s)" "\<not> isSpaceByte (last s)"
  shows "trimSpace (a @ s @ b) = s"
proof -
  have drop: "dropWhile isSpaceByte (u @ v) = v" if "list_all isSpaceByte u" "v \<noteq> []" "\<not> isSpaceByte (hd v)" for u v
    using that by (induction u) (auto simp: neq_Nil_conv)
  have "trimEnd ((a @ s) @ b) = a @ s"
    unfolding trimEnd_def using assms drop [of "rev b" "rev s @ rev a"]
    by (simp add: list_all_rev hd_append hd_rev)
  then show ?thesis unfolding trimSpace_def trimStart_def using drop [of a s] assms by simp
qed

lemma chain_step:
  "chain_loop False False False seg segs ops (c # s) = chain_loop False False False (seg @ [c]) segs ops s"
  if "c \<notin> {CHR 0x5C, CHR 0x27, CHR 0x22, CHR ''&'', CHR ''|'', CHR '';''}"
  using that by (simp add: chain_loop.simps chain_op_def)

lemma chain_single:
  "CHR 0x27 \<notin> set w \<Longrightarrow> chain_loop False True False seg segs ops (w @ CHR 0x27 # r) = chain_loop False False False (seg @ w @ [CHR 0x27]) segs ops r"
  by (induction w arbitrary: seg) (auto simp: chain_loop.simps)

lemma chain_double:
  "chain_loop True False False seg segs ops (escaped CHR 0x5C special w @ CHR 0x22 # r)
   = chain_loop False False False (seg @ escaped CHR 0x5C special w @ [CHR 0x22]) segs ops r"
  by (induction w arbitrary: seg) (simp_all add: chain_loop.simps escaped_Cons special_def)

lemma chain_backslash:
  "chain_loop False False False seg segs ops (escaped CHR 0x5C (\<lambda>c. True) w @ r)
   = chain_loop False False False (seg @ escaped CHR 0x5C (\<lambda>c. True) w) segs ops r"
  by (induction w arbitrary: seg) (simp_all add: chain_loop.simps escaped_Cons)

lemma chain_quote:
  "quotable q \<Longrightarrow> chain_loop False False False seg segs ops (quote q @ r) = chain_loop False False False (seg @ quote q) segs ops r"
  by (cases q rule: quote.cases)
    (simp_all add: chain_loop.simps(2) [of False False False _ _ _ "CHR 0x27"]
       chain_loop.simps(2) [of False False False _ _ _ "CHR 0x22"] chain_single chain_double chain_backslash)

lemma chain_command:
  "list_all quotable qs \<Longrightarrow>
   chain_loop False False False seg segs ops (command_line qs @ r) = chain_loop False False False (seg @ command_line qs) segs ops r"
proof (induction qs arbitrary: seg rule: command_line.induct)
  case (2 q)
  then show ?case by (simp add: chain_quote)
next
  case (3 q q' qs)
  then show ?case by (simp add: chain_quote chain_step)
qed simp

fun op_text :: "chainOp \<Rightarrow> string" where
  "op_text opSeq = '' ; ''" | "op_text opAnd = '' && ''" | "op_text opOr = '' || ''"

fun chain_text :: "(quoting \<times> string) list \<Rightarrow> (chainOp \<times> (quoting \<times> string) list) list \<Rightarrow> string" where
  "chain_text c [] = command_line c"
| "chain_text c ((p, c') # rest) = command_line c @ op_text p @ chain_text c' rest"

lemma chain_op_text:
  "chain_loop False False False seg segs ops (op_text p @ r) =
   (if length segs \<ge> chainMax - 1 then None
    else chain_loop False False False '' '' (segs @ [trimSpace (seg @ '' '')]) (ops @ [p]) r)"
  by (cases p) (simp_all add: chain_step chain_loop.simps(2) [of False False False _ _ _ "CHR '';''"]
      chain_loop.simps(2) [of False False False _ _ _ "CHR ''&''"] chain_loop.simps(2) [of False False False _ _ _ "CHR ''|''"] chain_op_def)

text \<open>
  A command whose text survives trimming: its last word does not end in an escaped blank.
\<close>

definition solid :: "(quoting \<times> string) list \<Rightarrow> bool" where
  "solid qs \<longleftrightarrow> qs \<noteq> [] \<and> list_all quotable qs \<and> (fst (last qs) = Backslash \<longrightarrow> \<not> isSpaceByte (last (snd (last qs))))"

lemma quote_ends:
  assumes "quotable q"
  shows "quote q \<noteq> []" "\<not> isSpaceByte (hd (quote q))"
    "\<not> (fst q = Backslash \<and> isSpaceByte (last (snd q))) \<Longrightarrow> \<not> isSpaceByte (last (quote q))"
proof -
  obtain c s where c: "quote q = c # s" "c \<in> {CHR 0x27, CHR 0x22, CHR 0x5C}" using quote_start [OF assms] by blast
  show "quote q \<noteq> []" "\<not> isSpaceByte (hd (quote q))" using c by (auto simp: isSpaceByte_def)
  have esc: "last (escaped CHR 0x5C (\<lambda>c. True) w) = last w" if "w \<noteq> []" for w
    using that by (induction w rule: rev_induct) (auto simp: escaped_def)
  show "\<not> (fst q = Backslash \<and> isSpaceByte (last (snd q))) \<Longrightarrow> \<not> isSpaceByte (last (quote q))"
    using assms by (cases q rule: quote.cases) (auto simp: esc isSpaceByte_def)
qed

lemma command_ends:
  "solid qs \<Longrightarrow> command_line qs \<noteq> [] \<and> \<not> isSpaceByte (hd (command_line qs)) \<and> \<not> isSpaceByte (last (command_line qs))"
proof (induction qs rule: command_line.induct)
  case (2 q)
  then show ?case using quote_ends [of q] by (auto simp: solid_def)
next
  case (3 q q' qs)
  then have "solid (q' # qs)" by (simp add: solid_def)
  moreover have "quotable q" using 3 by (simp add: solid_def)
  ultimately show ?case using 3 quote_ends(1,2) [of q] by simp
qed (simp add: solid_def)

lemma chain_text_loop:
  assumes "solid c" "list_all (\<lambda>(p, c). solid c) rest" "list_all isSpaceByte a"
  shows "chain_loop False False False a segs ops (chain_text c rest) =
    (if length segs + length rest \<ge> chainMax \<and> rest \<noteq> [] then None
     else Some (segs @ map command_line (c # map snd rest), ops @ map fst rest))"
  using assms
proof (induction rest arbitrary: c a segs ops)
  case Nil
  have "trimSpace (a @ command_line c) = command_line c"
    using trimSpace_padded [of a "[]" "command_line c"] Nil command_ends [of c] by simp
  then show ?case using Nil chain_command [of c a segs ops "[]"] by (simp add: solid_def chain_loop.simps)
next
  case (Cons b rest)
  obtain p c' where b: "b = (p, c')" by (cases b)
  have t: "trimSpace ((a @ command_line c) @ '' '') = command_line c"
    using trimSpace_padded [of a "'' ''" "command_line c"] Cons.prems command_ends [of c] by (simp add: isSpaceByte_def)
  have "list_all quotable c" using Cons.prems(1) by (simp add: solid_def)
  then have "chain_loop False False False a segs ops (chain_text c (b # rest)) =
      (if length segs \<ge> chainMax - 1 then None
       else chain_loop False False False '' '' (segs @ [command_line c]) (ops @ [p]) (chain_text c' rest))"
    using t by (simp add: b chain_command chain_op_text)
  then show ?case using Cons b by (cases rest) (auto simp: chainMax_def isSpaceByte_def)
qed

text \<open>
  C21. Chains split where they should: quoted commands joined by semicolons and the two logical operators
  split back into exactly those commands and operators, operator characters inside the quotes left
  alone, when there are at most four; a longer chain is refused whole.
\<close>

theorem chain_roundtrip:
  assumes "solid c" "list_all (\<lambda>(p, c). solid c) rest"
  shows "chainSplit (chain_text c rest) =
    (if length rest < chainMax then Some (map command_line (c # map snd rest), map fst rest) else None)"
  using chain_text_loop [OF assms, of "[]" "[]" "[]"] by (cases rest) (auto simp: chainSplit_def chainMax_def)

theorem chain_roundtrip_witness:
  "chainSplit (chain_text [(Double, ''a && b'')] [(opOr, [(Single, '';'')])])
   = Some ([command_line [(Double, ''a && b'')], command_line [(Single, '';'')]], [opOr])"
  using chain_roundtrip [of "[(Double, ''a && b'')]" "[(opOr, [(Single, '';'')])]"]
  by (simp add: solid_def escMark_def chainMax_def)

text \<open>
  Trimming does not know about escapes: a line that ends in an escaped blank loses the blank and keeps
  the backslash, which the tokenizer then refuses.
\<close>

theorem escaped_blank_lost:
  "tokenize (trimSpace (command_line [(Single, w), (Backslash, '' '')])) = Inl err_backslash" if "CHR 0x27 \<notin> set w"
proof -
  let ?s = "quote (Single, w) @ '' '' @ [CHR 0x5C]"
  have "trimSpace ([] @ ?s @ '' '') = ?s" by (rule trimSpace_padded) (simp_all add: isSpaceByte_def)
  moreover have "tokenize ?s = Inl err_backslash"
  proof -
    have "tokenize_loop [] ?s = tokenize_loop [tokWord (marked w)] ('' '' @ [CHR 0x5C])"
      using tokenize_quote [of "(Single, w)" "'' '' @ [CHR 0x5C]" "[]"] that by (simp add: word_end_def boundary_def)
    then show ?thesis by (simp add: tokenize_def tokenize_loop.simps(2) scanWord.simps(2) boundary_def)
  qed
  ultimately show ?thesis by (simp add: escaped_def)
qed

subsection \<open>Bodies\<close>

fun split_semi :: "string \<Rightarrow> string list" where
  "split_semi [] = [[]]"
| "split_semi (c # s) = (if c = CHR '';'' then [] # split_semi s
     else (c # hd (split_semi s)) # tl (split_semi s))"

lemma split_semi_not_Nil [simp]: "split_semi s \<noteq> []"
  by (cases s) auto

text \<open>The commands of a body: its pieces between semicolons, trimmed, the empty ones left out.\<close>

fun pieces :: "string list \<Rightarrow> string list" where
  "pieces [] = []"
| "pieces (p # ps) = (if trimSpace p = [] then pieces ps else trimSpace p # pieces ps)"

definition commands_of :: "string \<Rightarrow> string list" where
  "commands_of body = pieces (split_semi body)"

definition bounded :: "string list \<Rightarrow> string list option" where
  "bounded cs = (if length cs \<le> bodyCmdsMax then Some cs else None)"

lemma split_loop_spec:
  "length cmds \<le> bodyCmdsMax \<Longrightarrow>
   split_loop cmds cur s = bounded (cmds @ pieces ((cur @ hd (split_semi s)) # tl (split_semi s)))"
proof (induction cmds cur s rule: split_loop.induct)
  case (2 cmds cur c s)
  show ?case
  proof (cases "c = CHR '';''")
    case True
    have "split_semi s = hd (split_semi s) # tl (split_semi s)" by simp
    then have "pieces (hd (split_semi s) # tl (split_semi s)) = pieces (split_semi s)" by simp
    then show ?thesis using 2 True by (auto simp del: pieces.simps(2) simp: pieces.simps(2) [of cur] bounded_def)
  next
    case False
    then show ?thesis using 2 by simp
  qed
qed (simp add: Let_def bounded_def)

text \<open>
  A body runs its commands, all of them or none: \<^verbatim>\<open>splitCommands\<close> returns exactly the pieces of the body,
  and reports an error when there are more than sixteen.
\<close>

theorem splitCommands_correct:
  "splitCommands body = (if length (commands_of body) \<le> bodyCmdsMax then Some (commands_of body) else None)"
  using split_loop_spec [of "[]" "[]" body] by (simp add: splitCommands_def commands_of_def bounded_def del: pieces.simps)

subsection \<open>Keyword search, piece by piece\<close>

lemma keyword_at_bound: "keyword_at t kw i \<Longrightarrow> i < length t + 1 - length kw"
  by (auto simp: keyword_at_def)

lemma findKeyword_Some_iff:
  "findKeyword t kw = Some i \<longleftrightarrow> keyword_at t kw i \<and> (\<forall>j < i. \<not> keyword_at t kw j)"
proof -
  have "findKeyword t kw = Some i \<longleftrightarrow> i < length t + 1 - length kw \<and> keyword_at t kw i \<and> (\<forall>j < i. \<not> keyword_at t kw j)"
    by (auto simp: findKeyword_def find_Some_iff)
  then show ?thesis using keyword_at_bound by blast
qed

lemma findKeyword_None_iff: "findKeyword t kw = None \<longleftrightarrow> (\<forall>i. \<not> keyword_at t kw i)"
proof -
  have "findKeyword t kw = None \<longleftrightarrow> (\<forall>i < length t + 1 - length kw. \<not> keyword_at t kw i)"
    by (auto simp: findKeyword_def find_None_iff)
  then show ?thesis using keyword_at_bound by blast
qed

definition is_keyword :: "string \<Rightarrow> bool" where
  "is_keyword kw \<longleftrightarrow> kw \<noteq> [] \<and> list_all (\<lambda>c. \<not> sepByte c) kw"

lemma keyword_across:
  assumes "is_keyword kw" "sepByte x" "take (length kw) (drop j (a @ x # s)) = kw" "j \<le> length a"
    "j + length kw \<le> length (a @ x # s)"
  shows "j + length kw \<le> length a"
proof (rule ccontr)
  assume "\<not> j + length kw \<le> length a"
  then have lt: "length a - j < length kw" using assms(4) by simp
  have "kw ! (length a - j) = (a @ x # s) ! length a"
    using lt assms(3-5) by (metis add_leD1 le_add_diff_inverse nth_drop nth_take)
  then have "x \<in> set kw" using lt nth_mem by fastforce
  then show False using assms(1,2) by (auto simp: is_keyword_def list_all_iff)
qed

text \<open>A separator cuts the search in two.\<close>

lemma keyword_at_sep:
  assumes "is_keyword kw" "sepByte x"
  shows "keyword_at (a @ x # s) kw j \<longleftrightarrow> (j \<le> length a \<and> keyword_at a kw j) \<or> (j > length a \<and> keyword_at s kw (j - length a - 1))"
proof (cases "j \<le> length a")
  case True
  show ?thesis
  proof
    assume k: "keyword_at (a @ x # s) kw j"
    have le: "j + length kw \<le> length a"
      using keyword_across [OF assms _ True, of s] k unfolding keyword_at_def by blast
    have "keyword_at a kw j" using k le True by (auto simp: keyword_at_def nth_append split: if_splits)
    then show "(j \<le> length a \<and> keyword_at a kw j) \<or> (j > length a \<and> keyword_at s kw (j - length a - 1))" using True by simp
  next
    assume "(j \<le> length a \<and> keyword_at a kw j) \<or> (j > length a \<and> keyword_at s kw (j - length a - 1))"
    then have k: "keyword_at a kw j" using True by simp
    moreover have "sepByte ((a @ x # s) ! (j + length kw))" if "j + length kw < length (a @ x # s)"
      using k that assms(2) by (cases "j + length kw < length a") (auto simp: keyword_at_def nth_append)
    ultimately show "keyword_at (a @ x # s) kw j" using True by (auto simp: keyword_at_def nth_append)
  qed
next
  case False
  then obtain d where j: "j = Suc (length a + d)" by (metis less_iff_Suc_add not_le)
  have d: "drop j (a @ x # s) = drop d s" "\<And>k. (a @ x # s) ! Suc (length a + k) = s ! k"
    using j by (simp_all add: nth_append)
  have left: "(j > 0 \<longrightarrow> sepByte ((a @ x # s) ! (j - 1))) \<longleftrightarrow> (d > 0 \<longrightarrow> sepByte (s ! (d - 1)))"
    using j assms(2) by (cases d) (simp_all add: nth_append)
  have right: "(a @ x # s) ! (j + length kw) = s ! (d + length kw)" using d(2) [of "d + length kw"] j by (simp add: add.assoc)
  show ?thesis unfolding keyword_at_def left right d(1) using j False by auto
qed

lemma findKeyword_sep:
  assumes "is_keyword kw" "sepByte x"
  shows "findKeyword (a @ x # s) kw =
    (case findKeyword a kw of Some i \<Rightarrow> Some i | None \<Rightarrow> map_option (\<lambda>i. Suc (length a + i)) (findKeyword s kw))"
proof (cases "findKeyword a kw")
  case (Some i)
  then have i: "keyword_at a kw i" "\<forall>j < i. \<not> keyword_at a kw j" by (simp_all add: findKeyword_Some_iff)
  then have "i \<le> length a" by (simp add: keyword_at_def)
  then have "findKeyword (a @ x # s) kw = Some i"
    using i by (auto simp: findKeyword_Some_iff keyword_at_sep [OF assms])
  then show ?thesis using Some by simp
next
  case None
  then have n: "\<not> keyword_at a kw j" for j by (simp add: findKeyword_None_iff)
  show ?thesis
  proof (cases "findKeyword s kw")
    case (Some i)
    then have "findKeyword (a @ x # s) kw = Some (Suc (length a + i))"
      unfolding findKeyword_Some_iff keyword_at_sep [OF assms] using n by auto
    then show ?thesis using Some None by simp
  next
    case none: None
    then have "findKeyword (a @ x # s) kw = None" using n by (simp add: findKeyword_None_iff keyword_at_sep [OF assms])
    then show ?thesis using None none by simp
  qed
qed

lemma findKeyword_whole: "findKeyword kw kw = Some 0"
  by (auto simp: findKeyword_Some_iff keyword_at_def)

lemma findKeyword_other: "length t < length kw \<or> (length t = length kw \<and> t \<noteq> kw) \<Longrightarrow> findKeyword t kw = None"
  by (auto simp: findKeyword_None_iff keyword_at_def)

subsection \<open>Constructs read back\<close>

text \<open>A piece of script that stands between two keywords: not blank at its ends, none of the keywords in it.\<close>

definition plain :: "string list \<Rightarrow> string \<Rightarrow> bool" where
  "plain kws s \<longleftrightarrow> s \<noteq> [] \<and> \<not> sepByte (hd s) \<and> \<not> sepByte (last s) \<and> list_all (\<lambda>kw. findKeyword s kw = None) kws"

lemma sep_bytes: "sepByte CHR '' ''" "sepByte CHR '';''" "sepByte CHR 0x09" "isSpaceByte CHR '' ''" "isSpaceByte CHR 0x09"
  "\<not> isSpaceByte CHR '';''"
  by (simp_all add: sepByte_def isSpaceByte_def)

lemma sep_of_space: "\<not> sepByte c \<Longrightarrow> \<not> isSpaceByte c \<and> c \<noteq> CHR '';''"
  by (simp add: sepByte_def)

lemma plain_trim:
  assumes "plain kws s"
  shows "trimSpace s = s" "trimSemi s = s" "trimSemi (s @ '';'') = s" "trimSemi (s @ ''; '') = s"
    "rev (dropWhile sepByte (rev (s @ ''; ''))) = s"
proof -
  have s: "s \<noteq> []" "\<not> isSpaceByte (hd s)" "\<not> isSpaceByte (last s)" "last s \<noteq> CHR '';''" "\<not> sepByte (last s)"
    using assms sep_of_space by (auto simp: plain_def)
  show t: "trimSpace s = s" using trimSpace_padded [of "[]" "[]" s] s by simp
  have semi: "semi_loop s = s" using s by (simp add: semi_loop.simps)
  then show "trimSemi s = s" by (simp add: trimSemi_def t)
  have "trimSpace (s @ '';'') = s @ '';''" using trimSpace_padded [of "[]" "[]" "s @ '';''"] s sep_bytes by (simp add: hd_append)
  moreover have "trimSpace ((s @ '';'') @ '' '') = s @ '';''"
    using trimSpace_padded [of "[]" "'' ''" "s @ '';''"] s sep_bytes by (simp add: hd_append)
  moreover have "semi_loop (s @ '';'') = s" using semi t by (subst semi_loop.simps) simp
  ultimately show "trimSemi (s @ '';'') = s" "trimSemi (s @ ''; '') = s" by (simp_all add: trimSemi_def)
  have "dropWhile sepByte (rev s) = rev s" using s by (cases "rev s") (auto simp: last_rev hd_rev dest: arg_cong [of _ _ rev])
  then show "rev (dropWhile sepByte (rev (s @ ''; ''))) = s" by (simp add: sep_bytes)
qed

lemma plain_skip:
  assumes "plain kws s"
  shows "skipWordAndSpace (CHR '' '' # s @ r) = s @ r"
  using assms by (cases s) (auto simp: plain_def skipWordAndSpace_def sep_bytes)

lemma kw_ok: "is_keyword ''then''" "is_keyword ''else''" "is_keyword ''fi''" "is_keyword ''do''" "is_keyword ''done''" "is_keyword ''in''"
  by (simp_all add: is_keyword_def sepByte_def isSpaceByte_def)

lemmas keyword_search = findKeyword_sep [OF kw_ok(1)] findKeyword_sep [OF kw_ok(2)] findKeyword_sep [OF kw_ok(3)]
  findKeyword_sep [OF kw_ok(4)] findKeyword_sep [OF kw_ok(5)] findKeyword_sep [OF kw_ok(6)]

text \<open>The search over a text that starts with a separator, and over one that ends with one.\<close>

lemma keyword_lead: "is_keyword kw \<Longrightarrow> sepByte x \<Longrightarrow> findKeyword (x # s) kw = map_option Suc (findKeyword s kw)"
  using findKeyword_sep [of kw x "[]" s] by (cases kw) (auto simp: findKeyword_other is_keyword_def)

definition if_text :: "string \<Rightarrow> string \<Rightarrow> string \<Rightarrow> string" where
  "if_text c t rest = ''if '' @ c @ ''; then '' @ t @ '';'' @ rest"

lemma parseIf_open:
  assumes "plain [''then''] c" "plain [''fi'', ''else''] t"
  shows "parseIf (if_text c t rest) =
    (let thenRest = t @ CHR '';'' # rest in
     case findKeyword thenRest ''fi'' of None \<Rightarrow> Other
     | Some fiPos \<Rightarrow>
         (case findKeyword thenRest ''else'' of
            None \<Rightarrow> Is \<lparr>if_cond = c, if_then = trimSemi (take fiPos thenRest), if_else = [], if_hasElse = False\<rparr>
          | Some elsePos \<Rightarrow>
              if elsePos > fiPos then Other
              else let elseStart = elsePos + 4 + skip_count (drop (elsePos + 4) thenRest) in
                   if elseStart > fiPos then Panic
                   else Is \<lparr>if_cond = c, if_then = trimSemi (take elsePos thenRest),
                          if_else = trimSemi (drop elseStart (take fiPos thenRest)), if_hasElse = True\<rparr>))"
proof -
  let ?r = "c @ CHR '';'' # CHR '' '' # ''then'' @ CHR '' '' # t @ CHR '';'' # rest"
  have strip: "hasPrefix (if_text c t rest) ''if''" "stripPrefix (if_text c t rest) ''if'' = ?r"
    by (simp_all add: if_text_def hasPrefix_def stripPrefix_def sep_bytes)
  have c: "findKeyword c ''then'' = None" using assms(1) by (simp add: plain_def)
  have "findKeyword (''then'' @ CHR '' '' # t @ CHR '';'' # rest) ''then'' = Some 0"
    by (simp only: keyword_search(1) sep_bytes findKeyword_whole option.case)
  then have pos: "findKeyword ?r ''then'' = Some (length c + 2)"
    by (simp only: keyword_search(1) sep_bytes c option.case keyword_lead kw_ok) simp
  have d: "take (length c + 2) ?r = c @ ''; ''" "drop (length c + 2 + 4) ?r = CHR '' '' # t @ CHR '';'' # rest" by simp_all
  have "c \<noteq> []" using assms(1) by (simp add: plain_def)
  then show ?thesis
    unfolding parseIf_def strip pos d option.case Let_def plain_trim(5) [OF assms(1)] plain_trim(2) [OF assms(1)]
      plain_skip [OF assms(2)] using strip(1) by simp
qed

text \<open>
  Conditionals read back: a line written from a condition, a then part and an else part, none of which
  holds the keyword that ends it, parses into exactly those three; without an else part into two.
\<close>

theorem if_roundtrip:
  assumes "plain [''then''] c" "plain [''fi'', ''else''] t" "plain [''fi''] e"
  shows "parseIf (if_text c t '' fi'') = Is \<lparr>if_cond = c, if_then = t, if_else = [], if_hasElse = False\<rparr>
    \<and> parseIf (if_text c t ('' else '' @ e @ ''; fi'')) = Is \<lparr>if_cond = c, if_then = t, if_else = e, if_hasElse = True\<rparr>"
proof
  have t: "findKeyword t ''fi'' = None" "findKeyword t ''else'' = None" using assms(2) by (simp_all add: plain_def)
  have e: "findKeyword e ''fi'' = None" using assms(3) by (simp add: plain_def)
  have 1: "findKeyword (t @ CHR '';'' # '' fi'') ''fi'' = Some (length t + 2)" "findKeyword (t @ CHR '';'' # '' fi'') ''else'' = None"
    by (simp_all only: keyword_search sep_bytes t option.case keyword_lead kw_ok findKeyword_whole) (simp_all add: findKeyword_other)
  show "parseIf (if_text c t '' fi'') = Is \<lparr>if_cond = c, if_then = t, if_else = [], if_hasElse = False\<rparr>"
    using 1 plain_trim(4) [OF assms(2)] by (simp add: parseIf_open [OF assms(1,2)])
  let ?r = "t @ CHR '';'' # CHR '' '' # ''else'' @ CHR '' '' # e @ CHR '';'' # '' fi''"
  have ef: "findKeyword ''else'' ''fi'' = None" by (simp add: findKeyword_def keyword_at_def)
  have 2: "findKeyword ?r ''fi'' = Some (length t + length e + 9)"
    by (simp only: keyword_search sep_bytes t e ef option.case keyword_lead kw_ok findKeyword_whole) simp
  have 3: "findKeyword ?r ''else'' = Some (length t + 2)"
    by (simp only: keyword_search sep_bytes t e option.case keyword_lead kw_ok findKeyword_whole) simp
  have d: "drop (length t + 2 + 4) ?r = CHR '' '' # e @ CHR '';'' # '' fi''" by simp
  have sk: "skip_count (CHR '' '' # e @ CHR '';'' # '' fi'') = 1" unfolding skip_count_def plain_skip [OF assms(3)] by simp
  have s: "drop (length t + 2 + 4 + 1) (take (length t + length e + 9) ?r) = e @ ''; ''" "take (length t + 2) ?r = t @ ''; ''"
    by (simp_all add: eval_nat_numeral)
  show "parseIf (if_text c t ('' else '' @ e @ ''; fi'')) = Is \<lparr>if_cond = c, if_then = t, if_else = e, if_hasElse = True\<rparr>"
    using 2 3 d sk s plain_trim(4) [OF assms(2)] plain_trim(4) [OF assms(3)] by (simp add: parseIf_open [OF assms(1,2)] Let_def)
qed

theorem if_roundtrip_witness:
  "parseIf ''if true; then echo a; else echo b; fi''
   = Is \<lparr>if_cond = ''true'', if_then = ''echo a'', if_else = ''echo b'', if_hasElse = True\<rparr>"
proof -
  have "plain [''then''] ''true''" "plain [''fi'', ''else''] ''echo a''" "plain [''fi''] ''echo b''"
    by (simp_all add: plain_def findKeyword_def keyword_at_def sepByte_def isSpaceByte_def upt_rec)
  from if_roundtrip [OF this] show ?thesis by (simp add: if_text_def)
qed

text \<open>
  C28. A tab after a keyword: the word after it is skipped with the blanks, so the first word of the body is
  lost; after \<^verbatim>\<open>else\<close> with nothing but the closing keyword the slice of the else part ends before it starts
  and the shell panics.
\<close>

theorem tab_after_keyword:
  assumes "plain [''then''] c" "plain [''fi'', ''else''] t" "plain [''fi'', ''else''] b" "list_all (\<lambda>x. x \<noteq> CHR '' '' \<and> x \<noteq> CHR '';'') w"
  shows "parseIf (if_text c t ('' else'' @ [CHR 0x09] @ ''fi'')) = Panic
    \<and> parseIf (''if '' @ c @ ''; then'' @ [CHR 0x09] @ w @ '' '' @ b @ ''; fi'')
        = Is \<lparr>if_cond = c, if_then = b, if_else = [], if_hasElse = False\<rparr>"
proof
  let ?r = "t @ CHR '';'' # CHR '' '' # ''else'' @ CHR 0x09 # ''fi''"
  have t: "findKeyword t ''fi'' = None" "findKeyword t ''else'' = None" using assms(2) by (simp_all add: plain_def)
  have ef: "findKeyword ''else'' ''fi'' = None" by (simp add: findKeyword_def keyword_at_def)
  have 1: "findKeyword ?r ''fi'' = Some (length t + 7)" "findKeyword ?r ''else'' = Some (length t + 2)"
    by (simp_all only: keyword_search sep_bytes t ef option.case keyword_lead kw_ok findKeyword_whole) simp_all
  have "skip_count (drop (length t + 2 + 4) ?r) = 3" by (simp add: skip_count_def skipWordAndSpace_def)
  then show "parseIf (if_text c t ('' else'' @ [CHR 0x09] @ ''fi'')) = Panic"
    using 1 by (simp add: parseIf_open [OF assms(1,2)] Let_def)
next
  let ?r = "c @ CHR '';'' # CHR '' '' # ''then'' @ CHR 0x09 # w @ CHR '' '' # b @ CHR '';'' # '' fi''"
  let ?l = "''if '' @ c @ ''; then'' @ [CHR 0x09] @ w @ '' '' @ b @ ''; fi''"
  have strip: "hasPrefix ?l ''if''" "stripPrefix ?l ''if'' = ?r" by (simp_all add: hasPrefix_def stripPrefix_def sep_bytes)
  have c: "findKeyword c ''then'' = None" "c \<noteq> []" using assms(1) by (simp_all add: plain_def)
  have pos: "findKeyword ?r ''then'' = Some (length c + 2)"
    by (simp only: keyword_search(1) sep_bytes c option.case keyword_lead kw_ok findKeyword_whole) simp
  have d: "take (length c + 2) ?r = c @ ''; ''" "drop (length c + 2 + 4) ?r = CHR 0x09 # w @ CHR '' '' # b @ CHR '';'' # '' fi''"
    by simp_all
  have "dropWhile (\<lambda>c. c \<noteq> CHR '' '' \<and> c \<noteq> CHR '';'') (w @ CHR '' '' # u) = CHR '' '' # u" for u
    using assms(4) by (induction w) auto
  then have sk: "skipWordAndSpace (CHR 0x09 # w @ CHR '' '' # b @ CHR '';'' # '' fi'') = b @ CHR '';'' # '' fi''"
    using plain_skip [OF assms(3), of "CHR '';'' # '' fi''"] by (simp add: skipWordAndSpace_def)
  have b: "findKeyword b ''fi'' = None" "findKeyword b ''else'' = None" using assms(3) by (simp_all add: plain_def)
  have 1: "findKeyword (b @ CHR '';'' # '' fi'') ''fi'' = Some (length b + 2)" "findKeyword (b @ CHR '';'' # '' fi'') ''else'' = None"
    by (simp_all only: keyword_search sep_bytes b option.case keyword_lead kw_ok findKeyword_whole) (simp_all add: findKeyword_other)
  show "parseIf ?l = Is \<lparr>if_cond = c, if_then = b, if_else = [], if_hasElse = False\<rparr>"
    unfolding parseIf_def strip pos d option.case Let_def plain_trim(5) [OF assms(1)] plain_trim(2) [OF assms(1)] sk 1
    using strip(1) c(2) plain_trim(4) [OF assms(3)] by simp
qed

theorem tab_after_keyword_witness:
  "parseIf (''if true; then echo a; else'' @ [CHR 0x09] @ ''fi'') = Panic"
proof -
  have "plain [''then''] ''true''" "plain [''fi'', ''else''] ''echo a''" "plain [''fi'', ''else''] ''b''"
    by (simp_all add: plain_def findKeyword_def keyword_at_def sepByte_def isSpaceByte_def upt_rec)
  from tab_after_keyword [OF this, of "[]"] show ?thesis by (simp add: if_text_def)
qed

text \<open>A while line reads back.\<close>

lemma while_roundtrip:
  assumes "plain [''do''] c" "plain [''done''] b"
  shows "parseWhile (''while '' @ c @ ''; do '' @ b @ ''; done'') = Is \<lparr>wh_cond = c, wh_body = b\<rparr>"
proof -
  let ?r = "c @ CHR '';'' # CHR '' '' # ''do'' @ CHR '' '' # b @ CHR '';'' # '' done''"
  let ?l = "''while '' @ c @ ''; do '' @ b @ ''; done''"
  have strip: "hasPrefix ?l ''while''" "stripPrefix ?l ''while'' = ?r" by (simp_all add: hasPrefix_def stripPrefix_def sep_bytes)
  have c: "findKeyword c ''do'' = None" "c \<noteq> []" and b: "findKeyword b ''done'' = None" using assms by (simp_all add: plain_def)
  have pos: "findKeyword ?r ''do'' = Some (length c + 2)"
    by (simp only: keyword_search sep_bytes c option.case keyword_lead kw_ok findKeyword_whole) simp
  have d: "take (length c + 2) ?r = c @ ''; ''" "drop (length c + 2 + 2) ?r = CHR '' '' # b @ CHR '';'' # '' done''" by simp_all
  have 1: "findKeyword (b @ CHR '';'' # '' done'') ''done'' = Some (length b + 2)"
    by (simp only: keyword_search sep_bytes b option.case keyword_lead kw_ok findKeyword_whole) simp
  show ?thesis
    unfolding parseWhile_def strip pos d option.case Let_def plain_trim(4) [OF assms(1)] plain_skip [OF assms(2)] 1
    using strip(1) c(2) plain_trim(4) [OF assms(2)] by simp
qed

subsection \<open>Word lists\<close>

definition loop_word :: "string \<Rightarrow> bool" where
  "loop_word w \<longleftrightarrow> w \<noteq> [] \<and> list_all (\<lambda>c. \<not> sepByte c) w \<and> w \<noteq> ''do''"

lemma findKeyword_word:
  assumes "list_all (\<lambda>c. \<not> sepByte c) w" "w \<noteq> kw" "is_keyword kw"
  shows "findKeyword w kw = None"
proof -
  have n: "\<not> sepByte (w ! i)" if "i < length w" for i using that assms(1) by (simp add: list_all_length)
  have "\<not> keyword_at w kw i" for i
  proof
    assume k: "keyword_at w kw i"
    have len: "i + length kw \<le> length w" "kw \<noteq> []" using k assms(3) by (simp_all add: keyword_at_def is_keyword_def)
    have "i = 0" using k n [of "i - 1"] len by (cases i) (auto simp: keyword_at_def)
    have "length kw < length w \<longrightarrow> sepByte (w ! length kw)" "take (length kw) w = kw"
      using k unfolding keyword_at_def \<open>i = 0\<close> by simp_all
    then show False using n [of "length kw"] len \<open>i = 0\<close> assms(2) by (metis add_0 le_neq_implies_less take_all_iff order_refl)
  qed
  then show ?thesis by (simp add: findKeyword_None_iff)
qed

abbreviation (input) spaced :: "string list \<Rightarrow> string" where "spaced ws \<equiv> concat (map (\<lambda>w. CHR '' '' # w) ws)"

lemma spaced_sep: "sepByte x \<Longrightarrow> \<exists>y r. spaced ws @ x # s = y # r \<and> sepByte y"
  by (cases ws) (auto simp: sep_bytes)

lemma keyword_after_words:
  assumes "list_all loop_word ws" "sepByte x"
  shows "findKeyword (spaced ws @ x # s) ''do'' = map_option (\<lambda>i. Suc (length (spaced ws) + i)) (findKeyword s ''do'')"
  using assms(1)
proof (induction ws)
  case Nil
  then show ?case using keyword_lead [OF kw_ok(4) assms(2)] by simp
next
  case (Cons w ws)
  obtain y r where y: "spaced ws @ x # s = y # r" "sepByte y" using spaced_sep [OF assms(2)] by blast
  have "findKeyword w ''do'' = None" using findKeyword_word Cons.prems kw_ok(4) by (auto simp: loop_word_def)
  then have "findKeyword (w @ y # r) ''do'' = map_option (\<lambda>i. length w + i) (findKeyword (y # r) ''do'')"
    by (simp add: findKeyword_sep [OF kw_ok(4) y(2)] keyword_lead [OF kw_ok(4) y(2)] option.map_comp comp_def)
  moreover have "findKeyword (y # r) ''do'' = map_option (\<lambda>i. Suc (length (spaced ws) + i)) (findKeyword s ''do'')"
    using Cons y(1) by simp
  ultimately have "findKeyword (CHR '' '' # w @ y # r) ''do'' = map_option (\<lambda>i. Suc (Suc (length w + (length (spaced ws) + i)))) (findKeyword s ''do'')"
    by (simp only: keyword_lead [OF kw_ok(4) sep_bytes(1)] option.map_comp comp_def add_Suc_right)
  then show ?case unfolding y(1) [symmetric] by (simp add: add.assoc)
qed

lemma words_loop_spaced:
  assumes "list_all loop_word ws" "length acc \<le> forWordMax"
  shows "words_loop acc (spaced ws @ ''; '') = (if length acc + length ws \<le> forWordMax then Some (acc @ ws) else None)"
  using assms
proof (induction ws arbitrary: acc)
  case Nil
  then show ?case by (simp add: words_loop.simps sep_bytes)
next
  case (Cons w ws)
  have w: "w \<noteq> []" "list_all (\<lambda>c. \<not> sepByte c) w" using Cons.prems(1) by (simp_all add: loop_word_def)
  obtain y r where y: "spaced ws @ ''; '' = y # r" "sepByte y" using spaced_sep [of "CHR '';''" ws "'' ''"] sep_bytes(2) by auto
  obtain c u where c: "w = c # u" using w(1) by (cases w) auto
  have "spaced (w # ws) @ ''; '' = CHR '' '' # w @ y # r" unfolding y(1) [symmetric] by simp
  moreover have "dropWhile sepByte (CHR '' '' # w @ y # r) = w @ y # r" using w(2) c by (simp add: sep_bytes)
  ultimately have d: "dropWhile sepByte (spaced (w # ws) @ ''; '') = w @ y # r" by (simp only:)
  have t: "takeWhile (\<lambda>x. \<not> sepByte x) (w @ y # r) = w" "dropWhile (\<lambda>x. \<not> sepByte x) (w @ y # r) = y # r"
    using w(2) y(2) by (induction w) auto
  have "words_loop acc (spaced (w # ws) @ ''; '') = (if length acc \<ge> forWordMax then None else words_loop (acc @ [w]) (y # r))"
    using d t c by (subst words_loop.simps) simp
  also have "\<dots> = (if length acc + length (w # ws) \<le> forWordMax then Some (acc @ w # ws) else None)"
    using Cons.IH [of "acc @ [w]"] Cons.prems y(1) by auto
  finally show ?case .
qed

text \<open>
  Loops over words read back: a loop over at most sixteen words parses into its variable, its words in
  order and its body; one word more and the whole line is refused.
\<close>

theorem for_roundtrip:
  assumes "plain [''in''] v" "list_all loop_word ws" "plain [''done''] b"
  shows "parseFor (''for '' @ v @ '' in'' @ spaced ws @ ''; do '' @ b @ ''; done'') =
    (if length ws \<le> forWordMax then Is \<lparr>for_var = v, for_words = ws, for_body = b\<rparr> else TooMany)"
proof -
  let ?a = "spaced ws @ CHR '';'' # CHR '' '' # ''do'' @ CHR '' '' # b @ CHR '';'' # '' done''"
  obtain y u where y: "?a = y # u" "sepByte y" using spaced_sep [OF sep_bytes(2)] by blast
  let ?r = "v @ CHR '' '' # ''in'' @ ?a"
  let ?l = "''for '' @ v @ '' in'' @ spaced ws @ ''; do '' @ b @ ''; done''"
  have strip: "hasPrefix ?l ''for''" "stripPrefix ?l ''for'' = ?r" by (simp_all add: hasPrefix_def stripPrefix_def sep_bytes)
  have v: "findKeyword v ''in'' = None" "v \<noteq> []" and b: "findKeyword b ''done'' = None" using assms by (simp_all add: plain_def)
  have "findKeyword (''in'' @ ?a) ''in'' = Some 0"
    unfolding y(1) by (simp only: keyword_search y(2) findKeyword_whole option.case)
  then have pos: "findKeyword ?r ''in'' = Some (length v + 1)"
    by (simp only: keyword_search sep_bytes v option.case keyword_lead kw_ok) simp
  have "findKeyword (CHR '' '' # ''do'' @ CHR '' '' # b @ CHR '';'' # '' done'') ''do'' = Some 1"
    by (simp only: keyword_search sep_bytes option.case keyword_lead kw_ok findKeyword_whole) simp
  then have pos2: "findKeyword ?a ''do'' = Some (length (spaced ws) + 2)"
    by (simp only: keyword_after_words [OF assms(2)] sep_bytes) simp
  have d: "take (length v + 1) ?r = v @ '' ''" "drop (length v + 1 + 2) ?r = ?a"
    "take (length (spaced ws) + 2) ?a = spaced ws @ ''; ''" "drop (length (spaced ws) + 2 + 2) ?a = CHR '' '' # b @ CHR '';'' # '' done''"
    by simp_all
  have 1: "findKeyword (b @ CHR '';'' # '' done'') ''done'' = Some (length b + 2)"
    by (simp only: keyword_search sep_bytes b option.case keyword_lead kw_ok findKeyword_whole) simp
  have tv: "trimSpace (v @ '' '') = v"
    using trimSpace_padded [of "[]" "'' ''" v] assms(1) sep_of_space by (simp add: plain_def sep_bytes)
  have ws: "words_loop [] (spaced ws @ ''; '') = (if length ws \<le> forWordMax then Some ws else None)"
    using words_loop_spaced [OF assms(2), of "[]"] by simp
  show ?thesis
    unfolding parseFor_def strip pos d option.case Let_def tv pos2 plain_skip [OF assms(3)] 1 ws
    using strip(1) v(2) plain_trim(4) [OF assms(3)] by simp
qed

theorem for_roundtrip_witness:
  "parseFor ''for x in a b; do echo $x; done'' = Is \<lparr>for_var = ''x'', for_words = [''a'', ''b''], for_body = ''echo $x''\<rparr>"
proof -
  have "plain [''in''] ''x''" "list_all loop_word [''a'', ''b'']" "plain [''done''] ''echo $x''"
    by (simp_all add: plain_def loop_word_def findKeyword_def keyword_at_def sepByte_def isSpaceByte_def upt_rec)
  from for_roundtrip [OF this] show ?thesis by (simp add: forWordMax_def)
qed

subsection \<open>The function table\<close>

definition funcs_wf :: "funcTable \<Rightarrow> bool" where
  "funcs_wf t \<longleftrightarrow> distinct (map fn_name t) \<and> length t \<le> funcMax
     \<and> list_all (\<lambda>f. fn_body f \<noteq> [] \<and> length (fn_body f) \<le> funcCmdsMax \<and> [] \<notin> set (fn_body f)) t"

lemma func_replace_names: "map fn_name (func_replace t g) = map fn_name t"
  by (induction t) auto

lemma func_find_replace: "func_find t (fn_name g) \<noteq> None \<Longrightarrow>
   func_find (func_replace t g) n = (if n = fn_name g then Some g else func_find t n)"
  by (induction t) auto

lemma func_find_append: "func_find (t @ [g]) n = (case func_find t n of Some f \<Rightarrow> Some f | None \<Rightarrow> if fn_name g = n then Some g else None)"
  by (induction t) auto

lemma func_find_None: "func_find t n = None \<longleftrightarrow> n \<notin> set (map fn_name t)"
  by (induction t) auto

lemma func_replace_set: "set (func_replace t g) \<subseteq> insert g (set t)"
  by (induction t) auto

lemma pieces_nonempty: "[] \<notin> set (pieces ps)"
  by (induction ps) auto

text \<open>
  The function table keeps its bounds and remembers the last definition: at most eight functions with
  distinct names, each with one to eight commands; after a definition that is accepted the name stands
  for the new body and every other name for what it stood for.
\<close>

theorem func_define_correct:
  assumes "funcs_wf t" "func_define t d = Some t'"
  shows "funcs_wf t' \<and> func_find t' n =
    (if n = fd_name d then Some \<lparr>fn_name = fd_name d, fn_argNames = fd_argNames d, fn_body = commands_of (fd_body d)\<rparr>
     else func_find t n)"
proof -
  let ?b = "commands_of (fd_body d)"
  let ?g = "\<lparr>fn_name = fd_name d, fn_argNames = fd_argNames d, fn_body = ?b\<rparr>"
  have body: "?b \<noteq> []" "length ?b \<le> funcCmdsMax" and t': "t' = (if func_find t (fd_name d) = None then t @ [?g] else func_replace t ?g)"
    and room: "func_find t (fd_name d) = None \<Longrightarrow> length t < funcMax"
    using assms(2) split_loop_spec [of "[]" "[]" "fd_body d"]
    by (auto simp: func_define_def splitCommands_def commands_of_def bounded_def Let_def simp del: pieces.simps split: option.splits if_splits)
  have g: "[] \<notin> set ?b" by (simp add: commands_of_def pieces_nonempty)
  show ?thesis
  proof (cases "func_find t (fd_name d) = None")
    case True
    then have "fd_name d \<notin> fn_name ` set t" using func_find_None by simp
    then show ?thesis using True assms(1) t' room body g by (auto simp: funcs_wf_def func_find_append split: option.splits)
  next
    case False
    have "length (func_replace t ?g) = length t" using arg_cong [OF func_replace_names [of t ?g], of length] by simp
    then show ?thesis using False assms(1) t' body g func_find_replace [of t ?g n] func_replace_set [of t ?g]
      by (auto simp: funcs_wf_def func_replace_names list_all_iff)
  qed
qed

theorem func_define_correct_witness:
  "func_find [\<lparr>fn_name = ''f'', fn_argNames = [], fn_body = [''ls'', ''pwd'']\<rparr>] ''f''
   = Some \<lparr>fn_name = ''f'', fn_argNames = [], fn_body = [''ls'', ''pwd'']\<rparr>"
proof -
  let ?d = "\<lparr>fd_name = ''f'', fd_argNames = [], fd_body = ''ls; pwd''\<rparr>"
  have "func_define [] ?d = Some [\<lparr>fn_name = ''f'', fn_argNames = [], fn_body = [''ls'', ''pwd'']\<rparr>]"
    by (simp add: func_define_def splitCommands_def trimSpace_def trimEnd_def trimStart_def isSpaceByte_def bodyCmdsMax_def funcCmdsMax_def funcMax_def)
  from func_define_correct [OF _ this, of "''f''"] show ?thesis
    by (simp add: funcs_wf_def commands_of_def trimSpace_def trimEnd_def trimStart_def isSpaceByte_def)
qed

end
