(* ===== verification/ShellState.thy ===== *)
theory ShellState
  imports ShellControl
begin

text \<open>
  The interpreter state of \<^verbatim>\<open>shlib/shell.go\<close> and what every part of the engine does with it: the host seam
  as a record of functions on a host state, bounded captures, output, bounded reads, and the job table.
\<close>

subsection \<open>Runs\<close>

text \<open>A run returns, exhausts its fuel, or panics.\<close>

datatype 'a run = Ret 'a | Diverge | Crash

fun bind_run :: "'a run \<Rightarrow> ('a \<Rightarrow> 'b run) \<Rightarrow> 'b run" where
  "bind_run (Ret x) f = f x"
| "bind_run Diverge f = Diverge"
| "bind_run Crash f = Crash"

lemma bind_run_Ret: "bind_run m f = Ret y \<longleftrightarrow> (\<exists>x. m = Ret x \<and> f x = Ret y)"
  by (cases m) auto

lemma bind_run_Diverge: "bind_run m f = Diverge \<longleftrightarrow> m = Diverge \<or> (\<exists>x. m = Ret x \<and> f x = Diverge)"
  by (cases m) auto

subsection \<open>The host seam\<close>

text \<open>
  \<^verbatim>\<open>Host\<close>: implemented over the kernel calls by the shell program. A failed call returns its error; \<open>'w\<close> is
  the state of the host. A pid and an exit status are 64-bit values.
\<close>

datatype host_err = OpenError string string | PlainError string

datatype probe = probeAbsent | probeRunning | probeExited

record 'w host =
  h_Marker :: "string \<Rightarrow> 'w \<Rightarrow> 'w"
  h_Out :: "string \<Rightarrow> 'w \<Rightarrow> 'w"
  h_Principal :: "'w \<Rightarrow> (u32 \<times> u32) option"
  h_Chmod :: "string \<Rightarrow> u16 \<Rightarrow> 'w \<Rightarrow> host_err option \<times> 'w"
  h_SecretNames :: "'w \<Rightarrow> string list option"
  h_RunExternal :: "string \<Rightarrow> string list \<Rightarrow> 'w \<Rightarrow> u64 option \<times> 'w"
  h_WaitExternal :: "u64 \<Rightarrow> 'w \<Rightarrow> u64 option \<times> 'w"
  h_ProbeExternal :: "u64 \<Rightarrow> 'w \<Rightarrow> (u64 \<times> probe) \<times> 'w"
  h_SleepTick :: "'w \<Rightarrow> 'w"
  h_PipeWrite :: "string \<Rightarrow> 'w \<Rightarrow> bool \<times> 'w"
  h_PipeReadAll :: "'w \<Rightarrow> string option \<times> 'w"
  h_ReadFile :: "string \<Rightarrow> nat \<Rightarrow> 'w \<Rightarrow> (host_err + string) \<times> 'w"
  h_WriteFile :: "string \<Rightarrow> string \<Rightarrow> bool \<Rightarrow> 'w \<Rightarrow> bool \<times> 'w"
  h_Chdir :: "string \<Rightarrow> 'w \<Rightarrow> host_err option \<times> 'w"
  h_ReadTTYLine :: "'w \<Rightarrow> string option \<times> 'w"
  h_SleepSeconds :: "nat \<Rightarrow> 'w \<Rightarrow> 'w"

subsection \<open>The shell\<close>

definition MaxPipeBytes :: nat where "MaxPipeBytes = 4096"
definition maxJobs :: nat where "maxJobs = 8"
definition maxRedirectBytes :: nat where "maxRedirectBytes = 262144"
definition maxSourceBytes :: nat where "maxSourceBytes = 8192"
definition maxLineBytes :: nat where "maxLineBytes = 2048"
definition runDepthMax :: nat where "runDepthMax = 8"
definition sourceDepthMax :: nat where "sourceDepthMax = 4"
definition whileIterMax :: nat where "whileIterMax = 256"

record boundedCapture =
  bc_buf :: string
  bc_lim :: nat
  bc_over :: bool

definition new_capture :: "nat \<Rightarrow> boundedCapture" where
  "new_capture lim = \<lparr>bc_buf = [], bc_lim = lim, bc_over = False\<rparr>"

definition capture_write :: "string \<Rightarrow> boundedCapture \<Rightarrow> boundedCapture" where
  "capture_write b c =
     (if bc_over c then c
      else if length (bc_buf c) + length b > bc_lim c then c\<lparr>bc_over := True\<rparr>
      else c\<lparr>bc_buf := bc_buf c @ b\<rparr>)"

record job =
  j_N :: u64
  j_PID :: u64
  j_Display :: string
  j_Done :: bool
  j_Seen :: bool
  j_Status :: u64

text \<open>
  \<open>sh_capture\<close> is the buffer \<^verbatim>\<open>capture\<close> points to, \<open>None\<close> for the nil pointer. \<open>sh_cap\<close> is the bounded
  capture of the redirect or pipe stage of the command that is running, a local of its caller. \<open>sh_hist\<close>
  is the list of history entries.
\<close>

record 'w shell =
  sh_env :: env
  sh_hist :: "string list"
  sh_status :: u64
  sh_jobs :: "job list"
  sh_nextN :: u64
  sh_exitReq :: bool
  sh_monitorRq :: bool
  sh_funcs :: funcTable
  sh_sourceReq :: string
  sh_capture :: "string option"
  sh_loopBreak :: bool
  sh_loopCont :: bool
  sh_cap :: boundedCapture
  sh_world :: 'w

definition NewShell :: "string list \<Rightarrow> 'w \<Rightarrow> 'w shell" where
  "NewShell hist w = \<lparr>sh_env = NewEnv, sh_hist = hist, sh_status = 0, sh_jobs = [], sh_nextN = 0, sh_exitReq = False,
     sh_monitorRq = False, sh_funcs = [], sh_sourceReq = [], sh_capture = None, sh_loopBreak = False,
     sh_loopCont = False, sh_cap = new_capture 0, sh_world = w\<rparr>"

definition Pwd :: "'w shell \<Rightarrow> string" where
  "Pwd s = (case env_Get (sh_env s) ''PWD'' of Some v \<Rightarrow> if v \<noteq> [] then v else ''/'' | None \<Rightarrow> ''/'')"

datatype Action = ActionContinue | ActionExit | ActionMonitor

definition host_out :: "'w host \<Rightarrow> string \<Rightarrow> 'w shell \<Rightarrow> 'w shell" where
  "host_out h b s = s\<lparr>sh_world := h_Out h b (sh_world s)\<rparr>"

definition marker :: "'w host \<Rightarrow> string \<Rightarrow> 'w shell \<Rightarrow> 'w shell" where
  "marker h b s = s\<lparr>sh_world := h_Marker h b (sh_world s)\<rparr>"

text \<open>\<^verbatim>\<open>out\<close>: command output, collected while a substitution is running.\<close>

definition sh_out :: "'w host \<Rightarrow> string \<Rightarrow> 'w shell \<Rightarrow> 'w shell" where
  "sh_out h b s = (case sh_capture s of Some buf \<Rightarrow> s\<lparr>sh_capture := Some (buf @ b)\<rparr> | None \<Rightarrow> host_out h b s)"

definition cap_out :: "string \<Rightarrow> 'w shell \<Rightarrow> 'w shell" where
  "cap_out b s = s\<lparr>sh_cap := capture_write b (sh_cap s)\<rparr>"

definition nl :: string where "nl = [CHR 0x0A]"

definition trimPrefix :: "string \<Rightarrow> string \<Rightarrow> string" where
  "trimPrefix s p = (if hasPrefix s p then drop (length p) s else s)"

definition shell_fail :: "'w host \<Rightarrow> string \<Rightarrow> 'w shell \<Rightarrow> 'w shell" where
  "shell_fail h msg s = host_out h (''gosh: '' @ trimPrefix msg ''gosh: '' @ nl) s"

definition stripEscMarks :: "string \<Rightarrow> string" where
  "stripEscMarks line = filter (\<lambda>c. c \<noteq> escMark) line"

definition trimEndBytes :: "string \<Rightarrow> char list \<Rightarrow> string" where
  "trimEndBytes b cs = rev (dropWhile (\<lambda>c. c \<in> set cs) (rev b))"

subsection \<open>Bounded reads\<close>

datatype read_err = TooLarge | HostErr host_err

definition too_large_text :: string where "too_large_text = ''input exceeds the 4096-byte buffer''"

definition readBounded :: "'w host \<Rightarrow> string \<Rightarrow> 'w shell \<Rightarrow> (read_err + string) \<times> 'w shell" where
  "readBounded h path s =
     (case h_ReadFile h path (MaxPipeBytes + 1) (sh_world s) of
        (Inl e, w) \<Rightarrow> (Inl (HostErr e), s\<lparr>sh_world := w\<rparr>)
      | (Inr b, w) \<Rightarrow> (if length b > MaxPipeBytes then Inl TooLarge else Inr b, s\<lparr>sh_world := w\<rparr>))"

definition openDenial :: "string \<Rightarrow> host_err \<Rightarrow> string" where
  "openDenial path e =
     (case e of
        OpenError p n \<Rightarrow> ''gosh: cannot open '' @ p @ '': '' @ n @ nl
      | PlainError _ \<Rightarrow> ''gosh: '' @ path @ '': not found'' @ nl)"

definition readInput :: "'w host \<Rightarrow> string \<Rightarrow> 'w shell \<Rightarrow> string option \<times> 'w shell" where
  "readInput h path s =
     (case readBounded h path s of
        (Inl TooLarge, s) \<Rightarrow> (None, host_out h (''gosh: '' @ path @ '': '' @ too_large_text @ nl) s)
      | (Inl (HostErr e), s) \<Rightarrow> (None, host_out h (openDenial path e) s)
      | (Inr b, s) \<Rightarrow> (Some b, s))"

subsection \<open>Jobs\<close>

definition finishJob :: "'w host \<Rightarrow> job \<Rightarrow> u64 \<Rightarrow> 'w \<Rightarrow> job \<times> 'w" where
  "finishJob h j st w =
     (j\<lparr>j_Done := True, j_Status := st\<rparr>, h_Marker h (''gosh: job '' @ Itoa64 (j_N j) @ '' done exit='' @ Itoa64 st) w)"

definition reap_one :: "'w host \<Rightarrow> job \<Rightarrow> 'w \<Rightarrow> job \<times> 'w" where
  "reap_one h j w =
     (if j_Done j then (j, w)
      else case h_ProbeExternal h (j_PID j) w of
        ((st, probeRunning), w) \<Rightarrow> (j\<lparr>j_Seen := True\<rparr>, w)
      | ((st, probeExited), w) \<Rightarrow> finishJob h j st w
      | ((st, probeAbsent), w) \<Rightarrow> if j_Seen j then finishJob h j 0 w else (j, w))"

fun reap_all :: "'w host \<Rightarrow> job list \<Rightarrow> 'w \<Rightarrow> job list \<times> 'w" where
  "reap_all h [] w = ([], w)"
| "reap_all h (j # js) w =
     (let (j', w) = reap_one h j w; (js', w) = reap_all h js w in (j' # js', w))"

definition ReapJobs :: "'w host \<Rightarrow> 'w shell \<Rightarrow> 'w shell" where
  "ReapJobs h s = (let (js, w) = reap_all h (sh_jobs s) (sh_world s) in s\<lparr>sh_jobs := js, sh_world := w\<rparr>)"

definition jobByN :: "u64 \<Rightarrow> 'w shell \<Rightarrow> job option" where
  "jobByN n s = find (\<lambda>j. j_N j = n) (sh_jobs s)"

text \<open>\<^verbatim>\<open>removeJob\<close> removes the job it points to; the numbers of the jobs of a table are distinct.\<close>

fun remove_job :: "u64 \<Rightarrow> job list \<Rightarrow> job list" where
  "remove_job n [] = []"
| "remove_job n (j # js) = (if j_N j = n then js else j # remove_job n js)"

definition removeJob :: "u64 \<Rightarrow> 'w shell \<Rightarrow> 'w shell" where
  "removeJob n s = s\<lparr>sh_jobs := remove_job n (sh_jobs s)\<rparr>"

subsection \<open>Invariant\<close>

text \<open>
  Between lines: a well-formed variable table and function table, at most eight jobs.
\<close>

definition sh_inv :: "'w shell \<Rightarrow> bool" where
  "sh_inv s \<longleftrightarrow> env_wf (sh_env s) \<and> funcs_wf (sh_funcs s) \<and> length (sh_jobs s) \<le> maxJobs"

lemma sh_inv_simps [simp]:
  "sh_inv (s\<lparr>sh_world := w\<rparr>) = sh_inv s" "sh_inv (s\<lparr>sh_status := v\<rparr>) = sh_inv s"
  "sh_inv (s\<lparr>sh_cap := c\<rparr>) = sh_inv s" "sh_inv (s\<lparr>sh_capture := b\<rparr>) = sh_inv s"
  "sh_inv (s\<lparr>sh_loopBreak := x\<rparr>) = sh_inv s" "sh_inv (s\<lparr>sh_loopCont := x\<rparr>) = sh_inv s"
  "sh_inv (s\<lparr>sh_exitReq := x\<rparr>) = sh_inv s" "sh_inv (s\<lparr>sh_monitorRq := x\<rparr>) = sh_inv s"
  "sh_inv (s\<lparr>sh_sourceReq := r\<rparr>) = sh_inv s" "sh_inv (s\<lparr>sh_nextN := n\<rparr>) = sh_inv s"
  by (simp_all add: sh_inv_def)

lemma sh_inv_env [simp]: "sh_inv s \<Longrightarrow> sh_inv (s\<lparr>sh_env := env_Set (sh_env s) n v\<rparr>)"
  "sh_inv s \<Longrightarrow> sh_inv (s\<lparr>sh_env := snd (env_Unset (sh_env s) n)\<rparr>)"
  by (simp_all add: sh_inv_def vars.assign_wf vars.remove_wf)

lemma sh_inv_out [simp]: "sh_inv (host_out h b s) = sh_inv s" "sh_inv (sh_out h b s) = sh_inv s" "sh_inv (cap_out b s) = sh_inv s"
  "sh_inv (shell_fail h m s) = sh_inv s" "sh_inv (marker h m s) = sh_inv s"
  by (simp_all add: host_out_def sh_out_def cap_out_def shell_fail_def marker_def split: option.split)

lemma sh_inv_new: "sh_inv (NewShell hist w)"
  by (simp add: sh_inv_def NewShell_def env_wf_def NewEnv_def funcs_wf_def)

end
