(* ===== verification/ShellEval.thy ===== *)
theory ShellEval
  imports ShellState
begin

text \<open>
  The evaluator of \<^verbatim>\<open>shlib/shell.go\<close>: from \<^verbatim>\<open>runLine\<close> down to the exec seam. \<open>h\<close> is the host, \<open>tbl\<close> the
  command table (builtins and tools); a table entry is given the fuel left, the command word, its
  arguments, the bound input and the sink for its output. The functions between two calls of \<^verbatim>\<open>runLine\<close>
  take it as the argument \<open>run\<close>; \<^verbatim>\<open>runLine\<close> itself ties the knot and spends one unit of fuel per call.
\<close>

type_synonym 'w cmd = "nat \<Rightarrow> string \<Rightarrow> string list \<Rightarrow> string option \<Rightarrow> (string \<Rightarrow> 'w shell \<Rightarrow> 'w shell) \<Rightarrow> 'w shell \<Rightarrow> (u64 \<times> 'w shell) run"

type_synonym 'w table = "string \<Rightarrow> 'w cmd option"

type_synonym 'w result = "(u64 \<times> Action \<times> 'w shell) run"

type_synonym 'w runner = "string \<Rightarrow> nat \<Rightarrow> 'w shell \<Rightarrow> 'w result"

abbreviation (input) cont :: "u64 \<Rightarrow> 'w shell \<Rightarrow> 'w result" where
  "cont st s \<equiv> Ret (st, ActionContinue, s)"

text \<open>A refusal: the message, then the status as the line's result and as \<^verbatim>\<open>$?\<close>.\<close>

definition refuse :: "'w host \<Rightarrow> string \<Rightarrow> u64 \<Rightarrow> 'w shell \<Rightarrow> 'w result" where
  "refuse h msg st s = cont st ((shell_fail h msg s)\<lparr>sh_status := st\<rparr>)"

subsection \<open>Simple commands\<close>

definition run_builtin :: "'w table \<Rightarrow> nat \<Rightarrow> string \<Rightarrow> string list \<Rightarrow> string option \<Rightarrow> (string \<Rightarrow> 'w shell \<Rightarrow> 'w shell) \<Rightarrow> 'w shell \<Rightarrow> 'w result" where
  "run_builtin tbl k name args stdin sink s =
     (case tbl name of
        None \<Rightarrow> Crash
      | Some fn \<Rightarrow>
          bind_run (fn k name args stdin sink s) (\<lambda>(st, s).
            if sh_exitReq s then Ret (st, ActionExit, s\<lparr>sh_exitReq := False\<rparr>)
            else if sh_monitorRq s then Ret (st, ActionMonitor, s\<lparr>sh_monitorRq := False\<rparr>)
            else cont st s))"

definition runExternal :: "'w host \<Rightarrow> string \<Rightarrow> string list \<Rightarrow> 'w shell \<Rightarrow> u64 \<times> 'w shell" where
  "runExternal h name args s =
     (case h_RunExternal h name args (sh_world s) of
        (None, w) \<Rightarrow> (127, host_out h (''gosh: '' @ name @ '': not found'' @ nl) (s\<lparr>sh_world := w\<rparr>))
      | (Some pid, w) \<Rightarrow>
          (case h_WaitExternal h pid w of
             (None, w) \<Rightarrow> (127, host_out h (''gosh: '' @ name @ '': wait failed'' @ nl) (s\<lparr>sh_world := w\<rparr>))
           | (Some st, w) \<Rightarrow> (st, s\<lparr>sh_world := w\<rparr>)))"

text \<open>The file part of a redirect, after the command returned \<open>st\<close>.\<close>

definition write_redirect :: "'w host \<Rightarrow> redirection \<Rightarrow> boundedCapture \<Rightarrow> u64 \<Rightarrow> 'w shell \<Rightarrow> 'w result" where
  "write_redirect h r cap st s =
     (if bc_over cap then
        cont 1 (host_out h (''gosh: '' @ rd_path r @ '': output exceeds the '' @ Itoa64 (of_nat maxRedirectBytes) @
          ''-byte redirect buffer'' @ nl) s)
      else case h_WriteFile h (rd_path r) (bc_buf cap) (rd_append r) (sh_world s) of
             (True, w) \<Rightarrow> cont st (s\<lparr>sh_world := w\<rparr>)
           | (False, w) \<Rightarrow> cont 1 (host_out h (''gosh: '' @ rd_path r @ '': write failed'' @ nl) (s\<lparr>sh_world := w\<rparr>)))"

text \<open>A builtin or tool with its output sent to the redirect, when there is one.\<close>

definition run_redirected :: "'w host \<Rightarrow> 'w table \<Rightarrow> nat \<Rightarrow> redirection option \<Rightarrow> string \<Rightarrow> string list \<Rightarrow> string option \<Rightarrow> 'w shell \<Rightarrow> 'w result" where
  "run_redirected h tbl k out name args stdin s =
     (case out of
        None \<Rightarrow> run_builtin tbl k name args stdin (sh_out h) s
      | Some r \<Rightarrow>
          bind_run (run_builtin tbl k name args stdin cap_out (s\<lparr>sh_cap := new_capture maxRedirectBytes\<rparr>)) (\<lambda>(st, act, s).
            if act \<noteq> ActionContinue then Ret (st, act, s) else write_redirect h r (sh_cap s) st s))"

fun bind_pairs :: "'w shell \<Rightarrow> (string \<times> string) list \<Rightarrow> 'w shell" where
  "bind_pairs s [] = s"
| "bind_pairs s ((n, v) # ps) = bind_pairs (s\<lparr>sh_env := env_Set (sh_env s) n v\<rparr>) ps"

definition bindFuncArgs :: "progFunc \<Rightarrow> string list \<Rightarrow> 'w shell \<Rightarrow> 'w shell" where
  "bindFuncArgs f args s =
     bind_pairs s ((''0'', fn_name f) # zip (map (\<lambda>i. Itoa64 (of_nat (i + 1))) [0..<funcArgMax]) args
       @ zip (fn_argNames f) args)"

fun runFuncBody :: "'w runner \<Rightarrow> nat \<Rightarrow> string list \<Rightarrow> 'w shell \<Rightarrow> 'w result" where
  "runFuncBody run depth [] s = cont (sh_status s) s"
| "runFuncBody run depth (cmd # cmds) s =
     bind_run (run cmd (depth + 1) s) (\<lambda>(st, act, s).
       if act \<noteq> ActionContinue then Ret (st, act, s) else runFuncBody run depth cmds s)"

text \<open>
  \<^verbatim>\<open>runSingle\<close> after its input is read. A function's commands and an external program write past the
  redirect: its capture stays empty.
\<close>

definition run_command :: "'w host \<Rightarrow> 'w table \<Rightarrow> nat \<Rightarrow> 'w runner \<Rightarrow> plan \<Rightarrow> nat \<Rightarrow> string option \<Rightarrow> 'w shell \<Rightarrow> 'w result" where
  "run_command h tbl k run p depth stdin s =
     (let name = hd (pl_left p); args = tl (pl_left p) in
      if tbl name \<noteq> None then run_redirected h tbl k (pl_out p) name args stdin s
      else let finish = (\<lambda>st s. case pl_out p of None \<Rightarrow> cont st s
                         | Some r \<Rightarrow> write_redirect h r (new_capture maxRedirectBytes) st s) in
      case func_find (sh_funcs s) name of
        Some f \<Rightarrow>
          bind_run (runFuncBody run depth (fn_body f) (bindFuncArgs f args s)) (\<lambda>(st, act, s).
            if act \<noteq> ActionContinue then Ret (st, act, s) else finish st s)
      | None \<Rightarrow>
          if sh_capture s \<noteq> None then
            cont 1 (host_out h (''gosh: cannot capture an external app'' @ [CHR 0x27] @ ''s output yet'' @ nl) s)
          else (case runExternal h name args s of (st, s) \<Rightarrow> finish st s))"

definition runSingle :: "'w host \<Rightarrow> 'w table \<Rightarrow> nat \<Rightarrow> 'w runner \<Rightarrow> plan \<Rightarrow> nat \<Rightarrow> 'w shell \<Rightarrow> 'w result" where
  "runSingle h tbl k run p depth s =
     (case pl_in p of
        None \<Rightarrow> run_command h tbl k run p depth None s
      | Some r \<Rightarrow>
          (case readInput h (rd_path r) s of
             (None, s) \<Rightarrow> cont 1 s
           | (Some b, s) \<Rightarrow> run_command h tbl k run p depth (Some b) s))"

subsection \<open>Pipelines and background jobs\<close>

definition capture_refusal :: string where
  "capture_refusal = ''gosh: cannot capture an external app'' @ [CHR 0x27] @ ''s output yet'' @ nl"

text \<open>From the left stage's return on: the pipe, then the right stage.\<close>

definition run_right :: "'w host \<Rightarrow> 'w table \<Rightarrow> nat \<Rightarrow> plan \<Rightarrow> 'w shell \<Rightarrow> 'w result" where
  "run_right h tbl k p s =
     (let stage = sh_cap s in
      if bc_over stage then
        cont 1 (host_out h (''gosh: pipe stage output exceeds the '' @ Itoa64 (of_nat MaxPipeBytes) @ ''-byte pipe buffer'' @ nl) s)
      else case h_PipeWrite h (bc_buf stage) (sh_world s) of
        (False, w) \<Rightarrow> cont 1 (host_out h (''gosh: pipe write failed'' @ nl) (s\<lparr>sh_world := w\<rparr>))
      | (True, w) \<Rightarrow>
          (case h_PipeReadAll h w of
             (None, w) \<Rightarrow> cont 1 (host_out h (''gosh: pipe read failed'' @ nl) (s\<lparr>sh_world := w\<rparr>))
           | (Some b, w) \<Rightarrow>
               let s = s\<lparr>sh_world := w\<rparr>; rname = hd (pl_right p) in
               if tbl rname = None then
                 cont 1 (host_out h (''gosh: a piped command must be a builtin or tool (an external app would not read the pipe)'' @ nl) s)
               else run_redirected h tbl k (pl_out p) rname (tl (pl_right p)) (Some b) s))"

definition runPipeline :: "'w host \<Rightarrow> 'w table \<Rightarrow> nat \<Rightarrow> plan \<Rightarrow> 'w shell \<Rightarrow> 'w result" where
  "runPipeline h tbl k p s =
     (let lname = hd (pl_left p);
          left = (\<lambda>stdin s.
            bind_run (run_builtin tbl k lname (tl (pl_left p)) stdin cap_out (s\<lparr>sh_cap := new_capture MaxPipeBytes\<rparr>)) (\<lambda>(st, act, s).
              if act \<noteq> ActionContinue then Ret (st, act, s) else run_right h tbl k p s))
      in if tbl lname = None then cont 1 (host_out h capture_refusal s)
         else case pl_in p of
           None \<Rightarrow> left None s
         | Some r \<Rightarrow>
             (case readInput h (rd_path r) s of (None, s) \<Rightarrow> cont 1 s | (Some b, s) \<Rightarrow> left (Some b) s))"

fun join :: "string \<Rightarrow> string list \<Rightarrow> string" where
  "join sep [] = []"
| "join sep [w] = w"
| "join sep (w # ws) = w @ sep @ join sep ws"

definition runBackground :: "'w host \<Rightarrow> 'w table \<Rightarrow> nat \<Rightarrow> 'w runner \<Rightarrow> plan \<Rightarrow> nat \<Rightarrow> 'w shell \<Rightarrow> 'w result" where
  "runBackground h tbl k run p depth s =
     (let name = hd (pl_left p) in
      if tbl name \<noteq> None then
        runSingle h tbl k run (p\<lparr>pl_right := [], pl_background := False\<rparr>) depth
          (host_out h (''gosh: '' @ name @ '' is a builtin; & runs external apps only'' @ nl) s)
      else if length (sh_jobs s) \<ge> maxJobs then cont 1 (host_out h (''gosh: too many background jobs'' @ nl) s)
      else case h_RunExternal h name (tl (pl_left p)) (sh_world s) of
        (None, w) \<Rightarrow> cont 127 (host_out h (''gosh: '' @ name @ '': not found'' @ nl) (s\<lparr>sh_world := w\<rparr>))
      | (Some pid, w) \<Rightarrow>
          let n = sh_nextN s + 1;
              j = \<lparr>j_N = n, j_PID = pid, j_Display = join '' '' (pl_left p), j_Done = False, j_Seen = False, j_Status = 0\<rparr>
          in cont 0 (marker h (''gosh: job '' @ Itoa64 n @ '' pid='' @ Itoa64 pid)
               (s\<lparr>sh_world := w, sh_nextN := n, sh_jobs := sh_jobs s @ [j]\<rparr>)))"

subsection \<open>Bodies and constructs\<close>

definition clearLoopFlags :: "'w shell \<Rightarrow> 'w shell" where
  "clearLoopFlags s = s\<lparr>sh_loopBreak := False, sh_loopCont := False\<rparr>"

text \<open>\<^verbatim>\<open>runBody\<close>: the middle component says that a break, or a refusal, ends the loop around it.\<close>

fun body_loop :: "'w runner \<Rightarrow> nat \<Rightarrow> string list \<Rightarrow> 'w shell \<Rightarrow> (u64 \<times> bool \<times> Action \<times> 'w shell) run" where
  "body_loop run depth [] s = Ret (sh_status s, False, ActionContinue, s)"
| "body_loop run depth (cmd # cmds) s =
     bind_run (run cmd depth s) (\<lambda>(st, act, s).
       if act \<noteq> ActionContinue then Ret (st, False, act, s)
       else if sh_loopBreak s then Ret (st, True, ActionContinue, s)
       else if sh_loopCont s then Ret (st, False, ActionContinue, s)
       else body_loop run depth cmds s)"

definition runBody :: "'w host \<Rightarrow> 'w runner \<Rightarrow> string \<Rightarrow> nat \<Rightarrow> 'w shell \<Rightarrow> (u64 \<times> bool \<times> Action \<times> 'w shell) run" where
  "runBody h run body depth s =
     (case splitCommands body of
        None \<Rightarrow> Ret (2, True, ActionContinue, (shell_fail h (''body too long (at most '' @ Itoa64 (of_nat bodyCmdsMax) @ '' commands)'') s)\<lparr>sh_status := 2\<rparr>)
      | Some cmds \<Rightarrow> body_loop run depth cmds s)"

definition body_result :: "'w host \<Rightarrow> 'w runner \<Rightarrow> string \<Rightarrow> nat \<Rightarrow> 'w shell \<Rightarrow> 'w result" where
  "body_result h run body depth s =
     bind_run (runBody h run body depth s) (\<lambda>(st, brk, act, s). Ret (sh_status s, act, s))"

definition runIf :: "'w host \<Rightarrow> 'w runner \<Rightarrow> ifStmt \<Rightarrow> nat \<Rightarrow> 'w shell \<Rightarrow> 'w result" where
  "runIf h run c depth s =
     bind_run (run (if_cond c) depth s) (\<lambda>(st, act, s).
       if act \<noteq> ActionContinue then Ret (st, act, s)
       else if sh_status s = 0 then body_result h run (if_then c) depth s
       else if if_hasElse c then body_result h run (if_else c) depth s
       else cont (sh_status s) s)"

fun for_loop :: "'w host \<Rightarrow> 'w runner \<Rightarrow> string \<Rightarrow> string \<Rightarrow> nat \<Rightarrow> string list \<Rightarrow> 'w shell \<Rightarrow> 'w result" where
  "for_loop h run var body depth [] s =
     (let s = clearLoopFlags (s\<lparr>sh_env := snd (env_Unset (sh_env s) var)\<rparr>) in cont (sh_status s) s)"
| "for_loop h run var body depth (w # ws) s =
     bind_run (runBody h run body depth (clearLoopFlags (s\<lparr>sh_env := env_Set (sh_env s) var w\<rparr>))) (\<lambda>(st, brk, act, s).
       if act \<noteq> ActionContinue then Ret (sh_status s, act, s)
       else if brk then for_loop h run var body depth [] s
       else for_loop h run var body depth ws s)"

definition runFor :: "'w host \<Rightarrow> 'w runner \<Rightarrow> forStmt \<Rightarrow> nat \<Rightarrow> 'w shell \<Rightarrow> 'w result" where
  "runFor h run f depth s = for_loop h run (for_var f) (for_body f) depth (for_words f) s"

fun while_loop :: "'w host \<Rightarrow> 'w runner \<Rightarrow> whileStmt \<Rightarrow> nat \<Rightarrow> nat \<Rightarrow> 'w shell \<Rightarrow> 'w result" where
  "while_loop h run c depth 0 s =
     refuse h (''while: iteration cap ('' @ Itoa64 (of_nat whileIterMax) @ '') reached'') 1 (clearLoopFlags s)"
| "while_loop h run c depth (Suc n) s =
     bind_run (run (wh_cond c) depth (clearLoopFlags s)) (\<lambda>(cst, act, s).
       if act \<noteq> ActionContinue then Ret (cst, act, s)
       else if sh_status s \<noteq> 0 then cont (sh_status s) (clearLoopFlags s)
       else bind_run (runBody h run (wh_body c) depth s) (\<lambda>(st, brk, act, s).
         if act \<noteq> ActionContinue then Ret (sh_status s, act, s)
         else if brk then cont (sh_status s) (clearLoopFlags s)
         else while_loop h run c depth n s))"

definition runWhile :: "'w host \<Rightarrow> 'w runner \<Rightarrow> whileStmt \<Rightarrow> nat \<Rightarrow> 'w shell \<Rightarrow> 'w result" where
  "runWhile h run c depth s = while_loop h run c depth whileIterMax s"

fun case_loop :: "'w host \<Rightarrow> 'w runner \<Rightarrow> string \<Rightarrow> caseArm list \<Rightarrow> nat \<Rightarrow> 'w shell \<Rightarrow> 'w result" where
  "case_loop h run subject [] depth s = cont 0 (s\<lparr>sh_status := 0\<rparr>)"
| "case_loop h run subject (arm # arms) depth s =
     (if caseMatch (arm_pattern arm) subject then body_result h run (arm_body arm) depth s
      else case_loop h run subject arms depth s)"

definition runCase :: "'w host \<Rightarrow> 'w runner \<Rightarrow> caseStmt \<Rightarrow> nat \<Rightarrow> 'w shell \<Rightarrow> 'w result" where
  "runCase h run c depth s =
     case_loop h run (expand_text (sh_env s) (sh_status s) (case_subject c)) (case_arms c) depth s"

text \<open>\<^verbatim>\<open>runChain\<close>: the operator in front of a segment decides whether it runs.\<close>

fun chain_run :: "'w runner \<Rightarrow> nat \<Rightarrow> (chainOp \<times> string) list \<Rightarrow> 'w shell \<Rightarrow> 'w result" where
  "chain_run run depth [] s = cont (sh_status s) s"
| "chain_run run depth ((p, seg) # rest) s =
     (if (p = opAnd \<and> sh_status s \<noteq> 0) \<or> (p = opOr \<and> sh_status s = 0) \<or> seg = []
      then chain_run run depth rest s
      else bind_run (run seg depth s) (\<lambda>(st, act, s).
        if act \<noteq> ActionContinue then Ret (st, act, s) else chain_run run depth rest s))"

definition runChain :: "'w runner \<Rightarrow> string list \<Rightarrow> chainOp list \<Rightarrow> nat \<Rightarrow> 'w shell \<Rightarrow> 'w result" where
  "runChain run segs ops depth s = chain_run run depth (zip (opSeq # ops) segs) s"

subsection \<open>Sourced files\<close>

text \<open>
  \<^verbatim>\<open>strings.TrimSpace(ln) == ""\<close>: nothing but white space as Unicode has it, in its UTF-8 encoding.
\<close>

definition wide_spaces :: "string list" where
  "wide_spaces = [[CHR 0xC2, CHR 0x85], [CHR 0xC2, CHR 0xA0], [CHR 0xE1, CHR 0x9A, CHR 0x80]]
     @ map (\<lambda>k. [CHR 0xE2, CHR 0x80, char_of (128 + k)]) [0..<11]
     @ [[CHR 0xE2, CHR 0x80, CHR 0xA8], [CHR 0xE2, CHR 0x80, CHR 0xA9], [CHR 0xE2, CHR 0x80, CHR 0xAF],
        [CHR 0xE2, CHR 0x81, CHR 0x9F], [CHR 0xE3, CHR 0x80, CHR 0x80]]"

function blank_line :: "string \<Rightarrow> bool" where
  "blank_line s =
     (case s of
        [] \<Rightarrow> True
      | c # r \<Rightarrow>
          if c \<in> {CHR 0x09, CHR 0x0A, CHR 0x0B, CHR 0x0C, CHR 0x0D, CHR '' ''} then blank_line r
          else if take 2 s \<in> set wide_spaces then blank_line (drop 2 s)
          else if take 3 s \<in> set wide_spaces then blank_line (drop 3 s)
          else False)"
  by pat_completeness auto
termination
  by (relation "measure length") auto

declare blank_line.simps [simp del]

fun crlf_to_lf :: "string \<Rightarrow> string" where
  "crlf_to_lf (a # b # s) = (if a = CHR 0x0D \<and> b = CHR 0x0A then b # crlf_to_lf s else a # crlf_to_lf (b # s))"
| "crlf_to_lf s = s"

fun split_lines :: "string \<Rightarrow> string list" where
  "split_lines [] = [[]]"
| "split_lines (c # s) = (if c = CHR 0x0A then [] # split_lines s
     else (c # hd (split_lines s)) # tl (split_lines s))"

definition source_lines :: "string \<Rightarrow> string list" where
  "source_lines b = filter (\<lambda>ln. \<not> blank_line ln) (map (\<lambda>ln. trimEndBytes ln [CHR 0x0D]) (split_lines (crlf_to_lf b)))"

definition runSource :: "'w host \<Rightarrow> 'w runner \<Rightarrow> string \<Rightarrow> nat \<Rightarrow> 'w shell \<Rightarrow> 'w result" where
  "runSource h run path depth s =
     (if depth > sourceDepthMax then
        refuse h (''source nesting exceeds '' @ Itoa64 (of_nat sourceDepthMax) @ '' levels'') 2 s
      else case h_ReadFile h path (maxSourceBytes + 1) (sh_world s) of
        (Inl e, w) \<Rightarrow>
          cont 1 ((host_out h (''gosh: source: '' @ trimPrefix (openDenial path e) ''gosh: '') (s\<lparr>sh_world := w\<rparr>))\<lparr>sh_status := 1\<rparr>)
      | (Inr b, w) \<Rightarrow>
          if length b > maxSourceBytes then
            cont 1 ((host_out h (''gosh: source: '' @ path @ '': exceeds the '' @ Itoa64 (of_nat maxSourceBytes) @
              ''-byte source buffer'' @ nl) (s\<lparr>sh_world := w\<rparr>))\<lparr>sh_status := 1\<rparr>)
          else runFuncBody run depth (source_lines b) (s\<lparr>sh_world := w\<rparr>))"

subsection \<open>Segments and lines\<close>

text \<open>The end of \<^verbatim>\<open>runSegment\<close>: the status, then a source request the line left behind.\<close>

definition finish_segment :: "'w host \<Rightarrow> 'w runner \<Rightarrow> nat \<Rightarrow> u64 \<times> Action \<times> 'w shell \<Rightarrow> 'w result" where
  "finish_segment h run depth r =
     (case r of (st, act, s) \<Rightarrow>
        let s = s\<lparr>sh_status := st\<rparr> in
        if act \<noteq> ActionContinue then Ret (st, act, s)
        else if sh_sourceReq s \<noteq> [] then runSource h run (sh_sourceReq s) depth (s\<lparr>sh_sourceReq := []\<rparr>)
        else cont st s)"

definition runSegment :: "'w host \<Rightarrow> 'w table \<Rightarrow> nat \<Rightarrow> 'w runner \<Rightarrow> string \<Rightarrow> nat \<Rightarrow> 'w shell \<Rightarrow> 'w result" where
  "runSegment h tbl k run line depth s =
     (case tokenize (arithExpand line) of
        Inl m \<Rightarrow> refuse h m 1 s
      | Inr toks \<Rightarrow>
          if toks = [] then cont (sh_status s) s
          else case parsePlan toks (sh_env s) (sh_status s) of
            Inl m \<Rightarrow> refuse h m 1 s
          | Inr p \<Rightarrow>
              if pl_left p = [] then cont (sh_status s) s
              else let p = (if hd (pl_left p) = ''exec'' \<and> length (pl_left p) > 1 then p\<lparr>pl_left := tl (pl_left p)\<rparr> else p);
                       s = s\<lparr>sh_exitReq := False, sh_monitorRq := False\<rparr>
                   in bind_run
                     (if pl_background p then runBackground h tbl k run p depth s
                      else if pl_right p \<noteq> [] then runPipeline h tbl k p s
                      else runSingle h tbl k run p depth s)
                     (finish_segment h run depth))"

definition captureLine :: "'w runner \<Rightarrow> string \<Rightarrow> nat \<Rightarrow> 'w shell \<Rightarrow> (string \<times> Action \<times> 'w shell) run" where
  "captureLine run line depth s =
     bind_run (run line depth (s\<lparr>sh_capture := Some []\<rparr>)) (\<lambda>(st, act, s').
       Ret (trimEndBytes (case sh_capture s' of Some buf \<Rightarrow> buf | None \<Rightarrow> []) [CHR 0x0A, CHR 0x0D], act,
            s'\<lparr>sh_capture := sh_capture s\<rparr>))"

definition commandSubst :: "'w runner \<Rightarrow> string \<Rightarrow> nat \<Rightarrow> 'w shell \<Rightarrow> (string \<times> Action \<times> 'w shell) run" where
  "commandSubst run line depth s =
     (case locateCommandSubst line of
        None \<Rightarrow> Ret (line, ActionContinue, s)
      | Some c \<Rightarrow>
          bind_run (captureLine run (cs_inner c) depth s) (\<lambda>(out, act, s).
            if act \<noteq> ActionContinue then Ret (line, act, s)
            else Ret (cs_prefix c @ out @ cs_suffix c, ActionContinue, s)))"

definition run_definition :: "'w host \<Rightarrow> string \<Rightarrow> 'w shell \<Rightarrow> 'w result" where
  "run_definition h line s =
     (let rest = (if length line > 2 \<and> isSpaceByte (line ! 2) then drop 3 line else drop 2 line) in
      case (case parseFuncDef rest of None \<Rightarrow> None | Some d \<Rightarrow> func_define (sh_funcs s) d) of
        None \<Rightarrow> cont 1 ((sh_out h (''fn: bad definition'' @ nl) s)\<lparr>sh_status := 1\<rparr>)
      | Some t \<Rightarrow> (let s = sh_out h (''fn: ok'' @ nl) (s\<lparr>sh_funcs := t\<rparr>) in cont (sh_status s) s))"

text \<open>The ladder of \<^verbatim>\<open>runLine\<close> below the substitution.\<close>

definition run_ladder :: "'w host \<Rightarrow> 'w table \<Rightarrow> nat \<Rightarrow> 'w runner \<Rightarrow> string \<Rightarrow> nat \<Rightarrow> 'w shell \<Rightarrow> 'w result" where
  "run_ladder h tbl k run line depth s =
     (case parseIf line of
        Is c \<Rightarrow> runIf h run c depth s
      | Panic \<Rightarrow> Crash
      | _ \<Rightarrow>
     (case parseFor line of
        TooMany \<Rightarrow> refuse h (''for word list too long (at most '' @ Itoa64 (of_nat forWordMax) @ '' words)'') 2 s
      | Is f \<Rightarrow> runFor h run f depth s
      | _ \<Rightarrow>
     (case parseWhile line of
        Is c \<Rightarrow> runWhile h run c depth s
      | _ \<Rightarrow>
     (case parseCase line of
        TooMany \<Rightarrow> refuse h (''case has too many arms (at most '' @ Itoa64 (of_nat caseArmMax) @ '')'') 2 s
      | Is c \<Rightarrow> runCase h run c depth s
      | _ \<Rightarrow>
     (case chainSplit line of
        None \<Rightarrow> refuse h (''chain too long (at most '' @ Itoa64 (of_nat chainMax) @ '' segments)'') 2 s
      | Some (segs, ops) \<Rightarrow>
          if ops = [] then runSegment h tbl k run line depth s
          else runChain run segs ops depth s)))))"

definition line_step :: "'w host \<Rightarrow> 'w table \<Rightarrow> nat \<Rightarrow> 'w runner \<Rightarrow> 'w runner" where
  "line_step h tbl k run raw depth s =
     (let line = trimSpace (stripEscMarks raw) in
      if line = [] then cont (sh_status s) s
      else if length line > maxLineBytes then refuse h (''line exceeds '' @ Itoa64 (of_nat maxLineBytes) @ '' bytes'') 1 s
      else if depth > runDepthMax then refuse h (''script nesting exceeds '' @ Itoa64 (of_nat runDepthMax) @ '' levels'') 2 s
      else if isFuncDefLine line then run_definition h line s
      else if hasPrefix line ''for'' \<or> hasPrefix line ''while'' then run_ladder h tbl k run line depth s
      else bind_run (commandSubst run line depth s) (\<lambda>(line', act, s).
             if act \<noteq> ActionContinue then Ret (sh_status s, act, s)
             else run_ladder h tbl k run line' depth s))"

fun runLine :: "'w host \<Rightarrow> 'w table \<Rightarrow> nat \<Rightarrow> 'w runner" where
  "runLine h tbl 0 line depth s = Diverge"
| "runLine h tbl (Suc k) line depth s = line_step h tbl k (runLine h tbl k) line depth s"

definition RunLine :: "'w host \<Rightarrow> 'w table \<Rightarrow> nat \<Rightarrow> string \<Rightarrow> 'w shell \<Rightarrow> 'w result" where
  "RunLine h tbl k line s = runLine h tbl k line 0 s"

end
