(* ===== verification/ShellTools.thy ===== *)
theory ShellTools
  imports ShellEval "HOL-Library.Char_ord" "HOL-Library.List_Lexorder"
begin

text \<open>
  The command table: the builtins of \<^verbatim>\<open>shlib/builtins.go\<close> and the tools of \<^verbatim>\<open>shlib/toolbox.go\<close>. Each takes its
  arguments, the bound input (\<open>None\<close> for the nil slice), its sink and the shell; \<open>h\<close> is the host.
  \<open>lower\<close> stands for the library's \<^verbatim>\<open>strings.ToLower\<close>.
\<close>

type_synonym 'w sink = "string \<Rightarrow> 'w shell \<Rightarrow> 'w shell"

subsection \<open>Numbers\<close>

fun int_loop :: "int \<Rightarrow> string \<Rightarrow> int option" where
  "int_loop n [] = Some n"
| "int_loop n (c # s) =
     (if \<not> is_dec c then None
      else let n = n * 10 + int (of_char c - 48) in if n > 2 ^ 30 then None else int_loop n s)"

definition parseInt :: "string \<Rightarrow> int option" where
  "parseInt s =
     (let neg = (s \<noteq> [] \<and> hd s = CHR ''-'');
          ds = (if s \<noteq> [] \<and> hd s \<in> {CHR ''-'', CHR ''+''} then tl s else s)
      in if ds = [] then None else map_option (\<lambda>n. if neg then - n else n) (int_loop 0 ds))"

fun oct_loop :: "u16 \<Rightarrow> string \<Rightarrow> u16 option" where
  "oct_loop v [] = Some v"
| "oct_loop v (c # s) =
     (if (of_char c :: nat) < 48 \<or> (of_char c :: nat) > 55 then None
      else oct_loop (v * 8 + of_nat (of_char c - 48)) s)"

definition parseOctMode :: "string \<Rightarrow> u16 option" where
  "parseOctMode s =
     (if s = [] \<or> length s > 4 then None
      else case oct_loop 0 s of None \<Rightarrow> None | Some v \<Rightarrow> if v > 511 then None else Some v)"

subsection \<open>Builtins\<close>

definition bTrue :: "'w shell \<Rightarrow> u64 \<times> 'w shell" where "bTrue s = (0, s)"
definition bFalse :: "'w shell \<Rightarrow> u64 \<times> 'w shell" where "bFalse s = (1, s)"

definition bSource :: "string list \<Rightarrow> 'w sink \<Rightarrow> 'w shell \<Rightarrow> u64 \<times> 'w shell" where
  "bSource args out s =
     (if length args \<noteq> 1 then (2, out (''gosh: source: usage: source FILE'' @ nl) s)
      else (0, s\<lparr>sh_sourceReq := hd args\<rparr>))"

definition bBreak :: "'w shell \<Rightarrow> u64 \<times> 'w shell" where "bBreak s = (0, s\<lparr>sh_loopBreak := True\<rparr>)"
definition bContinue :: "'w shell \<Rightarrow> u64 \<times> 'w shell" where "bContinue s = (0, s\<lparr>sh_loopCont := True\<rparr>)"

definition principalKind :: "u32 \<Rightarrow> string" where
  "principalKind uid = (if uid = 0 then '' system'' else '' user'')"

definition bWhoami :: "'w host \<Rightarrow> 'w sink \<Rightarrow> 'w shell \<Rightarrow> u64 \<times> 'w shell" where
  "bWhoami h out s =
     (case h_Principal h (sh_world s) of
        None \<Rightarrow> (1, out (''whoami: no principal'' @ nl) s)
      | Some (uid, _) \<Rightarrow> (0, out (''uid='' @ Itoa64 (ucast uid) @ principalKind uid @ nl) s))"

definition bID :: "'w host \<Rightarrow> 'w sink \<Rightarrow> 'w shell \<Rightarrow> u64 \<times> 'w shell" where
  "bID h out s =
     (case h_Principal h (sh_world s) of
        None \<Rightarrow> (1, out (''id: no principal'' @ nl) s)
      | Some (uid, caps) \<Rightarrow>
          (0, out (''uid='' @ Itoa64 (ucast uid) @ principalKind uid @ '' caps='' @ Itoa64 (ucast caps) @ nl) s))"

definition bChmod :: "'w host \<Rightarrow> string list \<Rightarrow> 'w sink \<Rightarrow> 'w shell \<Rightarrow> u64 \<times> 'w shell" where
  "bChmod h args out s =
     (if length args < 2 then (1, out (''chmod: usage: chmod MODE FILE'' @ nl) s)
      else case parseOctMode (args ! 0) of
        None \<Rightarrow> (1, out (''chmod: invalid mode (use octal, e.g. 600)'' @ nl) s)
      | Some mode \<Rightarrow>
          (case h_Chmod h (args ! 1) mode (sh_world s) of
             (Some (OpenError p n), w) \<Rightarrow> (1, out (''chmod: '' @ p @ '': '' @ n @ nl) (s\<lparr>sh_world := w\<rparr>))
           | (Some (PlainError m), w) \<Rightarrow> (1, out (''chmod: '' @ args ! 1 @ '': '' @ m @ nl) (s\<lparr>sh_world := w\<rparr>))
           | (None, w) \<Rightarrow> (0, out (''chmod: ok'' @ nl) (s\<lparr>sh_world := w\<rparr>))))"

definition out_lines :: "'w sink \<Rightarrow> string list \<Rightarrow> 'w shell \<Rightarrow> 'w shell" where
  "out_lines out ls s = foldl (\<lambda>s l. out l s) s ls"

definition bSecrets :: "'w host \<Rightarrow> 'w sink \<Rightarrow> 'w shell \<Rightarrow> u64 \<times> 'w shell" where
  "bSecrets h out s =
     (case h_SecretNames h (sh_world s) of
        None \<Rightarrow> (1, out (''secrets: unavailable'' @ nl) s)
      | Some names \<Rightarrow>
          if names = [] then (0, out (''secrets: (none)'' @ nl) s)
          else (0, out_lines out (map (\<lambda>n. ''  '' @ n @ nl) names) s))"

definition bEcho :: "string list \<Rightarrow> 'w sink \<Rightarrow> 'w shell \<Rightarrow> u64 \<times> 'w shell" where
  "bEcho args out s =
     (let flag = (args \<noteq> [] \<and> hd args = ''-n'');
          s = out (join '' '' (if flag then tl args else args)) s
      in (0, if flag then s else out nl s))"

fun cat_loop :: "'w host \<Rightarrow> string list \<Rightarrow> 'w sink \<Rightarrow> 'w shell \<Rightarrow> u64 \<times> 'w shell" where
  "cat_loop h [] out s = (0, s)"
| "cat_loop h (f # fs) out s =
     (case readBounded h f s of
        (Inl TooLarge, s) \<Rightarrow> (1, out (''gosh: cat: '' @ f @ '': '' @ too_large_text @ nl) s)
      | (Inl (HostErr e), s) \<Rightarrow> (1, out (openDenial f e) s)
      | (Inr b, s) \<Rightarrow> cat_loop h fs out (out b s))"

definition bCat :: "'w host \<Rightarrow> string list \<Rightarrow> string option \<Rightarrow> 'w sink \<Rightarrow> 'w shell \<Rightarrow> u64 \<times> 'w shell" where
  "bCat h args stdin out s =
     (if args = [] then (0, out (case stdin of None \<Rightarrow> [] | Some b \<Rightarrow> b) s) else cat_loop h args out s)"

definition bPwd :: "'w sink \<Rightarrow> 'w shell \<Rightarrow> u64 \<times> 'w shell" where
  "bPwd out s = (0, out (value_of (sh_env s) ''PWD'' @ nl) s)"

definition bCd :: "'w host \<Rightarrow> string list \<Rightarrow> 'w sink \<Rightarrow> 'w shell \<Rightarrow> u64 \<times> 'w shell" where
  "bCd h args out s =
     (let target = (if args \<noteq> [] then hd args else ''/'') in
      case h_Chdir h target (sh_world s) of
        (Some (OpenError p n), w) \<Rightarrow> (1, out (''gosh: cd: '' @ p @ '': '' @ n @ nl) (s\<lparr>sh_world := w\<rparr>))
      | (Some (PlainError _), w) \<Rightarrow> (1, out (''gosh: cd: '' @ target @ '': not a directory'' @ nl) (s\<lparr>sh_world := w\<rparr>))
      | (None, w) \<Rightarrow> (0, s\<lparr>sh_world := w, sh_env := env_Set (sh_env s) ''PWD'' target\<rparr>))"

definition bEnv :: "'w sink \<Rightarrow> 'w shell \<Rightarrow> u64 \<times> 'w shell" where
  "bEnv out s = (0, out_lines out (map (\<lambda>v. ev_name v @ ''='' @ ev_val v @ nl) (sh_env s)) s)"

definition bPrintenv :: "string list \<Rightarrow> 'w sink \<Rightarrow> 'w shell \<Rightarrow> u64 \<times> 'w shell" where
  "bPrintenv args out s =
     (if args = [] then bEnv out s
      else let found = filter (\<lambda>n. env_Get (sh_env s) n \<noteq> None) args
           in (if length found < length args then 1 else 0,
               out_lines out (map (\<lambda>n. value_of (sh_env s) n @ nl) found) s))"

text \<open>The bytes before and after the first equals sign.\<close>

definition cut_eq :: "string \<Rightarrow> (string \<times> string) option" where
  "cut_eq a = cut_at ''='' a"

definition bSet :: "string list \<Rightarrow> 'w sink \<Rightarrow> 'w shell \<Rightarrow> u64 \<times> 'w shell" where
  "bSet args out s =
     (if args = [] then bEnv out s
      else if hd args = ''-o'' then (1, out (''gosh: set -o is not supported (no vi mode)'' @ nl) s)
      else case cut_eq (hd args) of
        Some (n, v) \<Rightarrow> if n = [] then (2, out (''gosh: set NAME=VALUE'' @ nl) s)
                       else (0, s\<lparr>sh_env := env_Set (sh_env s) n v\<rparr>)
      | None \<Rightarrow> (2, out (''gosh: set NAME=VALUE'' @ nl) s))"

definition bUnset :: "string list \<Rightarrow> 'w sink \<Rightarrow> 'w shell \<Rightarrow> u64 \<times> 'w shell" where
  "bUnset args out s =
     (if args = [] then (2, out (''gosh: unset NAME'' @ nl) s)
      else (0, s\<lparr>sh_env := snd (env_Unset (sh_env s) (hd args))\<rparr>))"

definition bExport :: "string list \<Rightarrow> 'w sink \<Rightarrow> 'w shell \<Rightarrow> u64 \<times> 'w shell" where
  "bExport args out s =
     (if args = [] then
        (0, out_lines out (map (\<lambda>v. ''export '' @ ev_name v @ ''='' @ ev_val v @ nl) (filter ev_exported (sh_env s))) s)
      else case cut_eq (hd args) of
        None \<Rightarrow>
          (case env_Export (sh_env s) (hd args) of
             (False, e) \<Rightarrow> (1, out (''gosh: export: '' @ hd args @ '': not set'' @ nl) s)
           | (True, e) \<Rightarrow> (0, s\<lparr>sh_env := e\<rparr>))
      | Some (n, v) \<Rightarrow>
          if n = [] then (2, out (''gosh: export NAME=VALUE'' @ nl) s)
          else (0, s\<lparr>sh_env := snd (env_Export (env_Set (sh_env s) n v) n)\<rparr>))"

definition trimSuffix :: "string \<Rightarrow> string \<Rightarrow> string" where
  "trimSuffix s p = (if length p \<le> length s \<and> drop (length s - length p) s = p then take (length s - length p) s else s)"

definition bRead :: "'w host \<Rightarrow> string list \<Rightarrow> string option \<Rightarrow> 'w sink \<Rightarrow> 'w shell \<Rightarrow> u64 \<times> 'w shell" where
  "bRead h args stdin out s =
     (if length args \<noteq> 1 then (2, out (''gosh: read VAR'' @ nl) s)
      else let (line, s) = (case stdin of
             Some b \<Rightarrow> (Some (takeWhile (\<lambda>c. c \<noteq> CHR 0x0A) b), s)
           | None \<Rightarrow> (case h_ReadTTYLine h (sh_world s) of (l, w) \<Rightarrow> (l, s\<lparr>sh_world := w\<rparr>)))
      in case line of
           None \<Rightarrow> (1, s)
         | Some l \<Rightarrow> (0, s\<lparr>sh_env := env_Set (sh_env s) (hd args) (trimSuffix l [CHR 0x0D])\<rparr>))"

definition job_line :: "job \<Rightarrow> string" where
  "job_line j = ''['' @ Itoa64 (j_N j) @ ''] Done: '' @ j_Display j @ '' (exit='' @ Itoa64 (j_Status j) @ '')'' @ nl"

fun jobs_loop :: "'w sink \<Rightarrow> job list \<Rightarrow> 'w shell \<Rightarrow> 'w shell" where
  "jobs_loop out [] s = s"
| "jobs_loop out (j # js) s =
     (if j_Done j then jobs_loop out js (removeJob (j_N j) (out (job_line j) s))
      else jobs_loop out js (out (''['' @ Itoa64 (j_N j) @ ''] running: '' @ j_Display j @ nl) s))"

definition bJobs :: "'w host \<Rightarrow> 'w sink \<Rightarrow> 'w shell \<Rightarrow> u64 \<times> 'w shell" where
  "bJobs h out s = (let s = ReapJobs h s in (0, jobs_loop out (sh_jobs s) s))"

text \<open>The polling loop of \<^verbatim>\<open>fg\<close>; it may wait for ever.\<close>

fun fg_loop :: "'w host \<Rightarrow> nat \<Rightarrow> u64 \<Rightarrow> 'w shell \<Rightarrow> (job \<times> 'w shell) run" where
  "fg_loop h 0 n s = Diverge"
| "fg_loop h (Suc k) n s =
     (case jobByN n s of
        None \<Rightarrow> Crash
      | Some j \<Rightarrow>
          if j_Done j then Ret (j, s)
          else let s = ReapJobs h s in
               case jobByN n s of
                 None \<Rightarrow> Crash
               | Some j \<Rightarrow> if j_Done j then Ret (j, s)
                           else fg_loop h k n (s\<lparr>sh_world := h_SleepTick h (sh_world s)\<rparr>))"

definition bFg :: "'w host \<Rightarrow> nat \<Rightarrow> string list \<Rightarrow> 'w sink \<Rightarrow> 'w shell \<Rightarrow> (u64 \<times> 'w shell) run" where
  "bFg h k args out s =
     (if length args \<noteq> 1 then Ret (2, out (''gosh: fg N'' @ nl) s)
      else case parseInt (trimPrefix (hd args) ''%'') of
        None \<Rightarrow> Ret (2, out (''gosh: fg N'' @ nl) s)
      | Some n \<Rightarrow>
          (case jobByN (word_of_int n) s of
             None \<Rightarrow> Ret (1, out (''fg: no such job'' @ nl) s)
           | Some _ \<Rightarrow>
               bind_run (fg_loop h k (word_of_int n) s) (\<lambda>(j, s).
                 Ret (j_Status j, removeJob (j_N j) (out (job_line j) s)))))"

definition bHistory :: "'w sink \<Rightarrow> 'w shell \<Rightarrow> u64 \<times> 'w shell" where
  "bHistory out s =
     (0, out_lines out (map (\<lambda>(i, e). Itoa64 (of_nat (i + 1)) @ ''  '' @ e @ nl) (zip [0..<length (sh_hist s)] (sh_hist s))) s)"

definition bExit :: "string list \<Rightarrow> 'w sink \<Rightarrow> 'w shell \<Rightarrow> u64 \<times> 'w shell" where
  "bExit args out s =
     (let s = s\<lparr>sh_exitReq := True\<rparr> in
      if args = [] then (sh_status s, s)
      else case parseInt (hd args) of
        Some n \<Rightarrow> (word_of_int n, s)
      | None \<Rightarrow> (2, out (''gosh: exit [status]'' @ nl) s))"

definition bMonitor :: "'w shell \<Rightarrow> u64 \<times> 'w shell" where
  "bMonitor s = (0, s\<lparr>sh_monitorRq := True\<rparr>)"

definition bSleep :: "'w host \<Rightarrow> string list \<Rightarrow> 'w sink \<Rightarrow> 'w shell \<Rightarrow> u64 \<times> 'w shell" where
  "bSleep h args out s =
     (if length args \<noteq> 1 then (2, out (''gosh: sleep SECONDS'' @ nl) s)
      else case parseInt (hd args) of
        None \<Rightarrow> (2, out (''gosh: sleep 0..60'' @ nl) s)
      | Some n \<Rightarrow>
          if n < 0 \<or> n > 60 then (2, out (''gosh: sleep 0..60'' @ nl) s)
          else if n > 0 then (0, s\<lparr>sh_world := h_SleepSeconds h (nat n) (sh_world s)\<rparr>)
          else (0, s))"

definition bClear :: "'w sink \<Rightarrow> 'w shell \<Rightarrow> u64 \<times> 'w shell" where
  "bClear out s = (0, out ([CHR 0x1B] @ ''[2J'' @ [CHR 0x1B] @ ''[H'') s)"

subsection \<open>The help catalog\<close>

record helpEntry =
  he_name :: string
  he_group :: string
  he_usage :: string
  he_blurb :: string
  he_notes :: string

abbreviation (input) help_row :: "string \<Rightarrow> string \<Rightarrow> string \<Rightarrow> string \<Rightarrow> string \<Rightarrow> helpEntry" where
  "help_row n g u b t \<equiv> \<lparr>he_name = n, he_group = g, he_usage = u, he_blurb = b, he_notes = t\<rparr>"

definition helpGroups :: "string list" where
  "helpGroups = [''shell'', ''files'', ''environment'', ''scripts'', ''jobs'', ''identity'']"

definition helpCatalog :: "helpEntry list" where
  "helpCatalog = [
     help_row (''clear'') (''shell'') (''clear'') (''clear the tty screen'') ([]),
     help_row (''echo'') (''shell'') (''echo [ARG...]'') (''write ARG... separated by single spaces and a newline'') (''The engine expands $VAR, ${VAR} and $? before echo runs.''),
     help_row (''exit'') (''shell'') (''exit [STATUS]'') (''leave GOSH with STATUS (the last status when omitted)'') ([]),
     help_row (''help'') (''shell'') (''help [CMD|GROUP]'') (''the grouped catalog, or one verb'' @ [CHR 0x27] @ ''s usage and description'') ([]),
     help_row (''history'') (''shell'') (''history'') (''list this session'' @ [CHR 0x27] @ ''s submitted lines, oldest first'') ([]),
     help_row (''monitor'') (''shell'') (''monitor'') (''hand the console back to the kernel monitor'') ([]),
     help_row (''cat'') (''files'') (''cat [FILE...]'') (''write FILE... (the bound stdin when none is named)'') ([]),
     help_row (''cd'') (''files'') (''cd [DIR]'') (''change the working directory (checked against the share)'') ([]),
     help_row (''pwd'') (''files'') (''pwd'') (''print the working directory'') ([]),
     help_row (''read'') (''files'') (''read VAR'') (''read one line into VAR, preferring the bound stdin'') ([]),
     help_row (''source'') (''files'') (''source FILE'') (''run FILE'' @ [CHR 0x27] @ ''s lines in this shell'') ([]),
     help_row (''.'') (''files'') (''. FILE'') (''run FILE'' @ [CHR 0x27] @ ''s lines in this shell (source)'') ([]),
     help_row (''env'') (''environment'') (''env'') (''list the environment as NAME=VALUE'') ([]),
     help_row (''printenv'') (''environment'') (''printenv [NAME...]'') (''print the named variables'' @ [CHR 0x27] @ '' values'') ([]),
     help_row (''set'') (''environment'') (''set [NAME=VALUE]'') (''set a variable, or list the environment'') ([CHR 0x60] @ ''set -o'' @ [CHR 0x60] @ '' is refused: this shell has one fixed editing model, no vi mode.''),
     help_row (''unset'') (''environment'') (''unset NAME'') (''remove one variable'') ([]),
     help_row (''export'') (''environment'') (''export [NAME=VALUE]'') (''set a variable and pass it to executed children'') ([]),
     help_row (''true'') (''scripts'') (''true'') (''succeed (status 0)'') ([]),
     help_row (''false'') (''scripts'') (''false'') (''fail (status 1)'') ([]),
     help_row (''break'') (''scripts'') (''break'') (''leave the innermost for/while loop'') ([]),
     help_row (''continue'') (''scripts'') (''continue'') (''skip to the innermost loop'' @ [CHR 0x27] @ ''s next iteration'') ([]),
     help_row (''jobs'') (''jobs'') (''jobs'') (''list the shell'' @ [CHR 0x27] @ ''s jobs (done jobs are reaped as they are shown)'') ([]),
     help_row (''fg'') (''jobs'') (''fg N'') (''bring job N to the foreground and wait for it'') ([]),
     help_row (''sleep'') (''jobs'') (''sleep SECONDS'') (''park the shell for SECONDS (0..60)'') ([]),
     help_row (''whoami'') (''identity'') (''whoami'') (''print the caller'' @ [CHR 0x27] @ ''s principal'') ([]),
     help_row (''id'') (''identity'') (''id'') (''print the caller'' @ [CHR 0x27] @ ''s principal and capability mask'') ([]),
     help_row (''chmod'') (''identity'') (''chmod MODE FILE'') (''owner-only mode change on FILE'') ([]),
     help_row (''secrets'') (''identity'') (''secrets'') (''list the caller'' @ [CHR 0x27] @ ''s store entry names (values stay in the kernel)'') ([]),
     help_row (''wc'') (''tools'') (''wc [-l|-w|-c] [FILE...]'') (''count lines, words and bytes'') ([]),
     help_row (''head'') (''tools'') (''head [-n LINES] [FILE...]'') (''write the first LINES of each input'') ([]),
     help_row (''tail'') (''tools'') (''tail [-n LINES] [FILE...]'') (''write the last LINES of each input'') ([]),
     help_row (''grep'') (''tools'') (''grep [-i] PATTERN [FILE...]'') (''write the lines that match PATTERN (-i folds case)'') ([]),
     help_row (''sort'') (''tools'') (''sort [-r] [-u] [FILE...]'') (''sort lines (-r reverses, -u removes duplicates)'') ([]),
     help_row (''cut'') (''tools'') (''cut -f LIST [-d C] [FILE...]'') (''select fields by LIST ('' @ [CHR 0x27] @ ''-d C'' @ [CHR 0x27] @ '' sets the delimiter, tab by default)'') ([]),
     help_row (''printf'') (''tools'') (''printf FORMAT [ARGS...]'') (''write FORMAT with %s/%d/%% substitutions and the escapes '' @ [CHR 0x5C] @ ''n '' @ [CHR 0x5C] @ ''t '' @ [CHR 0x5C] @ ''r '' @ [CHR 0x5C] @ ''e '' @ [CHR 0x5C] @ ''xHH '' @ [CHR 0x5C] @ [CHR 0x5C] @ '' '' @ [CHR 0x5C] @ ''0 (unknown escapes stay literal)'') ([]),
     help_row (''test'') (''tools'') (''test EXPR'') (''evaluate EXPR and set $? (no output)'') ([]),
     help_row (''['') (''tools'') (''[ EXPR ]'') (''evaluate EXPR and set $? (the closing ] is required)'') ([]),
     help_row (''exec'') (''externals'') (''exec NAME [args...]'') (''(& backgrounds it; jobs/fg track it)'') (''NAME resolves bare, then with .ELF and .BIN, case-insensitively, out of the share.''),
     help_row (''GOFETCH.ELF'') (''externals'') (''exec GOFETCH.ELF {https://HOST[:PORT]/ [sni [name|expired|chain]] | http://HOST[:PORT]/[PATH] | --download [URL [DEST]]}'') (''fetch a page over in-process TLS, or fetch/save one over cleartext HTTP (Go)'') (''An https URL is never rewritten to http. Cleartext fetch prints to the console (exit 42; 3 offline, 4 no route); --download saves the body to /host/DOWNLOAD.OUT (or DEST).''),
     help_row (''GOPING.ELF'') (''externals'') (''exec GOPING.ELF [-c count] <a.b.c.d>'') (''ICMP echo to a dotted IPv4 address (Go)'') (''Exits 2 when no IP is set and 3 when the destination is not ARP-resolved.''),
     help_row (''GONETSTAT.ELF'') (''externals'') (''exec GONETSTAT.ELF'') (''network interface and connection dashboard (Go)'') (''Refreshes interface, DHCP, TCP, UDP, ARP and counters on the app timer.''),
     help_row (''GODNS.ELF'') (''externals'') (''exec GODNS.ELF <hostname> [<server_ip>]'') (''resolve a DNS A record over UDP (Go)'') (''The default resolver is 10.0.0.2; lookup failures exit nonzero.''),
     help_row (''GOTRACEROUTE.ELF'') (''externals'') (''exec GOTRACEROUTE.ELF [-m max_attempts] [-q probes] [<ip>]'') (''bounded ICMP echo reachability probe (Go)'') (''The ICMP syscall reports echo replies only; this does not discover routes.''),
     help_row (''GOTGIT.ELF'') (''externals'') (''exec GOTGIT.ELF clone https://HOST[:PORT]/REPO [DIR]'') (''clone a git repository over in-process TLS (Go)'') (''Clone is the supported verb; the work tree lands on the share.'')]"

definition toolNames :: "string list" where
  "toolNames = sort [''wc'', ''head'', ''tail'', ''grep'', ''sort'', ''cut'', ''printf'', ''test'', ''['']"

definition helpGroupNames :: "string \<Rightarrow> string list" where
  "helpGroupNames g = sort (map he_name (filter (\<lambda>e. he_group e = g) helpCatalog))"

definition helpCatalogText :: string where
  "helpCatalogText = ''builtins:'' @ nl
     @ concat (map (\<lambda>g. ''  '' @ g @ '': '' @ join '' '' (helpGroupNames g) @ nl) (filter (\<lambda>g. helpGroupNames g \<noteq> []) helpGroups))
     @ ''tools: '' @ join '' '' toolNames @ nl
     @ ''externals: '' @ join '' '' (helpGroupNames ''externals'') @ nl
     @ ''subset: one pipe per line, > >> < redirects, $VAR ${VAR} $?'' @ nl
     @ ''help <cmd> for one verb, help <group> for one group'' @ nl"

definition em_dash :: string where "em_dash = [CHR 0xE2, CHR 0x80, CHR 0x94]"

definition helpOne :: "string \<Rightarrow> 'w sink \<Rightarrow> 'w shell \<Rightarrow> u64 \<times> 'w shell" where
  "helpOne name out s =
     (case find (\<lambda>e. he_name e = name) helpCatalog of
        Some e \<Rightarrow>
          (0, out (name @ '' '' @ em_dash @ '' '' @ he_blurb e @ nl @ ''usage: '' @ he_usage e @ nl
             @ (if he_notes e \<noteq> [] then he_notes e @ nl else [])) s)
      | None \<Rightarrow>
          if helpGroupNames name \<noteq> [] then (0, out (name @ '': '' @ join '' '' (helpGroupNames name) @ nl) s)
          else if name = ''tools'' then (0, out (''tools: '' @ join '' '' toolNames @ nl) s)
          else (1, out (''unknown command '' @ [CHR 0x27] @ name @ [CHR 0x27] @ '' '' @ em_dash @ '' try '' @ [CHR 0x27] @ ''help'' @ [CHR 0x27] @ nl) s))"

definition bHelp :: "string list \<Rightarrow> 'w sink \<Rightarrow> 'w shell \<Rightarrow> u64 \<times> 'w shell" where
  "bHelp args out s =
     (case args of
        [] \<Rightarrow> (0, out helpCatalogText s)
      | [name] \<Rightarrow> helpOne name out s
      | _ \<Rightarrow> (2, out (''usage: help [CMD|GROUP]'' @ nl @ ''  hint: try '' @ [CHR 0x27] @ ''help'' @ [CHR 0x27] @ '' for the grouped catalog'' @ nl) s))"

subsection \<open>Tools\<close>

text \<open>
  \<^verbatim>\<open>toolInput\<close>: the named files, or the bound input; the result is the status to leave with, or the
  bytes. \<open>args\<close> are the arguments of the tool, the first of which the messages name.
\<close>

fun input_loop :: "'w host \<Rightarrow> string list \<Rightarrow> string list \<Rightarrow> string \<Rightarrow> 'w sink \<Rightarrow> 'w shell \<Rightarrow> string option \<times> 'w shell" where
  "input_loop h args [] all out s = (Some all, s)"
| "input_loop h args (f # fs) all out s =
     (case readBounded h f s of
        (Inl TooLarge, s) \<Rightarrow> (None, out (''gosh: '' @ hd args @ '': '' @ f @ '': '' @ too_large_text @ nl) s)
      | (Inl (HostErr e), s) \<Rightarrow> (None, out (''gosh: '' @ hd args @ '': '' @ f @ '': not found'' @ nl) s)
      | (Inr b, s) \<Rightarrow> input_loop h args fs (all @ b) out s)"

definition toolInput :: "'w host \<Rightarrow> string list \<Rightarrow> string list \<Rightarrow> string option \<Rightarrow> 'w sink \<Rightarrow> 'w shell \<Rightarrow> string option \<times> 'w shell" where
  "toolInput h args files stdin out s =
     (if files = [] then (Some (case stdin of None \<Rightarrow> [] | Some b \<Rightarrow> b), s)
      else input_loop h args files [] out s)"

text \<open>A tool on its input: a failed read ends it with status 1.\<close>

definition with_input :: "'w host \<Rightarrow> string list \<Rightarrow> string list \<Rightarrow> string option \<Rightarrow> 'w sink \<Rightarrow> (string \<Rightarrow> 'w shell \<Rightarrow> u64 \<times> 'w shell) \<Rightarrow> 'w shell \<Rightarrow> u64 \<times> 'w shell" where
  "with_input h args files stdin out f s =
     (case toolInput h args files stdin out s of (None, s) \<Rightarrow> (1, s) | (Some b, s) \<Rightarrow> f b s)"

definition splitLines :: "string \<Rightarrow> string list" where
  "splitLines b = (let s = trimSuffix (crlf_to_lf b) nl in if s = [] then [] else split_lines s)"

text \<open>\<^verbatim>\<open>strings.Fields\<close>: the number of maximal runs without white space.\<close>

definition space_width :: "string \<Rightarrow> nat" where
  "space_width s =
     (if s \<noteq> [] \<and> hd s \<in> {CHR 0x09, CHR 0x0A, CHR 0x0B, CHR 0x0C, CHR 0x0D, CHR '' ''} then 1
      else if take 2 s \<in> set wide_spaces then 2
      else if take 3 s \<in> set wide_spaces then 3 else 0)"

function count_fields :: "bool \<Rightarrow> string \<Rightarrow> nat" where
  "count_fields inword s =
     (if s = [] then (if inword then 1 else 0)
      else if space_width s > 0 then (if inword then 1 else 0) + count_fields False (drop (space_width s) s)
      else count_fields True (tl s))"
  by pat_completeness auto
termination
  by (relation "measure (\<lambda>(w, s). length s)") auto

declare count_fields.simps [simp del]

definition wc_lines :: "string \<Rightarrow> nat" where
  "wc_lines b = (if b = [] then 0 else length (filter (\<lambda>c. c = CHR 0x0A) b) + (if last b \<noteq> CHR 0x0A then 1 else 0))"

fun wc_args :: "string \<Rightarrow> string list \<Rightarrow> string list \<Rightarrow> (string \<times> string list) option" where
  "wc_args mode files [] = Some (mode, files)"
| "wc_args mode files (a # as) =
     (if a \<in> {''-l'', ''-w'', ''-c''} then wc_args (tl a) files as
      else if hasPrefix a ''-'' then None
      else wc_args mode (files @ [a]) as)"

definition tWc :: "'w host \<Rightarrow> string list \<Rightarrow> string option \<Rightarrow> 'w sink \<Rightarrow> 'w shell \<Rightarrow> u64 \<times> 'w shell" where
  "tWc h args stdin out s =
     (case wc_args [] [] args of
        None \<Rightarrow> (2, out (''gosh: wc [-l|-w|-c] [FILE...]'' @ nl) s)
      | Some (mode, files) \<Rightarrow>
          with_input h args files stdin out (\<lambda>b s.
            let l = Itoa64 (of_nat (wc_lines b)); w = Itoa64 (of_nat (count_fields False b)); c = Itoa64 (of_nat (length b));
                parts = (if mode = ''l'' then [l] else if mode = ''w'' then [w] else if mode = ''c'' then [c] else [l, w, c])
            in (0, out (join '' '' parts @ (if length files = 1 then '' '' @ hd files else []) @ nl) s)) s)"

text \<open>The argument loop \<^verbatim>\<open>head\<close> and \<^verbatim>\<open>tail\<close> share.\<close>

fun lines_args :: "int \<Rightarrow> string list \<Rightarrow> string list \<Rightarrow> (int \<times> string list) option" where
  "lines_args n files [] = Some (n, files)"
| "lines_args n files [a] = (if hasPrefix a ''-'' then None else Some (n, files @ [a]))"
| "lines_args n files (a # v # as) =
     (if a = ''-n'' then (case parseInt v of None \<Rightarrow> None | Some k \<Rightarrow> if k < 0 then None else lines_args k files as)
      else if hasPrefix a ''-'' then None
      else lines_args n (files @ [a]) (v # as))"

definition out_joined :: "'w sink \<Rightarrow> string list \<Rightarrow> 'w shell \<Rightarrow> 'w shell" where
  "out_joined out ls s = (if ls \<noteq> [] then out (join nl ls @ nl) s else s)"

definition tHead :: "'w host \<Rightarrow> string list \<Rightarrow> string option \<Rightarrow> 'w sink \<Rightarrow> 'w shell \<Rightarrow> u64 \<times> 'w shell" where
  "tHead h args stdin out s =
     (case lines_args 10 [] args of
        None \<Rightarrow> (2, out (''gosh: head [-n LINES] [FILE...]'' @ nl) s)
      | Some (n, files) \<Rightarrow>
          with_input h args files stdin out (\<lambda>b s. (0, out_joined out (take (nat n) (splitLines b)) s)) s)"

definition tTail :: "'w host \<Rightarrow> string list \<Rightarrow> string option \<Rightarrow> 'w sink \<Rightarrow> 'w shell \<Rightarrow> u64 \<times> 'w shell" where
  "tTail h args stdin out s =
     (case lines_args 10 [] args of
        None \<Rightarrow> (2, out (''gosh: tail [-n LINES] [FILE...]'' @ nl) s)
      | Some (n, files) \<Rightarrow>
          with_input h args files stdin out (\<lambda>b s.
            let ls = splitLines b in (0, out_joined out (drop (length ls - nat n) ls) s)) s)"

fun grep_args :: "bool \<Rightarrow> string \<Rightarrow> string list \<Rightarrow> string list \<Rightarrow> (bool \<times> string \<times> string list) option" where
  "grep_args fo pat files [] = Some (fo, pat, files)"
| "grep_args fo pat files (a # as) =
     (if a = ''-i'' then grep_args True pat files as
      else if hasPrefix a ''-'' \<and> a \<noteq> ''-'' then None
      else if pat = [] then grep_args fo a files as
      else grep_args fo pat (files @ [a]) as)"

definition tGrep :: "(string \<Rightarrow> string) \<Rightarrow> 'w host \<Rightarrow> string list \<Rightarrow> string option \<Rightarrow> 'w sink \<Rightarrow> 'w shell \<Rightarrow> u64 \<times> 'w shell" where
  "tGrep lower h args stdin out s =
     (let usage = (2, out (''gosh: grep [-i] PATTERN [FILE...]'' @ nl) s) in
      case grep_args False [] [] args of
        None \<Rightarrow> usage
      | Some (fo, pat, files) \<Rightarrow>
          if pat = [] then usage
          else with_input h args files stdin out (\<lambda>b s.
            let case_of = (if fo then lower else id);
                hits = filter (\<lambda>l. cut_at (case_of pat) (case_of l) \<noteq> None) (splitLines b)
            in (if hits = [] then 1 else 0, out_lines out (map (\<lambda>l. l @ nl) hits) s)) s)"

fun sort_args :: "bool \<Rightarrow> bool \<Rightarrow> string list \<Rightarrow> string list \<Rightarrow> (bool \<times> bool \<times> string list) option" where
  "sort_args rv uniq files [] = Some (rv, uniq, files)"
| "sort_args rv uniq files (a # as) =
     (if a = ''-r'' then sort_args True uniq files as
      else if a = ''-u'' then sort_args rv True files as
      else if a \<in> {''-ru'', ''-ur''} then sort_args True True files as
      else if hasPrefix a ''-'' then None
      else sort_args rv uniq (files @ [a]) as)"

text \<open>
  \<^verbatim>\<open>dedup\<close> compacts in place: \<open>out\<close> is a prefix of the same array the loop reads, of length \<open>k\<close>.
\<close>

fun dedup_loop :: "nat \<Rightarrow> nat \<Rightarrow> nat \<Rightarrow> string list \<Rightarrow> string list" where
  "dedup_loop 0 i k a = take k a"
| "dedup_loop (Suc m) i k a =
     (if i = 0 \<or> a ! i \<noteq> a ! (i - 1) then dedup_loop m (Suc i) (Suc k) (a[k := a ! i])
      else dedup_loop m (Suc i) k a)"

definition dedup :: "string list \<Rightarrow> string list" where
  "dedup a = dedup_loop (length a) 0 0 a"

definition tSort :: "'w host \<Rightarrow> string list \<Rightarrow> string option \<Rightarrow> 'w sink \<Rightarrow> 'w shell \<Rightarrow> u64 \<times> 'w shell" where
  "tSort h args stdin out s =
     (case sort_args False False [] args of
        None \<Rightarrow> (2, out (''gosh: sort [-r] [-u] [FILE...]'' @ nl) s)
      | Some (rv, uniq, files) \<Rightarrow>
          with_input h args files stdin out (\<lambda>b s.
            let ls = sort (splitLines b);
                ls = (if uniq then dedup ls else ls)
            in (0, out_joined out (if rv then rev ls else ls) s)) s)"

fun split_on :: "char \<Rightarrow> string \<Rightarrow> string list" where
  "split_on d [] = [[]]"
| "split_on d (c # s) = (if c = d then [] # split_on d s else (c # hd (split_on d s)) # tl (split_on d s))"

fun fields_loop :: "int list \<Rightarrow> string list \<Rightarrow> int list option" where
  "fields_loop acc [] = Some acc"
| "fields_loop acc (p # ps) =
     (case cut_at ''-'' p of
        Some (lo, hi) \<Rightarrow>
          (case (parseInt lo, parseInt hi) of
             (Some a, Some b) \<Rightarrow> if a < 1 \<or> b < a then None else fields_loop (acc @ [a..b]) ps
           | _ \<Rightarrow> None)
      | None \<Rightarrow>
          (case parseInt p of
             Some n \<Rightarrow> if n < 1 then None else fields_loop (acc @ [n]) ps
           | None \<Rightarrow> None))"

definition parseFieldList :: "string \<Rightarrow> int list option" where
  "parseFieldList s = fields_loop [] (split_on CHR '','' s)"

definition cut_usage :: string where "cut_usage = ''gosh: cut -f LIST [-d C] [FILE...]'' @ nl"

fun cut_args :: "char \<Rightarrow> int list \<Rightarrow> string list \<Rightarrow> string list \<Rightarrow> string + (char \<times> int list \<times> string list)" where
  "cut_args d fl files [] = Inr (d, fl, files)"
| "cut_args d fl files [a] = (if hasPrefix a ''-'' then Inl cut_usage else Inr (d, fl, files @ [a]))"
| "cut_args d fl files (a # v # as) =
     (if a = ''-d'' then (if v = [] then Inl (''gosh: cut: -d needs one delimiter character'' @ nl) else cut_args (hd v) fl files as)
      else if a = ''-f'' then (case parseFieldList v of None \<Rightarrow> Inl cut_usage | Some l \<Rightarrow> cut_args d l files as)
      else if hasPrefix a ''-'' then Inl cut_usage
      else cut_args d fl (files @ [a]) (v # as))"

text \<open>\<^verbatim>\<open>string(delim)\<close> of a byte is the UTF-8 encoding of the code point with that number.\<close>

definition string_of_byte :: "char \<Rightarrow> string" where
  "string_of_byte c = (let n = of_char c :: nat in if n < 128 then [c] else [char_of (192 + n div 64), char_of (128 + n mod 64)])"

fun split_str :: "nat \<Rightarrow> string \<Rightarrow> string \<Rightarrow> string list" where
  "split_str 0 d s = [s]"
| "split_str (Suc k) d s = (case cut_at d s of None \<Rightarrow> [s] | Some (a, b) \<Rightarrow> a # split_str k d b)"

definition select_fields :: "string \<Rightarrow> int list \<Rightarrow> string \<Rightarrow> string" where
  "select_fields d fl line =
     (let parts = split_str (length line) d line
      in join d (map (\<lambda>f. parts ! (nat f - 1)) (filter (\<lambda>f. 1 \<le> f \<and> f \<le> int (length parts)) fl)))"

definition tCut :: "'w host \<Rightarrow> string list \<Rightarrow> string option \<Rightarrow> 'w sink \<Rightarrow> 'w shell \<Rightarrow> u64 \<times> 'w shell" where
  "tCut h args stdin out s =
     (case cut_args CHR 0x09 [] [] args of
        Inl m \<Rightarrow> (2, out m s)
      | Inr (d, fl, files) \<Rightarrow>
          if fl = [] then (2, out cut_usage s)
          else with_input h args files stdin out (\<lambda>b s.
            (0, out_lines out (map (\<lambda>l. select_fields (string_of_byte d) fl l @ nl) (splitLines b)) s)) s)"

definition hex_nibble :: "char \<Rightarrow> nat option" where
  "hex_nibble c =
     (let n = of_char c in
      if 48 \<le> n \<and> n \<le> 57 then Some (n - 48)
      else if 97 \<le> n \<and> n \<le> 102 then Some (n - 97 + 10)
      else if 65 \<le> n \<and> n \<le> 70 then Some (n - 65 + 10)
      else None)"

text \<open>\<^verbatim>\<open>printfHexNibble\<close> at the head of the rest of the format.\<close>

definition printfHexNibble :: "string \<Rightarrow> nat option" where
  "printfHexNibble s = (case s of [] \<Rightarrow> None | c # _ \<Rightarrow> hex_nibble c)"

definition hex_pair :: "string \<Rightarrow> char option" where
  "hex_pair s =
     (case (printfHexNibble s, printfHexNibble (drop 1 s)) of
        (Some hi, Some lo) \<Rightarrow> Some (char_of (hi * 16 + lo))
      | _ \<Rightarrow> None)"

fun printf_loop :: "string list \<Rightarrow> nat \<Rightarrow> string \<Rightarrow> string" where
  "printf_loop argv 0 f = []"
| "printf_loop argv (Suc k) [] = []"
| "printf_loop argv (Suc k) (c # f) =
     (if c = CHR 0x5C then
        (case f of
           [] \<Rightarrow> []
         | e # f' \<Rightarrow>
             if e = CHR ''n'' then CHR 0x0A # printf_loop argv k f'
             else if e = CHR ''t'' then CHR 0x09 # printf_loop argv k f'
             else if e = CHR ''r'' then CHR 0x0D # printf_loop argv k f'
             else if e = CHR ''e'' then CHR 0x1B # printf_loop argv k f'
             else if e = CHR ''x'' then
               (case hex_pair f' of
                  Some b \<Rightarrow> b # printf_loop argv k (drop 2 f')
                | None \<Rightarrow> CHR 0x5C # CHR ''x'' # printf_loop argv k f')
             else if e = CHR ''0'' then CHR 0x00 # printf_loop argv k f'
             else if e = CHR 0x5C then CHR 0x5C # printf_loop argv k f'
             else CHR 0x5C # e # printf_loop argv k f')
      else if c = CHR ''%'' then
        (case f of
           [] \<Rightarrow> []
         | e # f' \<Rightarrow>
             if e = CHR ''%'' then CHR ''%'' # printf_loop argv k f'
             else if e = CHR ''s'' then
               (case argv of [] \<Rightarrow> printf_loop argv k f' | a # as \<Rightarrow> a @ printf_loop as k f')
             else if e = CHR ''d'' then
               (case argv of
                  [] \<Rightarrow> printf_loop argv k f'
                | a # as \<Rightarrow> (case parseInt a of Some n \<Rightarrow> Itoa64 (word_of_int n) | None \<Rightarrow> []) @ printf_loop as k f')
             else CHR ''%'' # e # printf_loop argv k f')
      else c # printf_loop argv k f)"

definition tPrintf :: "string list \<Rightarrow> 'w sink \<Rightarrow> 'w shell \<Rightarrow> u64 \<times> 'w shell" where
  "tPrintf args out s =
     (case args of
        [] \<Rightarrow> (2, out (''gosh: printf FORMAT [ARGS...]'' @ nl) s)
      | f # argv \<Rightarrow> (0, out (printf_loop argv (length f) f) s))"

definition exists_file :: "'w host \<Rightarrow> string \<Rightarrow> 'w shell \<Rightarrow> bool \<times> 'w shell" where
  "exists_file h p s = (case h_ReadFile h p 1 (sh_world s) of (Inl _, w) \<Rightarrow> (False, s\<lparr>sh_world := w\<rparr>) | (Inr _, w) \<Rightarrow> (True, s\<lparr>sh_world := w\<rparr>))"

definition compare_ints :: "string \<Rightarrow> int \<Rightarrow> int \<Rightarrow> bool" where
  "compare_ints oper x y =
     (if oper = ''-eq'' then x = y else if oper = ''-ne'' then x \<noteq> y else if oper = ''-lt'' then x < y
      else if oper = ''-le'' then x \<le> y else if oper = ''-gt'' then x > y else x \<ge> y)"

text \<open>\<^verbatim>\<open>eval\<close> inside \<^verbatim>\<open>tTest\<close>: the truth value, \<open>None\<close> for an unsupported expression.\<close>

definition eval_test :: "'w host \<Rightarrow> string list \<Rightarrow> 'w shell \<Rightarrow> bool option \<times> 'w shell" where
  "eval_test h a s =
     (case a of
        [x] \<Rightarrow> (Some (x \<noteq> []), s)
      | [f, x] \<Rightarrow>
          if f = ''-n'' then (Some (x \<noteq> []), s)
          else if f = ''-z'' then (Some (x = []), s)
          else if f = ''-e'' then (case exists_file h x s of (v, s) \<Rightarrow> (Some v, s))
          else if f = ''!'' then (Some (\<not> (x \<noteq> [])), s)
          else (None, s)
      | [x, oper, y] \<Rightarrow>
          if oper = ''='' then (Some (x = y), s)
          else if oper = ''!='' then (Some (x \<noteq> y), s)
          else if oper \<in> {''-eq'', ''-ne'', ''-lt'', ''-le'', ''-gt'', ''-ge''} then
            (case (parseInt x, parseInt y) of (Some i, Some j) \<Rightarrow> (Some (compare_ints oper i j), s) | _ \<Rightarrow> (None, s))
          else if oper = ''-e'' then (case exists_file h y s of (v, s) \<Rightarrow> (Some v, s))
          else (None, s)
      | _ \<Rightarrow> (None, s))"

definition tTest :: "'w host \<Rightarrow> string \<Rightarrow> string list \<Rightarrow> 'w sink \<Rightarrow> 'w shell \<Rightarrow> u64 \<times> 'w shell" where
  "tTest h name args out s =
     (if name = ''['' \<and> (args = [] \<or> last args \<noteq> '']'') then (2, out (''gosh: [: missing ]'' @ nl) s)
      else case eval_test h (if name = ''['' then butlast args else args) s of
        (None, s) \<Rightarrow> (2, out (''gosh: test: unsupported expression'' @ nl) s)
      | (Some v, s) \<Rightarrow> (if v then 0 else 1, s))"

subsection \<open>The table\<close>

text \<open>The two maps of the package, \<^verbatim>\<open>builtins\<close> first, as one table.\<close>

definition gosh_names :: "string list" where
  "gosh_names = [''echo'', ''cat'', ''pwd'', ''cd'', ''env'', ''printenv'', ''set'', ''unset'', ''export'', ''read'', ''jobs'', ''fg'',
     ''history'', ''help'', ''exit'', ''monitor'', ''sleep'', ''clear'', ''whoami'', ''id'', ''chmod'', ''secrets'', ''true'', ''false'',
     ''source'', ''.'', ''break'', ''continue'', ''wc'', ''head'', ''tail'', ''grep'', ''sort'', ''cut'', ''printf'', ''test'', ''['']"

definition gosh_cmd :: "(string \<Rightarrow> string) \<Rightarrow> 'w host \<Rightarrow> 'w cmd" where
  "gosh_cmd lower h k name args stdin out s =
     (if name = ''fg'' then bFg h k args out s
      else Ret (if name = ''echo'' then bEcho args out s else if name = ''cat'' then bCat h args stdin out s
        else if name = ''pwd'' then bPwd out s else if name = ''cd'' then bCd h args out s
        else if name = ''env'' then bEnv out s else if name = ''printenv'' then bPrintenv args out s
        else if name = ''set'' then bSet args out s else if name = ''unset'' then bUnset args out s
        else if name = ''export'' then bExport args out s else if name = ''read'' then bRead h args stdin out s
        else if name = ''jobs'' then bJobs h out s else if name = ''history'' then bHistory out s
        else if name = ''help'' then bHelp args out s else if name = ''exit'' then bExit args out s
        else if name = ''monitor'' then bMonitor s else if name = ''sleep'' then bSleep h args out s
        else if name = ''clear'' then bClear out s else if name = ''whoami'' then bWhoami h out s
        else if name = ''id'' then bID h out s else if name = ''chmod'' then bChmod h args out s
        else if name = ''secrets'' then bSecrets h out s else if name = ''true'' then bTrue s
        else if name = ''false'' then bFalse s else if name \<in> {''source'', ''.''} then bSource args out s
        else if name = ''break'' then bBreak s else if name = ''continue'' then bContinue s
        else if name = ''wc'' then tWc h args stdin out s else if name = ''head'' then tHead h args stdin out s
        else if name = ''tail'' then tTail h args stdin out s else if name = ''grep'' then tGrep lower h args stdin out s
        else if name = ''sort'' then tSort h args stdin out s else if name = ''cut'' then tCut h args stdin out s
        else if name = ''printf'' then tPrintf args out s else tTest h name args out s))"

definition gosh_table :: "(string \<Rightarrow> string) \<Rightarrow> 'w host \<Rightarrow> 'w table" where
  "gosh_table lower h name = (if name \<in> set gosh_names then Some (gosh_cmd lower h) else None)"

end
