(* ===== verification/ShellParts.thy ===== *)
theory ShellParts
  imports ShellTools "HOL-Library.Sublist"
begin

text \<open>
  What the parsers hand to the evaluator are parts of the line they were given: sublists of it, and
  shorter than it wherever the evaluator calls itself at the same depth.
\<close>

named_theorems part_intros

lemma part_trans: "sublist a b \<Longrightarrow> sublist b c \<Longrightarrow> sublist a c"
  by (rule sublist_order.order_trans)

lemma part_refl [part_intros]: "sublist a a" by simp

lemma part_take [part_intros]: "sublist a s \<Longrightarrow> sublist (take n a) s"
  by (meson part_trans sublist_take)

lemma part_drop [part_intros]: "sublist a s \<Longrightarrow> sublist (drop n a) s"
  by (meson part_trans sublist_drop)

lemma part_dropWhile [part_intros]: "sublist a s \<Longrightarrow> sublist (dropWhile P a) s"
  by (metis dropWhile_eq_drop part_drop)

lemma part_takeWhile [part_intros]: "sublist a s \<Longrightarrow> sublist (takeWhile P a) s"
  by (metis takeWhile_eq_take part_take)

lemma part_rev_dropWhile [part_intros]: "sublist a s \<Longrightarrow> sublist (rev (dropWhile P (rev a))) s"
proof -
  assume "sublist a s"
  moreover have "sublist (rev (dropWhile P (rev a))) a"
    using part_dropWhile [of "rev a" "rev a" P] by (metis sublist_rev rev_rev_ident part_refl)
  ultimately show ?thesis by (rule part_trans [rotated])
qed

lemma part_trimSpace [part_intros]: "sublist a s \<Longrightarrow> sublist (trimSpace a) s"
  unfolding trimSpace_def trimStart_def trimEnd_def by (intro part_intros)

lemma part_butlast: "sublist a s \<Longrightarrow> sublist (butlast a) s"
  by (metis butlast_conv_take part_take)

lemma part_semi_loop [part_intros]: "sublist a s \<Longrightarrow> sublist (semi_loop a) s"
proof (induction a rule: semi_loop.induct)
  case (1 v)
  then show ?case by (subst semi_loop.simps) (auto intro: part_trimSpace part_butlast)
qed

lemma part_trimSemi [part_intros]: "sublist a s \<Longrightarrow> sublist (trimSemi a) s"
  unfolding trimSemi_def by (intro part_intros)

lemma part_strip [part_intros]: "sublist (stripPrefix line kw) line"
  unfolding stripPrefix_def by (auto intro: part_intros)

lemma part_skip [part_intros]: "sublist a s \<Longrightarrow> sublist (skipWordAndSpace a) s"
  unfolding skipWordAndSpace_def by (intro part_intros)

lemma part_length: "sublist a s \<Longrightarrow> length a \<le> length s"
  by (rule sublist_length_le)

lemma strip_shorter: "hasPrefix line kw \<Longrightarrow> kw \<noteq> [] \<Longrightarrow> length (stripPrefix line kw) < length line"
  by (cases line) (auto simp: stripPrefix_def hasPrefix_def)

definition part_of :: "string \<Rightarrow> string \<Rightarrow> bool" where
  "part_of a line \<longleftrightarrow> sublist a line \<and> length a < length line"

text \<open>A part of the line after its keyword.\<close>

lemma part_of_strip: "sublist a (stripPrefix line kw) \<Longrightarrow> hasPrefix line kw \<Longrightarrow> kw \<noteq> [] \<Longrightarrow> part_of a line"
  unfolding part_of_def using part_trans [OF _ part_strip] part_length strip_shorter le_less_trans by blast

lemma part_of_piece: "sublist a b \<Longrightarrow> part_of b line \<Longrightarrow> part_of a line"
  unfolding part_of_def using part_trans part_length le_less_trans by blast

lemma parseIf_parts:
  "parseIf line = Is c \<Longrightarrow> part_of (if_cond c) line \<and> part_of (if_then c) line \<and> (if_hasElse c \<longrightarrow> part_of (if_else c) line)"
  unfolding parseIf_def Let_def
  by (auto split: if_splits option.splits intro!: part_of_strip [of _ line "''if''"] part_intros)

lemma parseFor_parts: "parseFor line = Is f \<Longrightarrow> part_of (for_body f) line"
  unfolding parseFor_def Let_def
  by (auto split: if_splits option.splits intro!: part_of_strip [of _ line "''for''"] part_intros)

lemma parseWhile_parts: "parseWhile line = Is c \<Longrightarrow> part_of (wh_cond c) line \<and> part_of (wh_body c) line"
  unfolding parseWhile_def Let_def
  by (auto split: if_splits option.splits intro!: part_of_strip [of _ line "''while''"] part_intros)

lemma cut_at_parts: "cut_at w s = Some (a, b) \<Longrightarrow> s = a @ w @ b"
proof (induction w s arbitrary: a rule: cut_at.induct)
  case (2 w c s)
  show ?case
  proof (cases "take (length w) (c # s) = w")
    case True
    then show ?thesis using 2(2) append_take_drop_id [of "length w" "c # s"] by auto
  next
    case False
    then show ?thesis using 2 by (auto split: if_splits)
  qed
qed (auto split: if_splits)

lemma arms_parts:
  "arms_loop arms s = Some arms' \<Longrightarrow> sublist s line \<Longrightarrow> list_all (\<lambda>m. sublist (arm_body m) line) arms \<Longrightarrow>
   list_all (\<lambda>m. sublist (arm_body m) line) arms'"
proof (induction arms s rule: arms_loop.induct)
  case (1 arms s)
  show ?case
  proof (cases "dropWhile sepByte s")
    case Nil
    show ?thesis using 1(2,4) arms_loop.simps [of arms s, unfolded Nil list.case] by simp
  next
    case (Cons c r)
    have cr: "sublist (c # r) line" using part_dropWhile [OF 1(3), of sepByte] Cons by simp
    show ?thesis
    proof (cases "cut_at '')'' (c # r)")
      case None
      show ?thesis using 1(2,4) arms_loop.simps [of arms s, unfolded Cons list.case None option.case] by simp
    next
      case (Some x)
      obtain pat b where x: "x = (pat, b)" by (cases x)
      have "sublist b (c # r)" using cut_at_parts [of "'')''" "c # r" pat b] Some x by (metis append.assoc sublist_append_leftI)
      then have b: "sublist b line" using cr part_trans by blast
      show ?thesis
      proof (cases "length arms \<ge> caseArmMax")
        case True
        then show ?thesis using 1(2) arms_loop.simps [of arms s, unfolded Cons list.case Some x option.case prod.case] by simp
      next
        case False
        note unf = arms_loop.simps [of arms s, unfolded Cons list.case Some x option.case prod.case]
        show ?thesis
        proof (cases "cut_at '';;'' b")
          case None
          then show ?thesis using 1(2,4) False b unf by (auto intro: part_intros)
        next
          case s: (Some y)
          obtain body s' where y: "y = (body, s')" by (cases y)
          have "b = body @ '';;'' @ s'" using cut_at_parts s y by blast
          then have p: "sublist body line" "sublist s' line" using b part_trans by (metis sublist_append_rightI, metis append.assoc sublist_append_leftI)
          show ?thesis
          proof (rule 1(1) [OF Cons Some x [symmetric] False s y [symmetric]])
            show "arms_loop (arms @ [\<lparr>arm_pattern = trimSpace pat, arm_body = trimSemi body\<rparr>]) s' = Some arms'"
              using 1(2) unf False s y by simp
          qed (use p 1(4) in \<open>auto intro: part_intros\<close>)
        qed
      qed
    qed
  qed
qed

lemma parseCase_parts: "parseCase line = Is c \<Longrightarrow> list_all (\<lambda>m. part_of (arm_body m) line) (case_arms c)"
proof -
  assume c: "parseCase line = Is c"
  then have pre: "hasPrefix line ''case''" by (simp add: parseCase_def split: if_splits)
  obtain i where "arms_loop [] (trimSemi (take i (drop (the (findKeyword (stripPrefix line ''case'') ''in'') + 2) (stripPrefix line ''case'')))) = Some (case_arms c)"
    using c unfolding parseCase_def Let_def by (auto split: if_splits option.splits)
  from arms_parts [OF this, of "stripPrefix line ''case''"] have "list_all (\<lambda>m. sublist (arm_body m) (stripPrefix line ''case'')) (case_arms c)"
    by (simp add: part_intros)
  then show ?thesis using part_of_strip [OF _ pre] by (simp add: list_all_iff)
qed

lemma pieces_parts: "list_all (\<lambda>c. sublist c line) ps \<Longrightarrow> list_all (\<lambda>c. sublist c line) (pieces ps)"
  by (induction ps) (auto intro: part_intros)

lemma split_semi_parts: "list_all (\<lambda>c. sublist c s) (split_semi s) \<and> prefix (hd (split_semi s)) s"
proof (induction s)
  case (Cons c s)
  have "list_all (\<lambda>p. sublist p s) (tl (split_semi s))" using Cons by (cases "split_semi s") auto
  then have "list_all (\<lambda>p. sublist p (c # s)) (tl (split_semi s))" "list_all (\<lambda>p. sublist p (c # s)) (split_semi s)"
    using Cons by (auto simp: list_all_iff sublist_Cons_right)
  then show ?case using Cons by (auto intro: prefix_imp_sublist)
qed simp

lemma commands_parts: "list_all (\<lambda>c. sublist c body) (commands_of body)"
  unfolding commands_of_def using pieces_parts split_semi_parts by blast

lemma split_bounded: "splitCommands body = Some cmds \<Longrightarrow> cmds = commands_of body"
  using split_loop_spec [of "[]" "[]" body] by (auto simp: splitCommands_def commands_of_def bounded_def simp del: pieces.simps split: if_splits)

subsection \<open>Chains\<close>

lemma chain_loop_parts:
  "chain_loop d q x seg segs ops s = Some (segs', ops') \<Longrightarrow>
   \<exists>new. segs' = segs @ new \<and> list_all (\<lambda>g. sublist g (seg @ s)) new
     \<and> (length ops' > length ops \<longrightarrow> list_all (\<lambda>g. length g < length (seg @ s)) new) \<and> length ops' \<ge> length ops"
proof (induction d q x seg segs ops s rule: chain_loop.induct)
  case (1 d q x seg segs ops)
  then show ?case by (auto simp: chain_loop.simps intro: part_intros)
next
  case (2 d q x seg segs ops c s)
  show ?case
  proof (cases "x \<or> (c = CHR 0x5C \<and> \<not> q) \<or> (c = CHR 0x27 \<and> \<not> d) \<or> (c = CHR 0x22 \<and> \<not> q) \<or> q \<or> d \<or> chain_op c s = None")
    case True
    then show ?thesis using 2(1-6,8) by (auto simp: chain_loop.simps(2) split: if_splits)
  next
    case False
    then obtain p s' where p: "chain_op c s = Some (p, s')" by (cases "chain_op c s") auto
    have n: "\<not> x" "\<not> (c = CHR 0x5C \<and> \<not> q)" "\<not> (c = CHR 0x27 \<and> \<not> d)" "\<not> (c = CHR 0x22 \<and> \<not> q)" "\<not> (q \<or> d)"
      using False by auto
    have lt: "\<not> length segs \<ge> chainMax - 1"
      and rec: "chain_loop d q x [] (segs @ [trimSpace seg]) (ops @ [p]) s' = Some (segs', ops')"
      using 2(8) n p by (auto simp: chain_loop.simps(2) split: if_splits)
    obtain new where new: "segs' = (segs @ [trimSpace seg]) @ new" "list_all (\<lambda>g. sublist g s') new" "length ops' \<ge> Suc (length ops)"
      using 2(7) [OF n p refl lt rec] by auto
    have s': "suffix s' s" using p by (auto simp: chain_op_def suffix_tl split: if_splits)
    then have "sublist s' s" "length s' \<le> length s" by (auto dest: suffix_length_le)
    then have "list_all (\<lambda>g. sublist g (seg @ c # s) \<and> length g < length (seg @ c # s)) new"
      using new(2) part_length part_trans by (fastforce simp: list_all_iff sublist_append sublist_Cons_right)
    moreover have "sublist (trimSpace seg) (seg @ c # s)" "length (trimSpace seg) < length (seg @ c # s)"
      using trimSpace_le [of seg] by (auto intro: part_intros)
    ultimately show ?thesis using new(1,3)
      by (intro exI [of _ "trimSpace seg # new"]) (auto simp: list_all_iff)
  qed
qed

lemma chainSplit_parts: "chainSplit line = Some (segs, ops) \<Longrightarrow> ops \<noteq> [] \<Longrightarrow> list_all (\<lambda>g. part_of g line) segs"
  using chain_loop_parts [of False False False "[]" "[]" "[]" line segs ops]
  by (auto simp: chainSplit_def part_of_def list_all_iff)

subsection \<open>Functions and sourced files\<close>

lemma parseFuncDef_parts: "parseFuncDef r = Some d \<Longrightarrow> sublist (fd_body d) r"
proof -
  assume d: "parseFuncDef r = Some d"
  have args: "sublist (snd (args_loop names s)) t" if "sublist s t" for names s t
    using that
  proof (induction names s rule: args_loop.induct)
    case (1 names s)
    show ?case
    proof (cases "s = [] \<or> hd s = CHR '')'' \<or> length names \<ge> funcArgMax")
      case True
      then show ?thesis using 1(2) by (subst args_loop.simps) simp
    next
      case False
      then show ?thesis using 1(1) [OF False refl refl refl] 1(2) by (subst args_loop.simps) (simp add: Let_def part_intros)
    qed
  qed
  define ends where "ends = (\<lambda>c. c = CHR '' '' \<or> c = CHR ''('' \<or> c = CHR ''{'')"
  define q where "q = dropWhile (\<lambda>c. \<not> ends c) r"
  have q: "sublist q r" unfolding q_def by (intro part_intros)
  have tl: "sublist a r \<Longrightarrow> sublist (tl a) r" for a by (metis drop_Suc drop0 part_drop)
  define X where "X = (if q \<noteq> [] \<and> hd q = CHR ''('' then
      (let (names, r') = args_loop [] (tl q) in (names, if r' \<noteq> [] \<and> hd r' = CHR '')'' then tl r' else r')) else ([], q))"
  define w where "w = snd X"
  have w: "sublist w r" unfolding w_def X_def using q args [OF tl [OF q], of "[]"] tl by (auto simp: Let_def split_beta)
  let ?name = "takeWhile (\<lambda>c. \<not> ends c) r"
  let ?body = "\<lambda>b. trimSpace (case dropWhile (\<lambda>c. c \<noteq> CHR ''}'') (rev (dropWhile isSpaceByte b)) of [] \<Rightarrow> dropWhile isSpaceByte b | _ # u \<Rightarrow> rev u)"
  have unf: "parseFuncDef r = (if ?name = [] \<or> length ?name > funcNameMax then None
      else case dropWhile (\<lambda>c. c \<noteq> CHR ''{'') w of [] \<Rightarrow> None
        | _ # b \<Rightarrow> if ?body b = [] then None else Some \<lparr>fd_name = ?name, fd_argNames = fst X, fd_body = ?body b\<rparr>)"
    unfolding parseFuncDef_def w_def X_def q_def ends_def Let_def by (simp only: split_beta)
  obtain x b where b: "dropWhile (\<lambda>c. c \<noteq> CHR ''{'') w = x # b"
  proof (cases "dropWhile (\<lambda>c. c \<noteq> CHR ''{'') w")
    case Nil
    have "parseFuncDef r = None" unfolding unf Nil by simp
    then show ?thesis using d by simp
  qed (rule that)
  have body: "fd_body d = ?body b"
    using d unfolding unf b list.case by (simp only: split: if_splits) auto
  have "sublist (x # b) r" using part_dropWhile [OF w] b by metis
  then have "sublist (dropWhile isSpaceByte b) r" using tl by (fastforce intro: part_intros)
  moreover have "sublist (rev u) (dropWhile isSpaceByte b)" if "dropWhile (\<lambda>c. c \<noteq> CHR ''}'') (rev (dropWhile isSpaceByte b)) = y # u" for y u
  proof -
    have "sublist u (rev (dropWhile isSpaceByte b))" using that by (metis part_dropWhile part_refl sublist_tl part_trans list.sel(3))
    then show ?thesis by (simp add: sublist_rev_left)
  qed
  ultimately show ?thesis using part_trans unfolding body by (intro part_trimSpace) (auto split: list.splits)
qed

end
