(* ===== verification/ShellRun.thy ===== *)
theory ShellRun
  imports ShellParts
begin

text \<open>
  What every run of the evaluator keeps, and when it returns, proved once for an arbitrary command table
  in a locale: \<open>J\<close> is an invariant of the shell state that depends on the variables, functions and jobs,
  \<open>L\<close> a property of lines that every part of a line inherits. \<open>dv\<close> says whether running out of fuel is
  allowed, so the same rules give preservation and termination.
\<close>

definition ok_run :: "bool \<Rightarrow> ('a \<Rightarrow> bool) \<Rightarrow> 'a run \<Rightarrow> bool" where
  "ok_run dv P m = (case m of Ret x \<Rightarrow> P x | Diverge \<Rightarrow> dv | Crash \<Rightarrow> True)"

lemma ok_run_simps [simp]: "ok_run dv P (Ret x) = P x" "ok_run dv P Diverge = dv" "ok_run dv P Crash"
  by (simp_all add: ok_run_def)

lemma ok_bind: "ok_run dv P m \<Longrightarrow> (\<And>x. P x \<Longrightarrow> ok_run dv Q (f x)) \<Longrightarrow> ok_run dv Q (bind_run m f)"
  by (cases m) auto

lemma ok_bind3:
  "ok_run dv (\<lambda>(a, b, s). P s) m \<Longrightarrow> (\<And>a b s. P s \<Longrightarrow> ok_run dv Q (f a b s)) \<Longrightarrow> ok_run dv Q (bind_run m (\<lambda>(a, b, s). f a b s))"
  by (cases m) auto

lemma ok_bind4:
  "ok_run dv (\<lambda>(a, b, c, s). P s) m \<Longrightarrow> (\<And>a b c s. P s \<Longrightarrow> ok_run dv Q (f a b c s)) \<Longrightarrow>
   ok_run dv Q (bind_run m (\<lambda>(a, b, c, s). f a b c s))"
  by (cases m) auto

lemma ok_run_weaken: "ok_run dv P m \<Longrightarrow> (\<And>x. P x \<Longrightarrow> Q x) \<Longrightarrow> ok_run dv Q m"
  by (cases m) auto

text \<open>
  Fuel for a line: every level of nesting that is left can hold a line of the longest accepted length, and
  within one level each call is on a shorter line.
\<close>

definition fuel_for :: "string \<Rightarrow> nat \<Rightarrow> nat" where
  "fuel_for line depth = (runDepthMax + 1 - depth) * (maxLineBytes + 3)
     + min (length (trimSpace (stripEscMarks line))) (maxLineBytes + 1) + 1"

lemma fuel_deeper: "depth \<le> runDepthMax \<Longrightarrow> fuel_for a (depth + 1) \<le> (runDepthMax + 1 - depth) * (maxLineBytes + 3) - 1"
proof -
  assume "depth \<le> runDepthMax"
  then obtain d where "runDepthMax + 1 - depth = Suc d" "runDepthMax + 1 - (depth + 1) = d" by (metis Suc_diff_le Suc_eq_plus1 diff_Suc_Suc)
  then show ?thesis unfolding fuel_for_def by simp
qed

lemma fuel_part: "part_of a (trimSpace (stripEscMarks line)) \<Longrightarrow> length (trimSpace (stripEscMarks line)) \<le> maxLineBytes \<Longrightarrow>
   fuel_for a depth < fuel_for line depth"
proof -
  assume "part_of a (trimSpace (stripEscMarks line))" and l: "length (trimSpace (stripEscMarks line)) \<le> maxLineBytes"
  moreover have "length (trimSpace (stripEscMarks a)) \<le> length a"
    unfolding stripEscMarks_def by (rule le_trans [OF trimSpace_le length_filter_le])
  ultimately show ?thesis by (simp add: part_of_def fuel_for_def)
qed

text \<open>
  A property of the shell that its commands keep: it depends on variables, functions and jobs only, and
  survives the writers of the variable table and a shorter job list.
\<close>

locale shell_frame =
  fixes J :: "'w shell \<Rightarrow> bool"
  assumes J_cong: "J s \<Longrightarrow> sh_env s' = sh_env s \<Longrightarrow> sh_funcs s' = sh_funcs s \<Longrightarrow> sh_jobs s' = sh_jobs s \<Longrightarrow> J s'"
    and J_set: "J s \<Longrightarrow> J (s\<lparr>sh_env := env_Set (sh_env s) n v\<rparr>)"
    and J_unset: "J s \<Longrightarrow> J (s\<lparr>sh_env := snd (env_Unset (sh_env s) n)\<rparr>)"
    and J_export: "J s \<Longrightarrow> J (s\<lparr>sh_env := snd (env_Export (sh_env s) n)\<rparr>)"
    and J_jobs: "J s \<Longrightarrow> length js \<le> length (sh_jobs s) \<Longrightarrow> J (s\<lparr>sh_jobs := js\<rparr>)"
begin

lemma J_fields [simp]:
  "J (s\<lparr>sh_world := w\<rparr>) = J s" "J (s\<lparr>sh_status := v\<rparr>) = J s" "J (s\<lparr>sh_cap := c\<rparr>) = J s" "J (s\<lparr>sh_capture := b\<rparr>) = J s"
  "J (s\<lparr>sh_loopBreak := x\<rparr>) = J s" "J (s\<lparr>sh_loopCont := x\<rparr>) = J s" "J (s\<lparr>sh_exitReq := x\<rparr>) = J s"
  "J (s\<lparr>sh_monitorRq := x\<rparr>) = J s" "J (s\<lparr>sh_sourceReq := r\<rparr>) = J s" "J (s\<lparr>sh_nextN := n\<rparr>) = J s"
  by (rule iffI; erule J_cong; simp)+

lemma J_out [simp]: "J (host_out h b s) = J s" "J (sh_out h b s) = J s" "J (cap_out b s) = J s" "J (shell_fail h m s) = J s"
  "J (marker h m s) = J s" "J (clearLoopFlags s) = J s"
  by (simp_all add: host_out_def sh_out_def cap_out_def shell_fail_def marker_def clearLoopFlags_def split: option.split)

lemma reap_all_length: "length (fst (reap_all h js w)) = length js"
  by (induction js arbitrary: w) (auto simp: Let_def split_beta)

lemma J_reap [simp]: "J s \<Longrightarrow> J (ReapJobs h s)"
  using J_jobs [of s "fst (reap_all h (sh_jobs s) (sh_world s))"] reap_all_length [of h "sh_jobs s" "sh_world s"]
  by (auto simp: ReapJobs_def Let_def split_beta elim!: J_cong)

lemma J_remove [simp]: "J s \<Longrightarrow> J (removeJob n s)"
proof -
  have "length (remove_job n js) \<le> length js" for js by (induction js) auto
  then show "J s \<Longrightarrow> J (removeJob n s)" by (simp add: removeJob_def J_jobs)
qed

text \<open>No command of the shell breaks such a property, given a sink that keeps it.\<close>

lemma J_readBounded: "J s \<Longrightarrow> readBounded h f s = (x, s') \<Longrightarrow> J s'"
  by (auto simp: readBounded_def split: prod.splits sum.splits)

lemma J_lines: "(\<And>b s. J s \<Longrightarrow> J (out b s)) \<Longrightarrow> J s \<Longrightarrow> J (out_lines out ls s)"
  unfolding out_lines_def by (induction ls arbitrary: s) auto

lemma J_cat: "(\<And>b s. J s \<Longrightarrow> J (out b s)) \<Longrightarrow> J s \<Longrightarrow> J (snd (cat_loop h fs out s))"
proof (induction fs arbitrary: s)
  case (Cons f fs)
  obtain x t where r: "readBounded h f s = (x, t)" by (cases "readBounded h f s")
  have "J t" using J_readBounded Cons.prems(2) r by blast
  then show ?case using Cons r by (cases x) (auto split: read_err.splits)
qed simp

lemma J_input: "(\<And>b s. J s \<Longrightarrow> J (out b s)) \<Longrightarrow> J s \<Longrightarrow> J (snd (input_loop h args fs a out s))"
proof (induction fs arbitrary: a s)
  case (Cons f fs)
  obtain x t where r: "readBounded h f s = (x, t)" by (cases "readBounded h f s")
  have "J t" using J_readBounded Cons.prems(2) r by blast
  then show ?case using Cons r by (cases x) (auto split: read_err.splits)
qed simp

lemma J_with_input:
  "(\<And>b s. J s \<Longrightarrow> J (out b s)) \<Longrightarrow> (\<And>b s. J s \<Longrightarrow> J (snd (f b s))) \<Longrightarrow> J s \<Longrightarrow> J (snd (with_input h args files stdin out f s))"
  using J_input [of out s h args files "[]"] by (auto simp: with_input_def toolInput_def split: prod.splits option.splits)

lemma J_jobs_loop: "(\<And>b s. J s \<Longrightarrow> J (out b s)) \<Longrightarrow> J s \<Longrightarrow> J (jobs_loop out js s)"
  by (induction out js s rule: jobs_loop.induct) auto

lemma J_fg_loop: "J s \<Longrightarrow> fg_loop h k n s = Ret (j, s') \<Longrightarrow> J s'"
  by (induction h k n s rule: fg_loop.induct) (auto simp: Let_def split: option.splits if_splits)

lemma J_fg: "(\<And>b s. J s \<Longrightarrow> J (out b s)) \<Longrightarrow> J s \<Longrightarrow> bFg h k args out s = Ret (st, s') \<Longrightarrow> J s'"
  by (auto simp: bFg_def bind_run_Ret split: if_splits option.splits dest: J_fg_loop)

lemma J_exists: "J s \<Longrightarrow> J (snd (exists_file h p s))"
  by (auto simp: exists_file_def split: prod.splits sum.splits)

lemma J_test: "J s \<Longrightarrow> J (snd (eval_test h a s))"
  by (simp add: eval_test_def split_beta J_exists split: list.split option.split)

lemma J_simple_cmds:
  assumes out: "\<And>b s. J s \<Longrightarrow> J (out b s)" and "J s"
  shows "J (snd (bTrue s))" "J (snd (bFalse s))" "J (snd (bSource args out s))" "J (snd (bBreak s))" "J (snd (bContinue s))"
    "J (snd (bWhoami h out s))" "J (snd (bID h out s))" "J (snd (bChmod h args out s))" "J (snd (bSecrets h out s))"
    "J (snd (bEcho args out s))" "J (snd (bCat h args stdin out s))" "J (snd (bPwd out s))" "J (snd (bCd h args out s))"
    "J (snd (bEnv out s))" "J (snd (bPrintenv args out s))" "J (snd (bSet args out s))" "J (snd (bUnset args out s))"
    "J (snd (bRead h args stdin out s))" "J (snd (bJobs h out s))" "J (snd (bHistory out s))" "J (snd (bHelp args out s))"
    "J (snd (bExit args out s))" "J (snd (bMonitor s))" "J (snd (bSleep h args out s))" "J (snd (bClear out s))"
  using assms J_lines [OF out] J_cat [OF out] J_set J_unset J_jobs_loop [OF out] J_set [of "s\<lparr>sh_world := _\<rparr>", simplified]
  by (auto simp: bTrue_def bFalse_def bSource_def bBreak_def bContinue_def bWhoami_def bID_def bChmod_def bSecrets_def
      bEcho_def bCat_def bPwd_def bCd_def bEnv_def bPrintenv_def bSet_def bUnset_def bRead_def bJobs_def bHistory_def
      bHelp_def helpOne_def bExit_def bMonitor_def bSleep_def bClear_def Let_def
      split: option.splits prod.splits host_err.splits list.splits if_splits)

lemma J_bExport: "(\<And>b s. J s \<Longrightarrow> J (out b s)) \<Longrightarrow> J s \<Longrightarrow> J (snd (bExport args out s))"
proof -
  assume out: "\<And>b s. J s \<Longrightarrow> J (out b s)" and s: "J s"
  have e: "J (s\<lparr>sh_env := snd (env_Export (env_Set (sh_env s) n v) n)\<rparr>)" for n v
    using J_export [OF J_set [OF s, of n v], of n] by simp
  have x: "J (s\<lparr>sh_env := e\<rparr>)" if "env_Export (sh_env s) n = (True, e)" for n e
    using J_export [OF s, of n] that by simp
  show ?thesis using s out J_lines [OF out s] e x
    by (auto simp: bExport_def split: option.splits prod.splits bool.splits)
qed

lemma J_tools:
  assumes out: "\<And>b s. J s \<Longrightarrow> J (out b s)" and "J s"
  shows "J (snd (tWc h args stdin out s))" "J (snd (tHead h args stdin out s))" "J (snd (tTail h args stdin out s))"
    "J (snd (tGrep lower h args stdin out s))" "J (snd (tSort h args stdin out s))" "J (snd (tCut h args stdin out s))"
    "J (snd (tPrintf args out s))" "J (snd (tTest h name args out s))"
proof -
  have joined: "J (out_joined out ls t)" if "J t" for ls t using that out by (simp add: out_joined_def)
  note w = J_with_input [OF out _ assms(2)] and l = J_lines [OF out]
  show "J (snd (tWc h args stdin out s))" using assms by (auto simp: tWc_def Let_def intro!: w split: option.splits)
  show "J (snd (tHead h args stdin out s))" using assms joined by (auto simp: tHead_def intro!: w split: option.splits)
  show "J (snd (tTail h args stdin out s))" using assms joined by (auto simp: tTail_def Let_def intro!: w split: option.splits)
  show "J (snd (tGrep lower h args stdin out s))" using assms l by (auto simp: tGrep_def Let_def intro!: w split: option.splits)
  show "J (snd (tSort h args stdin out s))" using assms joined by (auto simp: tSort_def Let_def intro!: w split: option.splits)
  show "J (snd (tCut h args stdin out s))" using assms l by (auto simp: tCut_def intro!: w split: sum.splits)
  show "J (snd (tPrintf args out s))" using assms by (auto simp: tPrintf_def split: list.splits)
  show "J (snd (tTest h name args out s))"
  proof (cases "eval_test h (if name = ''['' then butlast args else args) s")
    case (Pair v t)
    have "J t" using J_test [OF assms(2), of h "if name = ''['' then butlast args else args"] Pair by simp
    then show ?thesis using Pair assms by (auto simp: tTest_def split: option.splits)
  qed
qed

text \<open>So the whole table keeps it.\<close>

lemma J_gosh:
  assumes out: "\<And>b s. J s \<Longrightarrow> J (out b s)" and "J s" "gosh_cmd lower h k name args stdin out s = Ret (st, s')"
  shows "J s'"
proof (cases "name = ''fg''")
  case True
  then show ?thesis using assms(3) J_fg [of out s, OF out assms(2)] by (simp add: gosh_cmd_def)
next
  case False
  have either: "J (snd a) \<Longrightarrow> J (snd b) \<Longrightarrow> J (snd (if c then a else b))" for a b :: "u64 \<times> 'w shell" and c by simp
  note keeps = J_simple_cmds [of out s, OF out assms(2)] J_bExport [of out s, OF out assms(2)] J_tools [of out s, OF out assms(2)]
  have "J (snd x)" if "gosh_cmd lower h k name args stdin out s = Ret x" for x
    using that unfolding gosh_cmd_def if_not_P [OF False] run.inject by (elim subst) (intro either keeps)
  then show ?thesis using assms(3) by fastforce
qed

end

locale evaluator = shell_frame J
  for J :: "'w shell \<Rightarrow> bool" +
  fixes h :: "'w host" and tbl :: "'w table" and L :: "string \<Rightarrow> bool"
  assumes J_job: "J s \<Longrightarrow> length (sh_jobs s) < maxJobs \<Longrightarrow> J (s\<lparr>sh_jobs := sh_jobs s @ [j]\<rparr>)"
    and J_define: "J s \<Longrightarrow> L r \<Longrightarrow> parseFuncDef r = Some d \<Longrightarrow> func_define (sh_funcs s) d = Some t \<Longrightarrow> J (s\<lparr>sh_funcs := t\<rparr>)"
    and J_cmd: "tbl name = Some f \<Longrightarrow> (\<And>b s. J s \<Longrightarrow> J (out b s)) \<Longrightarrow> J s \<Longrightarrow> f k name args stdin out s = Ret (st, s') \<Longrightarrow> J s'"
    and L_part: "L l \<Longrightarrow> sublist l' l \<Longrightarrow> L l'"
    and L_strip: "L l \<Longrightarrow> L (stripEscMarks l)"
    and L_subst: "L l \<Longrightarrow> locateCommandSubst l = Some c \<Longrightarrow> L (cs_inner c) \<and> L (cs_prefix c @ txt @ cs_suffix c)"
    and L_func: "J s \<Longrightarrow> func_find (sh_funcs s) name = Some g \<Longrightarrow> l \<in> set (fn_body g) \<Longrightarrow> L l"
    and L_file: "h_ReadFile h p m w = (Inr b, w') \<Longrightarrow> l \<in> set (source_lines b) \<Longrightarrow> L l"
begin

abbreviation okJ :: "bool \<Rightarrow> 'w result \<Rightarrow> bool" where "okJ dv m \<equiv> ok_run dv (\<lambda>(st, act, s). J s) m"

lemma okJ_refuse: "J s \<Longrightarrow> okJ dv (refuse h m st s)"
  by (simp add: refuse_def)

definition cmds_ok :: "bool \<Rightarrow> nat \<Rightarrow> bool" where
  "cmds_ok dv k \<longleftrightarrow> (\<forall>name f args stdin out s. tbl name = Some f \<longrightarrow> (\<forall>b s. J s \<longrightarrow> J (out b s)) \<longrightarrow> J s \<longrightarrow>
     f k name args stdin out s = Diverge \<longrightarrow> dv)"

definition runs_ok :: "bool \<Rightarrow> (string \<Rightarrow> nat \<Rightarrow> bool) \<Rightarrow> 'w runner \<Rightarrow> bool" where
  "runs_ok dv R run \<longleftrightarrow> (\<forall>l d s. R l d \<longrightarrow> L l \<longrightarrow> J s \<longrightarrow> okJ dv (run l d s))"

lemma okJ_run: "runs_ok dv R run \<Longrightarrow> R l d \<Longrightarrow> L l \<Longrightarrow> J s \<Longrightarrow> okJ dv (run l d s)"
  by (simp add: runs_ok_def)

lemma okJ_builtin:
  assumes "cmds_ok dv k" "\<And>b s. J s \<Longrightarrow> J (out b s)" "J s"
  shows "okJ dv (run_builtin tbl k name args stdin out s)"
proof (cases "tbl name")
  case (Some f)
  have "ok_run dv (\<lambda>(st, s). J s) (f k name args stdin out s)"
  proof (cases "f k name args stdin out s")
    case (Ret x)
    then show ?thesis using J_cmd [OF Some assms(2,3)] by (cases x) auto
  next
    case Diverge
    then show ?thesis using assms Some unfolding cmds_ok_def by (metis ok_run_simps(2))
  qed simp
  then show ?thesis unfolding run_builtin_def Some option.case by (rule ok_bind) (auto split: if_splits)
qed (simp add: run_builtin_def)

lemma okJ_write_redirect: "J s \<Longrightarrow> okJ dv (write_redirect h r c st s)"
  by (auto simp: write_redirect_def split: prod.splits bool.splits)

lemma okJ_redirected: "cmds_ok dv k \<Longrightarrow> J s \<Longrightarrow> okJ dv (run_redirected h tbl k out name args stdin s)"
proof (cases out)
  case None
  assume "cmds_ok dv k" "J s"
  then show ?thesis unfolding run_redirected_def None by (simp add: okJ_builtin)
next
  case (Some r)
  assume "cmds_ok dv k" "J s"
  then show ?thesis unfolding run_redirected_def Some option.case
    by (intro ok_bind [OF okJ_builtin]) (auto simp: okJ_write_redirect split: prod.splits)
qed

lemma J_bind_pairs: "J s \<Longrightarrow> J (bind_pairs s ps)"
  by (induction s ps rule: bind_pairs.induct) (auto intro: J_set)

lemma okJ_funcBody:
  "runs_ok dv R run \<Longrightarrow> list_all (\<lambda>c. L c \<and> R c (depth + 1)) cmds \<Longrightarrow> J s \<Longrightarrow> okJ dv (runFuncBody run depth cmds s)"
proof (induction cmds arbitrary: s)
  case (Cons c cmds)
  have r: "okJ dv (run c (depth + 1) s)" using Cons.prems by (intro okJ_run [OF Cons.prems(1)]) simp_all
  show ?case unfolding runFuncBody.simps(2) by (intro ok_bind3 [OF r]) (use Cons in simp)
qed simp

lemma J_runExternal: "J s \<Longrightarrow> runExternal h name args s = (st, s') \<Longrightarrow> J s'"
  by (auto simp: runExternal_def split: prod.splits option.splits)

lemma okJ_command:
  assumes "runs_ok dv R run" "cmds_ok dv k" "\<And>c. R c (depth + 1)" "J s"
  shows "okJ dv (run_command h tbl k run p depth stdin s)"
proof -
  have fin: "okJ dv (case pl_out p of None \<Rightarrow> cont st s | Some r \<Rightarrow> write_redirect h r c st s)" if "J s" for st c s
    using that by (auto simp: okJ_write_redirect split: option.splits)
  show ?thesis
  proof (cases "tbl (hd (pl_left p))")
    case (Some f)
    then show ?thesis using assms okJ_redirected by (simp add: run_command_def Let_def)
  next
    case None
    show ?thesis
    proof (cases "func_find (sh_funcs s) (hd (pl_left p))")
      case (Some f)
      have "list_all (\<lambda>c. L c \<and> R c (depth + 1)) (fn_body f)"
        using L_func [OF assms(4) Some] assms(3) by (simp add: list_all_iff)
      then have "okJ dv (runFuncBody run depth (fn_body f) (bindFuncArgs f (tl (pl_left p)) s))"
        using okJ_funcBody [OF assms(1)] assms(4) J_bind_pairs unfolding bindFuncArgs_def by blast
      then show ?thesis using None Some fin
        by (simp add: run_command_def Let_def) (erule ok_bind, auto split: prod.splits)
    next
      case none: None
      then show ?thesis using None assms(4) fin J_runExternal [OF assms(4)]
        by (auto simp: run_command_def Let_def split: prod.splits)
    qed
  qed
qed

lemma J_readInput: "J s \<Longrightarrow> readInput h p s = (x, s') \<Longrightarrow> J s'"
  by (auto simp: readInput_def readBounded_def split: prod.splits sum.splits read_err.splits if_splits)

lemma okJ_single:
  assumes "runs_ok dv R run" "cmds_ok dv k" "\<And>c. R c (depth + 1)" "J s"
  shows "okJ dv (runSingle h tbl k run p depth s)"
  using okJ_command [OF assms(1-3)] assms(4) J_readInput [OF assms(4)]
  by (auto simp: runSingle_def split: option.splits prod.splits)

lemma okJ_right: "cmds_ok dv k \<Longrightarrow> J s \<Longrightarrow> okJ dv (run_right h tbl k p s)"
  by (auto simp: run_right_def Let_def okJ_redirected split: prod.splits option.splits bool.splits)

lemma okJ_pipeline: "cmds_ok dv k \<Longrightarrow> J s \<Longrightarrow> okJ dv (runPipeline h tbl k p s)"
proof -
  assume c: "cmds_ok dv k" and s: "J s"
  have left: "okJ dv (bind_run (run_builtin tbl k (hd (pl_left p)) (tl (pl_left p)) stdin cap_out (s\<lparr>sh_cap := new_capture MaxPipeBytes\<rparr>))
      (\<lambda>(st, act, s). if act \<noteq> ActionContinue then Ret (st, act, s) else run_right h tbl k p s))" if "J s" for stdin s
    using that c by (intro ok_bind [OF okJ_builtin]) (auto simp: okJ_right split: prod.splits)
  show ?thesis unfolding runPipeline_def Let_def using left s J_readInput [OF s] by (auto split: option.splits prod.splits)
qed

lemma okJ_background:
  assumes "runs_ok dv R run" "cmds_ok dv k" "\<And>c. R c (depth + 1)" "J s"
  shows "okJ dv (runBackground h tbl k run p depth s)"
proof -
  have job: "J (s\<lparr>sh_world := w, sh_nextN := n, sh_jobs := sh_jobs s @ [j]\<rparr>)" if "length (sh_jobs s) < maxJobs" for w n j
    using J_job [OF assms(4) that, of j] by (rule J_cong) simp_all
  show ?thesis using okJ_single [OF assms(1-3)] assms(4) job
    by (auto simp: runBackground_def Let_def split: prod.splits option.splits)
qed

lemma okJ_body_loop:
  "runs_ok dv R run \<Longrightarrow> list_all (\<lambda>c. L c \<and> R c depth) cmds \<Longrightarrow> J s \<Longrightarrow>
   ok_run dv (\<lambda>(st, brk, act, s). J s) (body_loop run depth cmds s)"
proof (induction cmds arbitrary: s)
  case (Cons c cmds)
  have r: "okJ dv (run c depth s)" using Cons.prems by (intro okJ_run [OF Cons.prems(1)]) simp_all
  show ?case unfolding body_loop.simps(2) by (intro ok_bind3 [OF r]) (use Cons in simp)
qed simp

text \<open>From here on: a line, its parts at the same depth, and every line of a function or file one deeper.\<close>

definition reaches :: "(string \<Rightarrow> nat \<Rightarrow> bool) \<Rightarrow> string \<Rightarrow> nat \<Rightarrow> bool" where
  "reaches R line depth \<longleftrightarrow> L line \<and> (\<forall>a. part_of a line \<longrightarrow> R a depth) \<and> (\<forall>a. R a (depth + 1))"

lemma reaches_part: "reaches R line depth \<Longrightarrow> part_of a line \<Longrightarrow> L a \<and> R a depth"
  unfolding reaches_def part_of_def using L_part by blast

lemma okJ_body:
  assumes "runs_ok dv R run" "reaches R line depth" "part_of body line" "J s"
  shows "ok_run dv (\<lambda>(st, brk, act, s). J s) (runBody h run body depth s)"
proof (cases "splitCommands body")
  case (Some cmds)
  have "list_all (\<lambda>c. L c \<and> R c depth) cmds"
    using commands_parts [of body] reaches_part [OF assms(2)] part_of_piece [OF _ assms(3)] split_bounded [OF Some]
    by (auto simp: list_all_iff)
  then show ?thesis unfolding runBody_def Some option.case using okJ_body_loop assms(1,4) by blast
qed (simp add: runBody_def assms(4))

lemma okJ_body_result:
  assumes "runs_ok dv R run" "reaches R line depth" "part_of body line" "J s"
  shows "okJ dv (body_result h run body depth s)"
  unfolding body_result_def by (intro ok_bind4 [OF okJ_body [OF assms]]) simp

lemma okJ_if:
  assumes "runs_ok dv R run" "reaches R line depth" "parseIf line = Is c" "J s"
  shows "okJ dv (runIf h run c depth s)"
proof -
  note p = parseIf_parts [OF assms(3)] and body = okJ_body_result [OF assms(1,2)]
  have r: "okJ dv (run (if_cond c) depth s)" using okJ_run [OF assms(1)] reaches_part [OF assms(2)] p assms(4) by blast
  show ?thesis unfolding runIf_def by (intro ok_bind3 [OF r]) (use p body in auto)
qed

lemma okJ_for_loop:
  assumes "runs_ok dv R run" "reaches R line depth" "part_of body line"
  shows "J s \<Longrightarrow> okJ dv (for_loop h run var body depth ws s)"
proof (induction ws arbitrary: s)
  case Nil
  then show ?case by (simp add: Let_def J_unset)
next
  case (Cons w ws)
  have nil: "okJ dv (for_loop h run var body depth [] s)" if "J s" for s using that by (simp add: Let_def J_unset)
  show ?case unfolding for_loop.simps(2)
    by (intro ok_bind4 [OF okJ_body [OF assms]]) (use Cons nil J_set in \<open>auto simp del: for_loop.simps\<close>)
qed

lemma okJ_while_loop:
  assumes "runs_ok dv R run" "reaches R line depth" "parseWhile line = Is c"
  shows "J s \<Longrightarrow> okJ dv (while_loop h run c depth n s)"
proof (induction n arbitrary: s)
  case 0
  then show ?case by (simp add: okJ_refuse)
next
  case (Suc n)
  note p = parseWhile_parts [OF assms(3)]
  have cond: "okJ dv (run (wh_cond c) depth (clearLoopFlags s))"
    using okJ_run [OF assms(1)] reaches_part [OF assms(2)] p Suc.prems by simp
  have rest: "okJ dv (bind_run (runBody h run (wh_body c) depth s) (\<lambda>(st, brk, act, s).
      if act \<noteq> ActionContinue then Ret (sh_status s, act, s)
      else if brk then cont (sh_status s) (clearLoopFlags s) else while_loop h run c depth n s))" if "J s" for s
    using Suc.IH p by (intro ok_bind4 [OF okJ_body [OF assms(1,2) _ that]]) simp_all
  show ?case unfolding while_loop.simps(2) by (intro ok_bind3 [OF cond]) (use rest in simp)
qed

lemma okJ_case_loop:
  assumes "runs_ok dv R run" "reaches R line depth" "list_all (\<lambda>m. part_of (arm_body m) line) arms"
  shows "J s \<Longrightarrow> okJ dv (case_loop h run subject arms depth s)"
  using assms(3)
proof (induction arms)
  case (Cons m arms)
  then show ?case using okJ_body_result [OF assms(1,2)] by simp
qed simp

lemma okJ_chain:
  assumes "runs_ok dv R run" "reaches R line depth"
  shows "list_all (\<lambda>(p, g). part_of g line) rest \<Longrightarrow> J s \<Longrightarrow> okJ dv (chain_run run depth rest s)"
proof (induction rest arbitrary: s)
  case (Cons x rest)
  obtain p g where x: "x = (p, g)" by (cases x)
  have r: "okJ dv (run g depth s)" using okJ_run [OF assms(1)] reaches_part [OF assms(2)] Cons.prems x by simp
  have "okJ dv (bind_run (run g depth s) (\<lambda>(st, act, s).
      if act \<noteq> ActionContinue then Ret (st, act, s) else chain_run run depth rest s))"
    by (intro ok_bind3 [OF r]) (use Cons in simp)
  then show ?case unfolding x chain_run.simps(2) using Cons by simp
qed simp

lemma okJ_source:
  assumes "runs_ok dv R run" "\<And>a. R a (depth + 1)" "J s"
  shows "okJ dv (runSource h run path depth s)"
proof -
  have "okJ dv (runFuncBody run depth (source_lines b) (s\<lparr>sh_world := w'\<rparr>))"
    if "h_ReadFile h path m w = (Inr b, w')" for m w b w'
    using L_file [OF that] assms by (intro okJ_funcBody [OF assms(1)]) (simp_all add: list_all_iff)
  then show ?thesis using assms(3) by (auto simp: runSource_def okJ_refuse split: prod.splits sum.splits)
qed

lemma okJ_segment:
  assumes "runs_ok dv R run" "cmds_ok dv k" "\<And>a. R a (depth + 1)" "J s"
  shows "okJ dv (runSegment h tbl k run line depth s)"
proof -
  have fin: "okJ dv (finish_segment h run depth (st, act, s))" if "J s" for st act s
    using that okJ_source [OF assms(1,3)] by (simp add: finish_segment_def Let_def)
  have run: "okJ dv (bind_run (if pl_background p then runBackground h tbl k run p depth s
      else if pl_right p \<noteq> [] then runPipeline h tbl k p s else runSingle h tbl k run p depth s) (finish_segment h run depth))"
    if "J s" for p s
    using okJ_background [OF assms(1-3) that] okJ_pipeline [OF assms(2) that] okJ_single [OF assms(1-3) that]
    by (intro ok_bind [where P = "\<lambda>(st, act, s). J s"]) (auto simp: fin)
  show ?thesis using assms(4) run by (auto simp: runSegment_def Let_def okJ_refuse split: sum.splits)
qed

lemma okJ_ladder:
  assumes "runs_ok dv R run" "cmds_ok dv k" "reaches R line depth" "J s"
  shows "okJ dv (run_ladder h tbl k run line depth s)"
proof -
  have deep: "\<And>a. R a (depth + 1)" using assms(3) by (simp add: reaches_def)
  have chain: "okJ dv (runChain run segs ops depth s)" if "chainSplit line = Some (segs, ops)" "ops \<noteq> []" for segs ops
  proof -
    have "list_all (\<lambda>(p, g). part_of g line) (zip (opSeq # ops) segs)"
      using chainSplit_parts [OF that] by (auto simp: list_all_iff dest: set_zip_rightD)
    then show ?thesis unfolding runChain_def using okJ_chain [OF assms(1,3)] assms(4) by blast
  qed
  show ?thesis
    unfolding run_ladder_def runFor_def runWhile_def runCase_def
    using okJ_if [OF assms(1,3) _ assms(4)] okJ_for_loop [OF assms(1,3) parseFor_parts assms(4)] okJ_while_loop [OF assms(1,3) _ assms(4)]
      okJ_case_loop [OF assms(1,3) parseCase_parts assms(4)] okJ_segment [OF assms(1,2) deep assms(4)] chain okJ_refuse [OF assms(4)]
    by (auto split: construct.splits option.splits)
qed

lemma okJ_definition: "L line \<Longrightarrow> J s \<Longrightarrow> okJ dv (run_definition h line s)"
proof -
  assume l: "L line" and s: "J s"
  define r where "r = (if length line > 2 \<and> isSpaceByte (line ! 2) then drop 3 line else drop 2 line)"
  have "L r" unfolding r_def using L_part [OF l] by simp
  then have d: "J (s\<lparr>sh_funcs := t\<rparr>)" if "parseFuncDef r = Some d" "func_define (sh_funcs s) d = Some t" for d t
    using J_define [OF s _ that] by blast
  show ?thesis unfolding run_definition_def r_def [symmetric] Let_def using s d by (auto split: option.splits)
qed

text \<open>The body of \<^verbatim>\<open>runLine\<close>. Where a substitution may happen, every line has to be reachable.\<close>

lemma okJ_line_step:
  fixes line :: string
  defines "t \<equiv> trimSpace (stripEscMarks line)"
  assumes "runs_ok dv R run" "L line" "J s"
    and "t \<noteq> [] \<Longrightarrow> length t \<le> maxLineBytes \<Longrightarrow> depth \<le> runDepthMax \<Longrightarrow> cmds_ok dv k \<and> reaches R t depth"
    and "locateCommandSubst t \<noteq> None \<Longrightarrow> (\<forall>a d. R a d)"
  shows "okJ dv (line_step h tbl k run line depth s)"
proof (cases "t = [] \<or> length t > maxLineBytes \<or> depth > runDepthMax \<or> isFuncDefLine t")
  case True
  have "L t" unfolding t_def using L_part [OF L_strip [OF assms(3)]] by (simp add: part_intros)
  then show ?thesis using True assms(4) okJ_refuse okJ_definition
    by (auto simp: line_step_def Let_def t_def [symmetric])
next
  case False
  then have r: "reaches R t depth" "cmds_ok dv k" using assms(5) by auto
  note ladder = okJ_ladder [OF assms(2) r(2)]
  have lt: "L t" using r(1) by (simp add: reaches_def)
  have "ok_run dv (\<lambda>(l, act, s). J s \<and> reaches R l depth) (commandSubst run t depth s)"
  proof (cases "locateCommandSubst t")
    case None
    then show ?thesis using r(1) assms(4) by (simp add: commandSubst_def)
  next
    case (Some c)
    then have all: "\<And>a d. R a d" using assms(6) by blast
    have "okJ dv (run (cs_inner c) depth (s\<lparr>sh_capture := Some []\<rparr>))"
      using okJ_run [OF assms(2) all] L_subst [OF lt Some] assms(4) by simp
    then have "ok_run dv (\<lambda>(txt, act, s). J s) (captureLine run (cs_inner c) depth s)"
      unfolding captureLine_def by (rule ok_bind3) simp
    then show ?thesis unfolding commandSubst_def Some option.case
      by (rule ok_bind3) (use L_subst [OF lt Some] all r(1) in \<open>auto simp: reaches_def\<close>)
  qed
  then have "okJ dv (bind_run (commandSubst run t depth s) (\<lambda>(l, act, s).
      if act \<noteq> ActionContinue then Ret (sh_status s, act, s) else run_ladder h tbl k run l depth s))"
    by (rule ok_bind) (use ladder in auto)
  then show ?thesis using False ladder [OF r(1) assms(4)] by (simp add: line_step_def Let_def t_def [symmetric])
qed

lemma runLine_keeps: "L line \<Longrightarrow> J s \<Longrightarrow> okJ True (runLine h tbl k line depth s)"
proof (induction k arbitrary: line depth s)
  case (Suc k)
  have "runs_ok True (\<lambda>_ _. True) (runLine h tbl k)" unfolding runs_ok_def using Suc.IH by blast
  moreover have "reaches (\<lambda>_ _. True) (trimSpace (stripEscMarks line)) depth"
    unfolding reaches_def using L_part [OF L_strip [OF Suc.prems(1)]] by (simp add: part_intros)
  ultimately show ?case unfolding runLine.simps using Suc.prems
    by (intro okJ_line_step [where R = "\<lambda>_ _. True"]) (simp_all add: cmds_ok_def)
qed simp

text \<open>
  Termination: when no line can hold a command substitution and the commands return with fuel \<open>q\<close>, a run
  of a line returns, with fuel bounded by the depth guard and the length of the line.
\<close>

lemma runLine_returns:
  assumes sub: "\<And>l. L l \<Longrightarrow> locateCommandSubst l = None" and cmd: "\<And>k. q \<le> k \<Longrightarrow> cmds_ok False k"
  shows "L line \<Longrightarrow> J s \<Longrightarrow> fuel_for line depth + q \<le> k \<Longrightarrow> okJ False (runLine h tbl k line depth s)"
proof (induction k arbitrary: line depth s)
  case 0
  then show ?case by (simp add: fuel_for_def)
next
  case (Suc k)
  let ?t = "trimSpace (stripEscMarks line)"
  let ?R = "\<lambda>a d. fuel_for a d + q \<le> k"
  have lt: "L ?t" using L_part [OF L_strip [OF Suc.prems(1)]] by (simp add: part_intros)
  have "runs_ok False ?R (runLine h tbl k)" unfolding runs_ok_def using Suc.IH by blast
  moreover have "cmds_ok False k \<and> reaches ?R ?t depth" if "?t \<noteq> []" "length ?t \<le> maxLineBytes" "depth \<le> runDepthMax"
  proof -
    have "?R a depth" if "part_of a ?t" for a
      using fuel_part [OF that \<open>length ?t \<le> maxLineBytes\<close>, of depth] Suc.prems(3) by linarith
    moreover have "?R a (depth + 1)" for a
      using fuel_deeper [OF that(3), of a] Suc.prems(3) unfolding fuel_for_def [of line] by linarith
    moreover have "q \<le> k" using calculation(2) [of "[]"] by linarith
    ultimately show ?thesis using lt cmd by (simp add: reaches_def)
  qed
  ultimately show ?case unfolding runLine.simps using Suc.prems sub [OF lt]
    by (intro okJ_line_step [where R = ?R]) simp_all
qed

end

end
