(* ===== verification/ShellFuel.thy ===== *)
theory ShellFuel
  imports ShellRun
begin

text \<open>
  The fuel of the evaluator only decides whether it runs out: a run that ends with some fuel ends the same
  way with more. So the result of a line is a property of the line, not of the bound chosen for it.
\<close>

definition le_run :: "'a run \<Rightarrow> 'a run \<Rightarrow> bool" where
  "le_run m m' \<longleftrightarrow> m = Diverge \<or> m = m'"

lemma le_run_refl [simp]: "le_run m m" "le_run Diverge m"
  by (simp_all add: le_run_def)

lemma le_run_trans: "le_run a b \<Longrightarrow> le_run b c \<Longrightarrow> le_run a c"
  by (auto simp: le_run_def)

lemma le_bind: "le_run m m' \<Longrightarrow> (\<And>x. le_run (f x) (f' x)) \<Longrightarrow> le_run (bind_run m f) (bind_run m' f')"
  unfolding le_run_def by (cases m) (simp, (metis bind_run.simps)+)

text \<open>\<open>deeper\<close>: commands with more fuel and a runner with more fuel.\<close>

definition deeper :: "'w table \<Rightarrow> nat \<Rightarrow> nat \<Rightarrow> 'w runner \<Rightarrow> 'w runner \<Rightarrow> bool" where
  "deeper tbl k k' run run' \<longleftrightarrow> (\<forall>l d s. le_run (run l d s) (run' l d s))
     \<and> (\<forall>name f args stdin out s. tbl name = Some f \<longrightarrow> le_run (f k name args stdin out s) (f k' name args stdin out s))"

lemma le_runner: "deeper tbl k k' run run' \<Longrightarrow> \<forall>l d s. le_run (run l d s) (run' l d s)"
  by (simp add: deeper_def)

lemma le_builtin: "deeper tbl k k' run run' \<Longrightarrow> le_run (run_builtin tbl k name args stdin out s) (run_builtin tbl k' name args stdin out s)"
  unfolding run_builtin_def deeper_def by (auto intro!: le_bind split: option.split)

lemma le_redirected: "deeper tbl k k' run run' \<Longrightarrow> le_run (run_redirected h tbl k out name args stdin s) (run_redirected h tbl k' out name args stdin s)"
  unfolding run_redirected_def by (auto intro!: le_bind le_builtin split: option.split)

lemma le_funcBody: "deeper tbl k k' run run' \<Longrightarrow> le_run (runFuncBody run depth cmds s) (runFuncBody run' depth cmds s)"
  by (induction cmds arbitrary: s) (auto intro!: le_bind dest!: le_runner)

lemma le_command: "deeper tbl k k' run run' \<Longrightarrow> le_run (run_command h tbl k run p depth stdin s) (run_command h tbl k' run' p depth stdin s)"
  unfolding run_command_def Let_def by (auto intro!: le_bind le_redirected le_funcBody split: option.split)

lemma le_single: "deeper tbl k k' run run' \<Longrightarrow> le_run (runSingle h tbl k run p depth s) (runSingle h tbl k' run' p depth s)"
  unfolding runSingle_def by (auto intro!: le_command split: option.split prod.split)

lemma le_right: "deeper tbl k k' run run' \<Longrightarrow> le_run (run_right h tbl k p s) (run_right h tbl k' p s)"
  unfolding run_right_def Let_def by (auto intro!: le_redirected split: option.split prod.split bool.split)

lemma le_pipeline: "deeper tbl k k' run run' \<Longrightarrow> le_run (runPipeline h tbl k p s) (runPipeline h tbl k' p s)"
  unfolding runPipeline_def Let_def by (auto intro!: le_bind le_builtin le_right split: option.split prod.split)

lemma le_background: "deeper tbl k k' run run' \<Longrightarrow> le_run (runBackground h tbl k run p depth s) (runBackground h tbl k' run' p depth s)"
  unfolding runBackground_def Let_def by (auto intro!: le_single split: option.split prod.split)

lemma le_body_loop: "deeper tbl k k' run run' \<Longrightarrow> le_run (body_loop run depth cmds s) (body_loop run' depth cmds s)"
  by (induction cmds arbitrary: s) (auto intro!: le_bind dest!: le_runner)

lemma le_body: "deeper tbl k k' run run' \<Longrightarrow> le_run (runBody h run body depth s) (runBody h run' body depth s)"
  unfolding runBody_def by (auto intro!: le_body_loop split: option.split)

lemma le_body_result: "deeper tbl k k' run run' \<Longrightarrow> le_run (body_result h run body depth s) (body_result h run' body depth s)"
  unfolding body_result_def by (auto intro!: le_bind le_body)

lemma le_if: "deeper tbl k k' run run' \<Longrightarrow> le_run (runIf h run c depth s) (runIf h run' c depth s)"
  unfolding runIf_def by (auto intro!: le_bind le_body_result dest: le_runner)

lemma le_for_loop: "deeper tbl k k' run run' \<Longrightarrow> le_run (for_loop h run v body depth ws s) (for_loop h run' v body depth ws s)"
  by (induction ws arbitrary: s) (auto simp: Let_def intro!: le_bind le_body)

lemma le_while_loop: "deeper tbl k k' run run' \<Longrightarrow> le_run (while_loop h run c depth n s) (while_loop h run' c depth n s)"
  by (induction n arbitrary: s) (auto intro!: le_bind le_body dest: le_runner)

lemma le_case_loop: "deeper tbl k k' run run' \<Longrightarrow> le_run (case_loop h run subject arms depth s) (case_loop h run' subject arms depth s)"
  by (induction arms arbitrary: s) (auto intro!: le_body_result)

lemma le_chain: "deeper tbl k k' run run' \<Longrightarrow> le_run (chain_run run depth rest s) (chain_run run' depth rest s)"
  by (induction rest arbitrary: s) (auto intro!: le_bind dest!: le_runner)

lemma le_source: "deeper tbl k k' run run' \<Longrightarrow> le_run (runSource h run path depth s) (runSource h run' path depth s)"
  unfolding runSource_def by (auto intro!: le_funcBody split: sum.split prod.split)

lemma le_segment: "deeper tbl k k' run run' \<Longrightarrow> le_run (runSegment h tbl k run line depth s) (runSegment h tbl k' run' line depth s)"
  unfolding runSegment_def finish_segment_def Let_def
  by (auto intro!: le_bind le_source le_background le_pipeline le_single split: sum.split)

lemma le_subst: "deeper tbl k k' run run' \<Longrightarrow> le_run (commandSubst run line depth s) (commandSubst run' line depth s)"
  unfolding commandSubst_def captureLine_def by (auto intro!: le_bind dest!: le_runner split: option.split)

lemma le_ladder: "deeper tbl k k' run run' \<Longrightarrow> le_run (run_ladder h tbl k run line depth s) (run_ladder h tbl k' run' line depth s)"
  unfolding run_ladder_def runFor_def runWhile_def runCase_def runChain_def
  by (auto intro!: le_if le_for_loop le_while_loop le_case_loop le_segment le_chain split: construct.split option.split)

lemma le_line_step: "deeper tbl k k' run run' \<Longrightarrow> le_run (line_step h tbl k run line depth s) (line_step h tbl k' run' line depth s)"
  unfolding line_step_def Let_def by (auto intro!: le_ladder le_bind le_subst)

lemma le_fg_loop: "k \<le> k' \<Longrightarrow> le_run (fg_loop h k n s) (fg_loop h k' n s)"
proof (induction k arbitrary: k' s)
  case (Suc k)
  then obtain j where j: "k' = Suc j" "k \<le> j" by (cases k') auto
  show ?case unfolding j(1) using Suc.IH [OF j(2)] by (auto simp: Let_def split: option.split)
qed simp

lemma le_gosh: "k \<le> k' \<Longrightarrow> gosh_table lower h name = Some f \<Longrightarrow> le_run (f k name args stdin out s) (f k' name args stdin out s)"
  by (auto simp: gosh_table_def gosh_cmd_def bFg_def intro!: le_bind le_fg_loop split: if_splits option.split)

lemma le_runLine:
  "k \<le> k' \<Longrightarrow> le_run (runLine h (gosh_table lower h) k line depth s) (runLine h (gosh_table lower h) k' line depth s)"
proof (induction k arbitrary: k' line depth s)
  case (Suc k)
  then obtain j where j: "k' = Suc j" "k \<le> j" by (cases k') auto
  have "deeper (gosh_table lower h) k j (runLine h (gosh_table lower h) k) (runLine h (gosh_table lower h) j)"
    unfolding deeper_def using Suc.IH [OF j(2)] le_gosh [OF j(2)] by blast
  then show ?case unfolding j(1) runLine.simps by (rule le_line_step)
qed simp

end
