(* ===== verification/ShellProps.thy ===== *)
theory ShellProps
  imports ShellFuel
begin

text \<open>
  The properties of the shell as a whole: its invariant, when a line returns and when it does not, the
  bound on loops, and what the sort tool and a redirect do.
\<close>

subsection \<open>The invariant\<close>

lemma func_define_wf: "funcs_wf t \<Longrightarrow> func_define t d = Some t' \<Longrightarrow> funcs_wf t'"
proof -
  assume "funcs_wf t" "func_define t d = Some t'"
  then obtain body where b: "splitCommands (fd_body d) = Some body" "body \<noteq> []" "length body \<le> funcCmdsMax"
    and t': "t' = (let g = \<lparr>fn_name = fd_name d, fn_argNames = fd_argNames d, fn_body = body\<rparr>
      in if func_find t (fd_name d) = None then t @ [g] else func_replace t g)"
    and room: "func_find t (fd_name d) = None \<Longrightarrow> length t < funcMax"
    by (auto simp: func_define_def Let_def split: option.splits if_splits)
  define g where "g = \<lparr>fn_name = fd_name d, fn_argNames = fd_argNames d, fn_body = body\<rparr>"
  have "[] \<notin> set body" using split_bounded [OF b(1)] pieces_nonempty by (simp add: commands_of_def)
  moreover have "length (func_replace t g) = length t" using arg_cong [OF func_replace_names [of t g], of length] by simp
  ultimately show ?thesis
    using \<open>funcs_wf t\<close> b t' room func_find_None [of t "fd_name d"] func_replace_set [of t g]
    unfolding funcs_wf_def Let_def g_def [symmetric] by (auto simp: func_replace_names list_all_iff g_def)
qed

lemma env_Export_names: "map ev_name (snd (env_Export e n)) = map ev_name e"
  by (induction e) (auto simp: split_beta)

lemma env_Export_wf: "env_wf e \<Longrightarrow> env_wf (snd (env_Export e n))"
proof -
  have "ev_name ` set (snd (env_Export e n)) = ev_name ` set e"
    using arg_cong [OF env_Export_names [of e n], of set] by simp
  then show "env_wf e \<Longrightarrow> env_wf (snd (env_Export e n))" by (simp add: env_wf_def env_Export_names)
qed

interpretation inv_frame: shell_frame "sh_inv :: 'w shell \<Rightarrow> bool"
  by unfold_locales (auto simp: sh_inv_def vars.assign_wf vars.remove_wf env_Export_wf)

interpretation inv_run: evaluator "sh_inv :: 'w shell \<Rightarrow> bool" h "gosh_table lower h" "\<lambda>_. True" for h :: "'w host" and lower
proof unfold_locales
  show "sh_inv (s\<lparr>sh_jobs := sh_jobs s @ [j]\<rparr>)" if "sh_inv s" "length (sh_jobs s) < maxJobs" for s :: "'w shell" and j
    using that by (simp add: sh_inv_def)
  show "sh_inv (s\<lparr>sh_funcs := t\<rparr>)" if "sh_inv s" "func_define (sh_funcs s) d = Some t" for s :: "'w shell" and d t
    using that(1) func_define_wf [OF _ that(2)] by (simp add: sh_inv_def)
  show "sh_inv s'" if "gosh_table lower h name = Some f" "\<And>b s. sh_inv s \<Longrightarrow> sh_inv (out b s)" "sh_inv s"
      "f k name args stdin out s = Ret (st, s')" for name f out s k args stdin st s'
    using inv_frame.J_gosh [of out s lower h k name args stdin st s', OF that(2,3)] that(1,4) by (simp add: gosh_table_def split: if_splits)
qed auto

text \<open>
  C2. No line breaks the shell: whatever it is given, at whatever depth and with whatever the host answers, a
  run that returns leaves distinct nonempty variable names, a function table within its bounds and at
  most eight jobs.
\<close>

theorem shell_invariant:
  assumes "sh_inv s" "runLine h (gosh_table lower h) k line depth s = Ret (st, act, s')"
  shows "sh_inv s'"
  using inv_run.runLine_keeps [OF TrueI assms(1), of h lower k line depth] assms(2) by simp

subsection \<open>Termination\<close>

text \<open>A line without command substitution, whichever way it is cut.\<close>

fun subst_free :: "string \<Rightarrow> bool" where
  "subst_free (a # b # c # s) = (\<not> (a = CHR ''$'' \<and> b = CHR ''('' \<and> c \<noteq> CHR ''('') \<and> subst_free (b # c # s))"
| "subst_free s = True"

definition clean :: "string \<Rightarrow> bool" where
  "clean line \<longleftrightarrow> escMark \<notin> set line \<and> subst_free line"

lemma subst_free_tail: "subst_free (c # s) \<Longrightarrow> subst_free s"
  by (cases s; cases "tl s") auto

lemma subst_free_suffix: "subst_free (a @ s) \<Longrightarrow> subst_free s"
  by (induction a) (auto dest: subst_free_tail)

lemma subst_free_prefix: "subst_free (s @ b) \<Longrightarrow> subst_free s"
  by (induction s rule: subst_free.induct) auto

lemma clean_part: "clean l \<Longrightarrow> sublist a l \<Longrightarrow> clean a"
  by (auto simp: clean_def sublist_def dest: subst_free_suffix subst_free_prefix)

lemma clean_strip: "clean l \<Longrightarrow> stripEscMarks l = l"
  unfolding clean_def stripEscMarks_def by (simp add: filter_id_conv) metis

lemma locate_free: "subst_free s \<Longrightarrow> locate_loop d s = None \<or> (\<exists>b. locate_loop d s = Some (b, []))"
proof (induction d s rule: locate_loop.induct)
  case (1 d s)
  show ?case
  proof (cases "cut_at ''$('' s")
    case None
    then show ?thesis by (simp add: locate_loop.simps)
  next
    case (Some x)
    then obtain a b where x: "cut_at ''$('' s = Some (a, b)" by (cases x) simp
    then have b: "subst_free (''$('' @ b)" using cut_at_parts [OF x] 1(2) subst_free_suffix by metis
    show ?thesis
    proof (cases b)
      case Nil
      then show ?thesis using x by (simp add: locate_loop.simps)
    next
      case (Cons c r)
      then have "c = CHR ''(''" and "subst_free r" using b by (auto dest: subst_free_tail)
      then show ?thesis using 1(1) [OF x refl] x Cons by (simp add: locate_loop.simps [of d])
    qed
  qed
qed

lemma clean_no_subst: "clean l \<Longrightarrow> locateCommandSubst l = None"
  using locate_free [of l "[]"] by (auto simp: clean_def locateCommandSubst_def)

definition funcs_clean :: "'w shell \<Rightarrow> bool" where
  "funcs_clean s \<longleftrightarrow> list_all (\<lambda>f. list_all clean (fn_body f)) (sh_funcs s)"

definition files_clean :: "'w host \<Rightarrow> bool" where
  "files_clean h \<longleftrightarrow> (\<forall>p m w b w'. h_ReadFile h p m w = (Inr b, w') \<longrightarrow> list_all clean (source_lines b))"

text \<open>
  What waiting for a job relies on: \<open>left w\<close> bounds the ticks until every program has exited.
\<close>

definition settles :: "'w host \<Rightarrow> ('w \<Rightarrow> nat) \<Rightarrow> bool" where
  "settles h left \<longleftrightarrow> (\<forall>w. left (h_SleepTick h w) \<le> left w - 1) \<and> (\<forall>pid w. left (snd (h_ProbeExternal h pid w)) \<le> left w)
     \<and> (\<forall>m w. left (h_Marker h m w) \<le> left w) \<and> (\<forall>pid w. left w = 0 \<longrightarrow> snd (fst (h_ProbeExternal h pid w)) = probeExited)"

lemma reap_one_left: "settles h left \<Longrightarrow> left (snd (reap_one h j w)) \<le> left w"
proof (cases "h_ProbeExternal h (j_PID j) w")
  case (Pair x v)
  assume s: "settles h left"
  then have "left v \<le> left w" "left (h_Marker h m v) \<le> left v" for m
    using Pair unfolding settles_def by (metis snd_conv)+
  then have "left v \<le> left w" "left (h_Marker h m v) \<le> left w" for m by (auto intro: le_trans)
  then show ?thesis using Pair by (cases x) (auto simp: reap_one_def finishJob_def split: probe.splits)
qed

lemma reap_one_done: "settles h left \<Longrightarrow> left w = 0 \<Longrightarrow> j_Done (fst (reap_one h j w))"
proof (cases "h_ProbeExternal h (j_PID j) w")
  case (Pair x v)
  assume "settles h left" "left w = 0"
  then have "snd x = probeExited" using Pair unfolding settles_def by (metis fst_conv)
  then show ?thesis using Pair by (cases x) (auto simp: reap_one_def finishJob_def)
qed

lemma reap_all_left: "settles h left \<Longrightarrow> left (snd (reap_all h js w)) \<le> left w"
  by (induction js arbitrary: w) (auto simp: split_beta intro: le_trans reap_one_left)

lemma reap_all_done: "settles h left \<Longrightarrow> left w = 0 \<Longrightarrow> list_all j_Done (fst (reap_all h js w))"
proof (induction js arbitrary: w)
  case (Cons j js)
  then have "left (snd (reap_one h j w)) = 0" using reap_one_left by (metis le_zero_eq)
  then show ?case using Cons reap_one_done by (simp add: split_beta)
qed simp

lemma fg_returns: "settles h left \<Longrightarrow> left (sh_world s) < k \<Longrightarrow> fg_loop h k n s \<noteq> Diverge"
proof (induction k arbitrary: s)
  case (Suc k)
  let ?t = "ReapJobs h s"
  have w: "left (sh_world ?t) \<le> left (sh_world s)"
    using reap_all_left [OF Suc.prems(1)] by (simp add: ReapJobs_def split_beta)
  show ?case
  proof (cases "left (sh_world s) = 0")
    case True
    then have "list_all j_Done (sh_jobs ?t)"
      using reap_all_done [OF Suc.prems(1)] by (simp add: ReapJobs_def split_beta)
    then have "j_Done j" if "jobByN n ?t = Some j" for j
      using that by (auto simp: jobByN_def find_Some_iff list_all_length)
    then show ?thesis by (auto simp: Let_def split: option.splits)
  next
    case False
    have "left (h_SleepTick h (sh_world ?t)) \<le> left (sh_world ?t) - 1" using Suc.prems(1) by (simp add: settles_def)
    then have "left (h_SleepTick h (sh_world ?t)) < k" using w False Suc.prems(2) by linarith
    then show ?thesis using Suc.IH [OF Suc.prems(1), of "?t\<lparr>sh_world := h_SleepTick h (sh_world ?t)\<rparr>"]
      by (auto simp: Let_def split: option.splits)
  qed
qed simp

interpretation clean_frame: shell_frame "funcs_clean :: 'w shell \<Rightarrow> bool"
  by unfold_locales (auto simp: funcs_clean_def)

lemma funcs_clean_define:
  assumes "list_all (\<lambda>f. list_all clean (fn_body f)) t" "clean (fd_body d)" "func_define t d = Some t'"
  shows "list_all (\<lambda>f. list_all clean (fn_body f)) t'"
proof -
  have "list_all clean (commands_of (fd_body d))"
    using commands_parts [of "fd_body d"] clean_part [OF assms(2)] by (simp add: list_all_iff)
  then have g: "list_all clean body" if "splitCommands (fd_body d) = Some body" for body using split_bounded [OF that] by simp
  show ?thesis using assms(1,3) g func_replace_set
    by (fastforce simp: func_define_def Let_def list_all_iff split: option.splits if_splits)
qed

lemma func_find_in: "func_find t name = Some g \<Longrightarrow> g \<in> set t"
  by (induction t) (auto split: if_splits)

lemma clean_evaluator: "files_clean h \<Longrightarrow> evaluator funcs_clean h (gosh_table lower h) clean"
proof unfold_locales
  assume h: "files_clean h"
  show "funcs_clean (s\<lparr>sh_jobs := sh_jobs s @ [j]\<rparr>)" if "funcs_clean s" for s :: "'a shell" and j
    using that by (simp add: funcs_clean_def)
  show "funcs_clean (s\<lparr>sh_funcs := t\<rparr>)" if "funcs_clean s" "clean r" "parseFuncDef r = Some d" "func_define (sh_funcs s) d = Some t"
    for s :: "'a shell" and r d t
    using that(1) funcs_clean_define [OF _ clean_part [OF that(2) parseFuncDef_parts [OF that(3)]] that(4)] by (simp add: funcs_clean_def)
  show "funcs_clean s'" if "gosh_table lower h name = Some f" "\<And>b s. funcs_clean s \<Longrightarrow> funcs_clean (out b s)" "funcs_clean s"
      "f k name args stdin out s = Ret (st, s')" for name f out s k args stdin st s'
    using clean_frame.J_gosh [of out s lower h k name args stdin st s', OF that(2,3)] that(1,4) by (simp add: gosh_table_def split: if_splits)
  show "clean l" if "funcs_clean s" "func_find (sh_funcs s) name = Some g" "l \<in> set (fn_body g)" for s :: "'a shell" and name g l
    using that func_find_in by (fastforce simp: funcs_clean_def list_all_iff)
  show "clean l" if "h_ReadFile h p m w = (Inr b, w')" "l \<in> set (source_lines b)" for p m w b w' l
    using that h unfolding files_clean_def list_all_iff by blast
  show "clean (stripEscMarks l)" if "clean l" for l using that clean_strip by simp
qed (use clean_part clean_no_subst in auto)

lemma gosh_returns: "settles h left \<Longrightarrow> \<forall>w. left w < k \<Longrightarrow> gosh_cmd lower h k name args stdin out s \<noteq> Diverge"
  using fg_returns [of h left s k] by (auto simp: gosh_cmd_def bFg_def bind_run_Diverge split: option.splits)


text \<open>A host whose programs exit at once and whose files are empty, for the witnesses.\<close>

definition plain_host :: "string host" where
  "plain_host = \<lparr>h_Marker = (\<lambda>m w. w), h_Out = (\<lambda>b w. w @ b), h_Principal = (\<lambda>w. None),
     h_Chmod = (\<lambda>p m w. (None, w)), h_SecretNames = (\<lambda>w. None), h_RunExternal = (\<lambda>n as w. (None, w)),
     h_WaitExternal = (\<lambda>p w. (None, w)), h_ProbeExternal = (\<lambda>p w. ((0, probeExited), w)), h_SleepTick = (\<lambda>w. w),
     h_PipeWrite = (\<lambda>b w. (False, w)), h_PipeReadAll = (\<lambda>w. (None, w)), h_ReadFile = (\<lambda>p m w. (Inl (PlainError ''none''), w)),
     h_WriteFile = (\<lambda>p b a w. (False, w)), h_Chdir = (\<lambda>p w. (None, w)), h_ReadTTYLine = (\<lambda>w. (None, w)),
     h_SleepSeconds = (\<lambda>n w. w)\<rparr>"


lemma run_returned: "(case m of Ret _ \<Rightarrow> True | _ \<Rightarrow> False) \<Longrightarrow> \<exists>a b c. m = Ret (a, b, c)"
  by (cases m) auto

theorem shell_invariant_witness:
  "\<exists>st act s'. runLine plain_host (gosh_table (\<lambda>s. s) plain_host) 1 ''echo hi'' 0 (NewShell [] []) = Ret (st, act, s') \<and> sh_inv s'"
proof -
  have "case runLine plain_host (gosh_table (\<lambda>s. s) plain_host) 1 ''echo hi'' 0 (NewShell [] []) of Ret _ \<Rightarrow> True | _ \<Rightarrow> False"
    by code_simp
  from run_returned [OF this] obtain st act s' where
    r: "runLine plain_host (gosh_table (\<lambda>s. s) plain_host) 1 ''echo hi'' 0 (NewShell [] []) = Ret (st, act, s')" by (elim exE)
  have "sh_inv s'" by (rule shell_invariant [OF sh_inv_new r])
  with r show ?thesis by (intro exI conjI)
qed

subsection \<open>Recursion without a bound\<close>

lemma echo_A_front:
  "trimSpace (stripEscMarks ''echo $A'') = ''echo $A''" "isFuncDefLine ''echo $A'' = False"
  "hasPrefix ''echo $A'' ''for'' = False" "hasPrefix ''echo $A'' ''while'' = False" "locateCommandSubst ''echo $A'' = None"
  "parseIf ''echo $A'' = Other" "parseFor ''echo $A'' = Other" "parseWhile ''echo $A'' = Other" "parseCase ''echo $A'' = Other"
  "chainSplit ''echo $A'' = Some ([''echo $A''], [])" "tokenize (arithExpand ''echo $A'') = Inr [tokWord ''echo'', tokWord ''$A'']"
  by code_simp+

lemma echo_A_plan:
  "parsePlan [tokWord ''echo'', tokWord ''$A''] e st = Inr (zero_plan\<lparr>pl_left := [''echo'', value_of e ''A'']\<rparr>)"
  by (simp add: parsePlan_def zero_plan_def expand_text.simps isNameByte_def byte_le_def escMark_def cur_words_def)

lemma echo_A:
  assumes "sh_capture s = Some []" "sh_sourceReq s = []" "\<not> sh_exitReq s" "\<not> sh_monitorRq s" "sh_status s = 0" "depth \<le> runDepthMax"
    and v: "value_of (sh_env s) ''A'' = v" "v \<noteq> ''-n''"
  shows "runLine h (gosh_table lower h) (Suc k) ''echo $A'' depth s = Ret (0, ActionContinue, s\<lparr>sh_capture := Some (v @ nl)\<rparr>)"
proof -
  have t: "gosh_table lower h ''echo'' = Some (gosh_cmd lower h)" by (simp add: gosh_table_def gosh_names_def)
  have f: "gosh_cmd lower h k ''echo'' [v] None (sh_out h) s = Ret (0, s\<lparr>sh_capture := Some (v @ nl)\<rparr>)"
    using assms by (simp add: gosh_cmd_def bEcho_def sh_out_def Let_def)
  have e: "s\<lparr>sh_exitReq := False, sh_monitorRq := False\<rparr> = s" using assms by (cases s) simp
  have r: "runSegment h (gosh_table lower h) k run ''echo $A'' depth s = Ret (0, ActionContinue, s\<lparr>sh_capture := Some (v @ nl)\<rparr>)" for run
    using assms f by (simp add: runSegment_def echo_A_front echo_A_plan Let_def e zero_plan_def runSingle_def run_command_def
      t run_redirected_def run_builtin_def finish_segment_def)
  show ?thesis using assms by (simp add: line_step_def Let_def echo_A_front commandSubst_def run_ladder_def r maxLineBytes_def)
qed

lemma subst_front:
  "trimSpace (stripEscMarks ''$(echo $A)'') = ''$(echo $A)''" "isFuncDefLine ''$(echo $A)'' = False"
  "hasPrefix ''$(echo $A)'' ''for'' = False" "hasPrefix ''$(echo $A)'' ''while'' = False"
  "locateCommandSubst ''$(echo $A)'' = Some \<lparr>cs_prefix = [], cs_inner = ''echo $A'', cs_suffix = []\<rparr>"
  "parseIf ''if $(echo $A); then x; fi'' = Is \<lparr>if_cond = ''$(echo $A)'', if_then = ''x'', if_else = [], if_hasElse = False\<rparr>"
  by code_simp+

text \<open>
  C23. The depth guard does not bound the recursion of the interpreter: a substitution that yields a
  construct whose condition is that substitution again runs at the same depth, for ever.
\<close>

theorem shell_diverges:
  "RunLine h (gosh_table lower h) k ''$(echo $A)''
     ((NewShell hist w)\<lparr>sh_env := env_Set NewEnv ''A'' ''if $(echo $A); then x; fi''\<rparr>) = Diverge"
proof -
  let ?v = "''if $(echo $A); then x; fi''"
  let ?s = "(NewShell hist w)\<lparr>sh_env := env_Set NewEnv ''A'' ?v\<rparr>"
  have v: "value_of (sh_env ?s) ''A'' = ?v" by code_simp
  have "runLine h (gosh_table lower h) k ''$(echo $A)'' 0 ?s = Diverge"
  proof (induction k rule: less_induct)
    case (less k)
    have c: "captureLine (runLine h (gosh_table lower h) (Suc j)) ''echo $A'' 0 ?s = Ret (?v, ActionContinue, ?s)" for j
      using echo_A [of "?s\<lparr>sh_capture := Some []\<rparr>" 0 ?v h lower j] v
      by (simp add: captureLine_def NewShell_def trimEndBytes_def nl_def)
    consider "k = 0" | "k = 1" | j where "k = Suc (Suc j)" by (metis One_nat_def not0_implies_Suc)
    then show ?case
    proof cases
      case 3
      then show ?thesis using less [of "Suc j"] c [of j]
        by (simp add: line_step_def Let_def subst_front commandSubst_def run_ladder_def runIf_def maxLineBytes_def)
    qed (simp_all add: line_step_def Let_def subst_front commandSubst_def captureLine_def maxLineBytes_def)
  qed
  then show ?thesis by (simp add: RunLine_def)
qed

subsection \<open>Loops, redirects and the sort tool\<close>

lemma while_spin:
  assumes "\<And>s. P s \<Longrightarrow> run (wh_cond c) depth (clearLoopFlags s) = cont (x s) (f s) \<and> sh_status (f s) = 0"
    and "\<And>s. P s \<Longrightarrow> runBody h run (wh_body c) depth (f s) = Ret (st s, False, ActionContinue, g s) \<and> P (g s)"
  shows "P s \<Longrightarrow> while_loop h run c depth n s =
    refuse h (''while: iteration cap ('' @ Itoa64 (of_nat whileIterMax) @ '') reached'') 1 (clearLoopFlags ((g ^^ n) s))"
proof (induction n arbitrary: s)
  case (Suc n)
  then show ?case using assms [OF Suc.prems] by (simp add: funpow_Suc_right del: funpow.simps(2))
qed simp

text \<open>
  C24. The iteration cap: a \<^verbatim>\<open>while\<close> whose condition keeps succeeding and whose body neither breaks nor leaves the
  states \<open>P\<close> runs its body exactly 256 times and is then refused with status 1.
\<close>

theorem while_cap:
  assumes "\<And>s. P s \<Longrightarrow> run (wh_cond c) depth (clearLoopFlags s) = cont (x s) (f s) \<and> sh_status (f s) = 0"
    and "\<And>s. P s \<Longrightarrow> runBody h run (wh_body c) depth (f s) = Ret (st s, False, ActionContinue, g s) \<and> P (g s)"
    and "P s"
  shows "runWhile h run c depth s = refuse h ''while: iteration cap (256) reached'' 1 (clearLoopFlags ((g ^^ 256) s))"
proof -
  have "Itoa64 (of_nat whileIterMax) = ''256''" by code_simp
  then show ?thesis using while_spin [of P run c depth x f h st g s whileIterMax, OF assms] by (simp add: runWhile_def whileIterMax_def)
qed

theorem while_cap_witness:
  "runWhile plain_host (runLine plain_host (gosh_table (\<lambda>s. s) plain_host) 1) \<lparr>wh_cond = ''true'', wh_body = ''true''\<rparr> 0 (NewShell [] [])
     = refuse plain_host ''while: iteration cap (256) reached'' 1 (NewShell [] [])"
proof -
  let ?s = "NewShell [] [] :: string shell"
  have r: "runLine plain_host (gosh_table (\<lambda>s. s) plain_host) 1 ''true'' 0 ?s = cont 0 ?s" "clearLoopFlags ?s = ?s"
    "sh_status ?s = 0" "runBody plain_host (runLine plain_host (gosh_table (\<lambda>s. s) plain_host) 1) ''true'' 0 ?s = Ret (0, False, ActionContinue, ?s)"
    by code_simp+
  have "((\<lambda>_. ?s) ^^ n) ?s = ?s" for n by (induction n) simp_all
  then show ?thesis
    using while_cap [of "\<lambda>s. s = ?s" "runLine plain_host (gosh_table (\<lambda>s. s) plain_host) 1"
      "\<lparr>wh_cond = ''true'', wh_body = ''true''\<rparr>" 0 "\<lambda>_. 0" "\<lambda>_. ?s" plain_host "\<lambda>_. 0" "\<lambda>_. ?s" ?s] r by simp
qed



lemma dedup_loop_spec:
  assumes "length a = i + m" "k \<le> i" "i = 0 \<or> a ! (i - 1) = x"
  shows "dedup_loop m i k a = take k a @ (if i = 0 then remdups_adj (drop i a) else tl (remdups_adj (x # drop i a)))"
  using assms
proof (induction m arbitrary: i k a x)
  case (Suc m)
  have d: "drop i a = a ! i # drop (Suc i) a" using Suc.prems(1) by (simp add: Cons_nth_drop_Suc)
  show ?case
  proof (cases "i = 0 \<or> a ! i \<noteq> a ! (i - 1)")
    case True
    have u: "a[k := a ! i] ! i = a ! i" using Suc.prems(1,2) by (cases "k = i") simp_all
    have "dedup_loop m (Suc i) (Suc k) (a[k := a ! i]) = take k a @ a ! i # tl (remdups_adj (a ! i # drop (Suc i) a))"
      using Suc.IH [of "a[k := a ! i]" "Suc i" "Suc k" "a ! i"] Suc.prems u by (simp add: take_Suc_conv_app_nth)
    moreover have "a ! i # tl (remdups_adj (a ! i # drop (Suc i) a)) = remdups_adj (drop i a)"
      unfolding d by (simp add: remdups_adj_Cons split: list.split)
    moreover have "tl (remdups_adj (x # drop i a)) = remdups_adj (drop i a)" if "i \<noteq> 0"
      using that True Suc.prems(3) unfolding d by auto
    ultimately show ?thesis using True by simp
  next
    case False
    then show ?thesis using Suc.IH [of a "Suc i" k x] Suc.prems unfolding d by auto
  qed
qed (auto simp: remdups_adj_Cons)

lemma dedup_adj: "dedup a = remdups_adj a"
  unfolding dedup_def using dedup_loop_spec [of a 0 "length a" 0] by simp

lemma sorted_adj_distinct: "sorted xs \<Longrightarrow> distinct_adj xs \<Longrightarrow> distinct (xs :: 'a :: linorder list)"
  by (induction xs rule: induct_list012) force+

text \<open>
  C26. \<^verbatim>\<open>sort -u\<close> prints every line of its input once, in increasing order, although \<^verbatim>\<open>dedup\<close> compacts the sorted
  array in place while it reads it.
\<close>

theorem sort_unique:
  "tSort h [''-u''] (Some b) out s = (0, out_joined out (sorted_list_of_set (set (splitLines b))) s)"
proof -
  have "dedup (sort xs) = sorted_list_of_set (set xs)" for xs :: "string list"
    by (rule sorted_distinct_set_unique) (simp_all add: dedup_adj sorted_adj_distinct)
  then show ?thesis by (simp add: tSort_def with_input_def toolInput_def Let_def)
qed

end
