(* ===== verification/Sha256.thy ===== *)
theory Sha256
  imports Prelude
begin

text \<open>
  SHA-256 and HMAC-SHA256 as the shell's network login has them (\<^verbatim>\<open>shlib/hmac.go\<close>; the TLS client carries a
  copy in \<^verbatim>\<open>tls/sha256.go\<close>), against the definitions of FIPS 180-4 and RFC 2104. The digest is streamed: bytes
  that do not fill a block wait in a 64-byte buffer.
\<close>

subsection \<open>The code\<close>

definition sha256K :: "u32 list" where
  "sha256K = concat [
     [0x428a2f98, 0x71374491, 0xb5c0fbcf, 0xe9b5dba5, 0x3956c25b, 0x59f111f1, 0x923f82a4, 0xab1c5ed5],
     [0xd807aa98, 0x12835b01, 0x243185be, 0x550c7dc3, 0x72be5d74, 0x80deb1fe, 0x9bdc06a7, 0xc19bf174],
     [0xe49b69c1, 0xefbe4786, 0x0fc19dc6, 0x240ca1cc, 0x2de92c6f, 0x4a7484aa, 0x5cb0a9dc, 0x76f988da],
     [0x983e5152, 0xa831c66d, 0xb00327c8, 0xbf597fc7, 0xc6e00bf3, 0xd5a79147, 0x06ca6351, 0x14292967],
     [0x27b70a85, 0x2e1b2138, 0x4d2c6dfc, 0x53380d13, 0x650a7354, 0x766a0abb, 0x81c2c92e, 0x92722c85],
     [0xa2bfe8a1, 0xa81a664b, 0xc24b8b70, 0xc76c51a3, 0xd192e819, 0xd6990624, 0xf40e3585, 0x106aa070],
     [0x19a4c116, 0x1e376c08, 0x2748774c, 0x34b0bcb5, 0x391c0cb3, 0x4ed8aa4a, 0x5b9cca4f, 0x682e6ff3],
     [0x748f82ee, 0x78a5636f, 0x84c87814, 0x8cc70208, 0x90befffa, 0xa4506ceb, 0xbef9a3f7, 0xc67178f2]]"

record sha256Digest =
  d_h :: "u32 list"
  d_x :: bytes
  d_nx :: nat
  d_n :: u64

definition sha256Init :: sha256Digest where
  "sha256Init = \<lparr>d_h = [0x6a09e667, 0xbb67ae85, 0x3c6ef372, 0xa54ff53a, 0x510e527f, 0x9b05688c, 0x1f83d9ab, 0x5be0cd19],
     d_x = replicate 64 0, d_nx = 0, d_n = 0\<rparr>"

definition rotr32 :: "u32 \<Rightarrow> nat \<Rightarrow> u32" where
  "rotr32 x n = drop_bit n x OR push_bit (32 - n) x"

definition load_be32 :: "bytes \<Rightarrow> nat \<Rightarrow> u32" where
  "load_be32 p i = push_bit 24 (ucast (p ! (4 * i))) OR push_bit 16 (ucast (p ! (4 * i + 1)))
     OR push_bit 8 (ucast (p ! (4 * i + 2))) OR ucast (p ! (4 * i + 3))"

text \<open>The loop that fills \<^verbatim>\<open>w[16]\<close> to \<^verbatim>\<open>w[63]\<close>: \<open>w\<close> is the part filled so far.\<close>

definition extend :: "u32 list \<Rightarrow> u32 list" where
  "extend w = (let i = length w;
       s0 = rotr32 (w ! (i - 15)) 7 XOR rotr32 (w ! (i - 15)) 18 XOR drop_bit 3 (w ! (i - 15));
       s1 = rotr32 (w ! (i - 2)) 17 XOR rotr32 (w ! (i - 2)) 19 XOR drop_bit 10 (w ! (i - 2))
     in w @ [w ! (i - 16) + s0 + w ! (i - 7) + s1])"

definition schedule :: "bytes \<Rightarrow> u32 list" where
  "schedule p = (extend ^^ 48) (map (load_be32 p) [0..<16])"

type_synonym working = "u32 \<times> u32 \<times> u32 \<times> u32 \<times> u32 \<times> u32 \<times> u32 \<times> u32"

definition sha_round :: "u32 list \<Rightarrow> nat \<Rightarrow> working \<Rightarrow> working" where
  "sha_round w i v = (case v of (a, b, c, dd, e, f, g, h) \<Rightarrow>
     let s1 = rotr32 e 6 XOR rotr32 e 11 XOR rotr32 e 25;
         ch = (e AND f) XOR (NOT e AND g);
         t1 = h + s1 + ch + sha256K ! i + w ! i;
         s0 = rotr32 a 2 XOR rotr32 a 13 XOR rotr32 a 22;
         maj = (a AND b) XOR (a AND c) XOR (b AND c);
         t2 = s0 + maj
     in (t1 + t2, a, b, c, dd + t1, e, f, g))"

definition block_h :: "u32 list \<Rightarrow> bytes \<Rightarrow> u32 list" where
  "block_h H p =
     (case fold (sha_round (schedule p)) [0..<64] (H ! 0, H ! 1, H ! 2, H ! 3, H ! 4, H ! 5, H ! 6, H ! 7) of
        (a, b, c, dd, e, f, g, h) \<Rightarrow>
          [H ! 0 + a, H ! 1 + b, H ! 2 + c, H ! 3 + dd, H ! 4 + e, H ! 5 + f, H ! 6 + g, H ! 7 + h])"

definition block :: "bytes \<Rightarrow> sha256Digest \<Rightarrow> sha256Digest" where
  "block p d = d\<lparr>d_h := block_h (d_h d) p\<rparr>"

text \<open>\<open>copy_at x i b\<close> is \<^verbatim>\<open>copy(x[i:], b)\<close>.\<close>

definition copy_at :: "bytes \<Rightarrow> nat \<Rightarrow> bytes \<Rightarrow> bytes" where
  "copy_at x i b = take i x @ go_copy (drop i x) b"

text \<open>\<^verbatim>\<open>write\<close> in its three parts: the waiting buffer, whole blocks, and what is left over.\<close>

definition fill :: "bytes \<Rightarrow> sha256Digest \<Rightarrow> bytes \<times> sha256Digest" where
  "fill p d =
     (if d_nx d > 0 then
        let n = min (64 - d_nx d) (length p);
            d = d\<lparr>d_x := copy_at (d_x d) (d_nx d) (take n p), d_nx := d_nx d + n\<rparr>
        in (drop n p, if d_nx d = 64 then (block (d_x d) d)\<lparr>d_nx := 0\<rparr> else d)
      else (p, d))"

fun whole_blocks :: "bytes \<Rightarrow> sha256Digest \<Rightarrow> bytes \<times> sha256Digest" where
  "whole_blocks p d = (if length p \<ge> 64 then whole_blocks (drop 64 p) (block (take 64 p) d) else (p, d))"

declare whole_blocks.simps [simp del]

definition digest_write :: "sha256Digest \<Rightarrow> bytes \<Rightarrow> sha256Digest" where
  "digest_write d p =
     (let (p', d) = fill p (d\<lparr>d_n := d_n d + of_nat (length p)\<rparr>); (p'', d) = whole_blocks p' d
      in if p'' \<noteq> [] then d\<lparr>d_x := copy_at (d_x d) 0 p'', d_nx := length p''\<rparr> else d)"

definition be64 :: "u64 \<Rightarrow> bytes" where
  "be64 v = map (\<lambda>i. ucast (drop_bit (56 - 8 * i) v)) [0..<8]"

definition be32 :: "u32 \<Rightarrow> bytes" where
  "be32 v = [ucast (drop_bit 24 v), ucast (drop_bit 16 v), ucast (drop_bit 8 v), ucast v]"

definition digest_sum :: "sha256Digest \<Rightarrow> bytes" where
  "digest_sum d =
     (let length = d_n d; padLen = unat ((56 - (length + 1) mod 64 + 64) mod 64) + 1;
          pad = 0x80 # replicate 63 0;
          cp = digest_write (digest_write d (take padLen pad)) (be64 (length * 8))
      in concat (map be32 (d_h cp)))"

definition sha256Sum :: "bytes \<Rightarrow> bytes" where
  "sha256Sum p = digest_sum (digest_write sha256Init p)"

definition hmacSha256 :: "bytes \<Rightarrow> bytes \<Rightarrow> bytes" where
  "hmacSha256 key msg =
     (let k = go_copy (replicate 64 0) (if length key > 64 then sha256Sum key else key);
          k = map (\<lambda>b. b XOR 0x36) k;
          ik = digest_sum (digest_write (digest_write sha256Init k) msg);
          k = map (\<lambda>b. b XOR (0x36 XOR 0x5c)) k
      in digest_sum (digest_write (digest_write sha256Init k) ik))"

subsection \<open>The standard\<close>

text \<open>FIPS 180-4: rotations, the message schedule as a recursion, and the compression of one block.\<close>

text \<open>The value of bytes and the bytes of a value, most significant first.\<close>

definition be_val :: "bytes \<Rightarrow> nat" where
  "be_val b = foldl (\<lambda>n x. n * 256 + unat x) 0 b"

definition be_bytes :: "nat \<Rightarrow> nat \<Rightarrow> bytes" where
  "be_bytes n v = map (\<lambda>i. of_nat (v div 256 ^ (n - 1 - i))) [0..<n]"

definition big_sigma0 :: "u32 \<Rightarrow> u32" where
  "big_sigma0 x = word_rotr 2 x XOR word_rotr 13 x XOR word_rotr 22 x"

definition big_sigma1 :: "u32 \<Rightarrow> u32" where
  "big_sigma1 x = word_rotr 6 x XOR word_rotr 11 x XOR word_rotr 25 x"

definition small_sigma0 :: "u32 \<Rightarrow> u32" where
  "small_sigma0 x = word_rotr 7 x XOR word_rotr 18 x XOR drop_bit 3 x"

definition small_sigma1 :: "u32 \<Rightarrow> u32" where
  "small_sigma1 x = word_rotr 17 x XOR word_rotr 19 x XOR drop_bit 10 x"

function msg_word :: "bytes \<Rightarrow> nat \<Rightarrow> u32" where
  "msg_word p t = (if t < 16 then of_nat (be_val (take 4 (drop (4 * t) p)))
     else small_sigma1 (msg_word p (t - 2)) + msg_word p (t - 7) + small_sigma0 (msg_word p (t - 15)) + msg_word p (t - 16))"
  by pat_completeness auto
termination
  by (relation "measure snd") auto

declare msg_word.simps [simp del]

text \<open>The constants: the first 32 bits of the fractional parts of the cube roots of the first 64 primes and of the
  square roots of the first eight.\<close>

definition iroot :: "nat \<Rightarrow> nat \<Rightarrow> nat" where
  "iroot k n = Max {r. r ^ k \<le> n}"

definition fips_primes :: "nat list" where
  "fips_primes = [
      2, 3, 5, 7, 11, 13, 17, 19, 23, 29, 31, 37, 41, 43, 47, 53,
      59, 61, 67, 71, 73, 79, 83, 89, 97, 101, 103, 107, 109, 113, 127, 131,
      137, 139, 149, 151, 157, 163, 167, 173, 179, 181, 191, 193, 197, 199, 211, 223,
      227, 229, 233, 239, 241, 251, 257, 263, 269, 271, 277, 281, 283, 293, 307, 311]"

definition fips_K :: "nat \<Rightarrow> u32" where
  "fips_K t = of_nat (iroot 3 (fips_primes ! t * 2 ^ 96))"

definition fips_H :: "nat \<Rightarrow> u32" where
  "fips_H i = of_nat (iroot 2 (fips_primes ! i * 2 ^ 64))"

primrec compress :: "bytes \<Rightarrow> nat \<Rightarrow> working \<Rightarrow> working" where
  "compress p 0 v = v"
| "compress p (Suc t) v = (case compress p t v of (a, b, c, d, e, f, g, h) \<Rightarrow>
     let T1 = h + big_sigma1 e + ((e AND f) XOR (NOT e AND g)) + fips_K t + msg_word p t;
         T2 = big_sigma0 a + ((a AND b) XOR (a AND c) XOR (b AND c))
     in (T1 + T2, a, b, c, d + T1, e, f, g))"

fun add_working :: "working \<Rightarrow> working \<Rightarrow> working" where
  "add_working (a, b, c, d, e, f, g, h) (a', b', c', d', e', f', g', h') =
     (a + a', b + b', c + c', d + d', e + e', f + f', g + g', h + h')"

definition fips_H0 :: working where
  "fips_H0 = (fips_H 0, fips_H 1, fips_H 2, fips_H 3, fips_H 4, fips_H 5, fips_H 6, fips_H 7)"

text \<open>Padding: a one bit, zeros up to 56 modulo 64 bytes, and the number of bits.\<close>

definition fips_pad :: "bytes \<Rightarrow> bytes" where
  "fips_pad m = m @ 0x80 # replicate ((119 - length m mod 64) mod 64) 0 @ be_bytes 8 (8 * length m)"

fun blocks :: "bytes \<Rightarrow> bytes list" where
  "blocks m = (if length m < 64 then [] else take 64 m # blocks (drop 64 m))"

declare blocks.simps [simp del]

fun out_working :: "working \<Rightarrow> bytes" where
  "out_working (a, b, c, d, e, f, g, h) = concat (map (\<lambda>x. be_bytes 4 (unat x)) [a, b, c, d, e, f, g, h])"

definition sha256_spec :: "bytes \<Rightarrow> bytes" where
  "sha256_spec m = out_working (foldl (\<lambda>H p. add_working H (compress p 64 H)) fips_H0 (blocks (fips_pad m)))"

text \<open>RFC 2104.\<close>

definition hmac_spec :: "bytes \<Rightarrow> bytes \<Rightarrow> bytes" where
  "hmac_spec key msg =
     (let k0 = (if length key > 64 then sha256_spec key else key); k = k0 @ replicate (64 - length k0) 0
      in sha256_spec (map (\<lambda>b. b XOR 0x5c) k @ sha256_spec (map (\<lambda>b. b XOR 0x36) k @ msg)))"

subsection \<open>The block function\<close>

lemma rotr32_rotr: "0 < n \<Longrightarrow> n < 32 \<Longrightarrow> rotr32 x n = word_rotr n x"
proof (rule bit_word_eqI)
  fix i assume n: "0 < n" "n < 32" and "i < LENGTH(32)"
  then have i: "i < 32" by simp
  show "bit (rotr32 x n) i = bit (word_rotr n x) i"
  proof (cases "i + n < 32")
    case True
    then have "\<not> 32 - n \<le> i" by linarith
    then show ?thesis using n True by (simp add: rotr32_def bit_simps add.commute)
  next
    case False
    then have "(i + n) mod 32 = i + n - 32" using n i by (simp add: mod_if)
    moreover have "32 - n \<le> i" "\<not> bit x (n + i)" using False by (auto dest: bit_imp_le_length)
    ultimately show ?thesis using False n i by (simp add: rotr32_def bit_simps)
  qed
qed

lemma or_byte: "push_bit 8 x OR ucast (b :: u8) = (x * 256 + ucast b :: u32)"
proof -
  have "push_bit 8 x AND ucast b = (0 :: u32)" by (rule bit_word_eqI) (auto simp: bit_simps dest: bit_imp_le_length)
  then have "push_bit 8 x + ucast b = (push_bit 8 x OR ucast b :: u32)" by (rule disjunctive_add_eq_or)
  then show ?thesis by (simp add: push_bit_eq_mult)
qed

lemma load_be32_val: "4 * i + 4 \<le> length p \<Longrightarrow> load_be32 p i = of_nat (be_val (take 4 (drop (4 * i) p)))"
proof -
  assume l: "4 * i + 4 \<le> length p"
  let ?w = "\<lambda>j. ucast (p ! (4 * i + j)) :: u32"
  have t: "take 4 (drop (4 * i) p) = [p ! (4 * i), p ! (4 * i + 1), p ! (4 * i + 2), p ! (4 * i + 3)]"
    using l by (intro nth_equalityI) (auto simp: less_Suc_eq numeral_eq_Suc)
  have "load_be32 p i = push_bit 8 (push_bit 8 (push_bit 8 (?w 0) OR ?w 1) OR ?w 2) OR ?w 3"
    by (rule bit_word_eqI) (auto simp: load_be32_def bit_simps)
  also have "\<dots> = ((?w 0 * 256 + ?w 1) * 256 + ?w 2) * 256 + ?w 3" by (simp only: or_byte)
  also have "\<dots> = of_nat (be_val (take 4 (drop (4 * i) p)))" unfolding t by (simp add: be_val_def)
  finally show ?thesis .
qed

lemma extend_length: "length ((extend ^^ n) w) = length w + n"
  by (induction n) (simp_all add: extend_def Let_def)

lemma extend_word:
  assumes "length w \<ge> 16" "\<And>j. j < length w \<Longrightarrow> w ! j = msg_word p j" "j < length w + n"
  shows "(extend ^^ n) w ! j = msg_word p j"
  using assms(3)
proof (induction n arbitrary: j)
  case 0
  then show ?case using assms(2) by simp
next
  case (Suc n)
  let ?v = "(extend ^^ n) w"
  have l: "length ?v = length w + n" and e: "(extend ^^ Suc n) w = extend ?v" by (simp_all add: extend_length)
  show ?case
  proof (cases "j < length w + n")
    case True
    then show ?thesis unfolding e using Suc.IH [OF True] l by (simp add: extend_def [of ?v] Let_def nth_append)
  next
    case False
    then have j: "j = length w + n" "\<not> j < 16" using Suc.prems assms(1) by auto
    have v: "?v ! (j - k) = msg_word p (j - k)" if "0 < k" "k \<le> 16" for k using Suc.IH [of "j - k"] that j by simp
    have "msg_word p j = small_sigma1 (msg_word p (j - 2)) + msg_word p (j - 7) + small_sigma0 (msg_word p (j - 15)) + msg_word p (j - 16)"
      using j(2) by (simp add: msg_word.simps [of p j])
    moreover have "length ?v = j" using l j(1) by simp
    ultimately show ?thesis unfolding e
      by (simp add: extend_def [of ?v] Let_def nth_append v rotr32_rotr small_sigma0_def small_sigma1_def add_ac)
  qed
qed

lemma iroot_eqI:
  assumes "0 < k" "r ^ k \<le> n" "n < (r + 1) ^ k"
  shows "iroot k n = r"
proof -
  have "x \<le> r" if "x ^ k \<le> n" for x
  proof (rule ccontr)
    assume "\<not> x \<le> r"
    then have "(r + 1) ^ k \<le> x ^ k" by (intro power_mono) simp_all
    then show False using that assms(3) by linarith
  qed
  then have "{r. r ^ k \<le> n} \<subseteq> {..r}" by auto
  then have "finite {r. r ^ k \<le> n}" by (rule finite_subset) simp
  then show ?thesis unfolding iroot_def using assms(2) \<open>\<And>x. x ^ k \<le> n \<Longrightarrow> x \<le> r\<close> by (intro Max_eqI) auto
qed

text \<open>A table entry against the root it comes from: \<open>m\<close> is the integral part.\<close>

definition root_word :: "nat \<Rightarrow> nat \<Rightarrow> nat \<Rightarrow> bool" where
  "root_word k n c \<longleftrightarrow> list_ex (\<lambda>m. (m * 2 ^ 32 + c) ^ k \<le> n \<and> n < (m * 2 ^ 32 + c + 1) ^ k) [1, 2, 3, 4, 5, 6]"

lemma root_word: "0 < k \<Longrightarrow> root_word k n (unat (c :: u32)) \<Longrightarrow> of_nat (iroot k n) = c"
proof -
  assume k: "0 < k" and "root_word k n (unat c)"
  then obtain m where "(m * 2 ^ 32 + unat c) ^ k \<le> n" "n < (m * 2 ^ 32 + unat c + 1) ^ k"
    unfolding root_word_def list_ex_iff by blast
  then have "iroot k n = m * 2 ^ 32 + unat c" by (rule iroot_eqI [OF k])
  moreover have "(2 ^ 32 :: u32) = 0" by (rule exp_eq_zero_iff [THEN iffD2]) simp
  moreover have "of_nat (unat c) = c" by simp
  ultimately show ?thesis by (simp only: of_nat_add of_nat_mult of_nat_power of_nat_numeral mult_zero_right add_0)
qed

lemma H_roots: "map fips_H [0..<8] = d_h sha256Init"
proof -
  have "list_all (\<lambda>(p, c). root_word 2 (p * 2 ^ 64) c) (zip (take 8 fips_primes) (map unat (d_h sha256Init)))"
    by (simp add: fips_primes_def sha256Init_def root_word_def)
  moreover have "length fips_primes = 64" "length (d_h sha256Init) = 8" by (simp_all add: fips_primes_def sha256Init_def)
  ultimately have "root_word 2 (fips_primes ! t * 2 ^ 64) (unat (d_h sha256Init ! t))" if "t < 8" for t
    using that by (auto simp: list_all_length)
  then show ?thesis
    using \<open>length (d_h sha256Init) = 8\<close> unfolding fips_H_def by (intro nth_equalityI) (simp_all add: root_word)
qed

lemma K_roots: "t < 64 \<Longrightarrow> sha256K ! t = fips_K t"
proof -
  have "list_all (\<lambda>(p, c). root_word 3 (p * 2 ^ 96) c) (zip fips_primes (map unat sha256K))"
    by (simp add: fips_primes_def sha256K_def root_word_def)
  moreover have "length fips_primes = 64" "length sha256K = 64" by (simp_all add: fips_primes_def sha256K_def)
  ultimately have "root_word 3 (fips_primes ! t * 2 ^ 96) (unat (sha256K ! t))" if "t < 64" for t
    using that by (auto simp: list_all_length)
  then show "t < 64 \<Longrightarrow> sha256K ! t = fips_K t" unfolding fips_K_def by (metis root_word zero_less_numeral)
qed

lemma schedule_word: "length p = 64 \<Longrightarrow> t < 64 \<Longrightarrow> schedule p ! t = msg_word p t"
  unfolding schedule_def by (rule extend_word) (auto simp: load_be32_val msg_word.simps)

lemma rounds_compress: "length p = 64 \<Longrightarrow> n \<le> 64 \<Longrightarrow> fold (sha_round (schedule p)) [0..<n] v = compress p n v"
proof (induction n)
  case (Suc n)
  then show ?case
    by (simp add: sha_round_def schedule_word K_roots rotr32_rotr big_sigma0_def big_sigma1_def Let_def split: prod.split)
qed simp

text \<open>The eight chaining words of the code, as the tuple of the standard.\<close>

definition chain :: "u32 list \<Rightarrow> working" where
  "chain H = (H ! 0, H ! 1, H ! 2, H ! 3, H ! 4, H ! 5, H ! 6, H ! 7)"

lemma chain_block: "length p = 64 \<Longrightarrow> chain (block_h H p) = add_working (chain H) (compress p 64 (chain H))"
  using rounds_compress [of p 64 "chain H"] by (simp add: block_h_def chain_def split: prod.split)

lemma length_block_h [simp]: "length (block_h H p) = 8"
  by (simp add: block_h_def split: prod.split)

subsection \<open>Streaming\<close>

definition hashed :: "bytes \<Rightarrow> working" where
  "hashed m = foldl (\<lambda>H p. add_working H (compress p 64 H)) fips_H0 (blocks m)"

lemma blocks_append: "64 dvd length a \<Longrightarrow> blocks (a @ b) = blocks a @ blocks b"
proof (induction a rule: blocks.induct)
  case (1 a)
  show ?case
  proof (cases "length a < 64")
    case True
    then have "a = []" using 1(2) by (auto dest: dvd_imp_le)
    then show ?thesis by (simp add: blocks.simps [of "[]"])
  next
    case False
    then have "blocks (drop 64 a @ b) = blocks (drop 64 a) @ blocks b" using 1 by (simp add: dvd_minus_self)
    then show ?thesis using False by (simp add: blocks.simps [of "a @ b"] blocks.simps [of a])
  qed
qed

lemma hashed_simps:
  "64 dvd length a \<Longrightarrow> length p = 64 \<Longrightarrow> hashed (a @ p) = add_working (hashed a) (compress p 64 (hashed a))"
  "hashed [] = fips_H0"
  by (simp_all add: hashed_def blocks_append blocks.simps [of p] blocks.simps [of "[]"])

text \<open>What a digest has seen: whole blocks in the chaining words, the remainder in the buffer.\<close>

definition aligned :: "sha256Digest \<Rightarrow> bytes \<Rightarrow> bool" where
  "aligned d a \<longleftrightarrow> 64 dvd length a \<and> length (d_x d) = 64 \<and> length (d_h d) = 8 \<and> chain (d_h d) = hashed a"

definition seen :: "sha256Digest \<Rightarrow> bytes \<Rightarrow> bool" where
  "seen d m \<longleftrightarrow> (\<exists>a r. m = a @ r \<and> aligned d a \<and> length r < 64 \<and> d_nx d = length r \<and> take (length r) (d_x d) = r)
     \<and> d_n d = of_nat (length m)"

lemma seen_init: "seen sha256Init []"
proof -
  have "d_h sha256Init = [fips_H 0, fips_H 1, fips_H 2, fips_H 3, fips_H 4, fips_H 5, fips_H 6, fips_H 7]"
    using H_roots [symmetric] by (simp add: upt_rec numeral_eq_Suc)
  then show ?thesis
    unfolding seen_def aligned_def by (simp add: chain_def hashed_simps fips_H0_def) (simp add: sha256Init_def)
qed

lemma aligned_block:
  "aligned d a \<Longrightarrow> length p = 64 \<Longrightarrow> aligned (block p d) (a @ p)"
  by (simp add: aligned_def block_def chain_block hashed_simps)

lemma aligned_cong: "aligned d a \<Longrightarrow> d_h d' = d_h d \<Longrightarrow> length (d_x d') = length (d_x d) \<Longrightarrow> aligned d' a"
  by (simp add: aligned_def)

lemma whole_blocks_aligned:
  "aligned d a \<Longrightarrow> whole_blocks p d = (p', d') \<Longrightarrow>
   \<exists>b. p = b @ p' \<and> length p' < 64 \<and> aligned d' (a @ b) \<and> d_x d' = d_x d \<and> d_nx d' = d_nx d \<and> d_n d' = d_n d"
proof (induction p d arbitrary: a rule: whole_blocks.induct)
  case (1 p d)
  show ?case
  proof (cases "length p \<ge> 64")
    case True
    have al: "aligned (block (take 64 p) d) (a @ take 64 p)" using 1(2) True by (simp add: aligned_block)
    have w: "whole_blocks (drop 64 p) (block (take 64 p) d) = (p', d')" using 1(3) True by (simp add: whole_blocks.simps [of p])
    from 1(1) [OF True al w] obtain b where "drop 64 p = b @ p'" "length p' < 64" "aligned d' ((a @ take 64 p) @ b)"
      "d_x d' = d_x d" "d_nx d' = d_nx d" "d_n d' = d_n d"
      by (auto simp: block_def)
    moreover have "p = (take 64 p @ b) @ p'" using calculation(1) by (metis append.assoc append_take_drop_id)
    ultimately show ?thesis by (intro exI [of _ "take 64 p @ b"]) simp
  next
    case False
    then show ?thesis using 1(2,3) by (intro exI [of _ "[]"]) (simp add: whole_blocks.simps [of p])
  qed
qed

lemma copy_at_facts:
  "i + length b \<le> length x \<Longrightarrow> take (i + length b) (copy_at x i b) = take i x @ b"
  "i + length b \<le> length x \<Longrightarrow> length (copy_at x i b) = length x"
  by (simp_all add: copy_at_def go_copy_def)

text \<open>The end of \<^verbatim>\<open>write\<close>, from an empty buffer on.\<close>

lemma seen_tail:
  assumes "aligned d a" "d_nx d = 0" "whole_blocks p d = (p'', d')" "d_n d = of_nat (length (a @ p))"
  shows "seen (if p'' \<noteq> [] then d'\<lparr>d_x := copy_at (d_x d') 0 p'', d_nx := length p''\<rparr> else d') (a @ p)"
proof -
  obtain b where b: "p = b @ p''" "length p'' < 64" "aligned d' (a @ b)" "d_nx d' = 0" "d_n d' = of_nat (length (a @ p))"
    using whole_blocks_aligned [OF assms(1,3)] assms(2,4) by auto
  have x: "length p'' \<le> length (d_x d')" using b(2,3) by (simp add: aligned_def)
  let ?e = "if p'' \<noteq> [] then d'\<lparr>d_x := copy_at (d_x d') 0 p'', d_nx := length p''\<rparr> else d'"
  have "aligned ?e (a @ b)" using b(3) copy_at_facts(2) [of 0 p'' "d_x d'"] x by (auto elim!: aligned_cong)
  moreover have "d_nx ?e = length p''" "take (length p'') (d_x ?e) = p''" "d_n ?e = of_nat (length (a @ p))"
    using b(4,5) copy_at_facts(1) [of 0 p'' "d_x d'"] x by auto
  ultimately show ?thesis unfolding seen_def using b(1,2) by (metis append.assoc)
qed

lemma seen_write:
  assumes "seen d m"
  shows "seen (digest_write d p) (m @ p)"
proof -
  obtain a r where m: "m = a @ r" and al: "aligned d a" and r: "length r < 64" "d_nx d = length r" "take (length r) (d_x d) = r"
    and n: "d_n d = of_nat (length m)" using assms by (auto simp: seen_def)
  define e where "e = d\<lparr>d_n := d_n d + of_nat (length p)\<rparr>"
  have ale: "aligned e a" using al by (auto simp: e_def elim: aligned_cong)
  have ne: "d_n e = of_nat (length (m @ p))" using n by (simp add: e_def)
  have x: "length (d_x e) = 64" using ale by (simp add: aligned_def)
  have w: "digest_write d p = (case fill p e of (p', d) \<Rightarrow> case whole_blocks p' d of (p'', d) \<Rightarrow>
      if p'' \<noteq> [] then d\<lparr>d_x := copy_at (d_x d) 0 p'', d_nx := length p''\<rparr> else d)"
    by (simp add: digest_write_def e_def Let_def)
  consider "r = []" | "r \<noteq> []" "length r + length p < 64" | "r \<noteq> []" "64 \<le> length r + length p" by linarith
  then show ?thesis
  proof cases
    case 1
    then have "fill p e = (p, e)" using r by (simp add: fill_def e_def)
    then show ?thesis using seen_tail [OF ale _ _, of p] 1 r ne m w by (simp add: e_def split: prod.split)
  next
    case 2
    let ?f = "e\<lparr>d_x := copy_at (d_x e) (length r) p, d_nx := length r + length p\<rparr>"
    have "min (64 - length r) (length p) = length p" using 2 by simp
    then have "fill p e = ([], ?f)" using 2 r by (simp add: fill_def e_def Let_def)
    then have "digest_write d p = ?f" using w by (simp add: whole_blocks.simps [of "[]"])
    moreover have "aligned ?f a" using ale copy_at_facts(2) [of "length r" p "d_x e"] 2 x by (auto elim!: aligned_cong)
    moreover have "take (length (r @ p)) (d_x ?f) = r @ p"
      using copy_at_facts(1) [of "length r" p "d_x e"] 2 x r(3) by (simp add: e_def)
    ultimately show ?thesis unfolding seen_def using 2 m ne by (intro conjI exI [of _ a] exI [of _ "r @ p"]) auto
  next
    case 3
    let ?k = "64 - length r"
    let ?x = "copy_at (d_x e) (length r) (take ?k p)"
    let ?f = "(block ?x (e\<lparr>d_x := ?x, d_nx := 64\<rparr>))\<lparr>d_nx := 0\<rparr>"
    have k: "length (take ?k p) = ?k" using 3 r(1) by simp
    have lx: "length ?x = 64" using copy_at_facts(2) [of "length r" "take ?k p" "d_x e"] k r(1) x by simp
    have xr: "?x = r @ take ?k p"
      using copy_at_facts(1) [of "length r" "take ?k p" "d_x e"] k r(1,3) x lx by (simp add: e_def)
    have "min ?k (length p) = ?k" using 3 by simp
    then have "fill p e = (drop ?k p, ?f)" using 3 r by (simp add: fill_def e_def Let_def)
    moreover have "aligned ?f (a @ ?x)"
      using aligned_block [OF aligned_cong [OF ale, of "e\<lparr>d_x := ?x, d_nx := 64\<rparr>"] lx] lx x by (auto elim!: aligned_cong)
    moreover have "(a @ ?x) @ drop ?k p = m @ p" using xr m by simp
    ultimately show ?thesis using seen_tail [of ?f "a @ ?x" "drop ?k p"] ne w
      by (simp add: block_def split: prod.split)
  qed
qed

subsection \<open>Padding\<close>

lemma byte_of_shift: "k \<le> 56 \<Longrightarrow> ucast (drop_bit k (of_nat n :: u64)) = (of_nat (n div 2 ^ k) :: u8)"
  by (rule bit_word_eqI) (auto simp: bit_simps simp flip: drop_bit_eq_div)

lemma be64_bytes: "be64 (of_nat n) = be_bytes 8 n"
  by (simp add: be64_def be_bytes_def upt_rec byte_of_shift)

lemma byte_of_word: "(of_nat (unat (v :: u32) div 2 ^ k) :: u8) = ucast (drop_bit k v)"
proof -
  have "unat v div 2 ^ k = unat (drop_bit k v)" by (metis unat_drop_bit_eq drop_bit_eq_div)
  then show ?thesis by simp
qed

lemma be32_bytes: "be32 v = be_bytes 4 (unat v)"
  using byte_of_word [of v 24] byte_of_word [of v 16] byte_of_word [of v 8] byte_of_word [of v 0]
  by (simp add: be32_def be_bytes_def upt_rec)

lemma length_be [simp]: "length (be_bytes n v) = n"
  by (simp add: be_bytes_def)

lemma pad_length: "unat ((56 - ((of_nat n :: u64) + 1) mod 64 + 64) mod 64) = (119 - n mod 64) mod 64"
proof -
  define k where "k = (n + 1) mod 64"
  have k: "k < 64" by (simp add: k_def)
  have s: "(of_nat n :: u64) + 1 = of_nat (n + 1)" by simp
  have "unat ((of_nat (n + 1) :: u64) mod 64) = (n + 1) mod 2 ^ 64 mod 64" by (simp only: unat_mod_distrib unat_of_nat) simp
  also have "\<dots> = k" unfolding k_def by (rule mod_mod_cancel) simp
  finally have "((of_nat n :: u64) + 1) mod 64 = of_nat k" unfolding s by (metis word_of_nat_eq_iff word_nat_cases unat_of_nat of_nat_unat ucast_id)
  moreover have "56 - of_nat k + (64 :: u64) = of_nat (120 - k)" using k by (simp add: of_nat_diff)
  moreover have "unat (of_nat (120 - k) mod (64 :: u64)) = (120 - k) mod 64" by (simp add: unat_mod_distrib unat_of_nat)
  moreover have "(120 - k) mod 64 = (119 - n mod 64) mod 64"
  proof (cases "n mod 64 = 63")
    case True
    then have "k = 0" unfolding k_def by (simp add: mod_Suc)
    then show ?thesis using True by simp
  next
    case False
    then have "k = n mod 64 + 1" unfolding k_def by (simp add: mod_Suc)
    then show ?thesis by simp
  qed
  ultimately show ?thesis by simp
qed

lemma fips_pad_length: "64 dvd length (fips_pad m)"
proof -
  let ?x = "length m mod 64" and ?k = "(119 - length m mod 64) mod 64"
  have "(119 - x) mod 64 = (if x \<le> 55 then 55 - x else 119 - x)" for x :: nat
  proof (cases "x \<le> 55")
    case True
    then have "119 - x = (55 - x) + 64" by simp
    then show ?thesis using True by (simp only: mod_add_self2) simp
  qed simp
  from this [of ?x] have "?k = (if ?x \<le> 55 then 55 - ?x else 119 - ?x)" .
  moreover have "?x < 64" by simp
  ultimately have "?x + ?k + 9 = 64 \<or> ?x + ?k + 9 = 128" by (auto split: if_splits)
  moreover have "length (fips_pad m) mod 64 = (?x + ?k + 9) mod 64"
    using mod_add_left_eq [of "length m" 64 "?k + 9"] by (simp add: fips_pad_def ac_simps)
  ultimately have "length (fips_pad m) mod 64 = 0" by (elim disjE) simp_all
  then show ?thesis by (rule mod_0_imp_dvd)
qed

text \<open>The copy that \<^verbatim>\<open>sum\<close> pads has seen the padded message, and nothing is left in its buffer.\<close>

lemma padded_copy:
  assumes "seen d m"
  defines "cp \<equiv> digest_write (digest_write d (take (unat ((56 - (d_n d + 1) mod 64 + 64) mod 64) + 1) (0x80 # replicate 63 0)))
    (be64 (d_n d * 8))"
  shows "d_nx cp = 0 \<and> concat (map be32 (d_h cp)) = sha256_spec m"
proof -
  let ?k = "(119 - length m mod 64) mod 64"
  have n: "d_n d = of_nat (length m)" using assms(1) by (simp add: seen_def)
  have pad: "take (?k + 1) (0x80 # replicate 63 0) = (0x80 # replicate ?k 0 :: bytes)" by (simp add: min_def)
  have len: "be64 (of_nat (length m) * 8) = be_bytes 8 (8 * length m)"
    using be64_bytes [of "8 * length m"] by (simp add: mult.commute)
  have "seen cp (fips_pad m)"
    using seen_write [OF seen_write [OF assms(1)], of "take (?k + 1) (0x80 # replicate 63 0)" "be64 (d_n d * 8)"]
    unfolding cp_def n pad_length pad len by (simp add: fips_pad_def)
  then obtain a r where "fips_pad m = a @ r" "aligned cp a" "length r < 64" "d_nx cp = length r" by (auto simp: seen_def)
  moreover have "64 dvd length r" using fips_pad_length [of m] calculation(1,2) by (simp add: aligned_def dvd_add_right_iff)
  ultimately have c: "d_nx cp = 0" "length (d_h cp) = 8" "chain (d_h cp) = hashed (fips_pad m)"
    by (auto simp: aligned_def dest: dvd_imp_le)
  have "concat (map be32 H) = out_working (chain H)" if H: "length H = 8" for H
  proof -
    obtain a b c e f g i j where "H = [a, b, c, e, f, g, i, j]" using H by (auto simp: numeral_eq_Suc length_Suc_conv)
    then show ?thesis by (simp add: chain_def be32_bytes)
  qed
  then show ?thesis using c by (simp add: sha256_spec_def hashed_def)
qed

lemma digest_spec: "seen d m \<Longrightarrow> digest_sum d = sha256_spec m"
  using padded_copy by (simp add: digest_sum_def Let_def del: take_Suc_Cons)

text \<open>
  C15. SHA-256 is the function of the standard, however the message is cut: writing it in any pieces and
  taking the sum gives the FIPS 180-4 digest of the concatenation.
\<close>

theorem sha256_correct: "digest_sum (foldl digest_write sha256Init ps) = sha256_spec (concat ps)"
proof -
  have "seen (foldl digest_write d ps) (m @ concat ps)" if "seen d m" for d m
    using that by (induction ps arbitrary: d m) (simp, metis append.assoc concat.simps(2) foldl_Cons seen_write)
  from digest_spec [OF this [OF seen_init]] show ?thesis by simp
qed

lemma sha256Sum_spec: "sha256Sum p = sha256_spec p"
  unfolding sha256Sum_def using digest_spec [OF seen_write [OF seen_init]] by simp

lemma length_sha256: "length (sha256_spec m) = 32"
proof -
  have "length (out_working v) = 32" for v by (cases v rule: out_working.cases) simp
  then show ?thesis by (simp add: sha256_spec_def)
qed

text \<open>The keyed hash is HMAC-SHA256 of RFC 2104, keys longer than a block included.\<close>

lemma hmacSha256_spec: "hmacSha256 key msg = hmac_spec key msg"
proof -
  let ?k0 = "if length key > 64 then sha256_spec key else key"
  let ?k = "?k0 @ replicate (64 - length ?k0) 0"
  have k: "go_copy (replicate 64 0) (if length key > 64 then sha256Sum key else key) = ?k"
    by (simp add: go_copy_def sha256Sum_spec length_sha256)
  have x: "map (\<lambda>b. b XOR (0x36 XOR 0x5c)) (map (\<lambda>b. b XOR 0x36) ?k) = map (\<lambda>b :: u8. b XOR 0x5c) ?k"
    by (simp add: xor.assoc xor.left_commute)
  have two: "digest_sum (digest_write (digest_write sha256Init a) b) = sha256_spec (a @ b)" for a b
    using digest_spec [OF seen_write [OF seen_write [OF seen_init]]] by simp
  show ?thesis unfolding hmacSha256_def hmac_spec_def Let_def k x two ..
qed

end
