(* ===== verification/Hkdf.thy ===== *)
theory Hkdf
  imports Sha256
begin

text \<open>
  The key derivation of the TLS client (\<^verbatim>\<open>tls/hkdf.go\<close> over \<^verbatim>\<open>tls/sha256.go\<close>): HKDF of RFC 5869 and the labels of
  the TLS 1.3 key schedule. The digest of that package is the one of \<open>Sha256\<close> with one check more: a sum
  whose padding did not end on a block boundary panics, which is \<open>None\<close> here.
\<close>

subsection \<open>The code\<close>

definition tls_sum :: "sha256Digest \<Rightarrow> bytes option" where
  "tls_sum d =
     (let length = d_n d; padLen = unat ((56 - (length + 1) mod 64 + 64) mod 64) + 1;
          pad = 0x80 # replicate 63 0;
          cp = digest_write (digest_write d (take padLen pad)) (be64 (length * 8))
      in if d_nx cp \<noteq> 0 then None else Some (concat (map be32 (d_h cp))))"

definition tls_sha256Sum :: "bytes \<Rightarrow> bytes option" where
  "tls_sha256Sum p = tls_sum (digest_write sha256Init p)"

definition tls_hmac :: "bytes \<Rightarrow> bytes \<Rightarrow> bytes option" where
  "tls_hmac key msg =
     (case (if length key > 64 then tls_sha256Sum key else Some key) of
        None \<Rightarrow> None
      | Some k0 \<Rightarrow>
          let k = map (\<lambda>b. b XOR 0x36) (go_copy (replicate 64 0) k0) in
          case tls_sum (digest_write (digest_write sha256Init k) msg) of
            None \<Rightarrow> None
          | Some ik \<Rightarrow>
              let k = map (\<lambda>b. b XOR (0x36 XOR 0x5c)) k
              in tls_sum (digest_write (digest_write sha256Init k) ik))"

definition hkdfExtract :: "bytes \<Rightarrow> bytes \<Rightarrow> bytes option" where
  "hkdfExtract salt ikm = tls_hmac salt ikm"

text \<open>
  The loop of \<^verbatim>\<open>hkdfExpand\<close>: \<open>n\<close> iterations are left, \<open>counter\<close> is the byte that is hashed. A digest is never
  empty, so \<open>okmLen\<close> iterations are enough; \<open>None\<close> is a panic.
\<close>

fun expand_loop :: "nat \<Rightarrow> bytes \<Rightarrow> bytes \<Rightarrow> nat \<Rightarrow> u8 \<Rightarrow> bytes \<Rightarrow> bytes \<Rightarrow> bytes option" where
  "expand_loop n prk info okmLen counter t out =
     (if length out < okmLen then
        (case n of
           0 \<Rightarrow> None
         | Suc n' \<Rightarrow>
             (case tls_hmac prk (t @ info @ [counter]) of
                None \<Rightarrow> None
              | Some blk \<Rightarrow> expand_loop n' prk info okmLen (counter + 1) blk (out @ blk)))
      else Some out)"

declare expand_loop.simps [simp del]

datatype hkdf_err = ErrHKDFLength | HkdfPanic

definition hkdfExpand :: "bytes \<Rightarrow> bytes \<Rightarrow> int \<Rightarrow> hkdf_err + bytes" where
  "hkdfExpand prk info okmLen =
     (if okmLen \<le> 0 \<or> okmLen > 255 * 32 then Inl ErrHKDFLength
      else case expand_loop (nat okmLen) prk info (nat okmLen) 1 [] [] of
        None \<Rightarrow> Inl HkdfPanic
      | Some out \<Rightarrow> Inr (take (nat okmLen) out))"

definition hkdfLabelPrefix :: bytes where
  "hkdfLabelPrefix = bytes_of ''tls13 ''"

text \<open>\<open>None\<close> is one of the two panics.\<close>

definition expandLabel :: "bytes \<Rightarrow> string \<Rightarrow> bytes \<Rightarrow> int \<Rightarrow> bytes option" where
  "expandLabel secret label context len =
     (let full = length hkdfLabelPrefix + length label in
      if full > 255 \<or> length context > 255 then None
      else let info = [word_of_int (len div 256), word_of_int len, of_nat full] @ hkdfLabelPrefix @ bytes_of label
                 @ [of_nat (length context)] @ context
           in case hkdfExpand secret info len of Inl _ \<Rightarrow> None | Inr okm \<Rightarrow> Some okm)"

definition deriveSecret :: "bytes \<Rightarrow> string \<Rightarrow> bytes \<Rightarrow> bytes option" where
  "deriveSecret secret label transcriptHash = map_option (go_copy (replicate 32 0)) (expandLabel secret label transcriptHash 32)"

definition trafficKey :: "bytes \<Rightarrow> bytes option" where
  "trafficKey secret = map_option (go_copy (replicate 16 0)) (expandLabel secret ''key'' [] 16)"

definition trafficIv :: "bytes \<Rightarrow> bytes option" where
  "trafficIv secret = map_option (go_copy (replicate 12 0)) (expandLabel secret ''iv'' [] 12)"

definition finishedKey :: "bytes \<Rightarrow> bytes option" where
  "finishedKey secret = map_option (go_copy (replicate 32 0)) (expandLabel secret ''finished'' [] 32)"

subsection \<open>The standard\<close>

text \<open>RFC 5869: the blocks \<open>T(i)\<close> and their concatenation, cut to length.\<close>

fun hkdf_T :: "bytes \<Rightarrow> bytes \<Rightarrow> nat \<Rightarrow> bytes" where
  "hkdf_T prk info 0 = []"
| "hkdf_T prk info (Suc i) = hmac_spec prk (hkdf_T prk info i @ info @ [of_nat (Suc i)])"

definition hkdf_okm :: "bytes \<Rightarrow> bytes \<Rightarrow> nat \<Rightarrow> bytes" where
  "hkdf_okm prk info n = concat (map (hkdf_T prk info) [1..<Suc n])"

definition hkdf_spec :: "bytes \<Rightarrow> bytes \<Rightarrow> nat \<Rightarrow> bytes" where
  "hkdf_spec prk info L = take L (hkdf_okm prk info ((L + 31) div 32))"

definition hkdf_label :: "nat \<Rightarrow> string \<Rightarrow> bytes \<Rightarrow> bytes" where
  "hkdf_label L label context =
     be_bytes 2 L @ [of_nat (6 + length label)] @ bytes_of (''tls13 '' @ label) @ [of_nat (length context)] @ context"

subsection \<open>Correctness\<close>

lemma tls_sum_spec: "seen d m \<Longrightarrow> tls_sum d = Some (sha256_spec m)"
  using padded_copy by (simp add: tls_sum_def Let_def del: take_Suc_Cons)

lemma tls_hmac_spec: "tls_hmac key msg = Some (hmac_spec key msg)"
proof -
  have two: "tls_sum (digest_write (digest_write sha256Init a) b) = Some (sha256_spec (a @ b))" for a b
    using tls_sum_spec [OF seen_write [OF seen_write [OF seen_init]]] by simp
  have one: "tls_sha256Sum p = Some (sha256_spec p)" for p
    using tls_sum_spec [OF seen_write [OF seen_init]] by (simp add: tls_sha256Sum_def)
  show ?thesis unfolding hmacSha256_spec [symmetric] tls_hmac_def hmacSha256_def Let_def two one
    by (simp add: digest_spec [OF seen_write [OF seen_write [OF seen_init]]] sha256Sum_spec)
qed

lemma length_hmac: "length (hmac_spec key msg) = 32"
  by (simp add: hmac_spec_def Let_def length_sha256)

lemma length_T: "0 < i \<Longrightarrow> length (hkdf_T prk info i) = 32"
  by (cases i) (simp_all add: length_hmac)

lemma length_okm: "length (hkdf_okm prk info n) = 32 * n"
  by (induction n) (simp_all add: hkdf_okm_def length_hmac)

lemma okm_Suc: "hkdf_okm prk info (Suc n) = hkdf_okm prk info n @ hkdf_T prk info (Suc n)"
  by (simp add: hkdf_okm_def)

lemma blocks_needed: "32 * i < L + 32 \<Longrightarrow> L \<le> 32 * i \<Longrightarrow> (L + 31) div 32 = (i :: nat)"
  by (rule div_nat_eqI) auto

text \<open>After \<open>i\<close> iterations the loop has the first \<open>i\<close> blocks; it stops at the first that reach the length.\<close>

lemma expand_loop_blocks:
  assumes "32 * i < L + 32" "L \<le> 32 * i + 32 * n" "L > 0"
  shows "expand_loop n prk info L (of_nat (i + 1)) (hkdf_T prk info i) (hkdf_okm prk info i) = Some (hkdf_okm prk info ((L + 31) div 32))"
  using assms
proof (induction n arbitrary: i)
  case 0
  then have "(L + 31) div 32 = i" by (intro blocks_needed) auto
  then show ?case using 0 by (simp add: expand_loop.simps [of 0] length_okm)
next
  case (Suc n)
  show ?case
  proof (cases "32 * i < L")
    case True
    have "expand_loop n prk info L (of_nat (Suc i + 1)) (hkdf_T prk info (Suc i)) (hkdf_okm prk info (Suc i)) =
        Some (hkdf_okm prk info ((L + 31) div 32))"
      by (rule Suc.IH) (use True Suc.prems in auto)
    then show ?thesis using True
      by (simp add: expand_loop.simps [of "Suc n"] length_okm tls_hmac_spec okm_Suc ac_simps)
  next
    case False
    then have "(L + 31) div 32 = i" using Suc.prems by (intro blocks_needed) auto
    then show ?thesis using False by (simp add: expand_loop.simps [of "Suc n"] length_okm)
  qed
qed

lemma hkdfExpand_spec:
  "hkdfExpand prk info L = (if 0 < L \<and> L \<le> 8160 then Inr (hkdf_spec prk info (nat L)) else Inl ErrHKDFLength)"
  using expand_loop_blocks [of 0 "nat L" "nat L" prk info] by (simp add: hkdfExpand_def hkdf_spec_def hkdf_okm_def)

lemma length_hkdf: "length (hkdf_spec prk info n) = n"
  by (simp add: hkdf_spec_def length_okm)

text \<open>
  HKDF-Expand is that of RFC 5869: a length of 1 to 8160 bytes gives exactly that many bytes of the
  concatenated blocks, although the block counter is a single byte; any other length is refused, and the
  padding check of the digest never panics.
\<close>

theorem hkdf_correct:
  "hkdfExpand prk info L = (if 0 < L \<and> L \<le> 8160 then Inr (hkdf_spec prk info (nat L)) else Inl ErrHKDFLength)
   \<and> length (hkdf_spec prk info n) = n"
  by (simp add: hkdfExpand_spec length_hkdf)

lemma expandLabel_spec:
  assumes "length label \<le> 249" "length context \<le> 255" "0 < L" "L \<le> 8160"
  shows "expandLabel secret label context (int L) = Some (hkdf_spec secret (hkdf_label L label context) L)"
proof -
  have "word_of_int (int L div 256) = (of_nat (L div 256) :: u8)" by (metis of_int_of_nat_eq of_nat_div of_nat_numeral)
  then show ?thesis using assms
    by (simp add: expandLabel_def hkdfLabelPrefix_def hkdfExpand_spec hkdf_label_def be_bytes_def upt_rec bytes_of_def)
qed

text \<open>
  C16. The keys of a connection are those of RFC 8446: record key, record IV and Finished key of a traffic
  secret, and every secret derived from a transcript hash, are the labelled expansions of the standard,
  and none of them panics.
\<close>

theorem tls_key_schedule:
  "trafficKey secret = Some (hkdf_spec secret (hkdf_label 16 ''key'' []) 16)
   \<and> trafficIv secret = Some (hkdf_spec secret (hkdf_label 12 ''iv'' []) 12)
   \<and> finishedKey secret = Some (hkdf_spec secret (hkdf_label 32 ''finished'' []) 32)
   \<and> deriveSecret secret ''c hs traffic'' (sha256_spec m) = Some (hkdf_spec secret (hkdf_label 32 ''c hs traffic'' (sha256_spec m)) 32)
   \<and> deriveSecret secret ''s hs traffic'' (sha256_spec m) = Some (hkdf_spec secret (hkdf_label 32 ''s hs traffic'' (sha256_spec m)) 32)"
  using expandLabel_spec [of "''key''" "[]" 16 secret] expandLabel_spec [of "''iv''" "[]" 12 secret]
    expandLabel_spec [of "''finished''" "[]" 32 secret] expandLabel_spec [of "''c hs traffic''" "sha256_spec m" 32 secret]
    expandLabel_spec [of "''s hs traffic''" "sha256_spec m" 32 secret]
  by (simp add: trafficKey_def trafficIv_def finishedKey_def deriveSecret_def go_copy_def length_hkdf length_sha256)

end
