(* ===== verification/NetAuth.thy ===== *)
theory NetAuth
  imports Hkdf ShellTools
begin

text \<open>
  The network login of the shell (\<^verbatim>\<open>shlib/netauth.go\<close>, \<^verbatim>\<open>shlib/netargs.go\<close>): the argument parser of \<^verbatim>\<open>net\<close>, the lookup
  in the secret store, and the verifier that reads the kernel's challenge and the client's reply and votes
  once. The three calls of the tty slot and the store are the parameter \<open>netkern\<close> on a state \<open>'w\<close>; a call that
  fills a buffer returns its result and the bytes it wrote.
\<close>

subsection \<open>Arguments\<close>

record NetArgs =
  na_Port :: u16
  na_Open :: bool

definition skipArgv0 :: "string list \<Rightarrow> string list" where
  "skipArgv0 args = (case args of [] \<Rightarrow> [] | a # r \<Rightarrow> if a \<in> {''net'', ''serial'', ''-c''} then args else r)"

definition parseUint16 :: "string \<Rightarrow> u16 option" where
  "parseUint16 s = (case parseInt s of None \<Rightarrow> None | Some n \<Rightarrow> if n < 0 \<or> n > 65535 then None else Some (word_of_int n))"

datatype net_result = NotNet | NetBad string | NetOk NetArgs

definition ParseNetArgs :: "string list \<Rightarrow> net_result" where
  "ParseNetArgs args =
     (let words = skipArgv0 args in
      if words = [] \<or> hd words \<noteq> ''net'' then NotNet
      else case (if length words \<ge> 2 \<and> words ! 1 \<noteq> [] then parseUint16 (words ! 1) else Some 2323) of
        None \<Rightarrow> NetBad ''bad port''
      | Some p \<Rightarrow>
          if length words \<ge> 3 \<and> words ! 2 \<noteq> [] then
            (if words ! 2 \<noteq> ''open'' then NetBad ''unknown mode'' else NetOk \<lparr>na_Port = p, na_Open = True\<rparr>)
          else NetOk \<lparr>na_Port = p, na_Open = False\<rparr>)"

subsection \<open>The secret store\<close>

text \<open>One record of the store; the two fields are arrays of 32 and 64 bytes.\<close>

record SecretRecord =
  sr_UID :: u32
  sr_KeyLen :: u32
  sr_ValLen :: u32
  sr_Key :: bytes
  sr_Val :: bytes

text \<open>\<open>n\<close> records of 108 bytes are cut from the buffer the kernel filled; \<open>r\<close> is the answer of the call.\<close>

definition secret_record :: "bytes \<Rightarrow> SecretRecord" where
  "secret_record b = \<lparr>sr_UID = get_le32 b, sr_KeyLen = get_le32 (drop 4 b), sr_ValLen = get_le32 (drop 8 b),
     sr_Key = take 32 (drop 12 b), sr_Val = take 64 (drop 44 b)\<rparr>"

definition SecretList :: "nat \<Rightarrow> int \<Rightarrow> bytes \<Rightarrow> SecretRecord list option" where
  "SecretList len_dst r buf =
     (if len_dst = 0 then Some []
      else if r < 0 then None
      else Some (map (\<lambda>i. secret_record (drop (i * 108) buf)) [0..<min (nat r div 108) (min len_dst 8)]))"

definition KeyString :: "SecretRecord \<Rightarrow> string" where
  "KeyString r = string_of (take (unat (sr_KeyLen r)) (sr_Key r))"

text \<open>\<open>recs\<close> is the answer of \<^verbatim>\<open>SecretList\<close>, \<open>None\<close> an error; \<open>cap\<close> the length of the buffer, at most 64 in every call.\<close>

fun store_find :: "string \<Rightarrow> nat \<Rightarrow> SecretRecord list \<Rightarrow> int \<times> bytes" where
  "store_find name cap [] = (-1, [])"
| "store_find name cap (r # rs) =
     (if KeyString r \<noteq> name then store_find name cap rs
      else let n = min (unat (sr_ValLen r)) cap in (int n, take n (sr_Val r)))"

definition StoreGet :: "SecretRecord list option \<Rightarrow> string \<Rightarrow> nat \<Rightarrow> int \<times> bytes" where
  "StoreGet recs name cap = (case recs of None \<Rightarrow> (-1, []) | Some rs \<Rightarrow> store_find name cap rs)"

subsection \<open>The verifier\<close>

abbreviation (input) NetSchemeOpen :: u64 where "NetSchemeOpen \<equiv> 0"
abbreviation (input) NetSchemeHMAC :: u64 where "NetSchemeHMAC \<equiv> 1"
abbreviation (input) NetSchemeEd25519 :: u64 where "NetSchemeEd25519 \<equiv> 2"
abbreviation (input) NetChallengeLen :: nat where "NetChallengeLen \<equiv> 32"
abbreviation (input) NetAuthLineMax :: nat where "NetAuthLineMax \<equiv> 160"
abbreviation (input) SecretValMax :: nat where "SecretValMax \<equiv> 64"

definition domainHMAC :: string where "domainHMAC = ''VIRELAIOS-AUTH/1 hmac-sha256''"
definition keyHMAC :: string where "keyHMAC = ''net-hmac''"
definition keyEd25519 :: string where "keyEd25519 = ''net-ed25519''"
definition hexDigits :: string where "hexDigits = ''0123456789abcdef''"

record 'w netkern =
  nk_challenge :: "'w \<Rightarrow> (int \<times> bytes) \<times> 'w"
  nk_response :: "'w \<Rightarrow> (int \<times> bytes) \<times> 'w"
  nk_verdict :: "bool \<Rightarrow> 'w \<Rightarrow> 'w"
  nk_get :: "string \<Rightarrow> nat \<Rightarrow> 'w \<Rightarrow> (int \<times> bytes) \<times> 'w"

record NetAuth =
  au_scheme :: u64
  au_challenge :: bytes
  au_challengeRead :: bool
  au_done :: bool
  au_key :: bytes
  au_keyLen :: int

definition SysNetAuth :: "u64 \<Rightarrow> NetAuth" where
  "SysNetAuth scheme = \<lparr>au_scheme = scheme, au_challenge = replicate 32 0, au_challengeRead = False, au_done = False,
     au_key = replicate 64 0, au_keyLen = 0\<rparr>"

definition SelectScheme :: "(string \<Rightarrow> nat \<Rightarrow> int \<times> bytes) \<Rightarrow> u64 option" where
  "SelectScheme get =
     (if fst (get keyHMAC 1) \<ge> 0 then Some NetSchemeHMAC
      else if fst (get keyEd25519 1) \<ge> 0 then Some NetSchemeEd25519
      else None)"

fun hexLower :: "bytes \<Rightarrow> nat \<Rightarrow> bytes \<Rightarrow> bytes" where
  "hexLower out n [] = out"
| "hexLower out n (b # bs) =
     (if n + 2 > length out then out
      else hexLower (out[n := byte_of (hexDigits ! unat (drop_bit 4 b)), n + 1 := byte_of (hexDigits ! unat (b AND 0xf))]) (n + 2) bs)"

definition ctEq :: "bytes \<Rightarrow> bytes \<Rightarrow> bool" where
  "ctEq a b = (if length a \<noteq> length b then False
     else foldl (\<lambda>v i. v OR (a ! i XOR b ! i)) 0 [0..<length a] = 0)"

definition wipe :: "bytes \<Rightarrow> bytes" where
  "wipe b = replicate (length b) 0"

text \<open>The vote, the verifier and the state after it; \<open>None\<close> is a slice out of range.\<close>

definition verify :: "'w netkern \<Rightarrow> NetAuth \<Rightarrow> bytes \<Rightarrow> 'w \<Rightarrow> (bool \<times> NetAuth \<times> 'w) option" where
  "verify K a reply w =
     (if au_scheme a = NetSchemeHMAC then
        (if length reply \<noteq> 64 then Some (False, a, w)
         else case nk_get K keyHMAC SecretValMax w of
           ((klen, kb), w) \<Rightarrow>
             let a = a\<lparr>au_key := go_copy (au_key a) kb\<rparr> in
             if klen < 0 then Some (False, a, w)
             else if klen > int SecretValMax then None
             else let a = a\<lparr>au_keyLen := klen\<rparr>;
                      msg = bytes_of domainHMAC @ [0] @ au_challenge a;
                      mac = hmacSha256 (take (nat klen) (au_key a)) msg
                  in Some (ctEq (hexLower (replicate 64 0) 0 mac) reply, a, w))
      else if au_scheme a = NetSchemeEd25519 then Some (False, a, w)
      else Some (True, a, w))"

definition auth_Step :: "'w netkern \<Rightarrow> NetAuth \<Rightarrow> 'w \<Rightarrow> (NetAuth \<times> 'w) option" where
  "auth_Step K a w =
     (if au_done a \<or> au_scheme a = NetSchemeOpen then Some (a, w)
      else
        let (ready, a, w) =
          (if au_challengeRead a then (True, a, w)
           else case nk_challenge K w of
             ((n, c), w) \<Rightarrow>
               let a = a\<lparr>au_challenge := go_copy (au_challenge a) c\<rparr>
               in if n \<noteq> int NetChallengeLen then (False, a, w) else (True, a\<lparr>au_challengeRead := True\<rparr>, w))
        in if \<not> ready then Some (a, w)
           else case nk_response K w of
             ((rn, reply), w) \<Rightarrow>
               if rn \<le> 0 then Some (a, w)
               else if rn > int NetAuthLineMax then None
               else case verify K a (take (nat rn) (go_copy (replicate NetAuthLineMax 0) reply)) w of
                 None \<Rightarrow> None
               | Some (accept, a, w) \<Rightarrow>
                   Some (a\<lparr>au_challenge := wipe (au_challenge a), au_key := wipe (au_key a), au_keyLen := 0, au_done := True\<rparr>,
                     nk_verdict K accept w))"

subsection \<open>Correctness\<close>

text \<open>A session is open to everyone only when the third word says so, and no other third word is let through.\<close>

lemma ParseNetArgs_mode:
  assumes "ParseNetArgs args = NetOk na"
  shows "hd (skipArgv0 args) = ''net''"
    and "na_Open na \<longleftrightarrow> length (skipArgv0 args) \<ge> 3 \<and> skipArgv0 args ! 2 = ''open''"
    and "length (skipArgv0 args) \<ge> 3 \<Longrightarrow> skipArgv0 args ! 2 \<in> {[], ''open''}"
  using assms by (auto simp: ParseNetArgs_def Let_def split: if_splits option.splits)

text \<open>The wire form of a record and the printed form of a byte sequence, as the specification has them.\<close>

definition put_record :: "SecretRecord \<Rightarrow> bytes" where
  "put_record r = put_le32 (sr_UID r) @ put_le32 (sr_KeyLen r) @ put_le32 (sr_ValLen r) @ sr_Key r @ sr_Val r"

definition wf_record :: "SecretRecord \<Rightarrow> bool" where
  "wf_record r \<longleftrightarrow> length (sr_Key r) = 32 \<and> length (sr_Val r) = 64"

definition hex_text :: "bytes \<Rightarrow> string" where
  "hex_text bs = concat (map (\<lambda>b. [hexDigits ! (unat b div 16), hexDigits ! (unat b mod 16)]) bs)"

lemma secret_record_put [simp]: "wf_record r \<Longrightarrow> secret_record (put_record r @ s) = r"
  by (simp add: secret_record_def put_record_def wf_record_def drop_append)

lemma length_put_record: "wf_record r \<Longrightarrow> length (put_record r) = 108"
  by (simp add: put_record_def wf_record_def)

lemma drop_records:
  "\<forall>r \<in> set rs. wf_record r \<Longrightarrow> i < length rs \<Longrightarrow> \<exists>t. drop (i * 108) (concat (map put_record rs) @ s) = put_record (rs ! i) @ t"
proof (induction rs arbitrary: i)
  case (Cons r rs)
  show ?case
  proof (cases i)
    case 0
    then show ?thesis by auto
  next
    case (Suc j)
    then show ?thesis
      using Cons.prems Cons.IH [of j] by (simp add: length_put_record add.commute drop_append)
  qed
qed simp

text \<open>The records the kernel wrote are the records the caller sees, up to the bound of the buffer.\<close>

lemma SecretList_roundtrip:
  assumes wf: "\<forall>r \<in> set rs. wf_record r" and len: "length rs \<le> 8"
  shows "SecretList 8 (int (108 * length rs)) (concat (map put_record rs) @ s) = Some rs"
proof -
  have "secret_record (drop (i * 108) (concat (map put_record rs) @ s)) = rs ! i" if i: "i < length rs" for i
    using drop_records [OF wf i, of s] wf nth_mem [OF i] by auto
  then have "map (\<lambda>i. secret_record (drop (i * 108) (concat (map put_record rs) @ s))) [0..<length rs] = rs"
    by (intro nth_equalityI) simp_all
  moreover have "nat (int (108 * length rs)) div 108 = length rs" by simp
  ultimately show ?thesis using len by (simp add: SecretList_def min_absorb1)
qed

lemma or_fold_zero: "foldl (\<lambda>v i. v OR f i) (z :: u8) is' = 0 \<longleftrightarrow> z = 0 \<and> (\<forall>i \<in> set is'. f i = 0)"
  by (induction is' arbitrary: z) (auto simp: or_eq_0_iff)

lemma xor_zero_iff: "x XOR y = 0 \<longleftrightarrow> x = (y :: u8)"
  by (auto simp: bit_eq_iff bit_xor_iff)

lemma ctEq_eq [simp]: "ctEq a b \<longleftrightarrow> a = b"
proof (cases "length a = length b")
  case True
  then have "ctEq a b \<longleftrightarrow> (\<forall>i < length a. a ! i = b ! i)"
    by (auto simp: ctEq_def or_fold_zero xor_zero_iff)
  then show ?thesis using True by (auto intro: nth_equalityI)
qed (auto simp: ctEq_def)

lemma hex_text_simps [simp]:
  "hex_text [] = []"
  "hex_text (b # bs) = hexDigits ! (unat b div 16) # hexDigits ! (unat b mod 16) # hex_text bs"
  by (simp_all add: hex_text_def)

lemma length_hex_text [simp]: "length (hex_text bs) = 2 * length bs"
  by (induction bs) auto

lemma nibbles: "unat (drop_bit 4 b) = unat (b :: u8) div 16" "unat (b AND 0xf) = unat b mod 16"
proof -
  show "unat (drop_bit 4 b) = unat b div 16" by (simp add: drop_bit_eq_div unat_div)
  have "b AND 0xf = take_bit 4 b" by (simp add: take_bit_eq_mask mask_eq_exp_minus_1)
  then show "unat (b AND 0xf) = unat b mod 16" by (simp add: take_bit_eq_mod unat_mod)
qed

lemma hexLower_text:
  "length out = n + 2 * length bs \<Longrightarrow> hexLower out n bs = take n out @ bytes_of (hex_text bs)"
proof (induction bs arbitrary: out n)
  case (Cons b bs)
  let ?hi = "byte_of (hexDigits ! (unat b div 16))" and ?lo = "byte_of (hexDigits ! (unat b mod 16))"
  have "take (n + 2) (out[n := ?hi, n + 1 := ?lo]) = take n out @ [?hi, ?lo]"
    using Cons.prems by (simp add: take_Suc_conv_app_nth)
  then show ?case using Cons by (simp add: nibbles bytes_of_def)
qed (simp add: bytes_of_def)

text \<open>The reply the protocol expects from a client that holds the secret.\<close>

definition login_reply :: "bytes \<Rightarrow> bytes \<Rightarrow> bytes" where
  "login_reply secret challenge = bytes_of (hex_text (hmac_spec secret (bytes_of domainHMAC @ [0] @ challenge)))"

lemma length_login_reply [simp]: "length (login_reply secret challenge) = 64"
  by (simp add: login_reply_def length_hmac)

lemma verify_hmac:
  assumes "au_scheme a = NetSchemeHMAC" "length (au_key a) = 64" "length reply = 64"
    and "nk_get K keyHMAC 64 w = ((int (length secret), secret), w')" "length secret \<le> 64"
  shows "verify K a reply w = Some (reply = login_reply secret (au_challenge a),
    a\<lparr>au_key := go_copy (au_key a) secret, au_keyLen := int (length secret)\<rparr>, w')"
proof -
  have "take (length secret) (go_copy (au_key a) secret) = secret"
    using assms by (simp add: go_copy_def)
  then show ?thesis
    using assms by (simp add: verify_def Let_def hmacSha256_spec hexLower_text length_hmac login_reply_def eq_commute [of reply])
qed

text \<open>
  C14. A reply with a challenge in hand votes once: to accept exactly when it is the reply of a holder of the stored
  secret, and never on a line of another length; the challenge and the key are zeroed, and no later step acts.
\<close>

theorem login_verdict:
  assumes scheme: "au_scheme a = NetSchemeHMAC" "\<not> au_done a" "length (au_key a) = 64" "length (au_challenge a) = 32"
    and challenge: "if au_challengeRead a then c = au_challenge a \<and> w = w0
      else nk_challenge K w0 = ((32, c), w) \<and> length c = 32"
    and reply: "nk_response K w = ((int (length reply), reply), w1)" "reply \<noteq> []" "length reply \<le> 160"
    and key: "nk_get K keyHMAC 64 w1 = ((int (length secret), secret), w2)" "length secret \<le> 64"
  shows "\<exists>a'. auth_Step K a w0 = Some (a', if length reply = 64 then nk_verdict K (reply = login_reply secret c) w2
            else nk_verdict K False w1)
      \<and> au_key a' = replicate 64 0 \<and> au_challenge a' = replicate 32 0 \<and> au_keyLen a' = 0
      \<and> (\<forall>w'. auth_Step K a' w' = Some (a', w'))"
proof -
  define b where "b = a\<lparr>au_challenge := c, au_challengeRead := True\<rparr>"
  have line: "take (nat (int (length reply))) (go_copy (replicate 160 0) reply) = reply"
    using reply by (simp add: go_copy_def)
  have step: "auth_Step K a w0 = (case verify K b reply w1 of None \<Rightarrow> None
      | Some (accept, a, w) \<Rightarrow> Some (a\<lparr>au_challenge := wipe (au_challenge a), au_key := wipe (au_key a),
          au_keyLen := 0, au_done := True\<rparr>, nk_verdict K accept w))"
  proof (cases "au_challengeRead a")
    case True
    then have "b = a" "w = w0" using challenge by (simp_all add: b_def)
    then show ?thesis using True scheme reply line by (simp add: auth_Step_def)
  next
    case False
    then have "go_copy (au_challenge a) c = c" using challenge scheme by (simp add: go_copy_def)
    then show ?thesis using False scheme challenge reply line by (simp add: auth_Step_def b_def)
  qed
  have b: "au_scheme b = NetSchemeHMAC" "length (au_key b) = 64" "au_challenge b = c" "length c = 32"
    using scheme challenge by (auto simp: b_def split: if_splits)
  show ?thesis
  proof (cases "length reply = 64")
    case True
    then show ?thesis
      unfolding step verify_hmac [OF b(1,2) True key] using b by (simp add: wipe_def auth_Step_def)
  next
    case False
    then have "verify K b reply w1 = Some (False, b, w1)" using b by (simp add: verify_def)
    then show ?thesis unfolding step using False b by (simp add: wipe_def auth_Step_def)
  qed
qed

text \<open>A client that holds the 4-byte secret is accepted in the step that also reads the challenge.\<close>

definition sample_kernel :: "bytes \<Rightarrow> bytes \<Rightarrow> bool list netkern" where
  "sample_kernel secret c = \<lparr>nk_challenge = (\<lambda>w. ((32, c), w)), nk_response = (\<lambda>w. ((64, login_reply secret c), w)),
     nk_verdict = (\<lambda>v w. w @ [v]), nk_get = (\<lambda>name cap w. ((int (length secret), secret), w))\<rparr>"

theorem login_verdict_witness:
  "\<exists>a'. auth_Step (sample_kernel [1, 2, 3, 4] (replicate 32 7)) (SysNetAuth 1) [] = Some (a', [True]) \<and> au_key a' = replicate 64 0"
  using login_verdict [of "SysNetAuth 1" "replicate 32 7" "[]" "[]" "sample_kernel [1, 2, 3, 4] (replicate 32 7)"
      "login_reply [1, 2, 3, 4] (replicate 32 7)" "[]" "[1, 2, 3, 4]" "[]"]
  by (simp add: sample_kernel_def SysNetAuth_def flip: length_0_conv) (auto simp: sample_kernel_def)

end
