(* ===== verification/Prompt.thy ===== *)
theory Prompt
  imports Settings
begin

text \<open>
  The prompt of the shell (\<^verbatim>\<open>shlib/prompt.go\<close>): expansion of a template, the number of grid cells a string
  paints, and the rows of the settings file the prompt is read from. The loops over an index are
  recursions on the rest of the string; an index is written out where a function takes one.
\<close>

subsection \<open>Escape sequences\<close>

abbreviation ESC :: char where "ESC \<equiv> CHR 0x1B"
abbreviation BSL :: char where "BSL \<equiv> CHR 0x5C"

definition csi_final :: "char \<Rightarrow> bool" where
  "csi_final c \<longleftrightarrow> 0x40 \<le> (of_char c :: nat) \<and> (of_char c :: nat) \<le> 0x7E"

definition skipCSI :: "string \<Rightarrow> nat \<Rightarrow> nat" where
  "skipCSI s i =
     (if i + 1 \<ge> length s \<or> s ! (i + 1) \<noteq> CHR ''['' then i + 1
      else let j = i + 2 + length (takeWhile (\<lambda>c. \<not> csi_final c) (drop (i + 2) s))
           in if j < length s then j + 1 else length s)"

lemma skipCSI_greater: "i < skipCSI s i"
  by (auto simp: skipCSI_def Let_def)

subsection \<open>Facts\<close>

record PromptFacts =
  pf_User :: string
  pf_Host :: string
  pf_Cwd :: string
  pf_Home :: string
  pf_Root :: bool

definition privilegeGlyph :: "bool \<Rightarrow> string" where
  "privilegeGlyph root = (if root then ''#'' else ''$'')"

definition shortenHome :: "string \<Rightarrow> string \<Rightarrow> string" where
  "shortenHome cwd home =
     (if home = [] \<or> home = ''/'' \<or> cwd = [] then cwd
      else if cwd = home then ''~''
      else if hasPrefix cwd home \<and> length cwd > length home \<and> cwd ! length home = CHR ''/''
      then ''~'' @ drop (length home) cwd
      else cwd)"

definition trim_right :: "char \<Rightarrow> string \<Rightarrow> string" where
  "trim_right c s = rev (dropWhile (\<lambda>d. d = c) (rev s))"

definition baseName :: "string \<Rightarrow> string" where
  "baseName p =
     (if p = [] then []
      else let p = trim_right (CHR ''/'') p
           in if p = [] then ''/'' else rev (takeWhile (\<lambda>c. c \<noteq> CHR ''/'') (rev p)))"

definition PromptUserName :: "u32 \<Rightarrow> bool \<Rightarrow> string" where
  "PromptUserName uid ok = (if ok \<and> uid = 0 then ''system'' else ''user'')"

text \<open>\<open>pwd\<close> is the directory of the shell, \<open>None\<close> without a shell; \<open>princ\<close> the answer of the host, \<open>None\<close> a refusal.\<close>

definition PromptFactsFor :: "string option \<Rightarrow> (u32 \<times> u32) option \<Rightarrow> string \<Rightarrow> PromptFacts" where
  "PromptFactsFor pwd princ host =
     (let f = \<lparr>pf_User = PromptUserName 0 False, pf_Host = host, pf_Cwd = [], pf_Home = [], pf_Root = False\<rparr>;
          f = (case pwd of None \<Rightarrow> f | Some d \<Rightarrow> f\<lparr>pf_Cwd := d\<rparr>)
      in case princ of None \<Rightarrow> f
         | Some (uid, _) \<Rightarrow> f\<lparr>pf_User := PromptUserName uid True, pf_Root := (uid = 0)\<rparr>)"

subsection \<open>Expansion\<close>

definition prompt_escape :: "PromptFacts \<Rightarrow> char \<Rightarrow> string" where
  "prompt_escape f c =
     (if c = CHR ''u'' then pf_User f
      else if c = CHR ''h'' then pf_Host f
      else if c = CHR ''w'' then shortenHome (pf_Cwd f) (pf_Home f)
      else if c = CHR ''W'' then baseName (pf_Cwd f)
      else if c = CHR ''$'' then privilegeGlyph (pf_Root f)
      else if c = BSL then [BSL]
      else [BSL, c])"

function prompt_loop :: "PromptFacts \<Rightarrow> bool \<Rightarrow> string \<Rightarrow> string" where
  "prompt_loop f marked [] = []"
| "prompt_loop f marked (b # r) =
     (if b = ESC then take (skipCSI (b # r) 0) (b # r) @ prompt_loop f marked (drop (skipCSI (b # r) 0) (b # r))
      else if b = BSL then
        (case r of
           [] \<Rightarrow> [b]
         | c # q \<Rightarrow>
             if c = CHR '']'' \<and> marked then prompt_loop f False q
             else if marked then [BSL, c] @ prompt_loop f marked q
             else if c = CHR ''['' then prompt_loop f True q
             else if c = CHR '']'' then prompt_loop f marked q
             else prompt_escape f c @ prompt_loop f marked q)
      else b # prompt_loop f marked r)"
  by pat_completeness auto
termination
  by (relation "measure (\<lambda>(_, _, s). length s)") (auto simp: skipCSI_greater)

definition ExpandPrompt :: "string \<Rightarrow> PromptFacts \<Rightarrow> string" where
  "ExpandPrompt tmpl f = (if BSL \<notin> set tmpl \<and> ESC \<notin> set tmpl then tmpl else prompt_loop f False tmpl)"

subsection \<open>Width\<close>

text \<open>The size \<^verbatim>\<open>utf8.DecodeRuneInString\<close> answers: 0 on the empty string, 1 on an invalid sequence.\<close>

definition cont_in :: "nat \<Rightarrow> nat \<Rightarrow> string \<Rightarrow> nat \<Rightarrow> bool" where
  "cont_in lo hi s i \<longleftrightarrow> i < length s \<and> lo \<le> of_char (s ! i) \<and> of_char (s ! i) \<le> hi"

definition rune_size :: "string \<Rightarrow> nat" where
  "rune_size s =
     (if s = [] then 0
      else let b = of_char (s ! 0) :: nat;
               lo = (if b = 0xE0 then 0xA0 else if b = 0xF0 then 0x90 else 0x80);
               hi = (if b = 0xED then 0x9F else if b = 0xF4 then 0x8F else 0xBF);
               more = (if 0xC2 \<le> b \<and> b \<le> 0xDF then 1 else if 0xE0 \<le> b \<and> b \<le> 0xEF then 2 else if 0xF0 \<le> b \<and> b \<le> 0xF4 then 3 else 0)
           in if more = 0 \<or> \<not> cont_in lo hi s 1 \<or> (more \<ge> 2 \<and> \<not> cont_in 0x80 0xBF s 2) \<or> (more \<ge> 3 \<and> \<not> cont_in 0x80 0xBF s 3)
              then 1 else more + 1)"

function width_loop :: "bool \<Rightarrow> string \<Rightarrow> nat" where
  "width_loop marked [] = 0"
| "width_loop marked (b # r) =
     (if b = ESC then width_loop marked (drop (skipCSI (b # r) 0) (b # r))
      else if b = BSL \<and> r \<noteq> [] \<and> hd r \<in> {CHR ''['', CHR '']''} then width_loop (hd r = CHR ''['') (List.tl r)
      else if marked then width_loop marked r
      else Suc (width_loop marked (drop (max 1 (rune_size (b # r))) (b # r))))"
  by pat_completeness auto
termination
  by (relation "measure (\<lambda>(_, s). length s)") (auto simp: skipCSI_greater)

definition VisibleWidth :: "string \<Rightarrow> nat" where
  "VisibleWidth s = width_loop False s"

subsection \<open>Settings\<close>

fun split_lf :: "string \<Rightarrow> string list" where
  "split_lf [] = [[]]"
| "split_lf (c # s) = (if c = CHR 0x0A then [] # split_lf s else (c # hd (split_lf s)) # List.tl (split_lf s))"

fun setting_loop :: "string \<Rightarrow> string \<Rightarrow> string list \<Rightarrow> string" where
  "setting_loop pre dflt [] = dflt"
| "setting_loop pre dflt (line # rest) =
     (let line = TrimSpace line in
      if hasPrefix line pre \<and> TrimSpace (drop (length pre) line) \<noteq> []
      then TrimSpace (drop (length pre) line)
      else setting_loop pre dflt rest)"

definition SettingFromSettings :: "string \<Rightarrow> string \<Rightarrow> string \<Rightarrow> string" where
  "SettingFromSettings body key def = setting_loop (key @ ''='') def (split_lf body)"

definition PromptHost :: "string \<Rightarrow> string" where
  "PromptHost body = SettingFromSettings body ''hostname'' ''virelai''"

definition PromptFromSettings :: "string \<Rightarrow> string \<Rightarrow> string" where
  "PromptFromSettings body def =
     (let v = SettingFromSettings body ''prompt'' [] in if v \<noteq> [] then v @ '' '' else def)"

subsection \<open>Facts about prompts\<close>

declare prompt_loop.simps [simp del] width_loop.simps [simp del]

text \<open>A string the grid shows byte by byte: printable ASCII without a backslash.\<close>

definition plain_char :: "char \<Rightarrow> bool" where
  "plain_char c \<longleftrightarrow> 0x20 \<le> (of_char c :: nat) \<and> (of_char c :: nat) < 0x7F \<and> c \<noteq> BSL"

abbreviation plain :: "string \<Rightarrow> bool" where "plain s \<equiv> list_all plain_char s"

lemma rune_size_ascii: "(of_char c :: nat) < 0x80 \<Longrightarrow> rune_size (c # s) = 1"
  by (simp add: rune_size_def Let_def)

lemma plain_charD: "plain_char c \<Longrightarrow> c \<noteq> ESC \<and> c \<noteq> BSL \<and> c \<noteq> CHR 0x0D \<and> (of_char c :: nat) < 0x80"
  by (auto simp: plain_char_def)

lemma width_plain_append: "plain s \<Longrightarrow> width_loop False (s @ t) = length s + width_loop False t"
  by (induction s) (auto simp: width_loop.simps(2) rune_size_ascii dest!: plain_charD)

lemma VisibleWidth_plain: "plain s \<Longrightarrow> VisibleWidth s = length s"
  using width_plain_append [of s "[]"] by (simp add: VisibleWidth_def width_loop.simps)

text \<open>Inside an open span the width of plain text is zero, up to the bracket that closes it.\<close>

lemma width_marked_append: "plain s \<Longrightarrow> width_loop True (s @ t) = width_loop True t"
  by (induction s) (auto simp: width_loop.simps(2) dest!: plain_charD)

lemma width_span: "plain x \<Longrightarrow> width_loop False ([BSL, CHR ''[''] @ x @ [BSL, CHR '']''] @ t) = width_loop False t"
  by (simp add: width_loop.simps(2) [of False BSL] width_marked_append width_loop.simps(2) [of True BSL])

lemma prompt_plain_append: "plain s \<Longrightarrow> prompt_loop f marked (s @ t) = s @ prompt_loop f marked t"
  by (induction s) (auto simp: prompt_loop.simps(2) dest!: plain_charD)

lemma prompt_span:
  "plain x \<Longrightarrow> prompt_loop f False ([BSL, CHR ''[''] @ x @ [BSL, CHR '']''] @ t) = x @ prompt_loop f False t"
  by (simp add: prompt_loop.simps(2) [of f False BSL] prompt_plain_append prompt_loop.simps(2) [of f True BSL])

end
