(* ===== verification/LineEdit.thy ===== *)
theory LineEdit
  imports Prompt
begin

text \<open>
  The line editor of the shell (\<^verbatim>\<open>shlib/linebuffer.go\<close>, \<^verbatim>\<open>shlib/edit.go\<close>): the bounded line buffer it shares with
  the text fields, the recall ring, the keys, the kill ring, reverse search, completion and its menu, and
  \<^verbatim>\<open>Feed\<close>. A key returns the editor and the bytes to write. The two functions the front-end installs, the
  prompt facts and the completer, are the fields of \<open>edenv\<close>; \<open>None\<close> is nil there, and the result \<open>None\<close> of a key
  or of \<open>Feed\<close> is a slice out of range, a panic.
\<close>

subsection \<open>The line buffer\<close>

record LineBuffer =
  lb_buf :: string
  lb_cur :: nat
  lb_max :: int

definition NewLineBuffer :: "int \<Rightarrow> LineBuffer" where
  "NewLineBuffer m = \<lparr>lb_buf = [], lb_cur = 0, lb_max = m\<rparr>"

definition SetValue :: "string \<Rightarrow> 'a LineBuffer_scheme \<Rightarrow> 'a LineBuffer_scheme" where
  "SetValue s b =
     (let s = (if lb_max b > 0 \<and> int (length s) > lb_max b then take (nat (lb_max b)) s else s)
      in b\<lparr>lb_buf := s, lb_cur := length s\<rparr>)"

definition lb_Clear :: "'a LineBuffer_scheme \<Rightarrow> 'a LineBuffer_scheme" where
  "lb_Clear b = b\<lparr>lb_buf := [], lb_cur := 0\<rparr>"

text \<open>\<^verbatim>\<open>append(buf, 0); copy(buf[at+1:], buf[at:]); buf[at] = ch\<close>\<close>

definition insert_byte :: "string \<Rightarrow> nat \<Rightarrow> char \<Rightarrow> string" where
  "insert_byte buf at ch =
     (let buf = buf @ [CHR 0x00] in (take (at + 1) buf @ go_copy (drop (at + 1) buf) (drop at buf))[at := ch])"

definition InsertByte :: "char \<Rightarrow> 'a LineBuffer_scheme \<Rightarrow> bool \<times> 'a LineBuffer_scheme" where
  "InsertByte ch b =
     (if lb_max b > 0 \<and> int (length (lb_buf b)) \<ge> lb_max b then (False, b)
      else (True, b\<lparr>lb_buf := insert_byte (lb_buf b) (lb_cur b) ch, lb_cur := lb_cur b + 1\<rparr>))"

definition Backspace :: "'a LineBuffer_scheme \<Rightarrow> bool \<times> 'a LineBuffer_scheme" where
  "Backspace b =
     (if lb_cur b = 0 then (False, b)
      else (True, b\<lparr>lb_buf := take (lb_cur b - 1) (lb_buf b) @ drop (lb_cur b) (lb_buf b), lb_cur := lb_cur b - 1\<rparr>))"

definition Delete :: "'a LineBuffer_scheme \<Rightarrow> bool \<times> 'a LineBuffer_scheme" where
  "Delete b =
     (if lb_cur b \<ge> length (lb_buf b) then (False, b)
      else (True, b\<lparr>lb_buf := take (lb_cur b) (lb_buf b) @ drop (lb_cur b + 1) (lb_buf b)\<rparr>))"

definition Left :: "'a LineBuffer_scheme \<Rightarrow> bool \<times> 'a LineBuffer_scheme" where
  "Left b = (if lb_cur b = 0 then (False, b) else (True, b\<lparr>lb_cur := lb_cur b - 1\<rparr>))"

definition Right :: "'a LineBuffer_scheme \<Rightarrow> bool \<times> 'a LineBuffer_scheme" where
  "Right b = (if lb_cur b \<ge> length (lb_buf b) then (False, b) else (True, b\<lparr>lb_cur := lb_cur b + 1\<rparr>))"

definition Home :: "'a LineBuffer_scheme \<Rightarrow> bool \<times> 'a LineBuffer_scheme" where
  "Home b = (if lb_cur b = 0 then (False, b) else (True, b\<lparr>lb_cur := 0\<rparr>))"

definition End :: "'a LineBuffer_scheme \<Rightarrow> bool \<times> 'a LineBuffer_scheme" where
  "End b = (if lb_cur b = length (lb_buf b) then (False, b) else (True, b\<lparr>lb_cur := length (lb_buf b)\<rparr>))"

subsection \<open>The recall ring\<close>

abbreviation (input) historyMax :: nat where "historyMax \<equiv> 64"
abbreviation (input) maxLineBytes :: nat where "maxLineBytes \<equiv> 2048"
abbreviation (input) maxSearchQuery :: nat where "maxSearchQuery \<equiv> 64"
abbreviation (input) defaultCols :: int where "defaultCols \<equiv> 80"
abbreviation (input) menuRowsPerPage :: nat where "menuRowsPerPage \<equiv> 8"
abbreviation (input) menuGap :: nat where "menuGap \<equiv> 2"

definition hist_Push :: "string \<Rightarrow> string list \<Rightarrow> string list" where
  "hist_Push line h =
     (if line = [] then h
      else if h \<noteq> [] \<and> last h = line then h
      else let h = h @ [line] in if length h > historyMax then drop (length h - historyMax) h else h)"

text \<open>\<^verbatim>\<open>strings.ReplaceAll\<close> of CR LF by LF.\<close>

fun drop_cr :: "string \<Rightarrow> string" where
  "drop_cr (c # d # s) = (if c = CHR 0x0D \<and> d = CHR 0x0A then d # drop_cr s else c # drop_cr (d # s))"
| "drop_cr s = s"

definition hist_Load :: "string \<Rightarrow> string list \<Rightarrow> string list" where
  "hist_Load data h =
     (let t = drop_cr data in
      if t = [] \<or> last t \<noteq> CHR 0x0A then
        (if CHR 0x0A \<notin> set t then h
         else foldl (\<lambda>h ln. hist_Push (trim_right (CHR 0x0D) ln) h) h
                (split_lf (butlast (rev (dropWhile (\<lambda>c. c \<noteq> CHR 0x0A) (rev t))))))
      else foldl (\<lambda>h ln. hist_Push (trim_right (CHR 0x0D) ln) h) h (split_lf (butlast t)))"

subsection \<open>The editor\<close>

datatype evKind = evNone | EvSubmit | EvEOF | EvCancel

record EditEvent =
  ev_Kind :: evKind
  ev_Line :: string

abbreviation no_event :: EditEvent where "no_event \<equiv> \<lparr>ev_Kind = evNone, ev_Line = []\<rparr>"

datatype edstate = edGround | edEsc | edCSI

datatype killDir = killNone | killBackward | killForward

record Editor = LineBuffer +
  e_prompt :: string
  e_promptOut :: string
  e_hist :: "string list"
  e_hview :: int
  e_lastLen :: nat
  e_menu :: "string list"
  e_menuStart :: nat
  e_menuPage :: nat
  e_menuAt :: int
  e_menuOn :: bool
  e_cols :: int
  e_kill :: string
  e_killLo :: nat
  e_killHi :: nat
  e_killDir :: killDir
  e_state :: edstate
  e_csiParam :: u64
  e_csiGotP :: bool
  e_pending :: string
  e_searching :: bool
  e_query :: string
  e_draft :: string
  e_draftCur :: nat

record edenv =
  en_facts :: "PromptFacts option"
  en_Complete :: "(string \<Rightarrow> bool \<Rightarrow> string list) option"

definition NewEditor :: "string \<Rightarrow> string list \<Rightarrow> Editor" where
  "NewEditor prompt h =
     LineBuffer.extend (NewLineBuffer (int maxLineBytes))
       \<lparr>e_prompt = prompt, e_promptOut = prompt, e_hist = h, e_hview = -1, e_lastLen = 0,
        e_menu = [], e_menuStart = 0, e_menuPage = 0, e_menuAt = 0, e_menuOn = False, e_cols = defaultCols,
        e_kill = [], e_killLo = 0, e_killHi = 0, e_killDir = killNone,
        e_state = edGround, e_csiParam = 0, e_csiGotP = False, e_pending = [],
        e_searching = False, e_query = [], e_draft = [], e_draftCur = 0\<rparr>"

definition RefreshPrompt :: "edenv \<Rightarrow> Editor \<Rightarrow> Editor" where
  "RefreshPrompt env e =
     e\<lparr>e_promptOut := (case en_facts env of None \<Rightarrow> e_prompt e | Some f \<Rightarrow> ExpandPrompt (e_prompt e) f), e_lastLen := 0\<rparr>"

definition SetPrompt :: "edenv \<Rightarrow> string \<Rightarrow> Editor \<Rightarrow> Editor" where
  "SetPrompt env p e = RefreshPrompt env (e\<lparr>e_prompt := p\<rparr>)"

definition SetCols :: "int \<Rightarrow> Editor \<Rightarrow> Editor" where
  "SetCols n e = e\<lparr>e_cols := (if n \<le> 0 then defaultCols else n)\<rparr>"

definition paint :: "Editor \<Rightarrow> Editor \<times> string" where
  "paint e =
     (let content = VisibleWidth (e_promptOut e) + VisibleWidth (lb_buf e);
          tail = e_lastLen e - content
      in (e\<lparr>e_lastLen := content\<rparr>,
          [CHR 0x0D] @ e_promptOut e @ lb_buf e @ replicate tail (CHR '' '') @ [CHR 0x0D] @ e_promptOut e @ take (lb_cur e) (lb_buf e)))"

definition Repaint :: "edenv \<Rightarrow> Editor \<Rightarrow> Editor \<times> string" where
  "Repaint env e = paint (RefreshPrompt env e)"

subsubsection \<open>Plain keys\<close>

definition breakKill :: "Editor \<Rightarrow> Editor" where
  "breakKill e = e\<lparr>e_killLo := 0, e_killHi := 0, e_killDir := killNone\<rparr>"

definition keyBackspace :: "Editor \<Rightarrow> Editor \<times> string" where
  "keyBackspace e =
     (if lb_cur e = 0 then (e, [])
      else let e = breakKill e;
               e = e\<lparr>lb_buf := take (lb_cur e - 1) (lb_buf e) @ drop (lb_cur e) (lb_buf e)\<rparr>
           in paint (e\<lparr>lb_cur := lb_cur e - 1\<rparr>))"

definition keyDelete :: "Editor \<Rightarrow> Editor \<times> string" where
  "keyDelete e =
     (if lb_cur e < length (lb_buf e)
      then let e = breakKill e in paint (e\<lparr>lb_buf := take (lb_cur e) (lb_buf e) @ drop (lb_cur e + 1) (lb_buf e)\<rparr>)
      else (e, []))"

definition keyLeft :: "Editor \<Rightarrow> Editor \<times> string" where
  "keyLeft e = (if lb_cur e > 0 then let e = breakKill e in paint (e\<lparr>lb_cur := lb_cur e - 1\<rparr>) else (e, []))"

definition keyRight :: "Editor \<Rightarrow> Editor \<times> string" where
  "keyRight e = (if lb_cur e < length (lb_buf e) then let e = breakKill e in paint (e\<lparr>lb_cur := lb_cur e + 1\<rparr>) else (e, []))"

definition keyHome :: "Editor \<Rightarrow> Editor \<times> string" where
  "keyHome e = paint ((breakKill e)\<lparr>lb_cur := 0\<rparr>)"

definition keyEnd :: "Editor \<Rightarrow> Editor \<times> string" where
  "keyEnd e = paint ((breakKill e)\<lparr>lb_cur := length (lb_buf e)\<rparr>)"

text \<open>The recall keys; an index out of the ring is \<open>None\<close>.\<close>

definition recall :: "int \<Rightarrow> Editor \<Rightarrow> Editor option" where
  "recall i e =
     (if 0 \<le> i \<and> i < int (length (e_hist e))
      then Some (e\<lparr>lb_buf := e_hist e ! nat i, lb_cur := length (e_hist e ! nat i)\<rparr>) else None)"

definition histPrev :: "Editor \<Rightarrow> (Editor \<times> string) option" where
  "histPrev e =
     (if e_hist e = [] then Some (e, [])
      else let e = e\<lparr>e_hview := (if e_hview e = -1 then int (length (e_hist e)) - 1
                                 else if e_hview e > 0 then e_hview e - 1 else e_hview e)\<rparr>
           in map_option paint (recall (e_hview e) (breakKill e)))"

definition histNext :: "Editor \<Rightarrow> (Editor \<times> string) option" where
  "histNext e =
     (if e_hview e = -1 then Some (e, [])
      else let e = breakKill e in
           if e_hview e < int (length (e_hist e)) - 1
           then let e = e\<lparr>e_hview := e_hview e + 1\<rparr> in map_option paint (recall (e_hview e) e)
           else Some (paint (e\<lparr>e_hview := -1, lb_buf := [], lb_cur := 0\<rparr>)))"

subsubsection \<open>Insertion\<close>

text \<open>\<^verbatim>\<open>append(buf, make(len ins)); copy(buf[at+len ins:], buf[at:len buf - len ins]); copy(buf[at:], ins)\<close>\<close>

definition insertAt :: "string \<Rightarrow> nat \<Rightarrow> string \<Rightarrow> string" where
  "insertAt buf at new =
     (let n = length buf;
          buf = buf @ replicate (length new) (CHR 0x00);
          buf = take (at + length new) buf @ go_copy (drop (at + length new) buf) (drop at (take n buf))
      in take at buf @ go_copy (drop at buf) new)"

definition ins :: "string \<Rightarrow> Editor \<Rightarrow> Editor \<times> string" where
  "ins new e =
     (if length (lb_buf e) + length new > maxLineBytes then (e, [CHR 0x07])
      else let e = breakKill e
           in paint (e\<lparr>lb_buf := insertAt (lb_buf e) (lb_cur e) new, lb_cur := lb_cur e + length new\<rparr>))"

subsubsection \<open>Words and the kill ring\<close>

definition fwd_while :: "(char \<Rightarrow> bool) \<Rightarrow> string \<Rightarrow> nat \<Rightarrow> nat" where
  "fwd_while P buf j = j + length (takeWhile P (drop j buf))"

fun back_while :: "(char \<Rightarrow> bool) \<Rightarrow> string \<Rightarrow> nat \<Rightarrow> nat" where
  "back_while P buf 0 = 0"
| "back_while P buf (Suc j) = (if P (buf ! j) then back_while P buf j else Suc j)"

definition is_sp :: "char \<Rightarrow> bool" where "is_sp c \<longleftrightarrow> c = CHR '' ''"
definition non_sp :: "char \<Rightarrow> bool" where "non_sp c \<longleftrightarrow> c \<noteq> CHR '' ''"

definition wordForward :: "string \<Rightarrow> nat \<Rightarrow> nat" where
  "wordForward buf i =
     (let j = fwd_while non_sp buf i
      in if j > i then j else fwd_while non_sp buf (fwd_while is_sp buf j))"

definition wordBackward :: "string \<Rightarrow> nat \<Rightarrow> nat" where
  "wordBackward buf i =
     (if i > 0 \<and> buf ! (i - 1) = CHR '' '' then back_while non_sp buf (back_while is_sp buf i)
      else back_while non_sp buf i)"

definition keyWordForward :: "Editor \<Rightarrow> Editor \<times> string" where
  "keyWordForward e =
     (let j = wordForward (lb_buf e) (lb_cur e)
      in if j = lb_cur e then (e, []) else paint ((breakKill e)\<lparr>lb_cur := j\<rparr>))"

definition keyWordBackward :: "Editor \<Rightarrow> Editor \<times> string" where
  "keyWordBackward e =
     (let j = wordBackward (lb_buf e) (lb_cur e)
      in if j = lb_cur e then (e, []) else paint ((breakKill e)\<lparr>lb_cur := j\<rparr>))"

definition killRegion :: "nat \<Rightarrow> nat \<Rightarrow> killDir \<Rightarrow> Editor \<Rightarrow> Editor \<times> string" where
  "killRegion lo hi dir e =
     (let hi = (if hi > length (lb_buf e) then length (lb_buf e) else hi) in
      if lo \<ge> hi then paint e
      else let killed = take (hi - lo) (drop lo (lb_buf e));
               k = (if e_killDir e = dir \<and> lb_cur e = e_killLo e
                    then (if dir = killBackward then killed @ e_kill e else e_kill e @ killed)
                    else killed)
           in paint (e\<lparr>e_kill := k, e_killLo := lo, e_killHi := hi, e_killDir := dir,
                       lb_buf := take lo (lb_buf e) @ drop hi (lb_buf e), lb_cur := lo\<rparr>))"

definition keyKillWordBack :: "Editor \<Rightarrow> Editor \<times> string" where
  "keyKillWordBack e =
     killRegion (back_while non_sp (lb_buf e) (back_while is_sp (lb_buf e) (lb_cur e))) (lb_cur e) killBackward e"

definition keyKillWordForward :: "Editor \<Rightarrow> Editor \<times> string" where
  "keyKillWordForward e = killRegion (lb_cur e) (wordForward (lb_buf e) (lb_cur e)) killForward e"

definition keyYank :: "Editor \<Rightarrow> Editor \<times> string" where
  "keyYank e = (if e_kill e = [] then (e, []) else ins (e_kill e) e)"

definition keyTranspose :: "Editor \<Rightarrow> Editor \<times> string" where
  "keyTranspose e =
     (if length (lb_buf e) < 2 \<or> lb_cur e = 0 then (e, [])
      else let i = (if lb_cur e = length (lb_buf e) then lb_cur e - 1 else lb_cur e);
               buf = (lb_buf e)[i - 1 := lb_buf e ! i, i := lb_buf e ! (i - 1)];
               e = e\<lparr>lb_buf := buf, lb_cur := (if lb_cur e < length buf then lb_cur e + 1 else lb_cur e)\<rparr>
           in paint (breakKill e))"

subsubsection \<open>The completion menu\<close>

definition stripSpace :: "string \<Rightarrow> string" where
  "stripSpace c = (if c \<noteq> [] \<and> last c = CHR '' '' then butlast c else c)"

definition menuEntryWidth :: "string list \<Rightarrow> nat" where
  "menuEntryWidth cands = foldl (\<lambda>w c. let l = length c + menuGap in if l > w then l else w) menuGap (map stripSpace cands)"

definition menuColumnCount :: "string list \<Rightarrow> int \<Rightarrow> nat" where
  "menuColumnCount cands width =
     (let cols = width div int (menuEntryWidth cands);
          cols = (if cols < 1 then 1 else cols)
      in if cols > int (length cands) then length cands else nat cols)"

definition ceil_div :: "nat \<Rightarrow> nat \<Rightarrow> nat" where
  "ceil_div n d = (n + d - 1) div d"

definition menuRowCount :: "string list \<Rightarrow> int \<Rightarrow> nat" where
  "menuRowCount cands width = (if cands = [] then 0 else ceil_div (length cands) (menuColumnCount cands width))"

definition menuCols :: "Editor \<Rightarrow> int" where
  "menuCols e = (if e_cols e > 0 then e_cols e else defaultCols)"

definition page_count :: "nat \<Rightarrow> nat" where
  "page_count rows = (let pages = ceil_div rows menuRowsPerPage in if pages < 1 then 1 else pages)"

definition menuPages :: "Editor \<Rightarrow> nat" where
  "menuPages e = page_count (menuRowCount (e_menu e) (menuCols e))"

text \<open>\<^verbatim>\<open>for i := r; i < n; i += rows\<close>, and the row it makes.\<close>

function stride :: "nat \<Rightarrow> nat \<Rightarrow> nat \<Rightarrow> nat list" where
  "stride i n step = (if i < n \<and> 0 < step then i # stride (i + step) n step else [])"
  by pat_completeness auto
termination
  by (relation "measure (\<lambda>(i, n, _). n - i)") auto

fun menu_row :: "nat \<Rightarrow> string list \<Rightarrow> string" where
  "menu_row colW [] = []"
| "menu_row colW [c] = c"
| "menu_row colW (c # d # cs) = c @ replicate (colW - length c) (CHR '' '') @ menu_row colW (d # cs)"

definition menuRows :: "string list \<Rightarrow> int \<Rightarrow> nat \<Rightarrow> string list" where
  "menuRows cands width page =
     (let disp = map stripSpace cands; n = length disp in
      if n = 0 then []
      else let width = (if width < 1 then 1 else width);
               rows = ceil_div n (menuColumnCount cands width);
               pages = page_count rows;
               page = (if page \<ge> pages then pages - 1 else page);
               first = page * menuRowsPerPage;
               final = (if first + menuRowsPerPage > rows then rows else first + menuRowsPerPage)
           in map (\<lambda>r. menu_row (menuEntryWidth cands) (map ((!) disp) (stride r n rows))) [first..<final])"

definition menuPaint :: "Editor \<Rightarrow> Editor \<times> string" where
  "menuPaint e =
     (let rows = menuRows (e_menu e) (menuCols e) (e_menuPage e) in
      case paint (e\<lparr>e_lastLen := 0\<rparr>) of
        (e, w) \<Rightarrow> (e, concat (map (\<lambda>r. [CHR 0x0D, CHR 0x0A] @ r) rows) @ [CHR 0x0D, CHR 0x0A] @ w))"

text \<open>\<open>None\<close> when the recorded start lies behind the end of the line or the index is out of the snapshot.\<close>

definition menuCycle :: "Editor \<Rightarrow> (Editor \<times> string) option" where
  "menuCycle e =
     (if e_menu e = [] then Some (e, [])
      else let e = e\<lparr>e_menuAt := (e_menuAt e + 1) mod int (length (e_menu e))\<rparr>;
               cand = e_menu e ! nat (e_menuAt e);
               tail = drop (lb_cur e) (lb_buf e)
           in if e_menuStart e + length cand + length tail > maxLineBytes then Some (e, [CHR 0x07])
              else if e_menuStart e > length (lb_buf e) then None
              else Some (paint ((breakKill e)\<lparr>lb_buf := take (e_menuStart e) (lb_buf e) @ cand @ tail,
                                             lb_cur := e_menuStart e + length cand\<rparr>)))"

definition dismissMenu :: "Editor \<Rightarrow> Editor" where
  "dismissMenu e = e\<lparr>e_menu := [], e_menuStart := 0, e_menuPage := 0, e_menuAt := -1, e_menuOn := False\<rparr>"

function shrink_prefix :: "string \<Rightarrow> string \<Rightarrow> string" where
  "shrink_prefix c p = (if hasPrefix c p then p else shrink_prefix c (butlast p))"
  by pat_completeness auto
termination
proof (relation "measure (\<lambda>(_, p). length p)", simp)
  fix c p :: string
  assume "\<not> hasPrefix c p"
  then show "((c, butlast p), c, p) \<in> measure (\<lambda>(_, p). length p)" by (cases p) (auto simp: hasPrefix_def)
qed

definition commonPrefix :: "string list \<Rightarrow> string" where
  "commonPrefix cands = (case cands of [] \<Rightarrow> [] | c # cs \<Rightarrow> foldl (\<lambda>p c. shrink_prefix c p) c cs)"

definition keyTab :: "edenv \<Rightarrow> Editor \<Rightarrow> (Editor \<times> string) option" where
  "keyTab env e =
     (case en_Complete env of
        None \<Rightarrow> Some (e, [])
      | Some Complete \<Rightarrow>
          if e_menuOn e then
            (if e_menuPage e + 1 < menuPages e then Some (menuPaint (e\<lparr>e_menuPage := e_menuPage e + 1\<rparr>))
             else menuCycle e)
          else
            let start = back_while non_sp (lb_buf e) (lb_cur e);
                word = take (lb_cur e - start) (drop start (lb_buf e));
                cands = Complete word (start = 0)
            in if cands = [] then Some (e, [])
               else if length cands = 1 then
                 (if length word > length (hd cands) then None
                  else let rest = drop (length word) (hd cands)
                       in Some (if rest \<noteq> [] then ins rest e else (e, [])))
               else
                 let pre = commonPrefix cands
                 in if length pre > length word then Some (ins (drop (length word) pre) e)
                    else Some (menuPaint (e\<lparr>e_menu := cands, e_menuStart := start, e_menuAt := -1,
                                            e_menuPage := 0, e_menuOn := True\<rparr>)))"

subsubsection \<open>Reverse search\<close>

definition contains :: "string \<Rightarrow> string \<Rightarrow> bool" where
  "contains s q \<longleftrightarrow> (\<exists>i \<in> set [0..<length s + 1]. hasPrefix (drop i s) q)"

definition searchMatch :: "string \<Rightarrow> Editor \<Rightarrow> string option" where
  "searchMatch q e = (if q = [] then None else find (\<lambda>s. contains s q) (rev (e_hist e)))"

definition searchPaint :: "Editor \<Rightarrow> Editor \<times> string" where
  "searchPaint e =
     (let shown = (if e_query e = [] then ''_'' else e_query e);
          out = [CHR 0x0D, CHR 0x0A] @ ''(reverse-i-search)`'' @ shown @ ''`: ''
      in case searchMatch (e_query e) e of
           Some m \<Rightarrow> (e\<lparr>lb_buf := m, lb_cur := length m, e_lastLen := 0\<rparr>, out @ m)
         | None \<Rightarrow> (e\<lparr>e_lastLen := 0\<rparr>, out @ ''(no match)''))"

definition searchEnter :: "Editor \<Rightarrow> Editor \<times> string" where
  "searchEnter e =
     searchPaint ((breakKill e)\<lparr>e_draft := lb_buf e, e_draftCur := lb_cur e, e_searching := True, e_query := []\<rparr>)"

definition searchExit :: "bool \<Rightarrow> Editor \<Rightarrow> Editor \<times> string" where
  "searchExit accept e =
     (let e = (breakKill e)\<lparr>e_searching := False\<rparr>;
          e = (if \<not> accept then e\<lparr>lb_buf := e_draft e, lb_cur := e_draftCur e\<rparr> else e)
      in case paint (e\<lparr>e_lastLen := 0\<rparr>) of (e, w) \<Rightarrow> (e, [CHR 0x0D, CHR 0x0A] @ w))"

abbreviation ord_of :: "char \<Rightarrow> nat" where "ord_of c \<equiv> of_char c"

definition searchByte :: "char \<Rightarrow> Editor \<Rightarrow> Editor \<times> string \<times> bool" where
  "searchByte b e =
     (if b = ESC \<or> b = CHR 0x03 then (case searchExit False e of (e, w) \<Rightarrow> (e, w, True))
      else if b = CHR 0x0D \<or> b = CHR 0x0A then (case searchExit True e of (e, w) \<Rightarrow> (e, w, True))
      else if b = CHR 0x7F \<or> b = CHR 0x08 then
        (if e_query e \<noteq> [] then (case searchPaint (e\<lparr>e_query := butlast (e_query e)\<rparr>) of (e, w) \<Rightarrow> (e, w, False))
         else (e, [], False))
      else if b = CHR 0x0C then (e, [], False)
      else if ord_of b \<ge> 0x20 \<and> b \<noteq> CHR 0x7F then
        (if length (e_query e) \<ge> maxSearchQuery then (e, [CHR 0x07], False)
         else (case searchPaint (e\<lparr>e_query := e_query e @ [b]\<rparr>) of (e, w) \<Rightarrow> (e, w, False)))
      else (e, [], False))"

subsubsection \<open>One byte\<close>

definition quiet :: "Editor \<times> string \<Rightarrow> (Editor \<times> string \<times> EditEvent) option" where
  "quiet r = (case r of (e, w) \<Rightarrow> Some (e, w, no_event))"

definition quiet_opt :: "(Editor \<times> string) option \<Rightarrow> (Editor \<times> string \<times> EditEvent) option" where
  "quiet_opt r = (case r of None \<Rightarrow> None | Some r \<Rightarrow> quiet r)"

definition submit :: "Editor \<Rightarrow> Editor \<times> string \<times> EditEvent" where
  "submit e =
     (let e = breakKill e; line = lb_buf e
      in (e\<lparr>lb_buf := [], lb_cur := 0, e_hview := -1, e_lastLen := 0, e_hist := hist_Push line (e_hist e)\<rparr>,
          [CHR 0x0D, CHR 0x0A], \<lparr>ev_Kind = EvSubmit, ev_Line = line\<rparr>))"

definition abandon :: "edenv \<Rightarrow> Editor \<Rightarrow> Editor \<times> string \<times> EditEvent" where
  "abandon env e =
     (let e = (breakKill e)\<lparr>lb_buf := [], lb_cur := 0, e_hview := -1, e_lastLen := 0\<rparr>
      in case paint (RefreshPrompt env e) of
           (e, w) \<Rightarrow> (e, ''^C'' @ [CHR 0x0D, CHR 0x0A] @ w, \<lparr>ev_Kind = EvCancel, ev_Line = []\<rparr>))"

definition keyGround :: "edenv \<Rightarrow> char \<Rightarrow> Editor \<Rightarrow> (Editor \<times> string \<times> EditEvent) option" where
  "keyGround env b e =
     (if b = ESC then Some (e\<lparr>e_state := edEsc\<rparr>, [], no_event)
      else if b = CHR 0x0D \<or> b = CHR 0x0A then Some (submit e)
      else if b = CHR 0x7F \<or> b = CHR 0x08 then quiet (keyBackspace e)
      else if b = CHR 0x01 then quiet (keyHome e)
      else if b = CHR 0x05 then quiet (keyEnd e)
      else if b = CHR 0x0B then quiet (killRegion (lb_cur e) (length (lb_buf e)) killForward e)
      else if b = CHR 0x15 then quiet (killRegion 0 (lb_cur e) killBackward e)
      else if b = CHR 0x17 then quiet (keyKillWordBack e)
      else if b = CHR 0x19 then quiet (keyYank e)
      else if b = CHR 0x14 then quiet (keyTranspose e)
      else if b = CHR 0x0C then
        (case paint e of (e, w) \<Rightarrow> Some (e, [ESC, CHR ''['', CHR ''2'', CHR ''J'', ESC, CHR ''['', CHR ''H''] @ w, no_event))
      else if b = CHR 0x12 then quiet (searchEnter e)
      else if b = CHR 0x03 then Some (abandon env e)
      else if b = CHR 0x04 then
        Some (e, [], if lb_buf e = [] then \<lparr>ev_Kind = EvEOF, ev_Line = []\<rparr> else no_event)
      else if b = CHR 0x09 then quiet_opt (keyTab env e)
      else if ord_of b < 0x20 \<or> ord_of b \<ge> 0x7F then Some (e, [], no_event)
      else if length (lb_buf e) \<ge> maxLineBytes then Some (e, [CHR 0x07], no_event)
      else let e = breakKill e
           in quiet (paint (e\<lparr>lb_buf := insert_byte (lb_buf e) (lb_cur e) b, lb_cur := lb_cur e + 1\<rparr>)))"

definition esc_byte :: "edenv \<Rightarrow> char \<Rightarrow> Editor \<Rightarrow> (Editor \<times> string \<times> EditEvent) option" where
  "esc_byte env b e =
     (if b = CHR ''['' then Some (e\<lparr>e_state := edCSI, e_csiParam := 0, e_csiGotP := False\<rparr>, [], no_event)
      else let e = e\<lparr>e_state := edGround\<rparr> in
           if b = CHR ''f'' then quiet (keyWordForward e)
           else if b = CHR ''b'' then quiet (keyWordBackward e)
           else if b = CHR ''d'' then quiet (keyKillWordForward e)
           else if b = CHR 0x7F \<or> b = CHR 0x08 then quiet (keyKillWordBack e)
           else keyGround env b e)"

definition to_ground :: "(Editor \<times> string \<times> EditEvent) option \<Rightarrow> (Editor \<times> string \<times> EditEvent) option" where
  "to_ground r = map_option (\<lambda>(e, w, ev). (e\<lparr>e_state := edGround\<rparr>, w, ev)) r"

definition csi_byte :: "char \<Rightarrow> Editor \<Rightarrow> (Editor \<times> string \<times> EditEvent) option" where
  "csi_byte b e =
     (if ord_of b \<ge> ord_of (CHR ''0'') \<and> ord_of b \<le> ord_of (CHR ''9'')
      then Some (e\<lparr>e_csiParam := e_csiParam e * 10 + of_nat (ord_of b - ord_of (CHR ''0'')), e_csiGotP := True\<rparr>, [], no_event)
      else to_ground
        (if b = CHR ''~'' then quiet (keyDelete e)
         else if b = CHR ''A'' then quiet_opt (histPrev e)
         else if b = CHR ''B'' then quiet_opt (histNext e)
         else if b = CHR ''C'' then quiet (keyRight e)
         else if b = CHR ''D'' then quiet (keyLeft e)
         else if b = CHR ''H'' then quiet (keyHome e)
         else if b = CHR ''F'' then quiet (keyEnd e)
         else Some (e, [], no_event)))"

definition line_byte :: "edenv \<Rightarrow> char \<Rightarrow> Editor \<Rightarrow> (Editor \<times> string \<times> EditEvent) option" where
  "line_byte env b e =
     (let e = (if b \<noteq> CHR 0x09 then dismissMenu e else e) in
      case e_state e of edEsc \<Rightarrow> esc_byte env b e | edCSI \<Rightarrow> csi_byte b e | edGround \<Rightarrow> keyGround env b e)"

subsubsection \<open>Feed\<close>

fun search_loop :: "string \<Rightarrow> Editor \<Rightarrow> Editor \<times> string" where
  "search_loop [] e = (e, [])"
| "search_loop (b # rest) e =
     (case searchByte b e of
        (e, w, True) \<Rightarrow> (e\<lparr>e_pending := rest\<rparr>, w)
      | (e, w, False) \<Rightarrow> (case search_loop rest e of (e, out) \<Rightarrow> (e, w @ out)))"

fun line_loop :: "edenv \<Rightarrow> string \<Rightarrow> Editor \<Rightarrow> (Editor \<times> string \<times> EditEvent) option" where
  "line_loop env [] e = Some (e, [], no_event)"
| "line_loop env (b # rest) e =
     (case line_byte env b e of
        None \<Rightarrow> None
      | Some (e, w, ev) \<Rightarrow>
          if ev_Kind ev \<noteq> evNone \<or> e_searching e then Some (e\<lparr>e_pending := rest\<rparr>, w, ev)
          else (case line_loop env rest e of None \<Rightarrow> None | Some (e, out, ev) \<Rightarrow> Some (e, w @ out, ev)))"

definition Feed :: "edenv \<Rightarrow> string \<Rightarrow> Editor \<Rightarrow> (Editor \<times> string \<times> EditEvent) option" where
  "Feed env chunk e =
     (let chunk = e_pending e @ chunk; e = e\<lparr>e_pending := []\<rparr> in
      if e_searching e then quiet (search_loop chunk e) else line_loop env chunk e)"

definition Pending :: "Editor \<Rightarrow> bool" where
  "Pending e \<longleftrightarrow> e_pending e \<noteq> []"

subsubsection \<open>The completer of the shell\<close>

text \<open>\<open>names\<close> are the builtins and the tools, \<open>files\<close> the listing of the share.\<close>

definition completeFn :: "string list \<Rightarrow> string list \<Rightarrow> string \<Rightarrow> bool \<Rightarrow> string list" where
  "completeFn names files word first =
     (if first then map (\<lambda>n. n @ '' '') (filter (\<lambda>n. hasPrefix n word) names) else [])
     @ rev (foldl (\<lambda>seen n. if \<not> hasPrefix n word \<or> n \<in> set seen then seen else n # seen) [] files)"

end
