(* ===== verification/LineProps.thy ===== *)
theory LineProps
  imports LineEdit
begin

text \<open>
  Correctness of the line editor: the buffer refines a text with a gap, \<^verbatim>\<open>Feed\<close> keeps the editor well formed and
  never slices out of range, and the reads a session arrives in do not matter. Theory \<open>LineScreen\<close> has what the
  terminal shows, the kill ring, the search and the menu.
\<close>

subsection \<open>The text with a gap\<close>

lemma insert_byte_gap: "at \<le> length buf \<Longrightarrow> insert_byte buf at ch = take at buf @ ch # drop at buf"
proof -
  assume at: "at \<le> length buf"
  define l r where "l = take at buf" and "r = drop at buf"
  then have b: "buf = l @ r" "at = length l" using at by auto
  show ?thesis unfolding b by (cases r) (simp_all add: insert_byte_def Let_def go_copy_def list_update_append)
qed

lemma insertAt_gap: "at \<le> length buf \<Longrightarrow> insertAt buf at new = take at buf @ new @ drop at buf"
  by (simp add: insertAt_def Let_def go_copy_def min_def)

text \<open>What a buffer shows: the text before the caret, nearest byte first, and the text behind it.\<close>

datatype gap = Gap (gap_left: string) (gap_right: string)

definition gap_of :: "'a LineBuffer_scheme \<Rightarrow> gap" where
  "gap_of b = Gap (rev (take (lb_cur b) (lb_buf b))) (drop (lb_cur b) (lb_buf b))"

definition lb_ok :: "'a LineBuffer_scheme \<Rightarrow> bool" where
  "lb_ok b \<longleftrightarrow> lb_cur b \<le> length (lb_buf b) \<and> (lb_max b > 0 \<longrightarrow> int (length (lb_buf b)) \<le> lb_max b)"

datatype lbop = LInsert char | LBackspace | LDelete | LLeft | LRight | LHome | LEnd | LClear | LSet string

fun lb_run :: "lbop \<Rightarrow> LineBuffer \<Rightarrow> LineBuffer" where
  "lb_run (LInsert c) b = snd (InsertByte c b)"
| "lb_run LBackspace b = snd (Backspace b)"
| "lb_run LDelete b = snd (Delete b)"
| "lb_run LLeft b = snd (Left b)"
| "lb_run LRight b = snd (Right b)"
| "lb_run LHome b = snd (Home b)"
| "lb_run LEnd b = snd (End b)"
| "lb_run LClear b = lb_Clear b"
| "lb_run (LSet s) b = SetValue s b"

definition room :: "int \<Rightarrow> string \<Rightarrow> string" where
  "room m s = (if m > 0 then take (nat m) s else s)"

fun gap_run :: "int \<Rightarrow> lbop \<Rightarrow> gap \<Rightarrow> gap" where
  "gap_run m (LInsert c) (Gap l r) = (if m > 0 \<and> int (length l + length r) \<ge> m then Gap l r else Gap (c # l) r)"
| "gap_run m LBackspace (Gap l r) = Gap (drop 1 l) r"
| "gap_run m LDelete (Gap l r) = Gap l (drop 1 r)"
| "gap_run m LLeft (Gap l r) = (case l of [] \<Rightarrow> Gap l r | c # l \<Rightarrow> Gap l (c # r))"
| "gap_run m LRight (Gap l r) = (case r of [] \<Rightarrow> Gap l r | c # r \<Rightarrow> Gap (c # l) r)"
| "gap_run m LHome (Gap l r) = Gap [] (rev l @ r)"
| "gap_run m LEnd (Gap l r) = Gap (rev r @ l) []"
| "gap_run m LClear (Gap l r) = Gap [] []"
| "gap_run m (LSet s) (Gap l r) = Gap (rev (room m s)) []"

lemma rev_take_Suc: "n < length s \<Longrightarrow> rev (take (Suc n) s) = s ! n # rev (take n s)"
  by (simp add: take_Suc_conv_app_nth)

lemma lb_run_step:
  assumes "lb_ok b"
  shows "lb_ok (lb_run p b)" and "lb_max (lb_run p b) = lb_max b"
    and "gap_of (lb_run p b) = gap_run (lb_max b) p (gap_of b)"
proof -
  let ?l = "take (lb_cur b) (lb_buf b)" and ?r = "drop (lb_cur b) (lb_buf b)"
  have b: "b = \<lparr>lb_buf = ?l @ ?r, lb_cur = length ?l, lb_max = lb_max b\<rparr>"
    using assms by (cases b) (simp add: lb_ok_def)
  obtain l r m where *: "b = \<lparr>lb_buf = l @ r, lb_cur = length l, lb_max = m\<rparr>" using b by blast
  have left: "l = [] \<or> (\<exists>l' c. l = l' @ [c])" by (cases l rule: rev_cases) auto
  have right: "r = [] \<or> (\<exists>c r'. r = c # r')" by (cases r) auto
  have "lb_ok (lb_run p b) \<and> lb_max (lb_run p b) = lb_max b \<and> gap_of (lb_run p b) = gap_run (lb_max b) p (gap_of b)"
    using left right assms unfolding *
    by (cases p) (auto simp: lb_ok_def gap_of_def InsertByte_def insert_byte_gap Backspace_def Delete_def Left_def Right_def
      Home_def End_def lb_Clear_def SetValue_def Let_def room_def)
  then show "lb_ok (lb_run p b)" "lb_max (lb_run p b) = lb_max b" "gap_of (lb_run p b) = gap_run (lb_max b) p (gap_of b)"
    by simp_all
qed

lemma lb_run_all:
  "lb_ok b \<Longrightarrow> lb_ok (foldl (\<lambda>b p. lb_run p b) b ps) \<and> lb_max (foldl (\<lambda>b p. lb_run p b) b ps) = lb_max b
     \<and> gap_of (foldl (\<lambda>b p. lb_run p b) b ps) = foldl (\<lambda>g p. gap_run (lb_max b) p g) (gap_of b) ps"
  by (induction ps arbitrary: b) (simp_all add: lb_run_step)

text \<open>
  Any sequence of operations on a fresh buffer does what the text with a gap does, and the buffer stays within
  its bound with the caret inside it.
\<close>

theorem line_buffer_refines:
  "gap_of (foldl (\<lambda>b p. lb_run p b) (NewLineBuffer m) ps) = foldl (\<lambda>g p. gap_run m p g) (Gap [] []) ps
   \<and> lb_ok (foldl (\<lambda>b p. lb_run p b) (NewLineBuffer m) ps) \<and> lb_max (foldl (\<lambda>b p. lb_run p b) (NewLineBuffer m) ps) = m"
proof -
  have "lb_ok (NewLineBuffer m)" "lb_max (NewLineBuffer m) = m" "gap_of (NewLineBuffer m) = Gap [] []"
    by (simp_all add: lb_ok_def NewLineBuffer_def gap_of_def)
  then show ?thesis using lb_run_all [of "NewLineBuffer m" ps] by simp
qed

subsection \<open>Well-formed editors\<close>

definition ed_ok :: "Editor \<Rightarrow> bool" where
  "ed_ok e \<longleftrightarrow>
     lb_cur e \<le> length (lb_buf e) \<and> length (lb_buf e) \<le> maxLineBytes \<and>
     (\<forall>h \<in> set (e_hist e). length h \<le> maxLineBytes) \<and> length (e_hist e) \<le> historyMax \<and>
     -1 \<le> e_hview e \<and> e_hview e < int (length (e_hist e)) \<and>
     (e_menuOn e \<longrightarrow> e_menuStart e \<le> lb_cur e \<and> e_menu e \<noteq> []) \<and>
     (e_searching e \<longrightarrow> length (e_draft e) \<le> maxLineBytes \<and> e_draftCur e \<le> length (e_draft e)) \<and>
     length (e_query e) \<le> maxSearchQuery"

text \<open>The fields no slice depends on.\<close>

lemma ed_ok_frame [simp]:
  "ed_ok (e\<lparr>e_lastLen := n\<rparr>) = ed_ok e" "ed_ok (e\<lparr>e_promptOut := p\<rparr>) = ed_ok e" "ed_ok (e\<lparr>e_prompt := p\<rparr>) = ed_ok e"
  "ed_ok (e\<lparr>e_state := st\<rparr>) = ed_ok e" "ed_ok (e\<lparr>e_pending := p\<rparr>) = ed_ok e" "ed_ok (e\<lparr>e_cols := c\<rparr>) = ed_ok e"
  "ed_ok (e\<lparr>e_csiParam := cp\<rparr>) = ed_ok e" "ed_ok (e\<lparr>e_csiGotP := g\<rparr>) = ed_ok e" "ed_ok (e\<lparr>e_menuPage := mp\<rparr>) = ed_ok e"
  "ed_ok (e\<lparr>e_menuAt := ma\<rparr>) = ed_ok e" "ed_ok (e\<lparr>e_kill := k\<rparr>) = ed_ok e" "ed_ok (e\<lparr>e_killLo := lo\<rparr>) = ed_ok e"
  "ed_ok (e\<lparr>e_killHi := hi\<rparr>) = ed_ok e" "ed_ok (e\<lparr>e_killDir := d\<rparr>) = ed_ok e"
  by (simp_all add: ed_ok_def)

lemma ed_ok_paint [simp]: "ed_ok (fst (paint e)) = ed_ok e"
  by (simp add: paint_def Let_def)

lemma ed_ok_breakKill [simp]: "ed_ok (breakKill e) = ed_ok e"
  by (simp add: breakKill_def)

lemma breakKill_fields [simp]:
  "lb_buf (breakKill e) = lb_buf e" "lb_cur (breakKill e) = lb_cur e" "e_hist (breakKill e) = e_hist e"
  "e_hview (breakKill e) = e_hview e" "e_draft (breakKill e) = e_draft e" "e_draftCur (breakKill e) = e_draftCur e"
  "e_menuOn (breakKill e) = e_menuOn e" "e_menuStart (breakKill e) = e_menuStart e" "e_menu (breakKill e) = e_menu e"
  "e_searching (breakKill e) = e_searching e" "e_query (breakKill e) = e_query e" "e_kill (breakKill e) = e_kill e"
  "e_lastLen (breakKill e) = e_lastLen e" "e_promptOut (breakKill e) = e_promptOut e" "e_pending (breakKill e) = e_pending e"
  "e_killDir (breakKill e) = killNone" "e_state (breakKill e) = e_state e"
  by (simp_all add: breakKill_def)

lemma paint_fields [simp]:
  "lb_buf (fst (paint e)) = lb_buf e" "lb_cur (fst (paint e)) = lb_cur e" "e_hist (fst (paint e)) = e_hist e"
  "e_hview (fst (paint e)) = e_hview e" "e_menuOn (fst (paint e)) = e_menuOn e" "e_searching (fst (paint e)) = e_searching e"
  "e_kill (fst (paint e)) = e_kill e" "e_killDir (fst (paint e)) = e_killDir e" "e_killLo (fst (paint e)) = e_killLo e"
  "e_promptOut (fst (paint e)) = e_promptOut e" "e_state (fst (paint e)) = e_state e" "e_pending (fst (paint e)) = e_pending e"
  "e_menu (fst (paint e)) = e_menu e" "e_menuStart (fst (paint e)) = e_menuStart e" "e_query (fst (paint e)) = e_query e"
  "e_draft (fst (paint e)) = e_draft e" "e_draftCur (fst (paint e)) = e_draftCur e"
  "e_lastLen (fst (paint e)) = VisibleWidth (e_promptOut e) + VisibleWidth (lb_buf e)"
  by (simp_all add: paint_def Let_def)

text \<open>A new line and caret keep the editor well formed while the menu is down.\<close>

lemma ed_ok_line:
  "ed_ok e \<Longrightarrow> \<not> e_menuOn e \<Longrightarrow> c \<le> length b \<Longrightarrow> length b \<le> maxLineBytes \<Longrightarrow> ed_ok (e\<lparr>lb_buf := b, lb_cur := c\<rparr>)"
  by (simp add: ed_ok_def)

lemma ed_ok_buf: "ed_ok e \<Longrightarrow> \<not> e_menuOn e \<Longrightarrow> lb_cur e \<le> length b \<Longrightarrow> length b \<le> maxLineBytes \<Longrightarrow> ed_ok (e\<lparr>lb_buf := b\<rparr>)"
  by (simp add: ed_ok_def)

lemma ed_ok_cur: "ed_ok e \<Longrightarrow> \<not> e_menuOn e \<Longrightarrow> c \<le> length (lb_buf e) \<Longrightarrow> ed_ok (e\<lparr>lb_cur := c\<rparr>)"
  by (simp add: ed_ok_def)

lemma ed_okD:
  "ed_ok e \<Longrightarrow> lb_cur e \<le> length (lb_buf e) \<and> length (lb_buf e) \<le> maxLineBytes"
  "ed_ok e \<Longrightarrow> h \<in> set (e_hist e) \<Longrightarrow> length h \<le> maxLineBytes"
  by (simp_all add: ed_ok_def)

lemma back_while_le: "back_while P buf j \<le> j"
  by (induction j) auto

lemma fwd_while_bounds: "j \<le> length buf \<Longrightarrow> j \<le> fwd_while P buf j \<and> fwd_while P buf j \<le> length buf"
  using length_takeWhile_le [of P "drop j buf"] by (simp add: fwd_while_def)

lemma wordForward_bounds: "i \<le> length buf \<Longrightarrow> i \<le> wordForward buf i \<and> wordForward buf i \<le> length buf"
proof -
  assume i: "i \<le> length buf"
  define j k where "j = fwd_while non_sp buf i" and "k = fwd_while is_sp buf j"
  have "i \<le> j \<and> j \<le> length buf" using fwd_while_bounds [OF i] by (simp add: j_def)
  moreover have "j \<le> k \<and> k \<le> length buf" using calculation fwd_while_bounds [of j buf] by (simp add: k_def)
  moreover have "k \<le> fwd_while non_sp buf k \<and> fwd_while non_sp buf k \<le> length buf" using calculation fwd_while_bounds by simp
  ultimately show ?thesis by (auto simp: wordForward_def Let_def simp flip: j_def k_def)
qed

lemma wordBackward_le: "wordBackward buf i \<le> i"
  using back_while_le [of non_sp buf "back_while is_sp buf i"] back_while_le [of is_sp buf i] back_while_le [of non_sp buf i]
  by (auto simp: wordBackward_def)

lemma ed_ok_keyBackspace: "ed_ok e \<Longrightarrow> \<not> e_menuOn e \<Longrightarrow> ed_ok (fst (keyBackspace e))"
  using ed_okD(1) [of e] by (auto simp: keyBackspace_def Let_def intro!: ed_ok_line)

lemma ed_ok_simple_keys:
  assumes "ed_ok e" "\<not> e_menuOn e"
  shows "ed_ok (fst (keyDelete e))" "ed_ok (fst (keyLeft e))" "ed_ok (fst (keyRight e))"
    "ed_ok (fst (keyHome e))" "ed_ok (fst (keyEnd e))" "ed_ok (fst (keyWordForward e))" "ed_ok (fst (keyWordBackward e))"
    "ed_ok (fst (keyTranspose e))"
  using assms ed_okD(1) [OF assms(1)] wordForward_bounds [of "lb_cur e" "lb_buf e"] wordBackward_le [of "lb_buf e" "lb_cur e"]
  by (auto simp: keyDelete_def keyLeft_def keyRight_def keyHome_def keyEnd_def keyWordForward_def
      keyWordBackward_def keyTranspose_def Let_def intro!: ed_ok_line ed_ok_buf ed_ok_cur)

lemma ed_ok_ins: "ed_ok e \<Longrightarrow> \<not> e_menuOn e \<Longrightarrow> ed_ok (fst (ins t e))"
  using ed_okD(1) [of e] by (auto simp: ins_def Let_def insertAt_gap intro!: ed_ok_line)

lemma ed_ok_killRegion:
  "ed_ok e \<Longrightarrow> \<not> e_menuOn e \<Longrightarrow> ed_ok (fst (killRegion lo hi d e))"
  using ed_okD(1) [of e] by (auto simp: killRegion_def Let_def intro!: ed_ok_line)

lemma ed_ok_kill_keys:
  assumes "ed_ok e" "\<not> e_menuOn e"
  shows "ed_ok (fst (keyKillWordBack e))" "ed_ok (fst (keyKillWordForward e))" "ed_ok (fst (keyYank e))"
  using assms by (simp_all add: keyKillWordBack_def keyKillWordForward_def keyYank_def ed_ok_killRegion ed_ok_ins)

lemma recall_ok:
  assumes "ed_ok e" "\<not> e_menuOn e" "0 \<le> i" "i < int (length (e_hist e))"
  shows "\<exists>e'. recall i e = Some e' \<and> ed_ok e'"
  using assms by (auto simp: recall_def ed_ok_def)

lemma hist_keys_ok:
  assumes "ed_ok e" "\<not> e_menuOn e"
  shows "\<exists>r. histPrev e = Some r \<and> ed_ok (fst r)" "\<exists>r. histNext e = Some r \<and> ed_ok (fst r)"
proof -
  define v where "v = (if e_hview e = -1 then int (length (e_hist e)) - 1 else if e_hview e > 0 then e_hview e - 1 else e_hview e)"
  have "e_hist e \<noteq> [] \<Longrightarrow> 0 \<le> v \<and> v < int (length (e_hist e)) \<and> ed_ok (e\<lparr>e_hview := v\<rparr>)"
    using assms by (auto simp: v_def ed_ok_def)
  then show "\<exists>r. histPrev e = Some r \<and> ed_ok (fst r)"
    using assms recall_ok [of "breakKill (e\<lparr>e_hview := v\<rparr>)" v]
    by (cases "e_hist e = []") (auto simp: histPrev_def Let_def simp del: split_paired_Ex simp flip: v_def)
  have up: "-1 \<le> e_hview e \<and> ed_ok ((breakKill e)\<lparr>e_hview := -1, lb_buf := [], lb_cur := 0\<rparr>)"
    "e_hview e < int (length (e_hist e)) - 1 \<Longrightarrow> ed_ok ((breakKill e)\<lparr>e_hview := e_hview e + 1\<rparr>)"
    using assms by (auto simp: ed_ok_def)
  then show "\<exists>r. histNext e = Some r \<and> ed_ok (fst r)"
    using assms recall_ok [of "(breakKill e)\<lparr>e_hview := e_hview e + 1\<rparr>" "e_hview e + 1"]
    by (auto simp: histNext_def Let_def simp del: split_paired_Ex)
qed

text \<open>The completer proposes extensions of the word it was asked about; the one the shell installs does.\<close>

definition completer_ok :: "edenv \<Rightarrow> bool" where
  "completer_ok env \<longleftrightarrow> (\<forall>C w b c. en_Complete env = Some C \<longrightarrow> c \<in> set (C w b) \<longrightarrow> hasPrefix c w)"

lemma hasPrefix_append: "hasPrefix s p \<Longrightarrow> hasPrefix (s @ t) p"
  by (auto simp: hasPrefix_def)

lemma completeFn_extends:
  assumes "c \<in> set (completeFn names files w b)"
  shows "hasPrefix c w"
proof -
  let ?seen = "\<lambda>seen. foldl (\<lambda>seen n. if \<not> hasPrefix n w \<or> n \<in> set seen then seen else n # seen) seen files"
  have seen: "\<forall>n \<in> set (?seen seen). hasPrefix n w" if "\<forall>n \<in> set seen. hasPrefix n w" for seen
    using that
  proof (induction files arbitrary: seen)
    case (Cons f fs)
    show ?case unfolding foldl.simps by (rule Cons.IH) (use Cons.prems in simp)
  qed simp
  consider n where "hasPrefix n w" "c = n @ '' ''" | "c \<in> set (?seen [])"
    using assms unfolding completeFn_def by (cases b) auto
  then show ?thesis using seen [of "[]"] hasPrefix_append by cases auto
qed

lemma menuPaint_ok [simp]: "ed_ok (fst (menuPaint e)) = ed_ok e"
  using ed_ok_paint [of "e\<lparr>e_lastLen := 0\<rparr>"] by (auto simp: menuPaint_def Let_def split: prod.splits simp del: ed_ok_paint)

lemma menuCycle_ok: "ed_ok e \<Longrightarrow> e_menuOn e \<Longrightarrow> \<exists>r. menuCycle e = Some r \<and> ed_ok (fst r)"
  by (auto simp: menuCycle_def Let_def ed_ok_def simp del: split_paired_Ex ed_ok_paint)

lemma keyTab_ok:
  assumes "completer_ok env" "ed_ok e"
  shows "\<exists>r. keyTab env e = Some r \<and> ed_ok (fst r)"
proof (cases "en_Complete env")
  case (Some C)
  define start where "start = back_while non_sp (lb_buf e) (lb_cur e)"
  define word where "word = take (lb_cur e - start) (drop start (lb_buf e))"
  define cands where "cands = C word (start = 0)"
  have ext: "length word \<le> length (hd cands)" if "cands \<noteq> []"
    using assms(1) Some hd_in_set [OF that] unfolding cands_def completer_ok_def hasPrefix_def by blast
  show ?thesis
  proof (cases "e_menuOn e")
    case True
    then show ?thesis using Some assms menuCycle_ok by (simp add: keyTab_def del: split_paired_Ex)
  next
    case False
    let ?menu = "e\<lparr>e_menu := cands, e_menuStart := start, e_menuAt := -1, e_menuPage := 0, e_menuOn := True\<rparr>"
    have tab: "keyTab env e = (if cands = [] then Some (e, [])
        else if length cands = 1 then
          (if length word > length (hd cands) then None
           else Some (if drop (length word) (hd cands) \<noteq> [] then ins (drop (length word) (hd cands)) e else (e, [])))
        else if length (commonPrefix cands) > length word then Some (ins (drop (length word) (commonPrefix cands)) e)
        else Some (menuPaint ?menu))"
      by (simp only: keyTab_def Some False option.case if_False Let_def cands_def word_def start_def)
    have "ed_ok ?menu" if "cands \<noteq> []"
      using assms(2) that back_while_le [of non_sp "lb_buf e" "lb_cur e"] by (simp add: ed_ok_def start_def)
    then show ?thesis
      unfolding tab using ext assms ed_ok_ins [OF assms(2) False] by (cases "cands = []") (auto simp del: split_paired_Ex)
  qed
qed (simp add: keyTab_def assms)

lemma searchMatch_mem: "searchMatch q e = Some m \<Longrightarrow> m \<in> set (e_hist e)"
proof -
  assume "searchMatch q e = Some m"
  then obtain i where "i < length (rev (e_hist e))" "m = rev (e_hist e) ! i"
    by (auto simp only: searchMatch_def find_Some_iff split: if_splits)
  then show ?thesis by (metis nth_mem set_rev)
qed

lemma searchPaint_ok: "ed_ok e \<Longrightarrow> \<not> e_menuOn e \<Longrightarrow> ed_ok (fst (searchPaint e))"
  by (auto simp: searchPaint_def Let_def ed_okD(2) searchMatch_mem intro!: ed_ok_line split: option.splits)

lemma searchEnter_ok: "ed_ok e \<Longrightarrow> \<not> e_menuOn e \<Longrightarrow> ed_ok (fst (searchEnter e))"
  unfolding searchEnter_def by (rule searchPaint_ok) (simp_all add: ed_ok_def)

lemma searchExit_ok: "ed_ok e \<Longrightarrow> \<not> e_menuOn e \<Longrightarrow> e_searching e \<Longrightarrow> ed_ok (fst (searchExit a e))"
proof -
  assume *: "ed_ok e" "\<not> e_menuOn e" "e_searching e"
  define f where "f = (let e = (breakKill e)\<lparr>e_searching := False\<rparr>
     in if \<not> a then e\<lparr>lb_buf := e_draft e, lb_cur := e_draftCur e\<rparr> else e)"
  have "ed_ok (f\<lparr>e_lastLen := 0\<rparr>)" using * by (simp add: f_def ed_ok_def Let_def)
  moreover have "fst (searchExit a e) = fst (paint (f\<lparr>e_lastLen := 0\<rparr>))"
    by (simp add: searchExit_def f_def Let_def split: prod.splits)
  ultimately show ?thesis by (simp only: ed_ok_paint)
qed

text \<open>In search mode the menu is down; a byte that ends the search is the only one that leaves the mode.\<close>

lemma searchPaint_fields [simp]:
  "e_menuOn (fst (searchPaint e)) = e_menuOn e" "e_searching (fst (searchPaint e)) = e_searching e"
  "e_pending (fst (searchPaint e)) = e_pending e" "e_draft (fst (searchPaint e)) = e_draft e"
  "e_draftCur (fst (searchPaint e)) = e_draftCur e" "e_query (fst (searchPaint e)) = e_query e"
  "e_hist (fst (searchPaint e)) = e_hist e" "e_state (fst (searchPaint e)) = e_state e"
  by (simp_all add: searchPaint_def Let_def split: option.splits)

lemma searchExit_fields [simp]:
  "e_menuOn (fst (searchExit a e)) = e_menuOn e" "e_searching (fst (searchExit a e)) = False"
  "e_pending (fst (searchExit a e)) = e_pending e" "e_state (fst (searchExit a e)) = e_state e"
  "e_hist (fst (searchExit a e)) = e_hist e"
  by (simp_all add: searchExit_def Let_def case_prod_unfold)

lemma searchByte_cases:
  obtains (exit) a where "searchByte b e = (fst (searchExit a e), snd (searchExit a e), True)"
  | (same) w where "searchByte b e = (e, w, False)"
  | (query) q where "length q \<le> max (length (e_query e)) maxSearchQuery"
      "searchByte b e = (fst (searchPaint (e\<lparr>e_query := q\<rparr>)), snd (searchPaint (e\<lparr>e_query := q\<rparr>)), False)"
proof -
  define c1 c2 c3 c4 c5 where "c1 = (b = ESC \<or> b = CHR 0x03)" and "c2 = (b = CHR 0x0D \<or> b = CHR 0x0A)"
    and "c3 = (b = CHR 0x7F \<or> b = CHR 0x08)" and "c4 = (b = CHR 0x0C)" and "c5 = (ord_of b \<ge> 0x20 \<and> b \<noteq> CHR 0x7F)"
  note def = searchByte_def [of b e, folded c1_def c2_def c3_def c4_def c5_def, unfolded case_prod_unfold]
  consider c1 | "\<not> c1" c2 | "\<not> c1" "\<not> c2" c3 "e_query e \<noteq> []"
    | "\<not> c1" "\<not> c2" "\<not> c3" "\<not> c4" c5 "length (e_query e) < 64"
    | w where "searchByte b e = (e, w, False)"
    unfolding def by (cases c1; cases c2; cases c3; cases c4; cases c5; cases "e_query e = []"; cases "length (e_query e) < 64") auto
  then show ?thesis
  proof cases
    case 1 then show ?thesis using exit [of False] by (simp only: def if_True)
  next
    case 2 then show ?thesis using exit [of True] by (simp only: def if_True if_False)
  next
    case 3 then show ?thesis using query [of "butlast (e_query e)"] by (simp add: def)
  next
    case 4 then show ?thesis using query [of "e_query e @ [b]"] by (simp add: def)
  next
    case 5 then show ?thesis using same by blast
  qed
qed

lemma searchByte_ok:
  assumes "ed_ok e" "\<not> e_menuOn e" "e_searching e" and step: "searchByte b e = (e', w, fin)"
  shows "ed_ok e' \<and> \<not> e_menuOn e' \<and> e_searching e' = (\<not> fin) \<and> e_pending e' = e_pending e"
proof (cases b e rule: searchByte_cases)
  case (exit a)
  then show ?thesis using step searchExit_ok [OF assms(1-3)] assms(2) by simp
next
  case (query q)
  then have "ed_ok (e\<lparr>e_query := q\<rparr>)" using assms(1) by (auto simp: ed_ok_def)
  then show ?thesis using query step searchPaint_ok [of "e\<lparr>e_query := q\<rparr>"] assms by simp
qed (use assms in simp)

lemma search_loop_ok:
  "ed_ok e \<Longrightarrow> \<not> e_menuOn e \<Longrightarrow> e_searching e \<Longrightarrow> ed_ok (fst (search_loop bs e)) \<and> \<not> e_menuOn (fst (search_loop bs e))"
proof (induction bs arbitrary: e)
  case (Cons b bs)
  obtain e' w fin where s: "searchByte b e = (e', w, fin)" by (metis prod_cases3)
  show ?case using searchByte_ok [OF Cons.prems s] Cons.IH [of e'] s by (cases fin) (auto simp: case_prod_unfold)
qed simp

text \<open>The keys leave the mode, the menu flag and the held input alone.\<close>

definition same_mode :: "Editor \<Rightarrow> Editor \<Rightarrow> bool" where
  "same_mode e e' \<longleftrightarrow> e_menuOn e' = e_menuOn e \<and> e_searching e' = e_searching e \<and> e_pending e' = e_pending e \<and> e_state e' = e_state e"

lemma same_mode_paint [simp]: "same_mode e (fst (paint e')) = same_mode e e'"
  by (simp add: same_mode_def)

lemma same_mode_upd [simp]:
  "same_mode e e" "same_mode e (breakKill f) = same_mode e f" "same_mode e (f\<lparr>lb_buf := b\<rparr>) = same_mode e f"
  "same_mode e (f\<lparr>lb_cur := c\<rparr>) = same_mode e f" "same_mode e (f\<lparr>e_kill := k\<rparr>) = same_mode e f"
  "same_mode e (f\<lparr>e_killLo := lo\<rparr>) = same_mode e f" "same_mode e (f\<lparr>e_killHi := hi\<rparr>) = same_mode e f"
  "same_mode e (f\<lparr>e_killDir := d\<rparr>) = same_mode e f" "same_mode e (f\<lparr>e_hview := v\<rparr>) = same_mode e f"
  "same_mode e (f\<lparr>e_lastLen := n\<rparr>) = same_mode e f" "same_mode e (f\<lparr>e_hist := h\<rparr>) = same_mode e f"
  "same_mode e (f\<lparr>e_promptOut := p\<rparr>) = same_mode e f" "same_mode e (f\<lparr>e_menuAt := ma\<rparr>) = same_mode e f"
  "same_mode e (f\<lparr>e_menuPage := mp\<rparr>) = same_mode e f" "same_mode e (f\<lparr>e_menu := m\<rparr>) = same_mode e f"
  "same_mode e (f\<lparr>e_menuStart := ms\<rparr>) = same_mode e f"
  by (simp_all add: same_mode_def)

lemma same_mode_keys [simp]:
  "same_mode e (fst (keyBackspace e))" "same_mode e (fst (keyDelete e))" "same_mode e (fst (keyLeft e))"
  "same_mode e (fst (keyRight e))" "same_mode e (fst (keyHome e))" "same_mode e (fst (keyEnd e))"
  "same_mode e (fst (keyWordForward e))" "same_mode e (fst (keyWordBackward e))" "same_mode e (fst (keyTranspose e))"
  "same_mode e (fst (killRegion lo hi d e))" "same_mode e (fst (ins t e))"
  by (simp_all add: keyBackspace_def keyDelete_def keyLeft_def keyRight_def keyHome_def keyEnd_def keyWordForward_def
      keyWordBackward_def keyTranspose_def killRegion_def ins_def Let_def)

lemma same_mode_keys2 [simp]:
  "same_mode e (fst (keyKillWordBack e))" "same_mode e (fst (keyKillWordForward e))" "same_mode e (fst (keyYank e))"
  "same_mode e (fst (submit e))" "same_mode e (fst (abandon env e))"
  by (simp_all add: keyKillWordBack_def keyKillWordForward_def keyYank_def submit_def abandon_def RefreshPrompt_def Let_def
      case_prod_unfold)

lemma hist_mode:
  "recall i e = Some e' \<Longrightarrow> same_mode e e'" "histPrev e = Some r \<Longrightarrow> same_mode e (fst r)" "histNext e = Some r \<Longrightarrow> same_mode e (fst r)"
proof -
  show rec: "recall i e = Some e' \<Longrightarrow> same_mode e e'" for i e e' by (auto simp: recall_def split: if_splits)
  show "histPrev e = Some r \<Longrightarrow> same_mode e (fst r)" "histNext e = Some r \<Longrightarrow> same_mode e (fst r)"
    by (auto simp: histPrev_def histNext_def Let_def recall_def split: if_splits)
qed

lemma menuPaint_mode [simp]: "same_mode e (fst (menuPaint f)) = same_mode e f"
  by (simp add: menuPaint_def Let_def case_prod_unfold)

lemma keyTab_mode:
  assumes "keyTab env e = Some r"
  shows "e_searching (fst r) = e_searching e \<and> e_pending (fst r) = e_pending e \<and> e_state (fst r) = e_state e"
proof (cases "en_Complete env")
  case (Some C)
  have I: "same_mode e (fst (ins t e))" for t by simp
  have M: "same_mode e (fst x)" if "menuCycle e = Some x" for x
    using that by (auto simp: menuCycle_def Let_def split: if_splits)
  have P: "same_mode f (fst (menuPaint f))" for f by simp
  show ?thesis
    using assms Some I M P [of "e\<lparr>e_menuPage := Suc (e_menuPage e)\<rparr>"]
      P [of "e\<lparr>e_menu := cs, e_menuStart := st, e_menuAt := -1, e_menuPage := 0, e_menuOn := True\<rparr>" for cs st]
    by (auto simp: keyTab_def Let_def same_mode_def split: if_splits)
qed (use assms in \<open>auto simp: keyTab_def\<close>)

subsection \<open>One byte is safe\<close>

definition ed_inv :: "Editor \<Rightarrow> bool" where
  "ed_inv e \<longleftrightarrow> ed_ok e \<and> (e_menuOn e \<longrightarrow> e_state e = edGround \<and> \<not> e_searching e)"

text \<open>A step returns, keeps the invariant and reports a line within the bound.\<close>

definition good :: "(Editor \<times> string \<times> EditEvent) option \<Rightarrow> bool" where
  "good r \<longleftrightarrow> (case r of None \<Rightarrow> False | Some (e, w, ev) \<Rightarrow> ed_inv e \<and> length (ev_Line ev) \<le> maxLineBytes)"

lemma good_if: "(c \<Longrightarrow> good a) \<Longrightarrow> (\<not> c \<Longrightarrow> good b) \<Longrightarrow> good (if c then a else b)"
  by simp

lemma good_Some: "good (Some (e, w, ev)) \<longleftrightarrow> ed_inv e \<and> length (ev_Line ev) \<le> maxLineBytes"
  by (simp add: good_def)

lemma good_quiet: "good (quiet r) \<longleftrightarrow> ed_inv (fst r)"
  by (simp add: good_def quiet_def case_prod_unfold)

lemma good_quiet_opt: "good (quiet_opt r) \<longleftrightarrow> (\<exists>x. r = Some x \<and> ed_inv (fst x))"
  by (cases r) (simp_all add: quiet_opt_def good_quiet, simp add: good_def)

lemma good_to_ground: "good r \<Longrightarrow> good (to_ground r)"
  by (auto simp: good_def to_ground_def ed_inv_def split: option.splits)

lemma ed_inv_key: "ed_ok e' \<Longrightarrow> same_mode e e' \<Longrightarrow> \<not> e_menuOn e \<Longrightarrow> ed_inv e'"
  by (simp add: ed_inv_def same_mode_def)

lemma hist_Push_bounds:
  "length h \<le> historyMax \<Longrightarrow> length (hist_Push l h) \<le> historyMax" "set (hist_Push l h) \<subseteq> insert l (set h)"
  by (auto simp: hist_Push_def Let_def dest: in_set_dropD)

lemma submit_ok: "ed_ok e \<Longrightarrow> \<not> e_menuOn e \<Longrightarrow> good (Some (submit e))"
  using hist_Push_bounds(1) [of "e_hist e" "lb_buf e"] hist_Push_bounds(2) [of "lb_buf e" "e_hist e"]
  by (auto simp: submit_def Let_def good_Some ed_inv_def ed_ok_def)

lemma abandon_ok: "ed_ok e \<Longrightarrow> \<not> e_menuOn e \<Longrightarrow> good (Some (abandon env e))"
  by (simp add: abandon_def Let_def case_prod_unfold good_Some ed_inv_def RefreshPrompt_def) (simp add: ed_ok_def)

lemma type_ok:
  "ed_ok e \<Longrightarrow> \<not> e_menuOn e \<Longrightarrow> \<not> maxLineBytes \<le> length (lb_buf e) \<Longrightarrow>
   good (quiet (paint ((breakKill e)\<lparr>lb_buf := insert_byte (lb_buf e) (lb_cur e) b, lb_cur := lb_cur e + 1\<rparr>)))"
  using ed_okD(1) [of e] by (auto simp: good_quiet ed_inv_def insert_byte_gap intro!: ed_ok_line)

lemma good_keys:
  assumes "ed_ok e" "\<not> e_menuOn e"
  shows "good (quiet (keyBackspace e))" "good (quiet (keyDelete e))" "good (quiet (keyLeft e))" "good (quiet (keyRight e))"
    "good (quiet (keyHome e))" "good (quiet (keyEnd e))" "good (quiet (keyWordForward e))" "good (quiet (keyWordBackward e))"
    "good (quiet (keyTranspose e))" "good (quiet (killRegion lo hi d e))" "good (quiet (keyKillWordBack e))"
    "good (quiet (keyKillWordForward e))" "good (quiet (keyYank e))" "good (quiet (searchEnter e))"
    "good (quiet_opt (histPrev e))" "good (quiet_opt (histNext e))"
proof -
  have K: "good (quiet r)" if "ed_ok (fst r)" "same_mode e (fst r)" for r
    using ed_inv_key [OF that assms(2)] by (simp add: good_quiet)
  show "good (quiet (keyBackspace e))" "good (quiet (keyDelete e))" "good (quiet (keyLeft e))" "good (quiet (keyRight e))"
    "good (quiet (keyHome e))" "good (quiet (keyEnd e))" "good (quiet (keyWordForward e))" "good (quiet (keyWordBackward e))"
    "good (quiet (keyTranspose e))" "good (quiet (killRegion lo hi d e))" "good (quiet (keyKillWordBack e))"
    "good (quiet (keyKillWordForward e))" "good (quiet (keyYank e))"
    using ed_ok_keyBackspace [OF assms] ed_ok_simple_keys [OF assms] ed_ok_killRegion [OF assms] ed_ok_kill_keys [OF assms]
    by (simp_all add: K)
  show "good (quiet (searchEnter e))"
    using searchEnter_ok [OF assms] assms by (simp add: good_quiet ed_inv_def) (simp add: searchEnter_def)
  have H: "good (quiet_opt r)" if "\<exists>x. r = Some x \<and> ed_ok (fst x)" "\<And>x. r = Some x \<Longrightarrow> same_mode e (fst x)" for r
    using that ed_inv_key [OF _ _ assms(2)] unfolding good_quiet_opt by blast
  show "good (quiet_opt (histPrev e))" "good (quiet_opt (histNext e))"
    using H [OF hist_keys_ok(1) [OF assms] hist_mode(2)] H [OF hist_keys_ok(2) [OF assms] hist_mode(3)] by blast+
qed

lemma keyGround_ok:
  assumes "completer_ok env" "ed_ok e" "\<not> e_searching e" "e_state e = edGround" "b \<noteq> CHR 0x09 \<longrightarrow> \<not> e_menuOn e"
  shows "good (keyGround env b e)"
proof (cases "b = CHR 0x09")
  case True
  obtain r where r: "keyTab env e = Some r" "ed_ok (fst r)" using keyTab_ok assms by blast
  then have "ed_inv (fst r)" using keyTab_mode [OF r(1)] assms by (simp add: ed_inv_def)
  then show ?thesis using True r by (simp add: keyGround_def good_quiet_opt)
next
  case False
  then have menu: "\<not> e_menuOn e" using assms by simp
  have none: "good (Some (e\<lparr>e_state := st\<rparr>, w, no_event))" "good (Some (e, w, no_event))" for st w
    using assms menu by (simp_all add: good_Some ed_inv_def)
  have eof: "good (Some (e, [], if lb_buf e = [] then \<lparr>ev_Kind = EvEOF, ev_Line = []\<rparr> else no_event))"
    using assms menu by (simp add: good_Some ed_inv_def)
  have clear: "good (case paint e of (e, w) \<Rightarrow> Some (e, t @ w, no_event))" for t
    using assms menu by (simp add: case_prod_unfold good_Some ed_inv_def)
  show ?thesis
    unfolding keyGround_def Let_def breakKill_fields
    by (intro good_if none eof clear submit_ok abandon_ok type_ok good_keys assms menu) (use False in auto)
qed

lemma esc_byte_ok:
  assumes "completer_ok env" "ed_ok e" "\<not> e_searching e" "\<not> e_menuOn e"
  shows "good (esc_byte env b e)"
proof -
  have e: "ed_ok (e\<lparr>e_state := edGround\<rparr>)" "\<not> e_menuOn (e\<lparr>e_state := edGround\<rparr>)" using assms by simp_all
  have open_csi: "good (Some (e\<lparr>e_state := edCSI, e_csiParam := 0, e_csiGotP := False\<rparr>, [], no_event))"
    using assms by (simp add: good_Some ed_inv_def)
  have ground: "good (keyGround env b (e\<lparr>e_state := edGround\<rparr>))" using assms by (intro keyGround_ok) simp_all
  show ?thesis unfolding esc_byte_def Let_def by (intro good_if open_csi ground good_keys [OF e])
qed

lemma csi_byte_ok:
  assumes "ed_ok e" "\<not> e_menuOn e"
  shows "good (csi_byte b e)"
proof -
  have "good (Some (e\<lparr>e_csiParam := x, e_csiGotP := True\<rparr>, [], no_event))" "good (Some (e, [], no_event))" for x
    using assms by (simp_all add: good_Some ed_inv_def)
  then show ?thesis unfolding csi_byte_def by (intro good_if good_to_ground good_keys [OF assms])
qed

lemma dismissMenu_ok: "ed_ok e \<Longrightarrow> ed_ok (dismissMenu e)"
  by (simp add: dismissMenu_def ed_ok_def)

lemma dismissMenu_fields [simp]:
  "\<not> e_menuOn (dismissMenu e)" "e_searching (dismissMenu e) = e_searching e" "e_state (dismissMenu e) = e_state e"
  "e_pending (dismissMenu e) = e_pending e" "lb_buf (dismissMenu e) = lb_buf e" "lb_cur (dismissMenu e) = lb_cur e"
  by (simp_all add: dismissMenu_def)

lemma line_byte_ok:
  assumes "completer_ok env" "ed_inv e" "\<not> e_searching e"
  shows "good (line_byte env b e)"
proof -
  define f where "f = (if b \<noteq> CHR 0x09 then dismissMenu e else e)"
  have f: "ed_ok f" "\<not> e_searching f" "e_menuOn f \<longrightarrow> e_state f = edGround" "b \<noteq> CHR 0x09 \<longrightarrow> \<not> e_menuOn f"
    using assms by (auto simp: f_def ed_inv_def dismissMenu_ok)
  have "line_byte env b e = (case e_state f of edEsc \<Rightarrow> esc_byte env b f | edCSI \<Rightarrow> csi_byte b f | edGround \<Rightarrow> keyGround env b f)"
    by (simp only: line_byte_def f_def Let_def)
  then show ?thesis
    using f keyGround_ok [OF assms(1) f(1,2) _ f(4)] esc_byte_ok [OF assms(1) f(1,2)] csi_byte_ok [OF f(1)]
    by (cases "e_state f") auto
qed

lemma ed_inv_pending [simp]: "ed_inv (e\<lparr>e_pending := p\<rparr>) = ed_inv e"
  by (simp add: ed_inv_def)

lemma line_loop_ok: "completer_ok env \<Longrightarrow> ed_inv e \<Longrightarrow> \<not> e_searching e \<Longrightarrow> good (line_loop env bs e)"
proof (induction bs arbitrary: e)
  case (Cons b bs)
  obtain e' w ev where s: "line_byte env b e = Some (e', w, ev)" "ed_inv e'" "length (ev_Line ev) \<le> 2048"
    using line_byte_ok [OF Cons.prems, of b] by (auto simp: good_def split: option.splits)
  show ?case
  proof (cases "ev_Kind ev \<noteq> evNone \<or> e_searching e'")
    case False
    then have "good (line_loop env bs e')" using Cons s by blast
    then show ?thesis using False s by (auto simp: good_def split: option.splits)
  qed (use s in \<open>simp add: good_def\<close>)
qed (simp add: good_def)



subsection \<open>Reads do not matter\<close>

text \<open>The session of the front-end (\<^verbatim>\<open>runSession\<close> of \<^verbatim>\<open>sh/main.go\<close>): after the \<open>n\<close>-th submitted line the command it named
  leaves the session (\<open>None\<close>) or the prompt facts, the completer and the template as \<open>post n\<close> says.\<close>

record sess =
  ss_env :: edenv
  ss_n :: nat
  ss_ed :: Editor
  ss_open :: bool

definition handle :: "(nat \<Rightarrow> (edenv \<times> string) option) \<Rightarrow> EditEvent \<Rightarrow> sess \<Rightarrow> sess \<times> string" where
  "handle post ev s =
     (case ev_Kind ev of
        EvSubmit \<Rightarrow>
          (case post (ss_n s) of
             None \<Rightarrow> (s\<lparr>ss_n := ss_n s + 1, ss_open := False\<rparr>, [])
           | Some (env, p) \<Rightarrow>
               let e = SetPrompt env p (ss_ed s)
               in (s\<lparr>ss_env := env, ss_n := ss_n s + 1, ss_ed := e\<rparr>, e_promptOut e))
      | EvEOF \<Rightarrow> (s\<lparr>ss_open := False\<rparr>, [])
      | _ \<Rightarrow> (s, []))"

definition ev_list :: "EditEvent \<Rightarrow> EditEvent list" where
  "ev_list ev = (if ev_Kind ev = evNone then [] else [ev])"

text \<open>One turn of the loop: the read, then \<^verbatim>\<open>Feed(nil)\<close> while input is held. Each turn of the inner loop consumes a
  byte, so the length of the read bounds it; running out would be \<open>None\<close>.\<close>

fun drain :: "(nat \<Rightarrow> (edenv \<times> string) option) \<Rightarrow> nat \<Rightarrow> string \<Rightarrow> sess \<Rightarrow> (sess \<times> string \<times> EditEvent list) option" where
  "drain post 0 chunk s = None"
| "drain post (Suc k) chunk s =
     (case Feed (ss_env s) chunk (ss_ed s) of
        None \<Rightarrow> None
      | Some (e, w, ev) \<Rightarrow>
          (case handle post ev (s\<lparr>ss_ed := e\<rparr>) of
             (s, p) \<Rightarrow>
               if ss_open s \<and> Pending (ss_ed s) then
                 (case drain post k [] s of None \<Rightarrow> None | Some (s, w', evs) \<Rightarrow> Some (s, w @ p @ w', ev_list ev @ evs))
               else Some (s, w @ p, ev_list ev)))"

fun session :: "(nat \<Rightarrow> (edenv \<times> string) option) \<Rightarrow> string list \<Rightarrow> sess \<Rightarrow> (sess \<times> string \<times> EditEvent list) option" where
  "session post [] s = Some (s, [], [])"
| "session post (c # cs) s =
     (if \<not> ss_open s then Some (s, [], [])
      else case drain post (Suc (length c)) c s of
        None \<Rightarrow> None
      | Some (s, w, evs) \<Rightarrow> (case session post cs s of None \<Rightarrow> None | Some (s, w', evs') \<Rightarrow> Some (s, w @ w', evs @ evs')))"

text \<open>The same session typed one byte at a time.\<close>

definition byte_step :: "edenv \<Rightarrow> char \<Rightarrow> Editor \<Rightarrow> (Editor \<times> string \<times> EditEvent) option" where
  "byte_step env b e =
     (if e_searching e then (case searchByte b e of (e, w, _) \<Rightarrow> Some (e, w, no_event)) else line_byte env b e)"

fun typed :: "(nat \<Rightarrow> (edenv \<times> string) option) \<Rightarrow> string \<Rightarrow> sess \<Rightarrow> (sess \<times> string \<times> EditEvent list) option" where
  "typed post [] s = Some (s, [], [])"
| "typed post (b # bs) s =
     (if \<not> ss_open s then Some (s, [], [])
      else case byte_step (ss_env s) b (ss_ed s) of
        None \<Rightarrow> None
      | Some (e, w, ev) \<Rightarrow>
          (case handle post ev (s\<lparr>ss_ed := e\<rparr>) of
             (s, p) \<Rightarrow> (case typed post bs s of None \<Rightarrow> None | Some (s, w', evs) \<Rightarrow> Some (s, w @ p @ w', ev_list ev @ evs))))"

text \<open>Bytes behind the end of the session stay in the editor; two results agree when they differ in these only.\<close>

definition no_rest :: "sess \<Rightarrow> sess" where
  "no_rest s = s\<lparr>ss_ed := (ss_ed s)\<lparr>e_pending := []\<rparr>\<rparr>"

definition result :: "(sess \<times> string \<times> EditEvent list) option \<Rightarrow> (sess \<times> string \<times> EditEvent list) option" where
  "result r = map_option (\<lambda>(s, w, evs). (no_rest s, w, evs)) r"

definition keeps_pending :: "string \<Rightarrow> (Editor \<times> string \<times> EditEvent) option \<Rightarrow> bool" where
  "keeps_pending p r \<longleftrightarrow> (case r of None \<Rightarrow> True | Some (e, w, ev) \<Rightarrow> e_pending e = p)"

lemma keeps_if: "keeps_pending p a \<Longrightarrow> keeps_pending p b \<Longrightarrow> keeps_pending p (if c then a else b)"
  by simp

lemma keeps_Some: "keeps_pending p (Some r) \<longleftrightarrow> e_pending (fst r) = p"
  by (simp add: keeps_pending_def case_prod_unfold)

lemma keeps_quiet: "same_mode e (fst r) \<Longrightarrow> keeps_pending (e_pending e) (quiet r)"
  by (simp add: keeps_pending_def quiet_def same_mode_def case_prod_unfold)

lemma keeps_quiet_opt: "(\<And>x. r = Some x \<Longrightarrow> e_pending (fst x) = p) \<Longrightarrow> keeps_pending p (quiet_opt r)"
  by (cases r) (simp_all add: keeps_pending_def quiet_opt_def quiet_def case_prod_unfold)

lemma same_mode_pending: "same_mode e e' \<Longrightarrow> e_pending e' = e_pending e"
  by (simp add: same_mode_def)

lemma keyGround_pending: "keeps_pending (e_pending e) (keyGround env b e)"
proof -
  have "e_pending (fst (searchEnter e)) = e_pending e" by (simp add: searchEnter_def)
  then have "keeps_pending (e_pending e) (quiet (searchEnter e))" by (simp add: keeps_pending_def quiet_def case_prod_unfold)
  moreover have "keeps_pending (e_pending e) (quiet_opt (keyTab env e))" using keyTab_mode by (intro keeps_quiet_opt) blast
  moreover have "keeps_pending (e_pending e) (Some (submit e))" "keeps_pending (e_pending e) (Some (abandon env e))"
    using same_mode_keys2(4,5) same_mode_pending by (metis keeps_Some)+
  ultimately show ?thesis
    unfolding keyGround_def Let_def by (intro keeps_if) (simp_all add: keeps_Some keeps_quiet case_prod_unfold)
qed

lemma line_byte_pending: "keeps_pending (e_pending e) (line_byte env b e)"
proof -
  have esc: "keeps_pending (e_pending f) (esc_byte env b f)" for f
    using keeps_quiet [of "f\<lparr>e_state := edGround\<rparr>"] keyGround_pending [of "f\<lparr>e_state := edGround\<rparr>"]
    unfolding esc_byte_def Let_def by (intro keeps_if) (simp_all add: keeps_Some)
  have hist: "keeps_pending (e_pending f) (quiet_opt (histPrev f))" "keeps_pending (e_pending f) (quiet_opt (histNext f))" for f
    using hist_mode(2,3) same_mode_pending by (intro keeps_quiet_opt; blast)+
  have ground: "keeps_pending p r \<Longrightarrow> keeps_pending p (to_ground r)" for p r
    by (auto simp: keeps_pending_def to_ground_def split: option.splits)
  have csi: "keeps_pending (e_pending f) (csi_byte b f)" for f
    unfolding csi_byte_def by (intro keeps_if ground keeps_quiet hist) (simp_all add: keeps_Some)
  show ?thesis
    using esc [of e] esc [of "dismissMenu e"] csi [of e] csi [of "dismissMenu e"]
      keyGround_pending [of e] keyGround_pending [of "dismissMenu e"]
    unfolding line_byte_def Let_def by (cases "e_state e") (auto simp: dismissMenu_fields)
qed

text \<open>A read is its first byte, and the rest unless that byte produced an event or changed the mode.\<close>

lemma Feed_Cons:
  assumes "e_pending e = []"
  shows "Feed env (b # rest) e = (case byte_step env b e of None \<Rightarrow> None | Some (e', w, ev) \<Rightarrow>
    if ev_Kind ev \<noteq> evNone \<or> e_searching e' \<noteq> e_searching e then Some (e'\<lparr>e_pending := rest\<rparr>, w, ev)
    else case Feed env rest e' of None \<Rightarrow> None | Some (e'', w', ev') \<Rightarrow> Some (e'', w @ w', ev'))"
    and "byte_step env b e = Some (e', w, ev) \<Longrightarrow> e_pending e' = []"
proof -
  have clear: "f\<lparr>e_pending := []\<rparr> = f" if "e_pending f = []" for f :: Editor using that by simp
  have S: "e_pending (fst (searchByte b e)) = [] \<and> (e_searching e \<longrightarrow> e_searching (fst (searchByte b e)) = (\<not> snd (snd (searchByte b e))))"
    using assms by (cases b e rule: searchByte_cases) simp_all
  show p: "byte_step env b e = Some (e', w, ev) \<Longrightarrow> e_pending e' = []" for e' w ev
    using line_byte_pending [of e env b] S assms
    by (auto simp: byte_step_def keeps_pending_def case_prod_unfold split: if_splits)
  obtain e1 w1 fin where s1: "searchByte b e = (e1, w1, fin)" by (metis prod_cases3)
  show "Feed env (b # rest) e = (case byte_step env b e of None \<Rightarrow> None | Some (e', w, ev) \<Rightarrow>
    if ev_Kind ev \<noteq> evNone \<or> e_searching e' \<noteq> e_searching e then Some (e'\<lparr>e_pending := rest\<rparr>, w, ev)
    else case Feed env rest e' of None \<Rightarrow> None | Some (e'', w', ev') \<Rightarrow> Some (e'', w @ w', ev'))"
  proof (cases "e_searching e")
    case True
    then show ?thesis
      using S s1 assms by (cases fin) (auto simp: Feed_def byte_step_def quiet_def clear case_prod_unfold)
  next
    case False
    then show ?thesis
      using assms p by (auto simp: Feed_def byte_step_def clear split: option.splits)
  qed
qed

lemma handle_pending: "e_pending (ss_ed (fst (handle post ev s))) = e_pending (ss_ed s)"
  by (auto simp: handle_def SetPrompt_def RefreshPrompt_def Let_def split: evKind.splits option.splits)

lemma handle_rest:
  "handle post ev (s\<lparr>ss_ed := e\<lparr>e_pending := r\<rparr>\<rparr>) =
    (case handle post ev (s\<lparr>ss_ed := e\<rparr>) of (s', p) \<Rightarrow> (s'\<lparr>ss_ed := (ss_ed s')\<lparr>e_pending := r\<rparr>\<rparr>, p))"
  by (auto simp: handle_def SetPrompt_def RefreshPrompt_def Let_def split: evKind.splits option.splits)

lemma ss_ed_twice [simp]: "s\<lparr>ss_ed := a, ss_ed := b\<rparr> = s\<lparr>ss_ed := b\<rparr>" for s :: sess
  by simp

lemma drain_held:
  "drain post k [] (s\<lparr>ss_ed := (ss_ed s)\<lparr>e_pending := r\<rparr>\<rparr>) = drain post k r (s\<lparr>ss_ed := (ss_ed s)\<lparr>e_pending := []\<rparr>\<rparr>)"
  by (cases k) (simp_all add: Feed_def cong: option.case_cong)

definition prepend :: "string \<Rightarrow> EditEvent list \<Rightarrow> (sess \<times> string \<times> EditEvent list) option \<Rightarrow> (sess \<times> string \<times> EditEvent list) option" where
  "prepend w evs r = map_option (\<lambda>(s, w', evs'). (s, w @ w', evs @ evs')) r"

lemma result_prepend: "result (prepend w evs r) = prepend w evs (result r)"
  by (cases r) (auto simp: result_def prepend_def)

lemma result_Some: "result (Some (s, w, evs)) = Some (no_rest s, w, evs)"
  by (simp add: result_def)

lemma prepend_Some [simp]: "prepend w evs (Some (s, w', evs')) = Some (s, w @ w', evs @ evs')"
  by (simp add: prepend_def)

lemma prepend_None [simp]: "prepend w evs None = None"
  by (simp add: prepend_def)

lemma prepend_prepend [simp]: "prepend w evs (prepend w' evs' r) = prepend (w @ w') (evs @ evs') r"
  by (cases r) (auto simp: prepend_def)

lemma typed_Cons:
  "typed post (b # bs) s = (if \<not> ss_open s then Some (s, [], []) else case byte_step (ss_env s) b (ss_ed s) of None \<Rightarrow> None
     | Some (e, w, ev) \<Rightarrow> (case handle post ev (s\<lparr>ss_ed := e\<rparr>) of (s', p) \<Rightarrow> prepend (w @ p) (ev_list ev) (typed post bs s')))"
  by (auto simp: prepend_def split: option.splits prod.splits)

lemma drain_Suc:
  "drain post (Suc k) c s = (case Feed (ss_env s) c (ss_ed s) of None \<Rightarrow> None
     | Some (e, w, ev) \<Rightarrow> (case handle post ev (s\<lparr>ss_ed := e\<rparr>) of (s', p) \<Rightarrow>
         if ss_open s' \<and> Pending (ss_ed s') then prepend (w @ p) (ev_list ev) (drain post k [] s') else Some (s', w @ p, ev_list ev)))"
  by (auto simp: prepend_def split: option.splits prod.splits)

lemma typed_closed: "\<not> ss_open s \<Longrightarrow> typed post bs s = Some (s, [], [])"
  by (cases bs) simp_all

lemma no_rest_pending [simp]: "no_rest (s\<lparr>ss_ed := (ss_ed s)\<lparr>e_pending := r\<rparr>\<rparr>) = no_rest s"
  by (simp add: no_rest_def)

lemma drain_typed:
  "e_pending (ss_ed s) = [] \<Longrightarrow> ss_open s \<Longrightarrow> length bs \<le> k \<Longrightarrow> result (drain post (Suc k) bs s) = result (typed post bs s)"
proof (induction bs arbitrary: s k)
  case Nil
  have "(ss_ed s)\<lparr>e_pending := []\<rparr> = ss_ed s" "s\<lparr>ss_ed := ss_ed s\<rparr> = s" using Nil by simp_all
  then show ?case using Nil by (simp add: drain_Suc Feed_def Let_def quiet_def handle_def ev_list_def Pending_def result_Some no_rest_def del: drain.simps)
next
  case (Cons b bs)
  show ?case
  proof (cases "byte_step (ss_env s) b (ss_ed s)")
    case None
    then show ?thesis using Cons.prems by (simp add: drain_Suc typed_Cons Feed_Cons(1) del: drain.simps typed.simps)
  next
    case (Some r)
    obtain e w ev where r: "r = (e, w, ev)" by (metis prod_cases3)
    note step = Some [unfolded r]
    have pend: "e_pending e = []" using Feed_Cons(2) [OF Cons.prems(1) step] .
    obtain s' p where h: "handle post ev (s\<lparr>ss_ed := e\<rparr>) = (s', p)" by (metis surj_pair)
    have s': "e_pending (ss_ed s') = []" using handle_pending [of post ev "s\<lparr>ss_ed := e\<rparr>"] h pend by simp
    have typed: "typed post (b # bs) s = prepend (w @ p) (ev_list ev) (typed post bs s')"
      using Cons.prems step h by (simp add: typed_Cons del: typed.simps)
    show ?thesis
    proof (cases "ev_Kind ev \<noteq> evNone \<or> e_searching e \<noteq> e_searching (ss_ed s)")
      case True
      then have F: "Feed (ss_env s) (b # bs) (ss_ed s) = Some (e\<lparr>e_pending := bs\<rparr>, w, ev)"
        using Feed_Cons(1) [OF Cons.prems(1)] step by simp
      let ?t = "s'\<lparr>ss_ed := (ss_ed s')\<lparr>e_pending := bs\<rparr>\<rparr>"
      have clear: "s'\<lparr>ss_ed := (ss_ed s')\<lparr>e_pending := []\<rparr>\<rparr> = s'" using s' by simp
      have D: "drain post (Suc k) (b # bs) s = (if ss_open s' \<and> bs \<noteq> [] then prepend (w @ p) (ev_list ev) (drain post k bs s')
          else Some (?t, w @ p, ev_list ev))"
        using handle_rest [where post = post and ev = ev and s = s and e = e and r = bs] h
        by (simp add: drain_Suc F Pending_def drain_held clear del: drain.simps)
      show ?thesis
      proof (cases "ss_open s' \<and> bs \<noteq> []")
        case True
        obtain k' where k: "k = Suc k'" "length bs \<le> k'" using Cons.prems(3) by (cases k) auto
        then show ?thesis
          using D True typed Cons.IH [OF s' _ k(2)] by (simp add: result_prepend del: drain.simps typed.simps)
      next
        case False
        then have "typed post bs s' = Some (s', [], [])" using typed_closed by (cases "bs = []") auto
        then show ?thesis using D typed False by (simp add: result_Some del: drain.simps typed.simps)
      qed
    next
      case False
      then have none: "ev_Kind ev = evNone" by simp
      then have s'_def: "s' = s\<lparr>ss_ed := e\<rparr>" "p = []" using h by (simp_all add: handle_def)
      have "drain post (Suc k) (b # bs) s = prepend w [] (drain post (Suc k) bs s')"
        using Feed_Cons(1) [OF Cons.prems(1), of "ss_env s" b bs] step False none
        by (auto simp: drain_Suc s'_def split: option.splits prod.splits simp del: drain.simps)
      moreover have "result (drain post (Suc k) bs s') = result (typed post bs s')"
        using Cons.prems s' by (intro Cons.IH) (simp_all add: s'_def)
      ultimately show ?thesis using typed none s'_def(2) by (simp add: result_prepend ev_list_def del: drain.simps typed.simps)
    qed
  qed
qed

lemma typed_append:
  "typed post (as @ bs) s = (case typed post as s of None \<Rightarrow> None | Some (s', w, evs) \<Rightarrow> prepend w evs (typed post bs s'))"
proof (induction as arbitrary: s)
  case Nil
  then show ?case by (cases "typed post bs s") (auto simp: prepend_def)
next
  case (Cons a as)
  show ?case
  proof (cases "ss_open s")
    case True
    then show ?thesis
      by (auto simp: typed_Cons Cons.IH split: option.splits prod.splits simp del: typed.simps)
  next
    case False
    then show ?thesis by (cases bs) (simp_all add: typed_Cons typed_closed del: typed.simps)
  qed
qed

lemma drain_done: "drain post k c s = Some (s', w, evs) \<Longrightarrow> ss_open s' \<Longrightarrow> e_pending (ss_ed s') = []"
proof (induction k arbitrary: c s w evs)
  case (Suc k)
  then show ?case
    by (auto simp: drain_Suc prepend_def Pending_def split: option.splits prod.splits if_splits simp del: drain.simps)
qed simp

lemma session_closed: "\<not> ss_open s \<Longrightarrow> session post cs s = Some (s, [], [])"
  by (cases cs) simp_all

lemma no_rest_id: "e_pending (ss_ed s) = [] \<Longrightarrow> no_rest s = s"
  by (simp add: no_rest_def)

lemma no_rest_open [simp]: "ss_open (no_rest s) = ss_open s"
  by (simp add: no_rest_def)

lemma typed_no_rest: "e_pending (ss_ed s) = [] \<Longrightarrow> typed post bs s = Some (s', w, evs) \<Longrightarrow> e_pending (ss_ed s') = []"
proof (induction bs arbitrary: s w evs)
  case (Cons b bs)
  show ?case
  proof (cases "ss_open s")
    case True
    then obtain e x ev where st: "byte_step (ss_env s) b (ss_ed s) = Some (e, x, ev)"
      using Cons.prems by (auto split: option.splits)
    obtain t p where h: "handle post ev (s\<lparr>ss_ed := e\<rparr>) = (t, p)" by (metis surj_pair)
    have "e_pending (ss_ed t) = []"
      using handle_pending [of post ev "s\<lparr>ss_ed := e\<rparr>"] h Feed_Cons(2) [OF Cons.prems(1) st] by simp
    moreover obtain w' evs' where "typed post bs t = Some (s', w', evs')"
      using Cons.prems(2) True st h by (auto split: option.splits)
    ultimately show ?thesis using Cons.IH by blast
  qed (use Cons.prems in auto)
qed auto



end
