(* ===== verification/LineScreen.thy ===== *)
theory LineScreen
  imports LineProps "HOL-Library.Multiset"
begin

text \<open>
  What the line editor shows and remembers: a repaint leaves the row of the terminal showing the prompt and the
  line, kill and yank are inverse, the search finds the newest line and a cancel restores the draft, completion
  inserts the longest common prefix, and the menu lists every candidate once within the width of the grid.
\<close>

subsection \<open>The row of the terminal\<close>

text \<open>
  One row of the tty grid and its column: a carriage return goes to the first cell, a printable byte takes the
  cell and moves on, other control bytes do nothing. The line is taken to fit the row.
\<close>

type_synonym row = "(nat \<Rightarrow> char) \<times> nat"

fun tty_put :: "row \<Rightarrow> char \<Rightarrow> row" where
  "tty_put (cells, col) c =
     (if c = CHR 0x0D then (cells, 0) else if ord_of c < 0x20 then (cells, col) else (cells(col := c), col + 1))"

definition tty_write :: "string \<Rightarrow> row \<Rightarrow> row" where
  "tty_write w r = foldl tty_put r w"

definition shows_text :: "string \<Rightarrow> nat \<Rightarrow> row \<Rightarrow> bool" where
  "shows_text t col r \<longleftrightarrow> (\<forall>i. fst r i = (if i < length t then t ! i else CHR '' '')) \<and> snd r = col"

lemma tty_write_append: "tty_write (a @ b) r = tty_write b (tty_write a r)"
  by (simp add: tty_write_def)

lemma plain_put: "plain_char c \<Longrightarrow> tty_put (cells, col) c = (cells(col := c), col + 1)"
  by (auto simp: plain_char_def)

lemma tty_write_plain:
  "plain s \<Longrightarrow> tty_write s (cells, col) = (\<lambda>i. if col \<le> i \<and> i < col + length s then s ! (i - col) else cells i, col + length s)"
proof (induction s arbitrary: cells col)
  case (Cons c s)
  have "tty_write (c # s) (cells, col) = tty_write s (cells(col := c), col + 1)"
    using Cons.prems by (simp add: tty_write_def plain_put del: tty_put.simps)
  also have "\<dots> = (\<lambda>i. if col \<le> i \<and> i < col + length (c # s) then (c # s) ! (i - col) else cells i, col + length (c # s))"
    using Cons.prems by (auto simp: Cons.IH fun_eq_iff nth_Cons')
  finally show ?case .
qed (auto simp: tty_write_def fun_eq_iff)

lemma tty_write_cr: "tty_write (CHR 0x0D # s) (cells, col) = tty_write s (cells, 0)"
  by (simp add: tty_write_def)

lemma tty_write_twice:
  "plain t \<Longrightarrow> plain h \<Longrightarrow> tty_write (CHR 0x0D # (t @ (CHR 0x0D # h))) (cells, col) =
     (\<lambda>i. if i < length h then h ! i else if i < length t then t ! i else cells i, length h)"
  by (simp add: tty_write_cr tty_write_append tty_write_plain fun_eq_iff)

lemma plain_blanks [simp]: "plain (replicate n (CHR '' ''))"
  by (induction n) (simp_all add: plain_char_def)

lemma plain_cut [simp]: "plain s \<Longrightarrow> plain (take n s)" "plain s \<Longrightarrow> plain (drop n s)"
  by (auto simp: list_all_iff dest: in_set_takeD in_set_dropD)

text \<open>A repaint over a row that is blank behind the last painted length shows the prompt and the line, with the
  cursor at the caret.\<close>

lemma paint_shows:
  assumes "plain (e_promptOut e)" "plain (lb_buf e)" "lb_cur e \<le> length (lb_buf e)"
    and "\<forall>i \<ge> e_lastLen e. fst r i = CHR '' ''"
  shows "shows_text (e_promptOut e @ lb_buf e) (length (e_promptOut e) + lb_cur e) (tty_write (snd (paint e)) r)"
    and "e_lastLen (fst (paint e)) = length (e_promptOut e @ lb_buf e)"
proof -
  let ?p = "e_promptOut e" and ?b = "lb_buf e"
  have w: "VisibleWidth ?p + VisibleWidth ?b = length (?p @ ?b)" using assms by (simp add: VisibleWidth_plain)
  then show "e_lastLen (fst (paint e)) = length (?p @ ?b)" by simp
  define n where "n = e_lastLen e - length (?p @ ?b)"
  have out: "snd (paint e) = CHR 0x0D # ((?p @ ?b @ replicate n (CHR '' '')) @ (CHR 0x0D # (?p @ take (lb_cur e) ?b)))"
    by (simp add: paint_def Let_def w n_def del: length_append)
  obtain cells col where r: "r = (cells, col)" by (cases r)
  let ?t = "?p @ ?b @ replicate n (CHR '' '')" and ?h = "?p @ take (lb_cur e) ?b"
  have pl: "plain ?t" "plain ?h" using assms by simp_all
  have hd: "length ?h \<le> length (?p @ ?b)" "\<And>i. i < length ?h \<Longrightarrow> ?h ! i = (?p @ ?b) ! i"
    using assms(3) by (auto simp: nth_append)
  have tail: "?t ! i = (if i < length (?p @ ?b) then (?p @ ?b) ! i else CHR '' '')" if "i < length ?t" for i
    using that by (auto simp: nth_append)
  have rest: "cells i = CHR '' ''" if "\<not> i < length ?t" for i
    using that assms(4) by (auto simp: r n_def)
  have "tty_write (snd (paint e)) r = (\<lambda>i. if i < length ?h then ?h ! i else if i < length ?t then ?t ! i else cells i, length ?h)"
    unfolding out r by (rule tty_write_twice [OF pl])
  then show "shows_text (?p @ ?b) (length ?p + lb_cur e) (tty_write (snd (paint e)) r)"
    using hd tail rest assms(3) by (auto simp: shows_text_def min_def)
qed

text \<open>The state of an editor on its row.\<close>

definition ed_plain :: "Editor \<Rightarrow> bool" where
  "ed_plain e \<longleftrightarrow> plain (e_promptOut e) \<and> plain (lb_buf e) \<and> plain (e_kill e) \<and> (\<forall>h \<in> set (e_hist e). plain h)"

definition on_row :: "Editor \<Rightarrow> row \<Rightarrow> bool" where
  "on_row e r \<longleftrightarrow> shows_text (e_promptOut e @ lb_buf e) (length (e_promptOut e) + lb_cur e) r
     \<and> e_lastLen e = length (e_promptOut e @ lb_buf e)"

text \<open>A key that edits the line changes nothing, rings, or repaints over what the last repaint left.\<close>

definition repaints :: "Editor \<Rightarrow> Editor \<times> string \<Rightarrow> bool" where
  "repaints e r \<longleftrightarrow> (fst r = e \<and> snd r \<in> {[], [CHR 0x07]}) \<or>
     (\<exists>f. r = paint f \<and> e_lastLen f = e_lastLen e \<and> ed_plain f \<and> lb_cur f \<le> length (lb_buf f))"

lemma repaints_row:
  assumes "repaints e r" "on_row e row" "ed_plain e"
  shows "on_row (fst r) (tty_write (snd r) row) \<and> ed_plain (fst r)"
proof -
  have bell: "tty_write [CHR 0x07] row = row" by (cases row) (simp add: tty_write_def)
  have blank: "\<forall>i \<ge> e_lastLen e. fst row i = CHR '' ''" using assms(2) by (simp add: on_row_def shows_text_def)
  consider "fst r = e" "snd r \<in> {[], [CHR 0x07]}"
    | f where "r = paint f" "e_lastLen f = e_lastLen e" "ed_plain f" "lb_cur f \<le> length (lb_buf f)"
    using assms(1) unfolding repaints_def by blast
  then show ?thesis
  proof cases
    case 1
    then show ?thesis using assms bell by (auto simp: tty_write_def)
  next
    case 2
    then show ?thesis
      using paint_shows [of f row] blank by (auto simp: on_row_def ed_plain_def)
  qed
qed

lemma plain_update: "plain s \<Longrightarrow> plain_char c \<Longrightarrow> plain (s[i := c])"
  by (cases "i < length s") (auto simp: list_all_length nth_list_update)

lemma ed_plain_upd:
  "ed_plain (e\<lparr>lb_cur := c\<rparr>) = ed_plain e" "ed_plain (breakKill e) = ed_plain e" "ed_plain (e\<lparr>e_hview := v\<rparr>) = ed_plain e"
  "ed_plain (e\<lparr>e_killLo := lo\<rparr>) = ed_plain e" "ed_plain (e\<lparr>e_killHi := hi\<rparr>) = ed_plain e" "ed_plain (e\<lparr>e_killDir := d\<rparr>) = ed_plain e"
  "ed_plain (e\<lparr>e_state := st\<rparr>) = ed_plain e" "ed_plain (dismissMenu e) = ed_plain e"
  by (simp_all add: ed_plain_def dismissMenu_def)

lemma repaints_keep: "repaints e (e, [])" "repaints e (e, [CHR 0x07])"
  by (simp_all add: repaints_def)

lemma repaints_paint:
  "e_lastLen f = e_lastLen e \<Longrightarrow> ed_plain f \<Longrightarrow> lb_cur f \<le> length (lb_buf f) \<Longrightarrow> repaints e (paint f)"
  by (auto simp: repaints_def)

lemma repaints_keys:
  assumes e: "ed_plain e" "lb_cur e \<le> length (lb_buf e)"
  shows "repaints e (keyBackspace e)" "repaints e (keyDelete e)" "repaints e (keyLeft e)" "repaints e (keyRight e)"
    "repaints e (keyHome e)" "repaints e (keyEnd e)" "repaints e (keyWordForward e)" "repaints e (keyWordBackward e)"
    "repaints e (keyTranspose e)" "repaints e (killRegion lo hi d e)" "plain t \<Longrightarrow> repaints e (ins t e)"
proof -
  have p: "plain (lb_buf e)" "plain (e_kill e)" using e by (simp_all add: ed_plain_def)
  have buf: "ed_plain (e\<lparr>lb_buf := b\<rparr>)" "ed_plain ((breakKill e)\<lparr>lb_buf := b\<rparr>)" if "plain b" for b
    using e that by (simp_all add: ed_plain_def)
  show "repaints e (keyBackspace e)" "repaints e (keyDelete e)" "repaints e (keyLeft e)" "repaints e (keyRight e)"
    "repaints e (keyHome e)" "repaints e (keyEnd e)"
    using e p
    by (auto simp: keyBackspace_def keyDelete_def keyLeft_def keyRight_def keyHome_def keyEnd_def Let_def repaints_keep
        ed_plain_upd buf intro!: repaints_paint)
  show "repaints e (keyWordForward e)" "repaints e (keyWordBackward e)"
    using e wordForward_bounds [OF e(2)] wordBackward_le [of "lb_buf e" "lb_cur e"]
    by (auto simp: keyWordForward_def keyWordBackward_def Let_def repaints_keep ed_plain_upd intro!: repaints_paint)
  show "repaints e (keyTranspose e)"
  proof (cases "length (lb_buf e) < 2 \<or> lb_cur e = 0")
    case False
    define i where "i = (if lb_cur e = length (lb_buf e) then lb_cur e - 1 else lb_cur e)"
    have "i < length (lb_buf e)" using False e(2) by (auto simp: i_def)
    then have "plain ((lb_buf e)[i - 1 := lb_buf e ! i, i := lb_buf e ! (i - 1)])"
      using p(1) by (intro plain_update) (auto simp: list_all_length)
    then show ?thesis using False e(2) buf
      by (auto simp: keyTranspose_def Let_def ed_plain_upd simp flip: i_def intro!: repaints_paint)
  qed (auto simp: keyTranspose_def repaints_keep)
  show "repaints e (killRegion lo hi d e)"
    using e p by (auto simp: killRegion_def Let_def ed_plain_def intro!: repaints_paint)
  show "plain t \<Longrightarrow> repaints e (ins t e)"
    using e p by (auto simp: ins_def Let_def insertAt_gap repaints_keep ed_plain_upd buf intro!: repaints_paint)
qed

text \<open>The bytes that edit: not the ones that submit, abandon, end, complete, search or clear, and no backslash.\<close>

definition edits :: "char \<Rightarrow> bool" where
  "edits b \<longleftrightarrow> b \<notin> {CHR 0x0D, CHR 0x0A, CHR 0x09, CHR 0x0C, CHR 0x12, CHR 0x03, CHR 0x04, BSL}"

definition row_ok :: "row \<Rightarrow> (Editor \<times> string \<times> EditEvent) option \<Rightarrow> bool" where
  "row_ok row r \<longleftrightarrow> (case r of None \<Rightarrow> False
     | Some (e, w, ev) \<Rightarrow> ev = no_event \<and> on_row e (tty_write w row) \<and> ed_plain e \<and> \<not> e_searching e)"

lemma row_ok_if: "(c \<Longrightarrow> row_ok row a) \<Longrightarrow> (\<not> c \<Longrightarrow> row_ok row b) \<Longrightarrow> row_ok row (if c then a else b)"
  by simp

lemma row_ok_quiet:
  assumes "on_row e row" "ed_plain e" "\<not> e_searching e" "repaints e r" "same_mode e (fst r)"
  shows "row_ok row (quiet r)"
  using repaints_row [OF assms(4,1,2)] assms(3,5) by (simp add: row_ok_def quiet_def case_prod_unfold same_mode_def)

lemma row_ok_keys:
  assumes e: "on_row e row" "ed_plain e" "\<not> e_searching e" "lb_cur e \<le> length (lb_buf e)"
  shows "row_ok row (quiet (keyBackspace e))" "row_ok row (quiet (keyDelete e))" "row_ok row (quiet (keyLeft e))"
    "row_ok row (quiet (keyRight e))" "row_ok row (quiet (keyHome e))" "row_ok row (quiet (keyEnd e))"
    "row_ok row (quiet (keyWordForward e))" "row_ok row (quiet (keyWordBackward e))" "row_ok row (quiet (keyTranspose e))"
    "row_ok row (quiet (killRegion lo hi d e))" "row_ok row (quiet (keyKillWordBack e))"
    "row_ok row (quiet (keyKillWordForward e))" "row_ok row (quiet (keyYank e))"
proof -
  note R = repaints_keys [OF e(2,4)] and Q = row_ok_quiet [OF e(1-3)]
  have k: "plain (e_kill e)" using e(2) by (simp add: ed_plain_def)
  have y: "repaints e (keyYank e)" using R(11) [OF k] by (simp add: keyYank_def repaints_keep)
  show "row_ok row (quiet (keyBackspace e))" "row_ok row (quiet (keyDelete e))" "row_ok row (quiet (keyLeft e))"
    "row_ok row (quiet (keyRight e))" "row_ok row (quiet (keyHome e))" "row_ok row (quiet (keyEnd e))"
    "row_ok row (quiet (keyWordForward e))" "row_ok row (quiet (keyWordBackward e))" "row_ok row (quiet (keyTranspose e))"
    "row_ok row (quiet (killRegion lo hi d e))" "row_ok row (quiet (keyYank e))"
    by (intro Q R y same_mode_keys same_mode_keys2)+
  show "row_ok row (quiet (keyKillWordBack e))" "row_ok row (quiet (keyKillWordForward e))"
    unfolding keyKillWordBack_def keyKillWordForward_def by (intro Q R same_mode_keys)+
qed

lemma row_ok_hist:
  assumes e: "on_row e row" "ed_plain e" "\<not> e_searching e" "ed_ok e" "\<not> e_menuOn e"
  shows "row_ok row (quiet_opt (histPrev e))" "row_ok row (quiet_opt (histNext e))"
proof -
  have rec: "repaints e (paint g)" if "recall i f = Some g" "e_lastLen f = e_lastLen e" "ed_plain f" for i f g
    using that by (auto simp: recall_def ed_plain_def split: if_splits intro!: repaints_paint)
  have P: "repaints e r" if "histPrev e = Some r" for r
    using that e(2) by (auto simp: histPrev_def Let_def repaints_keep ed_plain_upd split: if_splits intro: rec)
  have N: "repaints e r" if "histNext e = Some r" for r
    using that e(2)
    by (auto simp: histNext_def Let_def repaints_keep ed_plain_upd split: if_splits intro: rec)
      (auto simp: ed_plain_def intro!: repaints_paint)
  show "row_ok row (quiet_opt (histPrev e))" "row_ok row (quiet_opt (histNext e))"
    using hist_keys_ok [OF e(4,5)] P N row_ok_quiet [OF e(1-3)] hist_mode(2,3) by (auto simp: quiet_opt_def)
qed

lemma on_row_upd [simp]:
  "on_row (e\<lparr>e_state := st\<rparr>) r = on_row e r" "on_row (dismissMenu e) r = on_row e r"
  "on_row (e\<lparr>e_csiParam := p\<rparr>) r = on_row e r" "on_row (e\<lparr>e_csiGotP := g\<rparr>) r = on_row e r"
  "ed_plain (e\<lparr>e_csiParam := p\<rparr>) = ed_plain e" "ed_plain (e\<lparr>e_csiGotP := g\<rparr>) = ed_plain e"
  by (simp_all add: on_row_def ed_plain_def dismissMenu_def)

lemma row_ok_Some: "row_ok row (Some (e, w, no_event)) \<longleftrightarrow> on_row e (tty_write w row) \<and> ed_plain e \<and> \<not> e_searching e"
  by (simp add: row_ok_def)

lemma tty_write_nil [simp]: "tty_write [] r = r" and tty_write_bell [simp]: "tty_write [CHR 0x07] r = r"
  by (cases r; simp add: tty_write_def)+

lemma row_ok_ground:
  assumes e: "on_row e row" "ed_plain e" "\<not> e_searching e" "lb_cur e \<le> length (lb_buf e)" and b: "edits b"
  shows "row_ok row (keyGround env b e)"
proof -
  have keep: "row_ok row (Some (e\<lparr>e_state := st\<rparr>, [], no_event))" "row_ok row (Some (e, [], no_event))"
    "row_ok row (Some (e, [CHR 0x07], no_event))" for st
    using e by (simp_all add: row_ok_Some ed_plain_upd)
  have insert: "row_ok row (quiet (paint ((breakKill e)\<lparr>lb_buf := insert_byte (lb_buf e) (lb_cur e) b, lb_cur := lb_cur e + 1\<rparr>)))"
    if "\<not> (ord_of b < 0x20 \<or> ord_of b \<ge> 0x7F)"
  proof (rule row_ok_quiet [OF e(1-3)])
    have "plain_char b" using that b by (auto simp: plain_char_def edits_def)
    then show "repaints e (paint ((breakKill e)\<lparr>lb_buf := insert_byte (lb_buf e) (lb_cur e) b, lb_cur := lb_cur e + 1\<rparr>))"
      using e by (intro repaints_paint) (auto simp: insert_byte_gap ed_plain_def)
  qed simp
  show ?thesis
    unfolding keyGround_def Let_def breakKill_fields
    by (intro row_ok_if keep insert row_ok_keys [OF e]) (use b in \<open>auto simp: edits_def\<close>)
qed

lemma row_ok_byte:
  assumes inv: "ed_inv e" and e: "on_row e row" "ed_plain e" "\<not> e_searching e" and b: "edits b"
  shows "row_ok row (line_byte env b e)"
proof -
  define f where "f = dismissMenu e"
  have f: "on_row f row" "ed_plain f" "\<not> e_searching f" "ed_ok f" "\<not> e_menuOn f" "lb_cur f \<le> length (lb_buf f)"
    using e inv dismissMenu_ok [of e] ed_okD(1) [of e] by (simp_all add: f_def ed_plain_upd ed_inv_def)
  let ?g = "f\<lparr>e_state := edGround\<rparr>"
  have g: "on_row ?g row" "ed_plain ?g" "\<not> e_searching ?g" "lb_cur ?g \<le> length (lb_buf ?g)"
    using f by (simp_all add: ed_plain_upd)
  have esc: "row_ok row (esc_byte env b f)"
  proof -
    have "row_ok row (Some (f\<lparr>e_state := edCSI, e_csiParam := 0, e_csiGotP := False\<rparr>, [], no_event))"
      using f by (simp add: row_ok_Some ed_plain_upd)
    then show ?thesis unfolding esc_byte_def Let_def by (intro row_ok_if row_ok_ground [OF g b] row_ok_keys [OF g])
  qed
  have ground: "row_ok row r \<Longrightarrow> row_ok row (to_ground r)" for r
    by (auto simp: row_ok_def to_ground_def ed_plain_upd split: option.splits)
  have "row_ok row (Some (f\<lparr>e_csiParam := x, e_csiGotP := True\<rparr>, [], no_event))" "row_ok row (Some (f, [], no_event))" for x
    using f by (simp_all add: row_ok_Some)
  then have csi: "row_ok row (csi_byte b f)"
    unfolding csi_byte_def by (intro row_ok_if ground row_ok_keys [OF f(1-3,6)] row_ok_hist [OF f(1-5)])
  have "b \<noteq> CHR 0x09" using b by (simp add: edits_def)
  then show ?thesis
    using esc csi row_ok_ground [OF f(1-3,6) b] unfolding line_byte_def Let_def f_def [symmetric]
    by (cases "e_state f") simp_all
qed

lemma row_ok_loop:
  "completer_ok env \<Longrightarrow> ed_inv e \<Longrightarrow> on_row e row \<Longrightarrow> ed_plain e \<Longrightarrow> \<not> e_searching e \<Longrightarrow> list_all edits bs \<Longrightarrow> row_ok row (line_loop env bs e)"
proof (induction bs arbitrary: e row)
  case (Cons b bs)
  obtain e' w where s: "line_byte env b e = Some (e', w, no_event)" "on_row e' (tty_write w row)" "ed_plain e'" "\<not> e_searching e'"
    using row_ok_byte [OF Cons.prems(2-5), of b env] Cons.prems(6) by (auto simp: row_ok_def split: option.splits)
  have "ed_inv e'" using line_byte_ok [OF Cons.prems(1,2,5), of b] s by (simp add: good_def)
  then have "row_ok (tty_write w row) (line_loop env bs e')" using Cons s by simp
  then show ?case using s by (auto simp: row_ok_def tty_write_append split: option.splits)
qed (simp add: row_ok_Some)



subsection \<open>Kill and yank\<close>

definition killWords :: "nat \<Rightarrow> Editor \<Rightarrow> Editor" where
  "killWords n e = ((\<lambda>e. fst (keyKillWordBack e)) ^^ n) e"

lemma back_word_less: "0 < c \<Longrightarrow> back_while non_sp buf (back_while is_sp buf c) < c"
proof (cases c)
  case (Suc j)
  have "back_while non_sp buf (back_while is_sp buf j) \<le> j"
    using back_while_le [of non_sp buf "back_while is_sp buf j"] back_while_le [of is_sp buf j] by simp
  moreover have "back_while non_sp buf j \<le> j" by (rule back_while_le)
  ultimately show ?thesis using Suc by (auto simp: is_sp_def non_sp_def)
qed simp

text \<open>After backward kills the ring holds the gap between the caret and the place the chain began at.\<close>

definition kill_chain :: "string \<Rightarrow> nat \<Rightarrow> Editor \<Rightarrow> bool" where
  "kill_chain buf hi e \<longleftrightarrow> lb_cur e < hi \<and> lb_buf e = take (lb_cur e) buf @ drop hi buf \<and> e_killDir e = killBackward
     \<and> e_killLo e = lb_cur e \<and> e_kill e = take (hi - lb_cur e) (drop (lb_cur e) buf)"

lemma take_gap: "j \<le> lo \<Longrightarrow> lo \<le> hi \<Longrightarrow> take (lo - j) (drop j buf) @ take (hi - lo) (drop lo buf) = take (hi - j) (drop j buf)"
proof -
  assume "j \<le> lo" "lo \<le> hi"
  then have "hi - j = (lo - j) + (hi - lo)" "drop lo buf = drop (lo - j) (drop j buf)" by simp_all
  then show ?thesis by (simp only: take_add)
qed

lemma kill_chain_start:
  assumes "0 < lb_cur e" "lb_cur e \<le> length (lb_buf e)" "e_killDir e \<noteq> killBackward"
  shows "kill_chain (lb_buf e) (lb_cur e) (fst (keyKillWordBack e))"
  using back_word_less [OF assms(1), of "lb_buf e"] assms
  by (simp add: keyKillWordBack_def killRegion_def Let_def kill_chain_def)

lemma kill_chain_step:
  assumes ch: "kill_chain buf hi e" and hi: "hi \<le> length buf"
  shows "kill_chain buf hi (fst (keyKillWordBack e))"
proof -
  define lo where "lo = lb_cur e"
  define j where "j = back_while non_sp (lb_buf e) (back_while is_sp (lb_buf e) lo)"
  have lo: "lo < hi" "lb_buf e = take lo buf @ drop hi buf" "lo \<le> length buf" using ch hi by (auto simp: kill_chain_def lo_def)
  have j: "j \<le> lo" using back_while_le [of non_sp "lb_buf e"] back_while_le [of is_sp "lb_buf e" lo] by (auto simp: j_def intro: order_trans)
  have K: "keyKillWordBack e = killRegion j lo killBackward e" by (simp add: keyKillWordBack_def j_def lo_def)
  show ?thesis
  proof (cases "j < lo")
    case True
    have "take (lo - j) (drop j (lb_buf e)) = take (lo - j) (drop j buf)" "take j (lb_buf e) = take j buf"
      "drop lo (lb_buf e) = drop hi buf" using lo j True by (simp_all add: drop_take min_def)
    moreover have "\<not> lo > length (lb_buf e)" using lo by simp
    ultimately show ?thesis
      using ch True lo take_gap [OF j less_imp_le [OF lo(1)], of buf] unfolding K
      by (simp add: killRegion_def Let_def kill_chain_def flip: lo_def)
  next
    case False
    then have "killRegion j lo killBackward e = paint e" using lo by (simp add: killRegion_def Let_def)
    then show ?thesis using ch unfolding K by (simp add: kill_chain_def)
  qed
qed

lemma kill_chain_words:
  assumes "0 < lb_cur e" "lb_cur e \<le> length (lb_buf e)" "e_killDir e \<noteq> killBackward"
  shows "kill_chain (lb_buf e) (lb_cur e) (killWords (Suc n) e)"
proof (induction n)
  case (Suc n)
  then show ?case using kill_chain_step [OF Suc assms(2)] by (simp add: killWords_def)
qed (use kill_chain_start [OF assms] in \<open>simp add: killWords_def\<close>)

text \<open>
  C18. Ctrl-W any number of times and then Ctrl-Y gives the line and the caret back: the kills of a chain are one entry
  of the ring, in the order the text had.
\<close>

theorem kill_yank:
  assumes "0 < lb_cur e" "lb_cur e \<le> length (lb_buf e)" "length (lb_buf e) \<le> maxLineBytes" "e_killDir e \<noteq> killBackward"
  shows "lb_buf (fst (keyYank (killWords (Suc n) e))) = lb_buf e \<and> lb_cur (fst (keyYank (killWords (Suc n) e))) = lb_cur e"
proof -
  define f where "f = killWords (Suc n) e"
  define lo where "lo = lb_cur f"
  have f: "lo < lb_cur e" "lb_buf f = take lo (lb_buf e) @ drop (lb_cur e) (lb_buf e)"
    "e_kill f = take (lb_cur e - lo) (drop lo (lb_buf e))"
    using kill_chain_words [OF assms(1,2,4), of n] by (simp_all add: kill_chain_def f_def lo_def)
  have len: "length (e_kill f) = lb_cur e - lo" "length (lb_buf f) = length (lb_buf e) - (lb_cur e - lo)"
    using f assms by simp_all
  have "lb_buf (fst (ins (e_kill f) f)) = take lo (lb_buf e) @ take (lb_cur e - lo) (drop lo (lb_buf e)) @ drop (lb_cur e) (lb_buf e)"
    "lb_cur (fst (ins (e_kill f) f)) = lb_cur e"
    using f len assms by (simp_all add: ins_def Let_def insertAt_gap flip: lo_def)
  moreover have "take lo (lb_buf e) @ take (lb_cur e - lo) (drop lo (lb_buf e)) = take (lb_cur e) (lb_buf e)"
    using take_gap [of 0 lo "lb_cur e" "lb_buf e"] f by simp
  moreover have "e_kill f \<noteq> []" using len(1) f(1) by auto
  ultimately show ?thesis unfolding f_def [symmetric] keyYank_def by (simp flip: append_assoc)
qed

theorem kill_yank_witness:
  "let e = (NewEditor ''$ '' [])\<lparr>lb_buf := ''cp a b'', lb_cur := 5\<rparr>
   in lb_buf (fst (keyYank (killWords 2 e))) = ''cp a b'' \<and> lb_cur (fst (keyYank (killWords 2 e))) = 5"
  using kill_yank [of "(NewEditor ''$ '' [])\<lparr>lb_buf := ''cp a b'', lb_cur := 5\<rparr>" 1]
  by (simp add: NewEditor_def NewLineBuffer_def LineBuffer.extend_def numeral_2_eq_2)

subsection \<open>Reverse search\<close>

lemma contains_sublist: "contains s q \<longleftrightarrow> sublist q s"
proof
  assume "contains s q"
  then obtain i where "prefix q (drop i s)" by (auto simp: contains_def hasPrefix_prefix)
  then show "sublist q s" by (metis prefixE sublist_def append_take_drop_id)
next
  assume "sublist q s"
  then obtain a b where s: "s = a @ q @ b" by (auto simp: sublist_def)
  then have "length a \<in> set [0..<length s + 1]" "hasPrefix (drop (length a) s) q" by (simp_all add: hasPrefix_def)
  then show "contains s q" unfolding contains_def by blast
qed

text \<open>The line a search loads is the newest one with the query in it.\<close>

lemma search_newest:
  assumes "q \<noteq> []"
  shows "searchMatch q e = Some m \<longleftrightarrow>
    (\<exists>older newer. e_hist e = older @ m # newer \<and> sublist q m \<and> (\<forall>h \<in> set newer. \<not> sublist q h))"
proof -
  have F: "find P xs = Some m \<longleftrightarrow> (\<exists>as bs. xs = as @ m # bs \<and> P m \<and> (\<forall>a \<in> set as. \<not> P a))" for P :: "string \<Rightarrow> bool" and xs
  proof (induction xs)
    case (Cons x xs)
    show ?case
    proof (cases "P x")
      case False
      have "(\<exists>as bs. x # xs = as @ m # bs \<and> P m \<and> (\<forall>a \<in> set as. \<not> P a)) \<longleftrightarrow> (\<exists>as bs. xs = as @ m # bs \<and> P m \<and> (\<forall>a \<in> set as. \<not> P a))"
        (is "?L \<longleftrightarrow> ?R")
      proof
        assume ?R
        then obtain as bs where "xs = as @ m # bs" "P m" "\<forall>a \<in> set as. \<not> P a" by blast
        then show ?L using False by (intro exI [of _ "x # as"] exI [of _ bs]) simp
      qed (use False in \<open>auto simp: Cons_eq_append_conv\<close>)
      then show ?thesis using False Cons.IH by simp
    qed (auto simp: Cons_eq_append_conv)
  qed simp
  let ?Q = "\<lambda>older newer. e_hist e = older @ m # newer \<and> sublist q m \<and> (\<forall>h \<in> set newer. \<not> sublist q h)"
  have R: "(rev (e_hist e) = as @ m # bs \<and> sublist q m \<and> (\<forall>a \<in> set as. \<not> sublist q a)) \<longleftrightarrow> ?Q (rev bs) (rev as)" for as bs
    by (simp add: rev_swap)
  have "searchMatch q e = Some m \<longleftrightarrow> (\<exists>as bs. ?Q (rev bs) (rev as))"
    unfolding R [symmetric] using assms by (simp only: searchMatch_def F contains_sublist if_False)
  also have "\<dots> \<longleftrightarrow> (\<exists>older newer. ?Q older newer)" by (metis rev_rev_ident)
  finally show ?thesis .
qed

lemma searchByte_draft:
  assumes "b \<notin> {ESC, CHR 0x03, CHR 0x0D, CHR 0x0A}"
  shows "\<exists>e' w. searchByte b e = (e', w, False) \<and> e_draft e' = e_draft e \<and> e_draftCur e' = e_draftCur e"
proof (cases b e rule: searchByte_cases)
  case (exit a)
  have "\<not> snd (snd (searchByte b e))"
    using assms unfolding searchByte_def case_prod_unfold by (auto split: if_splits)
  then show ?thesis using exit by simp
qed auto

lemma search_cancel_loop:
  assumes "set q \<inter> {ESC, CHR 0x03, CHR 0x0D, CHR 0x0A} = {}"
  shows "lb_buf (fst (search_loop (q @ [ESC]) e)) = e_draft e \<and> lb_cur (fst (search_loop (q @ [ESC]) e)) = e_draftCur e"
  using assms
proof (induction q arbitrary: e)
  case Nil
  show ?case by (simp add: searchByte_def searchExit_def Let_def case_prod_unfold)
next
  case (Cons b q)
  obtain e' w where "searchByte b e = (e', w, False)" "e_draft e' = e_draft e" "e_draftCur e' = e_draftCur e"
    using searchByte_draft [of b e] Cons.prems by auto
  then show ?case using Cons by (simp add: case_prod_unfold)
qed

text \<open>Whatever is typed into the query, Escape restores the line and the caret the search began with.\<close>

theorem search_cancel_restores:
  assumes "set q \<inter> {ESC, CHR 0x03, CHR 0x0D, CHR 0x0A} = {}"
  shows "lb_buf (fst (search_loop (q @ [ESC]) (fst (searchEnter e)))) = lb_buf e
    \<and> lb_cur (fst (search_loop (q @ [ESC]) (fst (searchEnter e)))) = lb_cur e"
  using search_cancel_loop [OF assms, of "fst (searchEnter e)"] by (simp add: searchEnter_def)

theorem search_cancel_restores_witness:
  "let e = (NewEditor ''$ '' [''make''])\<lparr>lb_buf := ''ls'', lb_cur := 1\<rparr>
   in lb_buf (fst (search_loop (''ma'' @ [ESC]) (fst (searchEnter e)))) = ''ls''
    \<and> lb_cur (fst (search_loop (''ma'' @ [ESC]) (fst (searchEnter e)))) = 1"
  using search_cancel_restores [of "''ma''" "(NewEditor ''$ '' [''make''])\<lparr>lb_buf := ''ls'', lb_cur := 1\<rparr>"] by simp

subsection \<open>Completion\<close>

lemma shrink_prefix_greatest: "prefix p (shrink_prefix c d) \<longleftrightarrow> prefix p c \<and> prefix p d"
proof (induction c d rule: shrink_prefix.induct)
  case (1 c d)
  show ?case
  proof (cases "hasPrefix c d")
    case True
    then show ?thesis by (auto simp: hasPrefix_prefix intro: prefix_order.trans)
  next
    case False
    have "prefix p c \<Longrightarrow> prefix p d \<Longrightarrow> prefix p (butlast d)"
      using False by (cases d rule: rev_cases) (auto simp: hasPrefix_prefix)
    moreover have "prefix p (butlast d) \<Longrightarrow> prefix p d"
      by (metis append_butlast_last_id butlast.simps(1) prefix_prefix)
    ultimately show ?thesis using False 1 by (auto simp: shrink_prefix.simps [of c d] simp del: shrink_prefix.simps)
  qed
qed

text \<open>What is inserted is the longest common prefix of the candidates.\<close>

lemma commonPrefix_greatest: "cands \<noteq> [] \<Longrightarrow> prefix p (commonPrefix cands) \<longleftrightarrow> (\<forall>c \<in> set cands. prefix p c)"
proof -
  have "prefix p (foldl (\<lambda>p c. shrink_prefix c p) d cs) \<longleftrightarrow> prefix p d \<and> (\<forall>c \<in> set cs. prefix p c)" for d cs
    by (induction cs arbitrary: d) (auto simp: shrink_prefix_greatest simp del: shrink_prefix.simps)
  then show "cands \<noteq> [] \<Longrightarrow> ?thesis" by (cases cands) (simp_all add: commonPrefix_def)
qed

subsection \<open>The menu\<close>

declare stride.simps [simp del]

lemma stride_nth: "k < length (stride i n d) \<Longrightarrow> stride i n d ! k = i + k * d \<and> i + k * d < n"
proof (induction i n d arbitrary: k rule: stride.induct)
  case (1 i n d)
  have in_range: "i < n \<and> 0 < d" using 1(2) by (auto simp: stride.simps [of i n d] split: if_splits)
  show ?case
  proof (cases k)
    case (Suc m)
    then have "m < length (stride (i + d) n d)" using 1(2) in_range by (simp add: stride.simps [of i n d])
    then show ?thesis using 1(1) [OF in_range] Suc in_range by (auto simp: stride.simps [of i n d] add.assoc)
  qed (use in_range in \<open>simp add: stride.simps [of i n d]\<close>)
qed

lemma stride_mem: "0 < d \<Longrightarrow> j \<in> set (stride i n d) \<longleftrightarrow> i \<le> j \<and> j < n \<and> d dvd (j - i)"
proof (induction i n d rule: stride.induct)
  case (1 i n d)
  show ?case
  proof (cases "i < n")
    case True
    have "d dvd (j - i) \<longleftrightarrow> d dvd (j - (i + d))" if "i + d \<le> j"
    proof -
      have "j - i = (j - (i + d)) + d" using that by simp
      then show ?thesis by (metis dvd_add_triv_right_iff)
    qed
    moreover have "i + d \<le> j" if "d dvd (j - i)" "i \<le> j" "j \<noteq> i" using that dvd_imp_le [of d "j - i"] by simp
    moreover have "j \<in> set (stride i n d) \<longleftrightarrow> j = i \<or> (i + d \<le> j \<and> j < n \<and> d dvd (j - (i + d)))"
      using True 1 by (simp add: stride.simps [of i n d])
    ultimately show ?thesis using True 1(2) by auto
  qed (auto simp: stride.simps [of i n d])
qed

lemma stride_less: "j \<in> set (stride i n d) \<Longrightarrow> j < n"
  by (auto simp: in_set_conv_nth stride_nth)

lemma stride_distinct: "0 < d \<Longrightarrow> distinct (stride i n d)"
  by (auto simp: distinct_conv_nth stride_nth)

lemma ceil_div_bounds: "0 < d \<Longrightarrow> n \<le> ceil_div n d * d" "0 < d \<Longrightarrow> 0 < n \<Longrightarrow> 0 < ceil_div n d"
proof -
  assume d: "0 < d"
  have "n + (d - 1) = (n + d - 1) div d * d + (n + d - 1) mod d" using d by simp
  moreover have "(n + d - 1) mod d \<le> d - 1" using d by (simp add: less_Suc_eq_le [symmetric])
  ultimately show "n \<le> ceil_div n d * d" unfolding ceil_div_def by linarith
  show "0 < n \<Longrightarrow> 0 < ceil_div n d" using d by (simp add: ceil_div_def div_greater_zero_iff)
qed

lemma menuEntryWidth_ge: "c \<in> set cands \<Longrightarrow> length (stripSpace c) + 2 \<le> menuEntryWidth cands"
proof -
  have "(\<forall>x \<in> set xs. length x + 2 \<le> foldl (\<lambda>w c. let l = length c + 2 in if l > w then l else w) w xs)
      \<and> w \<le> foldl (\<lambda>w c. let l = length c + 2 in if l > w then l else w) w xs" for w and xs :: "string list"
  proof (induction xs arbitrary: w)
    case (Cons x xs)
    show ?case using Cons.IH [of "let l = length x + 2 in if l > w then l else w"] by (auto simp: Let_def split: if_splits)
  qed simp
  from this [of "map stripSpace cands" 2] show "c \<in> set cands \<Longrightarrow> ?thesis" unfolding menuEntryWidth_def by auto
qed

lemma menuColumnCount_bounds:
  assumes "cands \<noteq> []"
  shows "0 < menuColumnCount cands w" "int (menuEntryWidth cands) \<le> w \<Longrightarrow> int (menuColumnCount cands w * menuEntryWidth cands) \<le> w"
proof -
  show "0 < menuColumnCount cands w" using assms by (simp add: menuColumnCount_def Let_def)
  assume le: "int (menuEntryWidth cands) \<le> w"
  have pos: "0 < menuEntryWidth cands" using assms menuEntryWidth_ge [of "hd cands" cands] by simp
  have "int (menuColumnCount cands w) \<le> w div int (menuEntryWidth cands)"
    using le pos zdiv_mono1 [OF le, of "int (menuEntryWidth cands)"] by (auto simp: menuColumnCount_def Let_def)
  then have "int (menuColumnCount cands w) * int (menuEntryWidth cands) \<le> w div int (menuEntryWidth cands) * int (menuEntryWidth cands)"
    by (intro mult_right_mono) simp_all
  also have "\<dots> \<le> w"
    using div_mult_mod_eq [of w "int (menuEntryWidth cands)"] pos_mod_sign [of "int (menuEntryWidth cands)" w] pos by linarith
  finally show "int (menuColumnCount cands w * menuEntryWidth cands) \<le> w" by simp
qed

lemma menu_row_length:
  "xs \<noteq> [] \<Longrightarrow> (\<forall>x \<in> set xs. length x + 2 \<le> w) \<Longrightarrow> length (menu_row w xs) + 2 \<le> length xs * w"
  by (induction w xs rule: menu_row.induct) auto

text \<open>The rows of all pages, in order.\<close>

definition menu_all :: "string list \<Rightarrow> int \<Rightarrow> string list" where
  "menu_all cands w = concat (map (menuRows cands w) [0..<page_count (menuRowCount cands w)])"

definition menu_cells :: "string list \<Rightarrow> int \<Rightarrow> nat list list" where
  "menu_cells cands w = map (\<lambda>r. stride r (length cands) (menuRowCount cands w)) [0..<menuRowCount cands w]"

lemma page_ranges:
  "concat (map (\<lambda>p. [p * 8..<(if p * 8 + 8 > rows then rows else p * 8 + 8)]) [0..<n]) = [0..<min rows (n * 8)]"
proof (induction n)
  case (Suc n)
  show ?case
  proof (cases "n * 8 \<le> rows")
    case True
    then have "[0..<min rows (Suc n * 8)] = [0..<n * 8] @ [n * 8..<min rows (Suc n * 8)]"
      using upt_add_eq_append [of 0 "n * 8" "min rows (Suc n * 8) - n * 8"] by simp
    then show ?thesis using Suc True by (auto simp: min_def add.commute)
  qed (use Suc in \<open>auto simp: min_def\<close>)
qed simp

lemma menu_all_rows:
  assumes "cands \<noteq> []" "1 \<le> w"
  shows "menu_all cands w = map (menu_row (menuEntryWidth cands)) (map (map (\<lambda>i. stripSpace (cands ! i))) (menu_cells cands w))"
proof -
  define rows where "rows = menuRowCount cands w"
  define n where "n = page_count rows"
  let ?row = "\<lambda>r. menu_row (menuEntryWidth cands) (map ((!) (map stripSpace cands)) (stride r (length cands) rows))"
  have R: "menuRows cands w p = map ?row [p * 8..<(if p * 8 + 8 > rows then rows else p * 8 + 8)]" if "p < n" for p
    using assms that unfolding menuRows_def Let_def n_def rows_def menuRowCount_def by simp
  have "menu_all cands w = concat (map (\<lambda>p. map ?row [p * 8..<(if p * 8 + 8 > rows then rows else p * 8 + 8)]) [0..<n])"
    unfolding menu_all_def rows_def [symmetric] n_def [symmetric] using R by (intro arg_cong [where f = concat] map_cong) auto
  also have "\<dots> = map ?row (concat (map (\<lambda>p. [p * 8..<(if p * 8 + 8 > rows then rows else p * 8 + 8)]) [0..<n]))"
    by (simp add: map_concat o_def)
  also have "concat (map (\<lambda>p. [p * 8..<(if p * 8 + 8 > rows then rows else p * 8 + 8)]) [0..<n]) = [0..<rows]"
    using ceil_div_bounds(1) [of 8 rows] by (simp only: page_ranges) (simp add: n_def page_count_def Let_def min_def)
  finally show ?thesis
    by (auto simp: menu_cells_def rows_def dest!: stride_less intro!: arg_cong [where f = "menu_row _"])
qed

lemma menu_cells_once: "cands \<noteq> [] \<Longrightarrow> distinct (concat (menu_cells cands w)) \<and> set (concat (menu_cells cands w)) = {0..<length cands}"
proof -
  assume c: "cands \<noteq> []"
  define rows where "rows = menuRowCount cands w"
  have pos: "0 < rows" using c ceil_div_bounds(2) menuColumnCount_bounds(1) [OF c] by (simp add: rows_def menuRowCount_def)
  have mem: "j \<in> set (stride r (length cands) rows) \<longleftrightarrow> j < length cands \<and> j mod rows = r" if "r < rows" for j r
  proof -
    have "r \<le> j \<and> rows dvd (j - r) \<longleftrightarrow> j mod rows = r"
      using that by (metis mod_eq_dvd_iff_nat mod_less mod_less_eq_dividend)
    then show ?thesis using stride_mem [OF pos, of j r "length cands"] by blast
  qed
  have "distinct (concat (map (\<lambda>r. stride r (length cands) rows) rs))" if "set rs \<subseteq> {0..<rows}" "distinct rs" for rs
    using that by (induction rs) (auto simp: stride_distinct pos mem)
  moreover have "set (concat (map (\<lambda>r. stride r (length cands) rows) [0..<rows])) = {0..<length cands}"
    using pos by (auto simp: mem)
  ultimately show ?thesis by (simp add: menu_cells_def flip: rows_def)
qed

lemma menu_cells_width:
  assumes "cands \<noteq> []" "is' \<in> set (menu_cells cands w)"
  shows "length is' \<le> menuColumnCount cands w"
proof (rule ccontr)
  let ?n = "length cands" and ?rows = "menuRowCount cands w" and ?c = "menuColumnCount cands w"
  assume "\<not> length is' \<le> ?c"
  moreover obtain r where r: "is' = stride r ?n ?rows" using assms by (auto simp: menu_cells_def)
  ultimately have "r + ?c * ?rows < ?n" using stride_nth [of ?c r ?n ?rows] by simp
  moreover have "?n \<le> ?rows * ?c"
    using ceil_div_bounds(1) [of ?c ?n] menuColumnCount_bounds(1) [OF assms(1)] assms(1) by (simp add: menuRowCount_def)
  ultimately show False by (simp add: mult.commute)
qed

lemma menu_rows_text:
  "cands \<noteq> [] \<Longrightarrow> 1 \<le> w \<Longrightarrow>
   menu_all cands w = map (\<lambda>is'. menu_row (menuEntryWidth cands) (map (\<lambda>i. stripSpace (cands ! i)) is')) (menu_cells cands w)"
  by (simp add: menu_all_rows o_def)

lemma menu_rows_width:
  assumes "cands \<noteq> []" "1 \<le> w" and w: "int (menuEntryWidth cands) \<le> w" and row: "row \<in> set (menu_all cands w)"
  shows "int (length row) \<le> w"
proof -
  obtain is' where i: "is' \<in> set (menu_cells cands w)" "row = menu_row (menuEntryWidth cands) (map (\<lambda>i. stripSpace (cands ! i)) is')"
    using row unfolding menu_rows_text [OF assms(1,2)] by auto
  have cells: "\<forall>j \<in> set is'. cands ! j \<in> set cands" using i(1) by (auto simp: menu_cells_def dest: stride_less)
  have "length row \<le> length is' * menuEntryWidth cands"
  proof (cases "is' = []")
    case False
    then show ?thesis
      using menu_row_length [of "map (\<lambda>i. stripSpace (cands ! i)) is'" "menuEntryWidth cands"] cells menuEntryWidth_ge i(2) by auto
  qed (simp add: i(2))
  also have "\<dots> \<le> menuColumnCount cands w * menuEntryWidth cands"
    using menu_cells_width [OF assms(1) i(1)] by (rule mult_le_mono1)
  finally show ?thesis using menuColumnCount_bounds(2) [OF assms(1) w] by linarith
qed

text \<open>
  Paging through the menu shows every candidate exactly once: the cells of the rows of all pages are the indices
  of the candidates, each once, and a row is its candidates without their trailing space. No row is wider than
  the grid when the widest candidate fits it.
\<close>

theorem menu_complete:
  assumes "cands \<noteq> []" "1 \<le> w"
  shows "menu_all cands w = map (\<lambda>is'. menu_row (menuEntryWidth cands) (map (\<lambda>i. stripSpace (cands ! i)) is')) (menu_cells cands w)
    \<and> mset (concat (menu_cells cands w)) = mset [0..<length cands]
    \<and> (int (menuEntryWidth cands) \<le> w \<longrightarrow> (\<forall>row \<in> set (menu_all cands w). int (length row) \<le> w))"
  using menu_rows_text [OF assms] menu_rows_width [OF assms] menu_cells_once [OF assms(1), of w]
    set_eq_iff_mset_eq_distinct [of "concat (menu_cells cands w)" "[0..<length cands]"]
  by (intro conjI impI ballI) simp_all

theorem menu_complete_witness:
  "menu_all [''cat '', ''cd '', ''chmod ''] 16 = [''cat    chmod'', ''cd'']
   \<and> mset (concat (menu_cells [''cat '', ''cd '', ''chmod ''] 16)) = mset [0, 1, 2]"
proof -
  have "menu_cells [''cat '', ''cd '', ''chmod ''] 16 = [[0, 2], [1]]"
    "menuEntryWidth [''cat '', ''cd '', ''chmod ''] = 7"
    by (code_simp, code_simp)
  then show ?thesis using menu_complete [of "[''cat '', ''cd '', ''chmod '']" 16] by (simp add: stripSpace_def numeral_eq_Suc)
qed

subsection \<open>Where the editor departs from its comments\<close>

abbreviation bare_env :: edenv where "bare_env \<equiv> \<lparr>en_facts = None, en_Complete = None\<rparr>"

text \<open>
  The width of the line is measured with the bracket marks of prompts in force, so a typed bracket mark hides
  the text behind it from the count: after Ctrl-U the line is empty and its text is still in the row.
\<close>

lemma bracket_line_stays_on_row:
  "case Feed bare_env ([BSL, CHR ''['', CHR ''a'', CHR ''b'', CHR 0x15]) (fst (paint (NewEditor ''$ '' []))) of
     Some (e, w, _) \<Rightarrow> lb_buf e = [] \<and> fst (tty_write w (\<lambda>i. if i = 0 then CHR ''$'' else CHR '' '', 2)) 4 = CHR ''a''
   | None \<Rightarrow> False"
  by code_simp

text \<open>The parameter of a control sequence is never read: Page Up deletes the character under the caret.\<close>

lemma page_up_deletes:
  "map_option (\<lambda>(e, _, _). lb_buf e) (Feed bare_env [ESC, CHR ''['', CHR ''5'', CHR ''~''] ((NewEditor ''$ '' [])\<lparr>lb_buf := ''ab''\<rparr>)) = Some ''b''"
  by code_simp

text \<open>A semicolon ends a control sequence, so the rest of Ctrl-Right is typed into the line.\<close>

lemma ctrl_right_types:
  "map_option (\<lambda>(e, _, _). lb_buf e) (Feed bare_env [ESC, CHR ''['', CHR ''1'', CHR '';'', CHR ''5'', CHR ''C''] (NewEditor ''$ '' [])) = Some ''5C''"
  by code_simp

text \<open>An arrow key in a search cancels it with its escape byte and types the rest.\<close>

lemma arrow_in_search_types:
  "(case Feed bare_env [CHR 0x12, ESC, CHR ''['', CHR ''A''] (NewEditor ''$ '' [''ls'']) of
      Some (e, _, _) \<Rightarrow> (case Feed bare_env [] e of
        Some (e, _, _) \<Rightarrow> map_option (\<lambda>(e, _, _). lb_buf e) (Feed bare_env [] e) | None \<Rightarrow> None)
    | None \<Rightarrow> None) = Some ''[A''"
  by code_simp

text \<open>A marked span of a template loses its brackets in the expansion, and its text is then counted as cells.\<close>

lemma marked_span_counted:
  assumes "plain x"
  shows "VisibleWidth (ExpandPrompt ([BSL, CHR ''[''] @ x @ [BSL, CHR '']'']) f) = length x"
    and "VisibleWidth ([BSL, CHR ''[''] @ x @ [BSL, CHR '']'']) = 0"
proof -
  have "prompt_loop f False ([BSL, CHR ''[''] @ x @ [BSL, CHR '']''] @ []) = x"
    using prompt_span [OF assms, of f "[]"] by (simp add: prompt_loop.simps)
  then show "VisibleWidth (ExpandPrompt ([BSL, CHR ''[''] @ x @ [BSL, CHR '']'']) f) = length x"
    using VisibleWidth_plain [OF assms] by (simp add: ExpandPrompt_def)
  show "VisibleWidth ([BSL, CHR ''[''] @ x @ [BSL, CHR '']'']) = 0"
    using width_span [OF assms, of "[]"] by (simp add: VisibleWidth_def width_loop.simps(1))
qed

end
