(* ===== verification/LineHistory.thy ===== *)
theory LineHistory
  imports LineScreen
begin

text \<open>
  The history file of the shell (\<^verbatim>\<open>shlib/history.go\<close>): loading the recall ring at boot, appending each submitted
  line and rewriting the file from the ring. The two file operations and the console are the parameter
  \<open>histstore\<close> on a state \<open>'w\<close>; a read answers \<open>None\<close> on an error.
\<close>

subsection \<open>Operations\<close>

definition histPath :: string where "histPath = ''/host/GOSH-HISTORY.TXT''"
definition markerHistFail :: string where "markerHistFail = ''gosh: history not persisted''"
abbreviation (input) maxHistoryBytes :: nat where "maxHistoryBytes \<equiv> 131072"

record 'w histstore =
  hs_ReadFile :: "string \<Rightarrow> nat \<Rightarrow> 'w \<Rightarrow> string option \<times> 'w"
  hs_WriteFile :: "string \<Rightarrow> string \<Rightarrow> bool \<Rightarrow> 'w \<Rightarrow> bool \<times> 'w"
  hs_ConsoleLine :: "string \<Rightarrow> 'w \<Rightarrow> 'w"

record HistorySink =
  sk_last :: string
  sk_appended :: nat
  sk_warned :: bool

definition new_sink :: HistorySink where
  "new_sink = \<lparr>sk_last = [], sk_appended = 0, sk_warned = False\<rparr>"

definition LoadHistory :: "'w histstore \<Rightarrow> string list \<Rightarrow> HistorySink \<Rightarrow> 'w \<Rightarrow> string list \<times> HistorySink \<times> 'w" where
  "LoadHistory st h s w =
     (case hs_ReadFile st histPath maxHistoryBytes w of
        (None, w) \<Rightarrow> (h, s, w)
      | (Some b, w) \<Rightarrow>
          if b = [] then (h, s, w)
          else let h = hist_Load b h in (h, if h \<noteq> [] then s\<lparr>sk_last := last h\<rparr> else s, w))"

definition history_text :: "string list \<Rightarrow> string" where
  "history_text h = concat (map (\<lambda>ln. ln @ [CHR 0x0A]) h)"

definition writeHistoryFile :: "'w histstore \<Rightarrow> string list \<Rightarrow> 'w \<Rightarrow> bool \<times> 'w" where
  "writeHistoryFile st h w = hs_WriteFile st histPath (history_text h) False w"

definition sink_warn :: "'w histstore \<Rightarrow> HistorySink \<Rightarrow> 'w \<Rightarrow> HistorySink \<times> 'w" where
  "sink_warn st s w = (if sk_warned s then (s, w) else (s\<lparr>sk_warned := True\<rparr>, hs_ConsoleLine st markerHistFail w))"

definition SaveHistory :: "'w histstore \<Rightarrow> string \<Rightarrow> string list \<times> HistorySink \<times> 'w \<Rightarrow> string list \<times> HistorySink \<times> 'w" where
  "SaveHistory st line x =
     (case x of (h, s, w) \<Rightarrow>
        let h = hist_Push line h in
        if line = [] \<or> line = sk_last s then (h, s, w)
        else if sk_appended s \<ge> historyMax then
          (case writeHistoryFile st h w of
             (False, w) \<Rightarrow> (case sink_warn st s w of (s, w) \<Rightarrow> (h, s, w))
           | (True, w) \<Rightarrow> (h, s\<lparr>sk_last := line, sk_appended := length h\<rparr>, w))
        else
          (case hs_WriteFile st histPath (line @ [CHR 0x0A]) True w of
             (False, w) \<Rightarrow> (case sink_warn st s w of (s, w) \<Rightarrow> (h, s, w))
           | (True, w) \<Rightarrow> (h, s\<lparr>sk_last := line, sk_appended := sk_appended s + 1\<rparr>, w)))"

subsection \<open>The text of the file\<close>

abbreviation LF :: char where "LF \<equiv> CHR 0x0A"
abbreviation CR :: char where "CR \<equiv> CHR 0x0D"

definition entry_ok :: "string \<Rightarrow> bool" where
  "entry_ok l \<longleftrightarrow> LF \<notin> set l \<and> (l \<noteq> [] \<longrightarrow> last l \<noteq> CR)"

text \<open>A file of whole lines.\<close>

definition whole :: "string \<Rightarrow> bool" where
  "whole t \<longleftrightarrow> t = [] \<or> last t = LF"

lemma split_lf_ne [simp]: "split_lf t \<noteq> []"
  by (cases t) auto

lemma split_lf_append: "split_lf (a @ LF # b) = split_lf a @ split_lf b"
  by (induction a) (auto simp: hd_append)

lemma split_lf_line: "LF \<notin> set l \<Longrightarrow> split_lf l = [l]"
  by (induction l) auto

lemma drop_cr_Cons: "c \<noteq> CR \<Longrightarrow> drop_cr (c # s) = c # drop_cr s"
  by (cases s) auto

lemma drop_cr_append: "(a = [] \<or> last a \<noteq> CR) \<Longrightarrow> drop_cr (a @ b) = drop_cr a @ drop_cr b"
  by (induction a rule: drop_cr.induct) (auto simp: drop_cr_Cons split: if_splits)

lemma drop_cr_entry: "LF \<notin> set l \<Longrightarrow> drop_cr l = l"
  by (induction l rule: drop_cr.induct) auto

lemma drop_cr_nil [simp]: "drop_cr t = [] \<longleftrightarrow> t = []"
  by (cases t rule: drop_cr.cases) auto

lemma last_drop_cr: "t \<noteq> [] \<Longrightarrow> last (drop_cr t) = last t"
  by (induction t rule: drop_cr.induct) auto

lemma drop_cr_whole: "whole t \<Longrightarrow> whole (drop_cr t)"
  by (cases "t = []") (auto simp: whole_def last_drop_cr)

definition push_all :: "string list \<Rightarrow> string list \<Rightarrow> string list" where
  "push_all lns h = foldl (\<lambda>h ln. hist_Push (trim_right CR ln) h) h lns"

lemma hist_Load_whole: "whole t \<Longrightarrow> hist_Load t h = (if t = [] then h else push_all (split_lf (butlast (drop_cr t))) h)"
  using drop_cr_whole [of t] by (auto simp: hist_Load_def Let_def push_all_def whole_def)

lemma trim_right_entry: "entry_ok l \<Longrightarrow> trim_right CR l = l"
  by (cases l rule: rev_cases) (auto simp: trim_right_def entry_ok_def)

text \<open>Appending a line to a file of whole lines is pushing it onto the ring the file holds.\<close>

lemma hist_Load_append:
  assumes "whole t" "entry_ok l"
  shows "hist_Load (t @ l @ [LF]) h = hist_Push l (hist_Load t h)" "whole (t @ l @ [LF])"
proof -
  show w: "whole (t @ l @ [LF])" by (simp add: whole_def)
  have "drop_cr (l @ [LF]) = l @ [LF]"
    using assms(2) drop_cr_append [of l "[LF]"] by (auto simp: drop_cr_entry entry_ok_def)
  moreover have "t = [] \<or> last t \<noteq> CR" using assms(1) by (auto simp: whole_def)
  ultimately have d: "drop_cr (t @ l @ [LF]) = drop_cr t @ l @ [LF]" by (simp add: drop_cr_append)
  show "hist_Load (t @ l @ [LF]) h = hist_Push l (hist_Load t h)"
  proof (cases "t = []")
    case True
    have "split_lf l = [l]" using assms(2) by (simp add: split_lf_line entry_ok_def)
    then show ?thesis
      using True assms w d by (simp add: hist_Load_whole push_all_def trim_right_entry)
  next
    case False
    then obtain u where u: "drop_cr t = u @ [LF]"
      using drop_cr_whole [OF assms(1)] by (metis append_butlast_last_id whole_def drop_cr_nil)
    have "split_lf (u @ LF # l) = split_lf u @ [l]" using assms(2) by (simp add: split_lf_append split_lf_line entry_ok_def)
    then show ?thesis
      using False w assms u by (simp add: hist_Load_whole d push_all_def butlast_append trim_right_entry)
  qed
qed

text \<open>A ring as pushes leave it, and the file written from it.\<close>

definition ring_ok :: "string list \<Rightarrow> bool" where
  "ring_ok h \<longleftrightarrow> length h \<le> historyMax \<and> (\<forall>l \<in> set h. entry_ok l \<and> l \<noteq> []) \<and> distinct_adj h"

lemma hist_Push_ok: "ring_ok h \<Longrightarrow> entry_ok l \<Longrightarrow> ring_ok (hist_Push l h)"
proof -
  assume h: "ring_ok h" and l: "entry_ok l"
  have cut: "distinct_adj (drop n xs)" if "distinct_adj xs" for n and xs :: "string list"
    using that by (metis append_take_drop_id distinct_adj_appendD2)
  show ?thesis
    using h l cut [of "h @ [l]"] by (auto simp: ring_ok_def hist_Push_def Let_def distinct_adj_append_iff dest: in_set_dropD)
qed

lemma ring_text: "ring_ok h \<Longrightarrow> hist_Load (history_text h) [] = h \<and> whole (history_text h)"
proof (induction h rule: rev_induct)
  case (snoc l h)
  then have h: "ring_ok h" "entry_ok l" "l \<noteq> []" "h = [] \<or> last h \<noteq> l" "length h < 64"
    by (auto simp: ring_ok_def distinct_adj_append_iff)
  have "history_text (h @ [l]) = history_text h @ l @ [LF]" by (simp add: history_text_def)
  then show ?case using snoc.IH [OF h(1)] hist_Load_append(1) [where t = "history_text h" and l = l and h = "[]"]
      hist_Load_append(2) [where t = "history_text h" and l = l] h by (auto simp: hist_Push_def)
qed (simp_all add: history_text_def hist_Load_def whole_def)

lemma split_lf_no_lf: "l \<in> set (split_lf t) \<Longrightarrow> LF \<notin> set l"
proof (induction t arbitrary: l)
  case (Cons c t)
  have "LF \<notin> set (hd (split_lf t))" "\<And>l. l \<in> set (List.tl (split_lf t)) \<Longrightarrow> LF \<notin> set l"
    using Cons.IH list.set_sel [of "split_lf t"] by auto
  then show ?case using Cons by (auto split: if_splits)
qed simp

lemma entry_ok_trim: "LF \<notin> set l \<Longrightarrow> entry_ok (trim_right CR l)"
proof -
  assume l: "LF \<notin> set l"
  have "last (rev (dropWhile (\<lambda>d. d = CR) r)) \<noteq> CR" if "dropWhile (\<lambda>d. d = CR) r \<noteq> []" for r
    using that hd_dropWhile [of "\<lambda>d. d = CR" r] by (simp add: last_rev)
  moreover have "LF \<notin> set (dropWhile (\<lambda>d. d = CR) (rev l))" using l set_dropWhileD by fastforce
  ultimately show ?thesis by (auto simp: entry_ok_def trim_right_def)
qed

lemma ring_ok_Load: "ring_ok h \<Longrightarrow> ring_ok (hist_Load t h)"
proof -
  have P: "ring_ok (foldl (\<lambda>h ln. hist_Push (trim_right CR ln) h) h lns)" if "\<forall>l \<in> set lns. LF \<notin> set l" "ring_ok h" for lns h
    using that by (induction lns arbitrary: h) (simp_all add: hist_Push_ok entry_ok_trim)
  show "ring_ok h \<Longrightarrow> ring_ok (hist_Load t h)"
    unfolding hist_Load_def Let_def by (auto intro!: P dest: split_lf_no_lf)
qed

subsection \<open>Recall survives a boot\<close>

text \<open>A share that answers: a read gives at most the bytes asked for, an append adds and a write replaces.\<close>

definition reliable :: "'w histstore \<Rightarrow> ('w \<Rightarrow> string) \<Rightarrow> bool" where
  "reliable st F \<longleftrightarrow>
     (\<forall>n w. hs_ReadFile st histPath n w = (Some (take n (F w)), w)) \<and>
     (\<forall>b w. fst (hs_WriteFile st histPath b True w) \<and> F (snd (hs_WriteFile st histPath b True w)) = F w @ b) \<and>
     (\<forall>b w. fst (hs_WriteFile st histPath b False w) \<and> F (snd (hs_WriteFile st histPath b False w)) = b)"

lemma reliable_write:
  assumes "reliable st F"
  shows "\<exists>w'. hs_WriteFile st histPath b True w = (True, w') \<and> F w' = F w @ b"
    and "\<exists>w'. hs_WriteFile st histPath b False w = (True, w') \<and> F w' = b"
proof -
  have a: "fst (hs_WriteFile st histPath b True w)" "F (snd (hs_WriteFile st histPath b True w)) = F w @ b"
    and r: "fst (hs_WriteFile st histPath b False w)" "F (snd (hs_WriteFile st histPath b False w)) = b"
    using assms unfolding reliable_def by blast+
  show "\<exists>w'. hs_WriteFile st histPath b True w = (True, w') \<and> F w' = F w @ b"
    using a by (cases "hs_WriteFile st histPath b True w") simp
  show "\<exists>w'. hs_WriteFile st histPath b False w = (True, w') \<and> F w' = b"
    using r by (cases "hs_WriteFile st histPath b False w") simp
qed

definition in_step :: "('w \<Rightarrow> string) \<Rightarrow> string list \<times> HistorySink \<times> 'w \<Rightarrow> bool" where
  "in_step F x \<longleftrightarrow> (case x of (h, s, w) \<Rightarrow>
     ring_ok h \<and> whole (F w) \<and> hist_Load (F w) [] = h \<and> sk_last s = (if h = [] then [] else last h))"

lemma hist_Push_last: "l \<noteq> [] \<Longrightarrow> hist_Push l h \<noteq> [] \<and> last (hist_Push l h) = l"
  by (auto simp: hist_Push_def Let_def)

text \<open>The second push of a submitted line, in \<^verbatim>\<open>SaveHistory\<close>, changes nothing.\<close>

lemma hist_Push_twice: "hist_Push l (hist_Push l h) = hist_Push l h"
  using hist_Push_last [of l h] by (cases "l = []") (simp_all add: hist_Push_def [of l "hist_Push l h"], simp add: hist_Push_def)

lemma LoadHistory_in_step:
  assumes "reliable st F" "whole (F w)" "length (F w) \<le> maxHistoryBytes"
  shows "in_step F (LoadHistory st [] new_sink w)" "fst (LoadHistory st [] new_sink w) = hist_Load (F w) []"
proof -
  have r: "hs_ReadFile st histPath 131072 w = (Some (F w), w)" using assms by (simp add: reliable_def)
  have "ring_ok (hist_Load (F w) [])" by (rule ring_ok_Load) (simp add: ring_ok_def)
  then show "in_step F (LoadHistory st [] new_sink w)"
    using assms(2) by (auto simp: in_step_def LoadHistory_def r Let_def new_sink_def hist_Load_whole)
  show "fst (LoadHistory st [] new_sink w) = hist_Load (F w) []"
    using assms(2) by (simp add: LoadHistory_def r Let_def hist_Load_whole)
qed

lemma SaveHistory_in_step:
  assumes "reliable st F" "in_step F (h, s, w)" "entry_ok l"
  shows "in_step F (SaveHistory st l (h, s, w)) \<and> fst (SaveHistory st l (h, s, w)) = hist_Push l h"
proof -
  have h: "ring_ok h" "whole (F w)" "hist_Load (F w) [] = h" "sk_last s = (if h = [] then [] else last h)"
    using assms(2) by (simp_all add: in_step_def)
  note ok = hist_Push_ok [OF h(1) assms(3)]
  consider (same) "l = [] \<or> l = sk_last s" | (new) "l \<noteq> []" "l \<noteq> sk_last s" by blast
  then show ?thesis
  proof cases
    case same
    then have "hist_Push l h = h" using h(4) by (auto simp: hist_Push_def split: if_splits)
    then show ?thesis using same assms(2) by (auto simp: SaveHistory_def Let_def)
  next
    case new
    note last = hist_Push_last [OF new(1), of h]
    obtain w1 where w1: "hs_WriteFile st histPath (l @ [LF]) True w = (True, w1)" "F w1 = F w @ l @ [LF]"
      using reliable_write(1) [OF assms(1)] by blast
    obtain w2 where w2: "hs_WriteFile st histPath (history_text (hist_Push l h)) False w = (True, w2)" "F w2 = history_text (hist_Push l h)"
      using reliable_write(2) [OF assms(1)] by blast
    show ?thesis
      using new last ok ring_text [OF ok] hist_Load_append(1) [OF h(2) assms(3), of "[]"] hist_Load_append(2) [OF h(2) assms(3)] h(3) w1 w2
      by (simp add: SaveHistory_def Let_def writeHistoryFile_def in_step_def)
  qed
qed

lemma session_in_step:
  assumes "reliable st F" "in_step F x" "\<forall>l \<in> set ls. entry_ok l"
  shows "in_step F (foldl (\<lambda>x l. SaveHistory st l x) x ls)
    \<and> fst (foldl (\<lambda>x l. SaveHistory st l x) x ls) = foldl (\<lambda>h l. hist_Push l h) (fst x) ls"
  using assms(2,3)
proof (induction ls arbitrary: x)
  case (Cons l ls)
  obtain h s w where x: "x = (h, s, w)" by (metis prod_cases3)
  show ?case using Cons SaveHistory_in_step [OF assms(1), of h s w l] by (simp add: x)
qed simp

text \<open>
  C17. Recall survives a boot: on a share that answers, with a history file of whole lines within the load bound, the
  ring a session leaves behind is the one the next boot loads, the compacting rewrites included.
\<close>

theorem recall_survives_boot:
  assumes "reliable st F" "whole (F w)" "length (F w) \<le> maxHistoryBytes" "\<forall>l \<in> set ls. entry_ok l"
    and "foldl (\<lambda>x l. SaveHistory st l x) (LoadHistory st [] new_sink w) ls = (h, s, w')"
    and "length (F w') \<le> maxHistoryBytes"
  shows "h = foldl (\<lambda>h l. hist_Push l h) (hist_Load (F w) []) ls \<and> fst (LoadHistory st [] new_sink w') = h"
proof -
  note boot = LoadHistory_in_step [OF assms(1-3)]
  have "in_step F (h, s, w')" using session_in_step [OF assms(1) boot(1) assms(4), THEN conjunct1] assms(5) by simp
  moreover have "h = foldl (\<lambda>h l. hist_Push l h) (hist_Load (F w) []) ls"
    using session_in_step [OF assms(1) boot(1) assms(4), THEN conjunct2] assms(5) boot(2) by simp
  moreover have "whole (F w')" "hist_Load (F w') [] = h" using calculation(1) by (simp_all add: in_step_def)
  ultimately show ?thesis using LoadHistory_in_step(2) [OF assms(1) _ assms(6)] by simp
qed

text \<open>A share that is one file, and a session of three lines on it.\<close>

definition sample_share :: "string histstore" where
  "sample_share = \<lparr>hs_ReadFile = (\<lambda>p n w. (Some (take n w), w)), hs_WriteFile = (\<lambda>p b app w. (True, if app then w @ b else b)),
     hs_ConsoleLine = (\<lambda>l w. w)\<rparr>"

theorem recall_survives_boot_witness:
  "fst (LoadHistory sample_share [] new_sink (''ls'' @ [LF] @ ''pwd'' @ [LF] @ ''ls'' @ [LF])) = [''ls'', ''pwd'', ''ls'']"
proof -
  have run: "foldl (\<lambda>x l. SaveHistory sample_share l x) (LoadHistory sample_share [] new_sink (''ls'' @ [LF])) [''pwd'', ''pwd'', ''ls''] =
      ([''ls'', ''pwd'', ''ls''], \<lparr>sk_last = ''ls'', sk_appended = 2, sk_warned = False\<rparr>, ''ls'' @ [LF] @ ''pwd'' @ [LF] @ ''ls'' @ [LF])"
    by (simp add: SaveHistory_def LoadHistory_def sample_share_def new_sink_def hist_Load_def hist_Push_def trim_right_def)
  have "reliable sample_share (\<lambda>w. w)" by (simp add: reliable_def sample_share_def)
  then show ?thesis
    using recall_survives_boot [OF _ _ _ _ run, of "\<lambda>w. w"] by (simp add: whole_def entry_ok_def)
qed

subsection \<open>Where the file departs from its comments\<close>

text \<open>
  The count of appended lines starts at zero in every session, so a session of at most 64 new lines never
  compacts: the file it leaves is the file it found and its lines, whatever the size of the file.
\<close>

lemma session_only_appends:
  assumes "reliable st F" "\<forall>l \<in> set ls. l \<noteq> []" "distinct_adj (sk_last s # ls)" "sk_appended s + length ls \<le> historyMax"
  shows "F (snd (snd (foldl (\<lambda>x l. SaveHistory st l x) (h, s, w) ls))) = F w @ history_text ls"
  using assms(2-)
proof (induction ls arbitrary: h s w)
  case (Cons l ls)
  obtain w1 where w1: "hs_WriteFile st histPath (l @ [LF]) True w = (True, w1)" "F w1 = F w @ l @ [LF]"
    using reliable_write(1) [OF assms(1)] by blast
  then have "SaveHistory st l (h, s, w) = (hist_Push l h, s\<lparr>sk_last := l, sk_appended := sk_appended s + 1\<rparr>, w1)"
    using Cons.prems by (auto simp: SaveHistory_def Let_def)
  then show ?case using Cons w1 by (simp add: history_text_def)
qed (simp add: history_text_def)

text \<open>A file past the bound is not refused: its first bytes are loaded, so the newest lines are the ones lost.\<close>

lemma long_file_loads_prefix:
  assumes "reliable st F" "F w = old @ new" "length old = maxHistoryBytes" "old \<noteq> []"
  shows "fst (LoadHistory st [] new_sink w) = hist_Load old []"
  using assms by (simp add: reliable_def LoadHistory_def Let_def)

text \<open>The line after a torn one is glued to it: it is in the ring, and not in the ring of the next boot.\<close>

lemma torn_line_swallows_next:
  "case SaveHistory sample_share ''pwd'' (LoadHistory sample_share [] new_sink (''ls'' @ [LF] @ ''ca'')) of
     (h, s, w) \<Rightarrow> h = [''ls'', ''pwd''] \<and> fst (LoadHistory sample_share [] new_sink w) = [''ls'', ''capwd'']"
  by (simp add: SaveHistory_def LoadHistory_def sample_share_def new_sink_def hist_Load_def hist_Push_def trim_right_def)

end
