(* ===== verification/Spec2Isabelle.thy ===== *)
theory Spec2Isabelle
  imports SeatSession Settings Format Geometry Theme SafeFile Calc ShellProps NetAuth LineHistory
begin

text \<open>
  A verification development for the Go programs of VirelaiOS (sources under \<^verbatim>\<open>src/user/go\<close> and
  \<^verbatim>\<open>src/tools/go\<close>).

  \<^bold>\<open>The program.\<close> VirelaiOS is a small operating system whose user programs are Go binaries over a
  kernel that is written in Zig. The parts modelled here:

  \<^item> the \<^emph>\<open>seat\<close>, the tab window manager (\<^verbatim>\<open>gotabwm\<close>). It owns the screen and one strip of tabs, takes
    requests from client programs through a mailbox, key and pointer events from the kernel, paints the
    rail, the launcher, toasts and the clock, and saves its session and layout to files;
  \<^item> the wire between clients and the seat (\<^verbatim>\<open>vi/wmclient.go\<close>, \<^verbatim>\<open>vi/ipc.go\<close>), the file wrappers every program
    saves and loads through (\<^verbatim>\<open>vi/vi.go\<close>), the settings package and the theme tokens;
  \<^item> the host tool that reads and writes session files (\<^verbatim>\<open>tools/go/tabcodec\<close>);
  \<^item> the shell (\<^verbatim>\<open>shlib\<close>): parser, control language, interpreter, builtins and tools; its line editor with
    the prompt, the recall ring and the history file, and the session loop of \<^verbatim>\<open>sh\<close> around them; its network
    login with the hash it needs;
  \<^item> the key schedule of the TLS client (\<^verbatim>\<open>tls/hkdf.go\<close>);
  \<^item> the calculator (\<^verbatim>\<open>calc\<close>) and the history of the browser (\<^verbatim>\<open>browser/history.go\<close>).

  \<^bold>\<open>How the code is rendered.\<close> A Go struct is a record, an enum or a tagged union a datatype, an unsigned
  integer a word of its width, so arithmetic wraps; a signed 64-bit value is a 64-bit word read with
  \<^const>\<open>sint\<close>. Lengths and counters that only move by guarded steps are natural numbers. A method is a
  function that takes the struct and returns it updated; the seat, which threads its state through many
  calls, is written in the state monad of \<open>HOL-Library\<close>. Errors are options, sums or negative codes as in
  the code; a Go panic is its own outcome (\<open>Panic\<close>, \<open>Crash\<close>). A loop is a recursive function with its
  termination proof; where it may run for ever it takes fuel.

  What is not Go code of this repository is a parameter: the kernel of the seat is the record \<open>world\<close>
  (every answer may depend on the whole call log), the file service the record \<open>fsops\<close>, the host of the
  shell the record \<open>host\<close>, the share of the history file the record \<open>histstore\<close>, the calls of the network login
  the record \<open>netkern\<close>, the completer and the prompt facts of the line editor the record \<open>edenv\<close>, the Unicode case mapping of \<^verbatim>\<open>grep -i\<close> the argument \<open>lower\<close>. What a proof needs of
  them is a hypothesis of the theorem or a law of a locale, and each locale is interpreted on a model.

  \<^bold>\<open>Theories.\<close>

  \<^item> \<^verbatim>\<open>Prelude\<close>: machine types, strings and bytes, little-endian stores, padded fields, the array loops the
    components share, decimal numbers.
  \<^item> \<^verbatim>\<open>Wire\<close>: the 38-byte frame (\<^verbatim>\<open>WmRpc.Encode\<close>, \<^verbatim>\<open>DecodeWmRpc\<close>), request numbers, the bounded ack wait, peer
    discovery and the request helpers. The codec is exact; the wait ends after eight probes.
  \<^item> \<^verbatim>\<open>History\<close>: the navigation arrays of a tab and the browser's history, both as instances of one locale
    of a bounded history with a cursor.
  \<^item> \<^verbatim>\<open>Format\<close>, \<^verbatim>\<open>Geometry\<close>, \<^verbatim>\<open>Theme\<close>: decimal and clock formatting, panes, rail and toast rectangles, palettes.
    Panes tile the screen; hit tests agree with the painted cells.
  \<^item> \<^verbatim>\<open>TabStrip\<close>: the strip of \<^verbatim>\<open>tabs.go\<close> with its invariant; closing, reordering, pinning and reopening refine
    operations on lists and a bounded stack.
  \<^item> \<^verbatim>\<open>TabsCodec\<close>: session bytes, written and read by the seat (\<^verbatim>\<open>tabsv2.go\<close>) and by the host tool; both agree and
    round-trip.
  \<^item> \<^verbatim>\<open>Notify\<close>, \<^verbatim>\<open>Launcher\<close>, \<^verbatim>\<open>Paint\<close>: the toast queue, the application catalog, and every paint routine as
    writes to a pixel list; a fill writes exactly its clipped rectangle.
  \<^item> \<^verbatim>\<open>Settings\<close>: parse, render, get, set and save of the settings file.
  \<^item> \<^verbatim>\<open>SeatState\<close>, \<^verbatim>\<open>SeatRpc\<close>, \<^verbatim>\<open>SeatInput\<close>, \<^verbatim>\<open>SeatLoop\<close>: the state of the seat (the package variables of \<^verbatim>\<open>gotabwm\<close>
    as one record), the request handlers of \<^verbatim>\<open>interop.go\<close>, the key and pointer handlers of \<^verbatim>\<open>hid.go\<close>,
    \<^verbatim>\<open>split.go\<close>, \<^verbatim>\<open>pin.go\<close> and \<^verbatim>\<open>launcher.go\<close>, and \<^verbatim>\<open>main\<close> with its tick, drain, start, loop and exit sweep.
    \<^verbatim>\<open>SeatInv\<close> holds the invariant and its preservation rules; \<^verbatim>\<open>SeatProps\<close>, \<^verbatim>\<open>SeatProtocol\<close> and \<^verbatim>\<open>SeatSession\<close> the
    properties: reachable states keep the invariant, a close is all or nothing, the sweep ends, every
    request is answered once, the session file always decodes to the live tabs, restored rows are safe.
  \<^item> \<^verbatim>\<open>SafeFile\<close>: the file wrappers over the locale \<open>file_service\<close>, with the crash behaviour of the safe write.
  \<^item> \<^verbatim>\<open>Calc\<close>: checked 64-bit arithmetic, the pending-operation engine and the key handling; the engine
    computes exactly or reports an error.
  \<^item> \<^verbatim>\<open>ShellGlob\<close>, \<^verbatim>\<open>ShellArith\<close>, \<^verbatim>\<open>ShellParse\<close>, \<^verbatim>\<open>ShellControl\<close>: patterns, arithmetic, tokens and plans, chains and the
    constructs, each with the meaning it implements or the text it reads back.
  \<^item> \<^verbatim>\<open>ShellState\<close>, \<^verbatim>\<open>ShellEval\<close>, \<^verbatim>\<open>ShellTools\<close>: the state of the interpreter, the evaluator from \<^verbatim>\<open>RunLine\<close> down to the
    exec seam, and every builtin and tool. \<^verbatim>\<open>ShellParts\<close>, \<^verbatim>\<open>ShellRun\<close> and \<^verbatim>\<open>ShellFuel\<close> prove once, in a locale over the
    command table, what every run keeps and when it ends; \<^verbatim>\<open>ShellProps\<close> interprets the locale on the
    shell's own table.
  \<^item> \<^verbatim>\<open>Prompt\<close>, \<^verbatim>\<open>LineEdit\<close>: prompt templates and their width, and the whole line editor of \<^verbatim>\<open>linebuffer.go\<close> and
    \<^verbatim>\<open>edit.go\<close>. \<^verbatim>\<open>LineProps\<close>: the buffer refines a text with a gap, no input makes the editor slice out of range,
    and a session does not depend on how its input is cut into reads. \<^verbatim>\<open>LineScreen\<close>: the row of the terminal
    shows the line after every edit, kill and yank are inverse, the search finds the newest line and a cancel
    restores the draft, the menu lists every candidate once. \<^verbatim>\<open>LineHistory\<close>: the recall ring survives a boot.
  \<^item> \<^verbatim>\<open>Sha256\<close>, \<^verbatim>\<open>Hkdf\<close>, \<^verbatim>\<open>NetAuth\<close>: the digest against FIPS 180-4, HMAC against RFC 2104, the TLS 1.3 derivations
    against RFC 8446, and the verdict of the network login.

  \<^bold>\<open>Bounds and fuel.\<close> \<open>runLine\<close> spends one unit of fuel per call of the Go function; \<open>Diverge\<close> is the outcome
  of a run that has none left. More fuel never changes an outcome (\<open>le_runLine\<close>), and \<open>fuel_for\<close>, nine levels
  of depth times a line of 2048 bytes, is enough for every line without command substitution
  (\<open>shell_terminates\<close>); with substitution no fuel is enough in general (\<open>shell_diverges\<close>). The fuel of \<open>fg\<close>
  is the bound on the ticks until the programs it waits for have exited. The live loop of the seat,
  \<open>main_loop\<close>, is endless by design; its fuel is the number of iterations looked at, and the invariant holds
  after any number of them. The exit sweep needs no more fuel than there are tabs (\<open>sweep_ends\<close>).
  \<open>drain\<close>, the inner loop of a shell session, takes one unit per held byte, which is always enough
  (\<open>reads_do_not_matter\<close>).

  \<^bold>\<open>Not modelled.\<close> The kernel, the boot code and the host tools in other languages; the TLS and SSH
  libraries beyond the key schedule, the TrueType rasteriser, web rendering and the browser program
  around its history; git; the widget kit, the file manager and the editors; the network tools, the
  demonstrations, the self tests and the runtime overlay of the Go port. The pointer and drawing code of
  the calculator belongs to the widget kit. The wrappers of \<^verbatim>\<open>vi\<close> that are one supervisor call each appear
  only as calls of the kernel parameter.
\<close>

subsection \<open>From one boot to the next\<close>

text \<open>
  C4. A session survives a reboot. When a change of the strip reports a successful write, a later boot
  that reads back the bytes of that write restores exactly the live tabs, in order, with their titles
  and executables (cut at 32 and 24 bytes), pin and frozen marks, under placeholder ids, with the focus
  on the tab that was focused (the first one if that was itself a restored row), and its own first
  write will carry the next sequence number.
\<close>

theorem session_survives_reboot:
  assumes "seat_inv s" "\<forall>t \<in> set (live_tabs (st_tabs s)). tab_clean t"
    and "fst (run_state (noteSessionMutation W) s)"
  shows "\<exists>b. hd (file_writes (st_log (snd (run_state (noteSessionMutation W) s)))) = (KWriteSafe sessionPath b, 0)
    \<and> (\<forall>W' t. w_read W' (st_log t) sessionPath = Some b \<longrightarrow>
         (let t' = snd (run_state (loadSession W') t) in
           map rec_of_tab (open_tabs (st_tabs t')) = map tab_view (live_tabs (st_tabs s))
           \<and> map tab_ID (open_tabs (st_tabs t')) = map placeholder [0..<length (live_tabs (st_tabs s))]
           \<and> ts_focus (st_tabs t') = (case focused_row (st_tabs s) of None \<Rightarrow> 0 | Some i \<Rightarrow> int i)
           \<and> st_sessionSeq t' = st_sessionSeq s + 1))"
proof -
  obtain b where b: "length b \<le> 1110" "decodeTabsV2 b =
        Some (st_sessionSeq s, map tab_view (live_tabs (st_tabs s)), focused_row (st_tabs s))"
      "hd (file_writes (st_log (snd (run_state (noteSessionMutation W) s)))) = (KWriteSafe sessionPath b, 0)"
    using session_written [OF assms] by blast
  show ?thesis
    using b(3) loadSession_decoded [OF b(1,2)] by (intro exI [of _ b]) (simp add: Let_def)
qed

theorem session_survives_reboot_witness:
  "\<exists>b. (let t' = snd (run_state (loadSession (idle_world\<lparr>w_read := (\<lambda>_ _. Some b)\<rparr>)) init_seat) in
     map tab_ID (open_tabs (st_tabs t')) = [0x100, 0x101] \<and> ts_focus (st_tabs t') = 0 \<and> st_sessionSeq t' = 2)"
proof -
  have "list_all tab_clean (live_tabs (st_tabs two_tabs))" by code_simp
  then have c: "\<forall>t \<in> set (live_tabs (st_tabs two_tabs)). tab_clean t" by (simp add: list_all_iff)
  have "fst (run_state (noteSessionMutation idle_world) two_tabs)"
    by (simp add: noteSessionMutation_def writeSession_def writeHostFile_def idle_world_def) code_simp
  from session_survives_reboot [OF two_tabs_inv c this] obtain b where b:
    "\<And>W' t. w_read W' (st_log t) sessionPath = Some b \<Longrightarrow>
       (let t' = snd (run_state (loadSession W') t) in
         map tab_ID (open_tabs (st_tabs t')) = map placeholder [0..<length (live_tabs (st_tabs two_tabs))]
         \<and> ts_focus (st_tabs t') = (case focused_row (st_tabs two_tabs) of None \<Rightarrow> 0 | Some i \<Rightarrow> int i)
         \<and> st_sessionSeq t' = st_sessionSeq two_tabs + 1)"
    unfolding Let_def by blast
  have "map placeholder [0..<length (live_tabs (st_tabs two_tabs))] = [0x100, 0x101]"
    "focused_row (st_tabs two_tabs) = Some 0" "st_sessionSeq two_tabs = 1" by code_simp+
  then show ?thesis
    using b [of "idle_world\<lparr>w_read := (\<lambda>_ _. Some b)\<rparr>" init_seat] by (intro exI [of _ b]) simp
qed

end
